(* ===== verification/GoBase.thy ===== *)
theory GoBase
  imports Main "HOL-Library.Word"
begin

text \<open>
  Shared ground of the development: the value a Go call returns (a result, an error or a
  run-time panic), byte strings and the big-endian integers of \<^verbatim>\<open>encoding/binary\<close>, and the
  \<^verbatim>\<open>io.Reader\<close> a decoder reads from. A reader is the list of chunks its successive
  \<^verbatim>\<open>Read\<close> calls can deliver, followed by the error that ends it, so that a statement over all
  readers is a statement over every way the network may cut a byte stream into pieces.
\<close>

unbundle bit_operations_syntax

named_theorems go_simps \<open>unfolding rules for the Go result and reader combinators\<close>
named_theorems codec_defs \<open>definitions of encoders and decoders\<close>

section \<open>Results of Go calls\<close>

datatype go_error = EOF | ErrUnexpectedEOF | GoErr string

datatype 'a go = Ok 'a | Fail go_error | Panic

definition gbind :: "'a go \<Rightarrow> ('a \<Rightarrow> 'b go) \<Rightarrow> 'b go" where
  "gbind m f = (case m of Ok a \<Rightarrow> f a | Fail e \<Rightarrow> Fail e | Panic \<Rightarrow> Panic)"

lemma gbind_simps [simp]:
  "gbind (Ok a) f = f a" "gbind (Fail e) f = Fail e" "gbind Panic f = Panic"
  by (simp_all add: gbind_def)

lemma gbind_assoc: "gbind (gbind m f) g = gbind m (\<lambda>a. gbind (f a) g)"
  by (cases m) simp_all

lemma gbind_eq_Ok: "gbind m f = Ok b \<longleftrightarrow> (\<exists>a. m = Ok a \<and> f a = Ok b)"
  by (cases m) simp_all

lemma gbind_eq_Panic: "gbind m f = Panic \<longleftrightarrow> m = Panic \<or> (\<exists>a. m = Ok a \<and> f a = Panic)"
  by (cases m) simp_all

section \<open>Bytes, strings and big-endian integers\<close>

type_synonym byte = "8 word"
type_synonym u16 = "16 word"
type_synonym u32 = "32 word"
type_synonym u64 = "64 word"

text \<open>A Go string is a byte string; here a \<^typ>\<open>string\<close>, one character a byte.\<close>

definition byte_of_char :: "char \<Rightarrow> byte" where
  "byte_of_char c = word_of_nat (of_char c)"

definition char_of_byte :: "byte \<Rightarrow> char" where
  "char_of_byte b = char_of (unat b)"

definition bytes_of_string :: "string \<Rightarrow> byte list" where
  "bytes_of_string s = map byte_of_char s"

definition string_of_bytes :: "byte list \<Rightarrow> string" where
  "string_of_bytes bs = map char_of_byte bs"

lemma of_char_lt_256: "of_char c < (256 :: nat)"
  by (cases c) (simp add: of_char_def)

lemma byte_char_roundtrip [simp]: "char_of_byte (byte_of_char c) = c"
  using of_char_lt_256 [of c]
  by (simp add: char_of_byte_def byte_of_char_def unat_of_nat take_bit_nat_eq_self)

lemma char_byte_roundtrip [simp]: "byte_of_char (char_of_byte b) = b"
proof -
  have "unat b < 2 ^ LENGTH(8)" by (rule unsigned_less)
  then have "of_char (char_of (unat b) :: char) = unat b"
    by (simp add: take_bit_nat_eq_self)
  then show ?thesis by (simp add: char_of_byte_def byte_of_char_def)
qed

lemma bytes_string_roundtrip [simp]: "string_of_bytes (bytes_of_string s) = s"
  by (simp add: string_of_bytes_def bytes_of_string_def o_def)

lemma string_bytes_roundtrip [simp]: "bytes_of_string (string_of_bytes bs) = bs"
  by (simp add: string_of_bytes_def bytes_of_string_def o_def)

lemma length_bytes_of_string [simp]: "length (bytes_of_string s) = length s"
  by (simp add: bytes_of_string_def)

lemma length_string_of_bytes [simp]: "length (string_of_bytes bs) = length bs"
  by (simp add: string_of_bytes_def)

lemma bytes_of_string_Nil [simp]: "bytes_of_string [] = []" "string_of_bytes [] = []"
  by (simp_all add: bytes_of_string_def string_of_bytes_def)

text \<open>\<^verbatim>\<open>binary.BigEndian\<close>: most significant byte first.\<close>

definition be16 :: "u16 \<Rightarrow> byte list" where
  "be16 w = [ucast (drop_bit 8 w), ucast w]"

definition be32 :: "u32 \<Rightarrow> byte list" where
  "be32 w = [ucast (drop_bit 24 w), ucast (drop_bit 16 w), ucast (drop_bit 8 w), ucast w]"

definition be64 :: "u64 \<Rightarrow> byte list" where
  "be64 w = [ucast (drop_bit 56 w), ucast (drop_bit 48 w), ucast (drop_bit 40 w),
             ucast (drop_bit 32 w), ucast (drop_bit 24 w), ucast (drop_bit 16 w),
             ucast (drop_bit 8 w), ucast w]"

definition le32 :: "u32 \<Rightarrow> byte list" where
  "le32 w = rev (be32 w)"

definition uint16 :: "byte \<Rightarrow> byte \<Rightarrow> u16" where
  "uint16 a b = push_bit 8 (ucast a) OR ucast b"

definition uint32 :: "byte \<Rightarrow> byte \<Rightarrow> byte \<Rightarrow> byte \<Rightarrow> u32" where
  "uint32 a b c d = push_bit 24 (ucast a) OR push_bit 16 (ucast b) OR push_bit 8 (ucast c) OR ucast d"

definition uint64 :: "byte \<Rightarrow> byte \<Rightarrow> byte \<Rightarrow> byte \<Rightarrow> byte \<Rightarrow> byte \<Rightarrow> byte \<Rightarrow> byte \<Rightarrow> u64" where
  "uint64 a b c d e f g h =
     push_bit 56 (ucast a) OR push_bit 48 (ucast b) OR push_bit 40 (ucast c) OR push_bit 32 (ucast d) OR
     push_bit 24 (ucast e) OR push_bit 16 (ucast f) OR push_bit 8 (ucast g) OR ucast h"

lemma length_be [simp]:
  "length (be16 w) = 2" "length (be32 v) = 4" "length (be64 u) = 8" "length (le32 v) = 4"
  by (simp_all add: be16_def be32_def be64_def le32_def)

lemma uint16_be16 [simp]: "uint16 (ucast (drop_bit 8 w)) (ucast w) = w"
  by (rule bit_word_eqI)
     (auto simp: uint16_def bit_simps less_diff_conv2)

text \<open>The decoders invert the encoders, proved bit by bit over the byte a bit falls in.\<close>

lemma uint32_be32 [simp]:
  "uint32 (ucast (drop_bit 24 w)) (ucast (drop_bit 16 w)) (ucast (drop_bit 8 w)) (ucast w) = w"
proof (rule bit_word_eqI)
  fix n :: nat
  assume "n < LENGTH(32)"
  then consider "n < 8" | "8 \<le> n" "n < 16" | "16 \<le> n" "n < 24" | "24 \<le> n" "n < 32"
    by (simp, linarith)
  then show "bit (uint32 (ucast (drop_bit 24 w)) (ucast (drop_bit 16 w)) (ucast (drop_bit 8 w)) (ucast w)) n
    \<longleftrightarrow> bit w n"
    by cases (simp_all add: uint32_def bit_simps less_diff_conv2)
qed

lemma uint64_be64 [simp]:
  "uint64 (ucast (drop_bit 56 w)) (ucast (drop_bit 48 w)) (ucast (drop_bit 40 w))
          (ucast (drop_bit 32 w)) (ucast (drop_bit 24 w)) (ucast (drop_bit 16 w))
          (ucast (drop_bit 8 w)) (ucast w) = w" (is "?l = w")
proof (rule bit_word_eqI)
  fix n :: nat
  assume "n < LENGTH(64)"
  then consider "n < 8" | "8 \<le> n" "n < 16" | "16 \<le> n" "n < 24" | "24 \<le> n" "n < 32"
    | "32 \<le> n" "n < 40" | "40 \<le> n" "n < 48" | "48 \<le> n" "n < 56" | "56 \<le> n" "n < 64"
    by (simp, linarith)
  then show "bit ?l n \<longleftrightarrow> bit w n"
    by cases (simp_all add: uint64_def bit_simps less_diff_conv2)
qed

lemma byte_high_bits [simp]: "\<not> bit (b :: byte) (8 + n)"
  using bit_imp_le_length [of b "8 + n"] by auto

lemma be16_uint16 [simp]: "be16 (uint16 a b) = [a, b]"
  by (auto simp: be16_def uint16_def bit_simps intro!: bit_word_eqI)

section \<open>Invariant steps\<close>

text \<open>A component as a state and a step per operation; an invariant of every step holds in every run.\<close>

locale invariant_steps =
  fixes step :: "'s \<Rightarrow> 'i \<Rightarrow> 's"
    and inv :: "'s \<Rightarrow> bool"
  assumes inv_step: "inv s \<Longrightarrow> inv (step s i)"
begin

lemma inv_run: "inv s \<Longrightarrow> inv (foldl step s is)"
  by (induction "is" arbitrary: s) (simp_all add: inv_step)

text \<open>Hence at every moment of a run.\<close>

lemma inv_prefix: "inv s \<Longrightarrow> inv (foldl step s (take n is))"
  by (rule inv_run)

end

end
