(* ===== verification/GoNet.thy ===== *)
theory GoNet
  imports GoStrings
begin

text \<open>
  The parts of Go's \<^verbatim>\<open>net\<close> package the program relies on: textual IP addresses (\<^verbatim>\<open>ParseIP\<close>,
  \<^verbatim>\<open>IP.String\<close>), CIDR blocks, and \<^verbatim>\<open>host:port\<close> strings. An IP is a byte list of length 4 or 16, as
  in Go; \<^verbatim>\<open>ParseIP\<close> returns the 16-byte form.
\<close>

type_synonym ip = "byte list"

definition v4InV6Prefix :: "byte list" where
  "v4InV6Prefix = [0,0,0,0,0,0,0,0,0,0,0xFF,0xFF]"

definition IPv4zero :: ip where "IPv4zero = [0,0,0,0]"
definition IPv6zero :: ip where "IPv6zero = replicate 16 0"

definition To4 :: "ip \<Rightarrow> ip option" where
  "To4 ip = (if length ip = 4 then Some ip
             else if length ip = 16 \<and> take 12 ip = v4InV6Prefix then Some (drop 12 ip) else None)"

definition To16 :: "ip \<Rightarrow> ip option" where
  "To16 ip = (if length ip = 4 then Some (v4InV6Prefix @ ip)
              else if length ip = 16 then Some ip else None)"

section \<open>Parsing addresses\<close>

text \<open>
  \<^verbatim>\<open>netip.parseIPv4Fields\<close>: the characters left, the value and number of digits of the current
  octet, and the octets read so far.
\<close>

fun parseIPv4Fields :: "string \<Rightarrow> nat \<Rightarrow> nat \<Rightarrow> nat list \<Rightarrow> nat list option" where
  "parseIPv4Fields [] val digLen fs = (if length fs < 3 then None else Some (fs @ [val]))"
| "parseIPv4Fields (c # cs) val digLen fs =
     (if is_digit c then
        (if digLen = 1 \<and> val = 0 then None
         else let v = val * 10 + digit_val c in
              if v > 255 then None else parseIPv4Fields cs v (Suc digLen) fs)
      else if c = CHR ''.'' then
        (if digLen = 0 \<or> cs = [] then None
         else if length fs = 3 then None
         else parseIPv4Fields cs 0 0 (fs @ [val]))
      else None)"

definition is_hex :: "char \<Rightarrow> bool" where
  "is_hex c \<longleftrightarrow> is_digit c \<or> (97 \<le> (of_char c :: nat) \<and> (of_char c :: nat) \<le> 102)
                          \<or> (65 \<le> (of_char c :: nat) \<and> (of_char c :: nat) \<le> 70)"

definition hex_digit :: "char \<Rightarrow> nat" where
  "hex_digit c = (if is_digit c then of_char c - 48
                  else if 97 \<le> (of_char c :: nat) then of_char c - 87 else of_char c - 55)"

definition hex_val :: "string \<Rightarrow> nat" where
  "hex_val s = foldl (\<lambda>n c. 16 * n + hex_digit c) 0 s"

text \<open>
  The group loop of \<^verbatim>\<open>netip.parseIPv6\<close>: groups still allowed, characters left, bytes so far and
  the position of the ellipsis.
\<close>

fun parseIPv6Loop ::
  "nat \<Rightarrow> string \<Rightarrow> byte list \<Rightarrow> nat option \<Rightarrow> (byte list \<times> nat option \<times> string) option" where
  "parseIPv6Loop 0 s acc el = Some (acc, el, s)"
| "parseIPv6Loop (Suc k) s acc el =
     (let ds = takeWhile is_hex s; rest = dropWhile is_hex s in
      if ds = [] \<or> length ds > 4 then None
      else case rest of
        [] \<Rightarrow> Some (acc @ be16 (word_of_nat (hex_val ds)), el, [])
      | c # r1 \<Rightarrow>
          if c = CHR ''.'' then
            (if el = None \<and> length acc \<noteq> 12 then None
             else if length acc + 4 > 16 then None
             else case parseIPv4Fields s 0 0 [] of
                    None \<Rightarrow> None
                  | Some fs \<Rightarrow> Some (acc @ map word_of_nat fs, el, []))
          else if c \<noteq> CHR '':'' then None
          else let acc' = acc @ be16 (word_of_nat (hex_val ds)) in
               case r1 of
                 [] \<Rightarrow> None
               | c2 # r2 \<Rightarrow>
                   if c2 = CHR '':'' then
                     (if el \<noteq> None then None
                      else if r2 = [] then Some (acc', Some (length acc'), [])
                      else parseIPv6Loop k r2 acc' (Some (length acc')))
                   else parseIPv6Loop k r1 acc' el)"

definition parseIPv6 :: "string \<Rightarrow> ip option" where
  "parseIPv6 s =
     (if CHR ''%'' \<in> set s then None
      else if s = ''::'' then Some IPv6zero
      else let lead = HasPrefix s ''::'' in
           case parseIPv6Loop 8 (if lead then drop 2 s else s) [] (if lead then Some 0 else None) of
             None \<Rightarrow> None
           | Some (acc, el, rest) \<Rightarrow>
               if rest \<noteq> [] then None
               else if length acc < 16 then
                 (case el of None \<Rightarrow> None
                  | Some e \<Rightarrow> Some (take e acc @ replicate (16 - length acc) 0 @ drop e acc))
               else if el \<noteq> None then None else Some acc)"

text \<open>
  \<^verbatim>\<open>netip.ParseAddr\<close> without a zone (\<^verbatim>\<open>net.ParseIP\<close> and \<^verbatim>\<open>net.ParseCIDR\<close> refuse one): the first of
  dot, colon and percent decides. The flag is true for a dotted IPv4 address.
\<close>

definition ParseAddr :: "string \<Rightarrow> (bool \<times> ip) option" where
  "ParseAddr s =
     (case filter (\<lambda>c. c = CHR ''.'' \<or> c = CHR '':'' \<or> c = CHR ''%'') s of
        [] \<Rightarrow> None
      | c # _ \<Rightarrow>
          if c = CHR ''.'' then
            map_option (\<lambda>fs. (True, v4InV6Prefix @ map word_of_nat fs)) (parseIPv4Fields s 0 0 [])
          else if c = CHR '':'' then map_option (Pair False) (parseIPv6 s)
          else None)"

definition ParseIP :: "string \<Rightarrow> ip option" where
  "ParseIP s = map_option snd (ParseAddr s)"

section \<open>Printing addresses\<close>

definition hex_char :: "nat \<Rightarrow> char" where
  "hex_char n = (if n < 10 then char_of (48 + n) else char_of (87 + n))"

fun show_hex :: "nat \<Rightarrow> string" where
  "show_hex n = (if n < 16 then [hex_char n] else show_hex (n div 16) @ [hex_char (n mod 16)])"

declare show_hex.simps [simp del]

fun dotted :: "byte list \<Rightarrow> string" where
  "dotted bs = Join ''.'' (map (\<lambda>b. show_nat (unat b)) bs)"

fun groups16 :: "byte list \<Rightarrow> nat list" where
  "groups16 (a # b # bs) = unat (uint16 a b) # groups16 bs"
| "groups16 _ = []"

text \<open>The first longest run of at least two zero groups, as start and end (\<^verbatim>\<open>netip.appendTo6\<close>).\<close>

definition zero_run :: "nat list \<Rightarrow> (nat \<times> nat) option" where
  "zero_run gs =
     fold (\<lambda>i best.
             let j = i + length (takeWhile (\<lambda>g. g = 0) (drop i gs)) in
             if 2 \<le> j - i \<and> (case best of None \<Rightarrow> True | Some (s, e) \<Rightarrow> e - s < j - i)
             then Some (i, j) else best)
          [0 ..< 8] None"

definition show_ipv6 :: "byte list \<Rightarrow> string" where
  "show_ipv6 bs =
     (let gs = groups16 bs in
      case zero_run gs of
        None \<Rightarrow> Join '':'' (map show_hex gs)
      | Some (s, e) \<Rightarrow> Join '':'' (map show_hex (take s gs)) @ ''::'' @ Join '':'' (map show_hex (drop e gs)))"

definition IP_String :: "ip \<Rightarrow> string" where
  "IP_String ip = (case To4 ip of Some p4 \<Rightarrow> dotted p4 | None \<Rightarrow> show_ipv6 ip)"

section \<open>CIDR blocks\<close>

record ipnet =
  net_ip :: ip
  net_mask :: "byte list"

definition CIDRMask :: "nat \<Rightarrow> nat \<Rightarrow> byte list" where
  "CIDRMask ones bits =
     map (\<lambda>i. let n = ones - 8 * i in if 8 \<le> n then 0xFF else NOT (drop_bit n 0xFF)) [0 ..< bits div 8]"

definition and_bytes :: "byte list \<Rightarrow> byte list \<Rightarrow> byte list" where
  "and_bytes a b = map2 (AND) a b"

text \<open>\<^verbatim>\<open>IP.Mask\<close> on the 16-byte address that \<^verbatim>\<open>ParseCIDR\<close> masks.\<close>

definition IP_Mask :: "ip \<Rightarrow> byte list \<Rightarrow> ip" where
  "IP_Mask ip msk =
     (let ip' = (if length msk = 4 \<and> length ip = 16 \<and> take 12 ip = v4InV6Prefix then drop 12 ip else ip)
      in if length ip' = length msk then and_bytes ip' msk else [])"

definition ParseCIDR :: "string \<Rightarrow> ipnet option" where
  "ParseCIDR s =
     (case SplitN2 (CHR ''/'') s of
        [addr, msk] \<Rightarrow>
          (case ParseAddr addr of
             None \<Rightarrow> None
           | Some (is4, a16) \<Rightarrow>
               let bits = (if is4 then 32 else 128) in
               if msk = [] \<or> \<not> list_all is_digit msk \<or> dec_val msk > bits then None
               else let m = CIDRMask (dec_val msk) bits in
                    Some \<lparr>net_ip = IP_Mask a16 m, net_mask = m\<rparr>)
      | _ \<Rightarrow> None)"

definition networkNumberAndMask :: "ipnet \<Rightarrow> (ip \<times> byte list) option" where
  "networkNumberAndMask n =
     (case To4 (net_ip n) of
        Some ip4 \<Rightarrow> if length (net_mask n) = 4 then Some (ip4, net_mask n)
                    else if length (net_mask n) = 16 then Some (ip4, drop 12 (net_mask n)) else None
      | None \<Rightarrow> if length (net_ip n) = 16 \<and> length (net_mask n) = 16 then Some (net_ip n, net_mask n) else None)"

definition IPNet_Contains :: "ipnet \<Rightarrow> ip \<Rightarrow> bool" where
  "IPNet_Contains n ip =
     (case networkNumberAndMask n of
        None \<Rightarrow> False
      | Some (nn, m) \<Rightarrow>
          let x = (case To4 ip of Some x \<Rightarrow> x | None \<Rightarrow> ip) in
          length x = length nn \<and> and_bytes nn m = and_bytes x m)"

section \<open>Host and port\<close>

definition ErrAddr :: "string \<Rightarrow> go_error" where "ErrAddr m = GoErr m"

definition lastIndex :: "char \<Rightarrow> string \<Rightarrow> nat option" where
  "lastIndex c s = (if c \<in> set s then Some (length s - 1 - length (takeWhile (\<lambda>d. d \<noteq> c) (rev s))) else None)"

definition index_of :: "char \<Rightarrow> string \<Rightarrow> nat option" where
  "index_of c s = (if c \<in> set s then Some (length (takeWhile (\<lambda>d. d \<noteq> c) s)) else None)"

definition SplitHostPort :: "string \<Rightarrow> (string \<times> string) go" where
  "SplitHostPort hp =
     (case lastIndex (CHR '':'') hp of
        None \<Rightarrow> Fail (ErrAddr ''missing port in address'')
      | Some i \<Rightarrow>
          let finish = (\<lambda>host j k.
                if CHR ''['' \<in> set (drop j hp) then Fail (ErrAddr ''unexpected [ in address'')
                else if CHR '']'' \<in> set (drop k hp) then Fail (ErrAddr ''unexpected ] in address'')
                else Ok (host, drop (Suc i) hp))
          in if hd hp = CHR ''['' then
               (case index_of (CHR '']'') hp of
                  None \<Rightarrow> Fail (ErrAddr ''missing ] in address'')
                | Some e \<Rightarrow>
                    if Suc e = length hp then Fail (ErrAddr ''missing port in address'')
                    else if Suc e = i then finish (drop 1 (take e hp)) 1 (Suc e)
                    else if hp ! Suc e = CHR '':'' then Fail (ErrAddr ''too many colons in address'')
                    else Fail (ErrAddr ''missing port in address''))
             else if CHR '':'' \<in> set (take i hp) then Fail (ErrAddr ''too many colons in address'')
             else finish (take i hp) 0 0)"

definition JoinHostPort :: "string \<Rightarrow> string \<Rightarrow> string" where
  "JoinHostPort host port =
     (if CHR '':'' \<in> set host then ''['' @ host @ '']:'' @ port else host @ '':'' @ port)"

section \<open>Laws\<close>

lemma parseIPv4Fields_show_nat:
  "n \<le> 255 \<Longrightarrow>
   parseIPv4Fields (show_nat n @ cs) 0 0 fs = parseIPv4Fields cs n (length (show_nat n)) fs"
proof (induction n arbitrary: cs rule: show_nat.induct)
  case (1 n)
  show ?case
  proof (cases "n < 10")
    case True
    then show ?thesis by (subst (1 2) show_nat.simps) (simp add: digit_char)
  next
    case False
    define d where "d = char_of (48 + n mod 10)"
    have d: "is_digit d" "digit_val d = n mod 10" using digit_char [of "n mod 10"] by (auto simp: d_def)
    have s: "show_nat n = show_nat (n div 10) @ [d]"
      using False by (subst show_nat.simps) (simp add: d_def)
    have "n div 10 * 10 + n mod 10 = n" by simp
    moreover have "n div 10 \<noteq> 0" using False by simp
    ultimately show ?thesis
      using False "1.prems" d "1.IH" [of "d # cs"] by (simp add: s)
  qed
qed

lemma parseIPv4Fields_length:
  "parseIPv4Fields s v d fs = Some gs \<Longrightarrow> length fs \<le> 3 \<Longrightarrow> length gs = 4"
  by (induction s v d fs rule: parseIPv4Fields.induct) (auto simp: Let_def split: if_splits)

lemma parseIPv4Fields_dotted:
  assumes "a \<le> 255" "b \<le> 255" "c \<le> 255" "d \<le> 255"
  shows "parseIPv4Fields (show_nat a @ ''.'' @ show_nat b @ ''.'' @ show_nat c @ ''.'' @ show_nat d) 0 0 []
    = Some [a, b, c, d]"
  using assms parseIPv4Fields_show_nat [of d "[]"]
  by (simp add: parseIPv4Fields_show_nat is_digit_def)

lemma filter_show_nat [simp]:
  "filter (\<lambda>c. c = CHR ''.'' \<or> c = CHR '':'' \<or> c = CHR ''%'') (show_nat n) = []"
  by (auto simp: filter_empty_conv is_digit_def dest!: show_nat_chars)

text \<open>Printing a 4-byte address and parsing it back gives its 16-byte form.\<close>

lemma ParseIP_dotted:
  "ParseIP (dotted [a, b, c, d]) = Some (v4InV6Prefix @ [a, b, c, d])"
proof -
  have le: "unat x \<le> 255" for x :: byte
    using unsigned_less [of x, where ?'a = nat] by simp
  show ?thesis
    using parseIPv4Fields_dotted [OF le le le le, of a b c d]
    by (simp add: ParseIP_def ParseAddr_def)
qed

lemma To4_mapped [simp]: "length x = 4 \<Longrightarrow> To4 (v4InV6Prefix @ x) = Some x"
  by (simp add: To4_def v4InV6Prefix_def)

lemma parseIPv6Loop_length:
  "parseIPv6Loop k s acc el = Some (acc', el', rest) \<Longrightarrow> length acc + 2 * k = 16 \<Longrightarrow> length acc' \<le> 16"
proof (induction k arbitrary: s acc el)
  case (Suc k)
  have IH: "parseIPv6Loop k t (acc @ be16 w) e = Some (acc', el', rest) \<Longrightarrow> length acc' \<le> 16" for t w e
    using Suc.IH [of t "acc @ be16 w" e] Suc.prems(2) by simp
  have le: "length acc \<le> 14" using Suc.prems(2) by simp
  show ?case using Suc.prems(1)
    by (simp add: Let_def split: if_splits list.splits option.splits)
       (use le in \<open>auto dest: IH parseIPv4Fields_length simp del: parseIPv6Loop.simps\<close>)
qed simp

lemma parseIPv6_length: "parseIPv6 s = Some ip \<Longrightarrow> length ip = 16"
  by (auto simp: parseIPv6_def IPv6zero_def Let_def dest!: parseIPv6Loop_length
      split: if_splits option.splits)

text \<open>\<^verbatim>\<open>ParseIP\<close> returns 16 bytes or nothing.\<close>

lemma ParseIP_length: "ParseIP s = Some ip \<Longrightarrow> length ip = 16"
  by (auto simp: ParseIP_def ParseAddr_def v4InV6Prefix_def dest!: parseIPv6_length parseIPv4Fields_length
      split: list.splits if_splits)

lemma lastIndex_cut: "c \<notin> set p \<Longrightarrow> lastIndex c (h @ c # p) = Some (length h)"
  by (simp add: lastIndex_def takeWhile_append)

lemma index_of_cut: "c \<notin> set h \<Longrightarrow> index_of c (h @ c # p) = Some (length h)"
  by (simp add: index_of_def takeWhile_append)

text \<open>Joining a host without brackets and a plain port, then splitting, gives both back.\<close>

lemma SplitHostPort_JoinHostPort:
  assumes h: "CHR ''['' \<notin> set h" "CHR '']'' \<notin> set h"
    and p: "CHR '':'' \<notin> set p" "CHR ''['' \<notin> set p" "CHR '']'' \<notin> set p"
  shows "SplitHostPort (JoinHostPort h p) = Ok (h, p)"
proof (cases "CHR '':'' \<in> set h")
  case True
  have i: "lastIndex (CHR '':'') (''['' @ h @ '']:'' @ p) = Some (length h + 2)"
    using lastIndex_cut [OF p(1), of "''['' @ h @ '']''"] by simp
  have e: "index_of (CHR '']'') (''['' @ h @ '']:'' @ p) = Some (Suc (length h))"
    using index_of_cut [of "CHR '']''" "''['' @ h" "'':'' @ p"] h by simp
  show ?thesis using True h p i e by (simp add: SplitHostPort_def JoinHostPort_def)
next
  case False
  have i: "lastIndex (CHR '':'') (h @ '':'' @ p) = Some (length h)"
    using lastIndex_cut [OF p(1), of h] by simp
  have "hd (h @ '':'' @ p) \<noteq> CHR ''[''" using h by (cases h) auto
  with False h p i show ?thesis by (simp add: SplitHostPort_def JoinHostPort_def)
qed

end
