(* ===== verification/GoGlob.thy ===== *)
theory GoGlob
  imports GoStrings
begin

text \<open>
  Go's \<^verbatim>\<open>filepath.Match\<close> on a Unix system, over byte strings: chunk by chunk, where a chunk is what
  lies between two stars. \<^term>\<open>None\<close> is \<^verbatim>\<open>ErrBadPattern\<close>.
\<close>

section \<open>Chunks\<close>

fun scan :: "bool \<Rightarrow> string \<Rightarrow> string \<times> string" where
  "scan inrange [] = ([], [])"
| "scan inrange (c # s) =
     (if c = CHR 0x5C then
        (case s of [] \<Rightarrow> ([c], [])
         | d # s' \<Rightarrow> (case scan inrange s' of (a, b) \<Rightarrow> (c # d # a, b)))
      else if c = CHR ''*'' \<and> \<not> inrange then ([], c # s)
      else case scan (if c = CHR ''['' then True else if c = CHR '']'' then False else inrange) s of
             (a, b) \<Rightarrow> (c # a, b))"

definition scanChunk :: "string \<Rightarrow> bool \<times> string \<times> string" where
  "scanChunk p = (p \<noteq> [] \<and> hd p = CHR ''*'', scan False (dropWhile (\<lambda>c. c = CHR ''*'') p))"

definition getEsc :: "string \<Rightarrow> (char \<times> string) option" where
  "getEsc chunk =
     (case chunk of
        [] \<Rightarrow> None
      | c # cs \<Rightarrow>
          if c = CHR ''-'' \<or> c = CHR '']'' then None
          else if c = CHR 0x5C then (case cs of d # e # r \<Rightarrow> Some (d, e # r) | _ \<Rightarrow> None)
          else if cs = [] then None else Some (c, cs))"

lemma getEsc_shorter: "getEsc chunk = Some (c, rest) \<Longrightarrow> length rest < length chunk \<and> rest \<noteq> []"
  by (auto simp: getEsc_def split: list.splits if_splits)

text \<open>The ranges of a character class, up to the closing bracket.\<close>

function ranges :: "char \<Rightarrow> bool \<Rightarrow> bool \<Rightarrow> string \<Rightarrow> (bool \<times> string) option" where
  "ranges r any m chunk =
     (if any \<and> (\<exists>cs. chunk = CHR '']'' # cs) then Some (m, tl chunk)
      else case getEsc chunk of
             None \<Rightarrow> None
           | Some (lo, c1) \<Rightarrow>
               (if hd c1 = CHR ''-'' then
                  (case getEsc (tl c1) of
                     None \<Rightarrow> None
                   | Some (hi, c2) \<Rightarrow>
                       ranges r True (m \<or> ((of_char lo :: nat) \<le> of_char r \<and> (of_char r :: nat) \<le> of_char hi)) c2)
                else ranges r True (m \<or> lo = r) c1))"
  by pat_completeness auto
termination
proof (relation "measure (\<lambda>(r, any, m, chunk). length chunk)", goal_cases)
  case (2 r any m chunk p lo c1 q hi c2)
  then have "length c1 < length chunk" "length c2 < length (tl c1)" by (auto dest: getEsc_shorter)
  then show ?case by simp
next
  case (3 r any m chunk p lo c1)
  then show ?case by (auto dest: getEsc_shorter)
qed simp

declare ranges.simps [simp del]

lemma ranges_code [code]:
  "ranges r any m chunk =
     (if any \<and> (case chunk of c # _ \<Rightarrow> c = CHR '']'' | [] \<Rightarrow> False) then Some (m, tl chunk)
      else case getEsc chunk of
             None \<Rightarrow> None
           | Some (lo, c1) \<Rightarrow>
               (if hd c1 = CHR ''-'' then
                  (case getEsc (tl c1) of
                     None \<Rightarrow> None
                   | Some (hi, c2) \<Rightarrow>
                       ranges r True (m \<or> ((of_char lo :: nat) \<le> of_char r \<and> (of_char r :: nat) \<le> of_char hi)) c2)
                else ranges r True (m \<or> lo = r) c1))"
proof -
  have "(\<exists>cs. chunk = CHR '']'' # cs) = (case chunk of c # _ \<Rightarrow> c = CHR '']'' | [] \<Rightarrow> False)"
    by (cases chunk) auto
  then show ?thesis by (subst ranges.simps) (simp only:)
qed

lemma ranges_shorter: "ranges r any m chunk = Some (b, rest) \<Longrightarrow> length rest < length chunk"
proof (induction r any m chunk rule: ranges.induct)
  case (1 r any m chunk)
  show ?case
  proof (cases "any \<and> (\<exists>cs. chunk = CHR '']'' # cs)")
    case True
    with "1.prems" show ?thesis by (subst (asm) ranges.simps) auto
  next
    case False
    with "1.prems" obtain lo c1 where g: "getEsc chunk = Some (lo, c1)"
      by (subst (asm) ranges.simps) (auto split: option.splits)
    note s = getEsc_shorter [OF g]
    show ?thesis
    proof (cases "hd c1 = CHR ''-''")
      case True
      with False g "1.prems" obtain hi c2 where g2: "getEsc (tl c1) = Some (hi, c2)"
        by (subst (asm) ranges.simps) (auto split: option.splits)
      with True False g "1.prems" have "length rest < length c2"
        by (intro "1.IH"(1) [OF False g refl True g2 refl]) (subst (asm) ranges.simps, simp split: if_splits)
      with s getEsc_shorter [OF g2] show ?thesis by auto
    next
      case nd: False
      with False g "1.prems" have "length rest < length c1"
        by (intro "1.IH"(2) [OF False g refl nd]) (subst (asm) ranges.simps, simp split: if_splits)
      with s show ?thesis by simp
    qed
  qed
qed

text \<open>
  \<^verbatim>\<open>matchChunk\<close>: once the match has \<open>failed\<close> the loop only checks that the chunk is well formed.
  \<open>Some (Some rest)\<close> is a match leaving \<open>rest\<close>, \<open>Some None\<close> no match.
\<close>

function matchChunk :: "bool \<Rightarrow> string \<Rightarrow> string \<Rightarrow> string option option" where
  "matchChunk failed [] s = Some (if failed then None else Some s)"
| "matchChunk failed (c # chunk) s =
     (let f = (failed \<or> s = []) in
      if c = CHR ''['' then
        (let r = (if f then CHR 0x00 else hd s);
             s' = (if f then s else tl s);
             neg = (case chunk of d # _ \<Rightarrow> d = CHR ''^'' | [] \<Rightarrow> False)
         in case ranges r False False (if neg then tl chunk else chunk) of
              None \<Rightarrow> None
            | Some (m, rest) \<Rightarrow> matchChunk (f \<or> m = neg) rest s')
      else if c = CHR ''?'' then
        matchChunk (f \<or> hd s = CHR ''/'') chunk (if f then s else tl s)
      else if c = CHR 0x5C then
        (case chunk of
           [] \<Rightarrow> None
         | d # chunk' \<Rightarrow> matchChunk (f \<or> d \<noteq> hd s) chunk' (if f then s else tl s))
      else matchChunk (f \<or> c \<noteq> hd s) chunk (if f then s else tl s))"
  by pat_completeness auto
termination
proof (relation "measure (\<lambda>(failed, chunk, s). length chunk)", goal_cases)
  case (2 failed c chunk s)
  then show ?case using ranges_shorter by (fastforce split: list.splits if_splits)
qed auto

section \<open>Whole patterns\<close>

text \<open>After a star: the first position further on where the chunk matches.\<close>

fun star_skip :: "string \<Rightarrow> bool \<Rightarrow> string \<Rightarrow> string option option" where
  "star_skip chunk lastp [] = Some None"
| "star_skip chunk lastp (c # cs) =
     (if c = CHR ''/'' then Some None
      else case matchChunk False chunk cs of
             None \<Rightarrow> None
           | Some None \<Rightarrow> star_skip chunk lastp cs
           | Some (Some t) \<Rightarrow> if lastp \<and> t \<noteq> [] then star_skip chunk lastp cs else Some (Some t))"

lemma scan_append: "fst (scan b s) @ snd (scan b s) = s"
  by (induction b s rule: scan.induct) (auto simp: case_prod_beta split: list.splits)

lemma scan_ne: "s \<noteq> [] \<Longrightarrow> hd s \<noteq> CHR ''*'' \<Longrightarrow> fst (scan False s) \<noteq> []"
  by (cases s) (auto simp: case_prod_beta split: list.splits)

lemma scanChunk_shorter:
  assumes "scanChunk p = (star, chunk, rest)" "p \<noteq> []"
  shows "length rest < length p"
proof -
  let ?q = "dropWhile (\<lambda>c. c = CHR ''*'') p"
  from assms have sc: "chunk = fst (scan False ?q)" "rest = snd (scan False ?q)"
    by (auto simp: scanChunk_def)
  have len: "length chunk + length rest = length ?q"
    using scan_append [of False ?q] sc by (metis length_append)
  show ?thesis
  proof (cases "hd p = CHR ''*''")
    case True
    with assms(2) have "length ?q < length p"
      by (cases p) (auto simp: le_imp_less_Suc length_dropWhile_le)
    with len show ?thesis by simp
  next
    case False
    with assms(2) have "?q = p" by (cases p) auto
    moreover from this False assms(2) sc scan_ne [of p] have "chunk \<noteq> []" by simp
    ultimately show ?thesis using len by (cases chunk) auto
  qed
qed

text \<open>The rest of a pattern is checked for syntax errors before \<^verbatim>\<open>Match\<close> returns false.\<close>

function rest_ok :: "string \<Rightarrow> bool" where
  "rest_ok p = (if p = [] then True
                else case scanChunk p of (_, chunk, rest) \<Rightarrow> matchChunk False chunk [] \<noteq> None \<and> rest_ok rest)"
  by pat_completeness auto
termination
  by (relation "measure length") (auto dest!: scanChunk_shorter [OF sym])

declare rest_ok.simps [simp del]

function glob_match :: "string \<Rightarrow> string \<Rightarrow> bool option" where
  "glob_match p name =
     (if p = [] then Some (name = [])
      else case scanChunk p of (star, chunk, rest) \<Rightarrow>
        if star \<and> chunk = [] then Some (CHR ''/'' \<notin> set name)
        else case matchChunk False chunk name of
               None \<Rightarrow> None
             | Some r \<Rightarrow>
                 (case (case r of Some t \<Rightarrow> if t = [] \<or> rest \<noteq> [] then Some t else None | None \<Rightarrow> None) of
                    Some t \<Rightarrow> glob_match rest t
                  | None \<Rightarrow>
                      (case (if star then star_skip chunk (rest = []) name else Some None) of
                         None \<Rightarrow> None
                       | Some (Some t) \<Rightarrow> glob_match rest t
                       | Some None \<Rightarrow> if rest_ok rest then Some False else None)))"
  by pat_completeness auto
termination
  by (relation "measure (\<lambda>(p, name). length p)") (auto dest!: scanChunk_shorter [OF sym])

declare glob_match.simps [simp del]

section \<open>Literal patterns\<close>

definition glob_literal :: "string \<Rightarrow> bool" where
  "glob_literal p = list_all (\<lambda>c. c \<notin> {CHR ''*'', CHR ''?'', CHR ''['', CHR 0x5C}) p"

lemma scan_literal: "glob_literal p \<Longrightarrow> scan False p = (p, [])"
proof (induction p)
  case (Cons c p)
  then show ?case by (cases "c = CHR '']''") (auto simp: glob_literal_def)
qed simp

lemma scanChunk_literal:
  "glob_literal p \<Longrightarrow> p \<noteq> [] \<Longrightarrow> scanChunk p = (False, p, [])"
  using scan_literal [of p] by (cases p) (auto simp: scanChunk_def glob_literal_def)

lemma matchChunk_failed_literal: "glob_literal p \<Longrightarrow> matchChunk True p s = Some None"
  by (induction p) (auto simp: glob_literal_def)

lemma matchChunk_literal:
  "glob_literal p \<Longrightarrow> matchChunk False p s = Some (if HasPrefix s p then Some (drop (length p) s) else None)"
proof (induction p arbitrary: s)
  case Nil
  then show ?case by (simp add: HasPrefix_def)
next
  case (Cons c p)
  note IH = Cons.IH and prems = Cons.prems
  from prems have lit: "glob_literal p" by (simp add: glob_literal_def)
  show ?case
  proof (cases s)
    case Nil
    with prems matchChunk_failed_literal [OF lit] show ?thesis
      by (simp add: glob_literal_def HasPrefix_def)
  next
    case (Cons a t)
    with prems IH [OF lit, of t] matchChunk_failed_literal [OF lit, of t] show ?thesis
      by (cases "c = a") (simp_all add: glob_literal_def HasPrefix_def)
  qed
qed

text \<open>A pattern without metacharacters matches exactly the name it spells.\<close>

lemma glob_match_literal:
  assumes "glob_literal p"
  shows "glob_match p name = Some (p = name)"
proof (cases "p = []")
  case True
  then show ?thesis by (subst glob_match.simps) auto
next
  case False
  have "glob_match p name = (if HasPrefix name p \<and> drop (length p) name = [] then Some True else Some False)"
    using False assms
    by (subst glob_match.simps)
       (auto simp: scanChunk_literal matchChunk_literal rest_ok.simps [of "[]"] glob_match.simps [of "[]"])
  then show ?thesis by (auto simp: HasPrefix_def)
qed

end
