(* ===== verification/Patterns.thy ===== *)
theory Patterns
  imports GoNet GoGlob
begin

text \<open>
  \<^verbatim>\<open>internal/greyproxy/patterns.go\<close>: matching a request (container, destination, port) against
  the three patterns of a rule, and the specificity score that ranks rules. The lemmas say what each
  pattern form means: wildcards over domains, CIDR blocks over addresses, port lists and ranges; and
  that the score orders rules by container first, then destination, then port.
\<close>

section \<open>Matching\<close>

definition MatchesContainer :: "string \<Rightarrow> string \<Rightarrow> bool" where
  "MatchesContainer containerName pattern =
     (if pattern = ''*'' then True
      else case glob_match pattern containerName of
             None \<Rightarrow> False
           | Some matched \<Rightarrow> matched)"

definition MatchesDestination :: "string \<Rightarrow> string \<Rightarrow> bool" where
  "MatchesDestination destination pattern =
     (if pattern = ''*'' then True
      else let dest = ToLower destination; pat = ToLower pattern in
        if Contains pat ''/'' then
          (case ParseCIDR pat of
             Some cidr \<Rightarrow> (case ParseIP dest of Some ip \<Rightarrow> IPNet_Contains cidr ip | None \<Rightarrow> False)
           | None \<Rightarrow> False)
        else if HasPrefix pat ''**.'' then
          (let baseDomain = drop 3 pat in
           if dest = baseDomain then True else HasSuffix dest (''.'' @ baseDomain))
        else if HasPrefix pat ''*.'' then
          (let baseDomain = drop 2 pat in HasSuffix dest (''.'' @ baseDomain))
        else dest = pat)"

definition matchSinglePort :: "int \<Rightarrow> string \<Rightarrow> bool" where
  "matchSinglePort port pattern =
     (if Contains pattern ''-'' then
        (case SplitN2 (CHR ''-'') pattern of
           [a, b] \<Rightarrow>
             (case (Atoi (TrimSpace a), Atoi (TrimSpace b)) of
                ((low, None), (high, None)) \<Rightarrow> low \<le> port \<and> port \<le> high
              | _ \<Rightarrow> False)
         | _ \<Rightarrow> False)
      else case Atoi (TrimSpace pattern) of
             (p, None) \<Rightarrow> port = p
           | (_, Some _) \<Rightarrow> False)"

definition MatchesPort :: "int \<Rightarrow> string \<Rightarrow> bool" where
  "MatchesPort port pattern =
     (if pattern = ''*'' then True
      else if Contains pattern '','' then
        list_ex (\<lambda>part. matchSinglePort port (TrimSpace part)) (Split (CHR '','') pattern)
      else matchSinglePort port pattern)"

definition MatchesRule ::
  "string \<Rightarrow> string \<Rightarrow> int \<Rightarrow> string \<Rightarrow> string \<Rightarrow> string \<Rightarrow> bool" where
  "MatchesRule containerName destHost destPort containerPattern destPattern portPattern \<longleftrightarrow>
     MatchesContainer containerName containerPattern \<and>
     MatchesDestination destHost destPattern \<and>
     MatchesPort destPort portPattern"

definition CalculateSpecificity :: "string \<Rightarrow> string \<Rightarrow> string \<Rightarrow> int" where
  "CalculateSpecificity containerPattern destinationPattern portPattern =
     (if containerPattern \<noteq> ''*''
      then 100 + (if \<not> ContainsAny containerPattern ''*?['' then 100 else 0) else 0) +
     (if destinationPattern \<noteq> ''*''
      then 10 + (if \<not> ContainsAny destinationPattern ''*?['' then 10 else 0) else 0) +
     (if portPattern \<noteq> ''*'' then 1 else 0)"

section \<open>Containers\<close>

lemma MatchesContainer_star [simp]: "MatchesContainer n ''*''"
  by (simp add: MatchesContainer_def)

lemma MatchesContainer_literal:
  "glob_literal p \<Longrightarrow> MatchesContainer n p \<longleftrightarrow> n = p"
  by (auto simp: MatchesContainer_def glob_match_literal glob_literal_def)

section \<open>Domains\<close>

lemma MatchesDestination_star [simp]: "MatchesDestination d ''*''"
  by (simp add: MatchesDestination_def)

lemma lower_char_fix [simp]:
  "lower_char (CHR ''*'') = CHR ''*''" "lower_char (CHR ''.'') = CHR ''.''" "lower_char (CHR ''/'') = CHR ''/''"
  by (simp_all add: lower_char_def)

lemma lower_char_meta:
  "lower_char c = CHR ''*'' \<longleftrightarrow> c = CHR ''*''" "lower_char c = CHR ''.'' \<longleftrightarrow> c = CHR ''.''"
  "lower_char c = CHR ''/'' \<longleftrightarrow> c = CHR ''/''"
proof -
  have up: "65 \<le> (of_char c :: nat) \<and> (of_char c :: nat) \<le> 90 \<Longrightarrow>
    (of_char (lower_char c) :: nat) = of_char c + 32"
    by (simp add: lower_char_def take_bit_nat_eq_self)
  have no: "lower_char c = k \<longleftrightarrow> c = k" if "(of_char k :: nat) < 65" for k :: char
  proof (cases "65 \<le> (of_char c :: nat) \<and> (of_char c :: nat) \<le> 90")
    case True
    with up that show ?thesis by auto
  qed (auto simp: lower_char_def)
  show "lower_char c = CHR ''*'' \<longleftrightarrow> c = CHR ''*''" by (rule no) simp
  show "lower_char c = CHR ''.'' \<longleftrightarrow> c = CHR ''.''" by (rule no) simp
  show "lower_char c = CHR ''/'' \<longleftrightarrow> c = CHR ''/''" by (rule no) simp
qed

lemma ToLower_slash [simp]: "CHR ''/'' \<in> set (ToLower s) \<longleftrightarrow> CHR ''/'' \<in> set s"
  unfolding ToLower_def using lower_char_meta(3) by (force simp: image_iff)

lemma ToLower_eq_star [simp]: "ToLower s = ''*'' \<longleftrightarrow> s = ''*''"
  by (auto simp: ToLower_def lower_char_meta)

text \<open>The answer does not depend on letter case.\<close>

lemma MatchesDestination_lower:
  "MatchesDestination (ToLower d) (ToLower p) = MatchesDestination d p"
  by (simp add: MatchesDestination_def)

lemma HasPrefix_wild:
  "HasPrefix (''*.'' @ b) ''**.'' \<longleftrightarrow> False" "HasPrefix (''*.'' @ b) ''*.''" "HasPrefix (''**.'' @ b) ''**.''"
  by (simp_all add: HasPrefix_def)

lemma MatchesDestination_subdomain:
  assumes "CHR ''/'' \<notin> set b"
  shows "MatchesDestination d (''*.'' @ b) \<longleftrightarrow> (\<exists>sub. ToLower d = sub @ ''.'' @ ToLower b)"
proof -
  have l: "ToLower (''*.'' @ b) = ''*.'' @ ToLower b" by (simp add: ToLower_def)
  have "CHR ''/'' \<notin> set (''*.'' @ ToLower b)" using assms by simp
  then show ?thesis
    unfolding MatchesDestination_def l Let_def Contains_single
    by (simp add: HasPrefix_def HasSuffix_iff)
qed

lemma MatchesDestination_domain_tree:
  assumes "CHR ''/'' \<notin> set b"
  shows "MatchesDestination d (''**.'' @ b) \<longleftrightarrow>
    ToLower d = ToLower b \<or> (\<exists>sub. ToLower d = sub @ ''.'' @ ToLower b)"
proof -
  have l: "ToLower (''**.'' @ b) = ''**.'' @ ToLower b" by (simp add: ToLower_def)
  have "CHR ''/'' \<notin> set (''**.'' @ ToLower b)" using assms by simp
  then show ?thesis
    unfolding MatchesDestination_def l Let_def Contains_single
    by (simp add: HasPrefix_def HasSuffix_iff)
qed

lemma MatchesDestination_exact:
  assumes "p \<noteq> ''*''" "CHR ''/'' \<notin> set p" "\<not> HasPrefix p ''*.''" "\<not> HasPrefix p ''**.''"
  shows "MatchesDestination d p \<longleftrightarrow> ToLower d = ToLower p"
proof -
  have pre: "HasPrefix (ToLower p) ''*.'' = HasPrefix p ''*.''"
    "HasPrefix (ToLower p) ''**.'' = HasPrefix p ''**.''"
    using lower_char_meta by (auto simp: HasPrefix_def ToLower_def take_map map_eq_Cons_conv)
  with assms show ?thesis
    by (simp add: MatchesDestination_def Contains_single Let_def)
qed

section \<open>Address blocks\<close>

text \<open>Bit \<open>i\<close> of an address, counted from the most significant bit of its first byte.\<close>

definition addr_bit :: "byte list \<Rightarrow> nat \<Rightarrow> bool" where
  "addr_bit bs i = bit (bs ! (i div 8)) (7 - i mod 8)"

definition msk_byte :: "nat \<Rightarrow> nat \<Rightarrow> byte" where
  "msk_byte n k = (let m = n - 8 * k in if 8 \<le> m then 0xFF else NOT (drop_bit m 0xFF))"

lemma bit_FF: "bit (255 :: int) j \<longleftrightarrow> j < 8"
proof -
  have "(255 :: int) = mask 8" by (simp add: mask_eq_exp_minus_1)
  then show ?thesis by (simp only: bit_mask_iff) auto
qed

lemma bit_msk_byte: "j < 8 \<Longrightarrow> bit (msk_byte n k) j \<longleftrightarrow> 8 * k + (7 - j) < n"
  by (auto simp: msk_byte_def Let_def bit_FF bit_simps)

lemma and_eq_iff: "(e AND m = a AND m) \<longleftrightarrow> (\<forall>j<8. bit m j \<longrightarrow> bit e j = bit a j)" for e m a :: byte
  by (auto simp: bit_eq_iff bit_simps)

lemma and_msk_byte_iff:
  "(e AND msk_byte n k = a AND msk_byte n k) \<longleftrightarrow> (\<forall>j<8. 8 * k + j < n \<longrightarrow> bit e (7 - j) = bit a (7 - j))"
  (is "?l \<longleftrightarrow> ?r")
proof -
  have "?l \<longleftrightarrow> (\<forall>j<8. 8 * k + (7 - j) < n \<longrightarrow> bit e j = bit a j)"
    by (auto simp: and_eq_iff bit_msk_byte)
  also have "\<dots> \<longleftrightarrow> ?r"
  proof (rule iffI; intro allI impI)
    fix j :: nat
    assume h: "\<forall>j<8. 8 * k + (7 - j) < n \<longrightarrow> bit e j = bit a j" and j: "j < 8" "8 * k + j < n"
    from h [rule_format, of "7 - j"] j show "bit e (7 - j) = bit a (7 - j)" by simp
  next
    fix j :: nat
    assume h: ?r and j: "j < 8" "8 * k + (7 - j) < n"
    from h [rule_format, of "7 - j"] j show "bit e j = bit a j" by simp
  qed
  finally show ?thesis .
qed

lemma CIDRMask_32: "CIDRMask n 32 = [msk_byte n 0, msk_byte n 1, msk_byte n 2, msk_byte n 3]"
  by (simp add: CIDRMask_def msk_byte_def upt_rec Let_def)

lemma masked_eq_iff:
  assumes "n \<le> 32"
  shows "and_bytes [e, f, g, h] (CIDRMask n 32) = and_bytes [a, b, c, d] (CIDRMask n 32) \<longleftrightarrow>
    (\<forall>i<n. addr_bit [a, b, c, d] i = addr_bit [e, f, g, h] i)" (is "?l \<longleftrightarrow> ?r")
proof -
  let ?P = "\<lambda>k. \<forall>j<8. 8 * k + j < n \<longrightarrow> bit ([e, f, g, h] ! k) (7 - j) = bit ([a, b, c, d] ! k) (7 - j)"
  have "?l \<longleftrightarrow> ?P 0 \<and> ?P 1 \<and> ?P 2 \<and> ?P 3"
    by (simp add: CIDRMask_32 and_bytes_def and_msk_byte_iff)
  also have "\<dots> \<longleftrightarrow> (\<forall>k<4. ?P k)"
    by (simp add: numeral_eq_Suc All_less_Suc2)
  also have "\<dots> \<longleftrightarrow> ?r"
  proof (rule iffI; intro allI impI)
    fix i assume h: "\<forall>k<4. ?P k" and i: "i < n"
    have "8 * (i div 8) + i mod 8 < n" "i div 8 < 4" using i assms by auto
    with h [rule_format, of "i div 8" "i mod 8"] show "addr_bit [a, b, c, d] i = addr_bit [e, f, g, h] i"
      by (simp add: addr_bit_def)
  next
    fix k j assume h: ?r and j: "j < 8" "8 * k + j < n"
    from h [rule_format, OF j(2)] j(1)
    show "bit ([e, f, g, h] ! k) (7 - j) = bit ([a, b, c, d] ! k) (7 - j)"
      by (simp add: addr_bit_def)
  qed
  finally show ?thesis .
qed

lemma dotted_chars: "x \<in> set (dotted [a, b, c, d]) \<Longrightarrow> is_digit x \<or> x = CHR ''.''"
  by (auto dest: show_nat_chars)

lemma lower_char_digit: "is_digit c \<Longrightarrow> lower_char c = c"
  by (auto simp: is_digit_def lower_char_def)

lemma ToLower_digits: "(\<And>c. c \<in> set s \<Longrightarrow> is_digit c \<or> c = CHR ''.'') \<Longrightarrow> ToLower s = s"
  unfolding ToLower_def by (intro map_idI) (metis lower_char_digit lower_char_fix(2))

lemma ParseCIDR_dotted:
  assumes "n \<le> 32"
  shows "ParseCIDR (dotted [e, f, g, h] @ ''/'' @ show_nat n) =
    Some \<lparr>net_ip = and_bytes [e, f, g, h] (CIDRMask n 32), net_mask = CIDRMask n 32\<rparr>"
proof -
  have no: "CHR ''/'' \<notin> set (dotted [e, f, g, h])" using dotted_chars is_digit_facts(6) by fastforce
  have "ParseAddr (dotted [e, f, g, h]) = Some (True, v4InV6Prefix @ [e, f, g, h])"
  proof -
    have le: "unat x \<le> 255" for x :: byte using unsigned_less [of x, where ?'a = nat] by simp
    show ?thesis using parseIPv4Fields_dotted [OF le le le le, of e f g h] by (simp add: ParseAddr_def)
  qed
  moreover have "IP_Mask (v4InV6Prefix @ [e, f, g, h]) (CIDRMask n 32) = and_bytes [e, f, g, h] (CIDRMask n 32)"
    by (simp add: IP_Mask_def CIDRMask_32 v4InV6Prefix_def)
  ultimately show ?thesis
    using SplitN2_cut [OF no, of "show_nat n"] assms show_nat_digits [of n]
    by (simp add: ParseCIDR_def Let_def)
qed

lemma MatchesDestination_cidr4:
  assumes "n \<le> 32"
  shows "MatchesDestination (dotted [a, b, c, d]) (dotted [e, f, g, h] @ ''/'' @ show_nat n) \<longleftrightarrow>
    (\<forall>i<n. addr_bit [a, b, c, d] i = addr_bit [e, f, g, h] i)"
proof -
  let ?ip = "dotted [a, b, c, d]" and ?pat = "dotted [e, f, g, h] @ ''/'' @ show_nat n"
  let ?m = "CIDRMask n 32" and ?nn = "and_bytes [e, f, g, h] (CIDRMask n 32)"
  have low: "ToLower ?ip = ?ip" "ToLower ?pat = ?pat"
  proof -
    show "ToLower ?ip = ?ip" by (rule ToLower_digits) (rule dotted_chars)
    have "ToLower (dotted [e, f, g, h]) = dotted [e, f, g, h]" by (rule ToLower_digits) (rule dotted_chars)
    moreover have "ToLower (show_nat n) = show_nat n" by (rule ToLower_digits) (auto dest: show_nat_chars)
    ultimately show "ToLower ?pat = ?pat" by (simp add: ToLower_def)
  qed
  have len: "length ?m = 4" "length ?nn = 4" by (simp_all add: CIDRMask_32 and_bytes_def)
  have "and_bytes ?nn ?m = ?nn" by (simp add: CIDRMask_32 and_bytes_def and.assoc)
  then have "IPNet_Contains \<lparr>net_ip = ?nn, net_mask = ?m\<rparr> (v4InV6Prefix @ [a, b, c, d]) \<longleftrightarrow>
    ?nn = and_bytes [a, b, c, d] ?m"
    using len by (simp add: IPNet_Contains_def networkNumberAndMask_def To4_def [of ?nn])
  moreover have "Contains ?pat ''/''" by (simp add: Contains_single del: dotted.simps)
  moreover have "?pat \<noteq> ''*''"
  proof
    assume "?pat = ''*''"
    then have "CHR ''/'' \<in> set ''*''" by (metis Un_iff list.set_intros(1) set_append)
    then show False by simp
  qed
  ultimately show ?thesis
    unfolding MatchesDestination_def low Let_def ParseCIDR_dotted [OF assms] ParseIP_dotted
    using masked_eq_iff [OF assms] by simp
qed

section \<open>Ports\<close>

lemma show_nat_no_char: "\<not> is_digit c \<Longrightarrow> c \<notin> set (show_nat n)"
  using show_nat_chars by blast

lemma Itoa_nonneg: "0 \<le> q \<Longrightarrow> Itoa q = show_nat (nat q)"
  by (simp add: Itoa_def)

lemma no_digit_meta [simp]:
  "\<not> is_digit (CHR ''-'')" "\<not> is_digit (CHR '','')" "\<not> is_digit (CHR ''*'')" "\<not> is_digit (CHR '' '')"
  by (simp_all add: is_digit_def)

lemma matchSinglePort_exact:
  assumes "0 \<le> q" "q \<le> maxInt"
  shows "matchSinglePort p (Itoa q) \<longleftrightarrow> p = q"
proof -
  have "CHR ''-'' \<notin> set (show_nat (nat q))" by (rule show_nat_no_char) simp
  then show ?thesis
    using assms Atoi_Itoa_nat [of "nat q"]
    by (simp add: matchSinglePort_def Contains_single Itoa_nonneg)
qed

lemma matchSinglePort_range:
  assumes "0 \<le> lo" "lo \<le> maxInt" "0 \<le> hi" "hi \<le> maxInt"
  shows "matchSinglePort p (Itoa lo @ ''-'' @ Itoa hi) \<longleftrightarrow> lo \<le> p \<and> p \<le> hi"
proof -
  have "CHR ''-'' \<notin> set (show_nat (nat lo))" by (rule show_nat_no_char) simp
  then have "SplitN2 (CHR ''-'') (Itoa lo @ ''-'' @ Itoa hi) = [Itoa lo, Itoa hi]"
    using SplitN2_cut assms by (simp add: Itoa_nonneg)
  then show ?thesis
    using assms Atoi_Itoa_nat [of "nat lo"] Atoi_Itoa_nat [of "nat hi"]
    by (simp add: matchSinglePort_def Contains_single Itoa_nonneg)
qed

lemma MatchesPort_single:
  assumes "CHR '','' \<notin> set q" "q \<noteq> ''*''"
  shows "MatchesPort p q = matchSinglePort p q"
  using assms by (simp add: MatchesPort_def Contains_single)

lemma show_nat_ne_star: "show_nat n \<noteq> ''*''"
  using show_nat_no_char [of "CHR ''*''" n] by (metis list.set_intros(1) no_digit_meta(3))

lemma Itoa_no_comma: "0 \<le> q \<Longrightarrow> CHR '','' \<notin> set (Itoa q)"
  using show_nat_no_char [of "CHR '',''"] by (simp add: Itoa_nonneg)

lemma MatchesPort_list:
  assumes "Suc 0 < length parts" "list_all (\<lambda>q. CHR '','' \<notin> set q) parts"
  shows "MatchesPort p (Join '','' parts) \<longleftrightarrow> list_ex (\<lambda>q. matchSinglePort p (TrimSpace q)) parts"
proof -
  have "CHR '','' \<in> set (Join '','' parts)" by (rule Join_two_sep) (rule assms)
  moreover have "Split (CHR '','') (Join '','' parts) = parts" using assms by (intro Split_Join) auto
  moreover have "Join '','' parts \<noteq> ''*''" using calculation(1) by auto
  ultimately show ?thesis by (simp add: MatchesPort_def Contains_single)
qed

section \<open>Specificity\<close>

text \<open>How specific a name pattern is: any, a glob, or exact.\<close>

definition name_rank :: "string \<Rightarrow> int" where
  "name_rank p = (if p = ''*'' then 0 else if ContainsAny p ''*?['' then 1 else 2)"

definition port_rank :: "string \<Rightarrow> int" where
  "port_rank p = (if p = ''*'' then 0 else 1)"

lemma rank_bounds: "0 \<le> name_rank p" "name_rank p \<le> 2" "0 \<le> port_rank p" "port_rank p \<le> 1"
  by (simp_all add: name_rank_def port_rank_def)

lemma CalculateSpecificity_ranks:
  "CalculateSpecificity c d p = 100 * name_rank c + 10 * name_rank d + port_rank p"
  by (simp add: CalculateSpecificity_def name_rank_def port_rank_def)

section \<open>Properties\<close>

text \<open>
  Wildcards over domains mean what the rule writer expects: \<^verbatim>\<open>*.b\<close> matches exactly the names that
  end in a dot and \<open>b\<close>, at any depth and in any letter case, but not \<open>b\<close> itself; \<^verbatim>\<open>**.b\<close> matches
  those and \<open>b\<close>. A star anywhere else is an ordinary character: such a pattern matches only itself.
\<close>

theorem destination_wildcards:
  assumes "CHR ''/'' \<notin> set b"
  shows "(MatchesDestination d (''*.'' @ b) \<longleftrightarrow> (\<exists>sub. ToLower d = sub @ ''.'' @ ToLower b)) \<and>
    \<not> MatchesDestination b (''*.'' @ b) \<and>
    (MatchesDestination d (''**.'' @ b) \<longleftrightarrow> ToLower d = ToLower b \<or> MatchesDestination d (''*.'' @ b)) \<and>
    (b \<noteq> ''*'' \<longrightarrow> \<not> HasPrefix b ''*.'' \<longrightarrow> \<not> HasPrefix b ''**.'' \<longrightarrow>
       (MatchesDestination d b \<longleftrightarrow> ToLower d = ToLower b))"
proof -
  have "ToLower b \<noteq> sub @ ''.'' @ ToLower b" for sub
  proof
    assume "ToLower b = sub @ ''.'' @ ToLower b"
    then have "length (ToLower b) = length (sub @ ''.'' @ ToLower b)" by (rule arg_cong)
    then show False by simp
  qed
  then show ?thesis
    using MatchesDestination_subdomain [OF assms] MatchesDestination_domain_tree [OF assms] MatchesDestination_exact [of b d] assms
    by simp
qed

text \<open>
  An address block matches an address exactly when the address agrees with it on the bits of the
  prefix; a port range matches the ports between its bounds, bounds included; a list of ports matches
  when one of its entries does; and the empty port pattern, unlike the star, matches no port.
\<close>

theorem blocks_and_ports:
  assumes "n \<le> 32" "0 \<le> lo" "lo \<le> maxInt" "0 \<le> hi" "hi \<le> maxInt"
  shows "(MatchesDestination (dotted [a, b, c, d]) (dotted [e, f, g, h] @ ''/'' @ show_nat n) \<longleftrightarrow>
      (\<forall>i<n. addr_bit [a, b, c, d] i = addr_bit [e, f, g, h] i)) \<and>
    (matchSinglePort p (Itoa lo @ ''-'' @ Itoa hi) \<longleftrightarrow> lo \<le> p \<and> p \<le> hi) \<and>
    (MatchesPort p (Join '','' [Itoa lo, Itoa hi]) \<longleftrightarrow> p = lo \<or> p = hi) \<and>
    MatchesPort p ''*'' \<and> \<not> MatchesPort p []"
proof -
  have trim: "TrimSpace (Itoa lo) = Itoa lo" "TrimSpace (Itoa hi) = Itoa hi"
    using assms by (simp_all add: Itoa_nonneg)
  have "MatchesPort p (Join '','' [Itoa lo, Itoa hi]) \<longleftrightarrow> p = lo \<or> p = hi"
    using MatchesPort_list [of "[Itoa lo, Itoa hi]" p] Itoa_no_comma assms
    by (simp add: trim matchSinglePort_exact)
  moreover have "\<not> MatchesPort p []" by code_simp
  moreover have "MatchesPort p ''*''" by (simp add: MatchesPort_def)
  ultimately show ?thesis
    using MatchesDestination_cidr4 [OF assms(1), of a b c d e f g h] matchSinglePort_range [OF assms(2-5)] by blast
qed

text \<open>
  Specificity compares rules lexicographically: the container pattern decides first, then the
  destination, then the port; an exact name beats a glob and a glob beats the star, and no combination
  of less important fields outweighs a more important one.
\<close>

theorem specificity_is_lexicographic:
  "CalculateSpecificity c d p < CalculateSpecificity c' d' p' \<longleftrightarrow>
     name_rank c < name_rank c' \<or>
     name_rank c = name_rank c' \<and>
       (name_rank d < name_rank d' \<or> name_rank d = name_rank d' \<and> port_rank p < port_rank p')"
  using rank_bounds(1,2) [of c] rank_bounds(1,2) [of d] rank_bounds(1,2) [of c'] rank_bounds(1,2) [of d']
    rank_bounds(3,4) [of p] rank_bounds(3,4) [of p']
  unfolding CalculateSpecificity_ranks by linarith

end
