(* ===== verification/Store.thy ===== *)
theory Store
  imports GoStrings "HOL-Library.Char_ord" "HOL-Library.List_Lexorder" "HOL-Library.Multiset"
begin

text \<open>
  The SQLite store behind the rule engine: the tables of \<^verbatim>\<open>migrations.go\<close> as lists of rows in
  \<^verbatim>\<open>rowid\<close> order, and the rule operations of \<^verbatim>\<open>crud.go\<close> as functions on them. A timestamp is the
  text SQLite stores, and the comparisons of the queries are the byte-wise string comparisons SQLite
  performs on it. The clock supplies \<^verbatim>\<open>datetime('now')\<close> and the timestamps derived from it.
\<close>

section \<open>Rows\<close>

record Rule =
  ID :: int
  ContainerPattern :: string
  DestinationPattern :: string
  PortPattern :: string
  RuleType :: string
  Action :: string
  CreatedAt :: string
  ExpiresAt :: "string option"
  LastUsedAt :: "string option"
  CreatedBy :: string
  Notes :: "string option"
  SessionID :: "string option"

record Session =
  sess_id :: string
  sess_container :: string
  MappingsEnc :: "byte list"
  LabelsJSON :: string
  MetadataJSON :: string
  TTLSeconds :: int
  sess_created :: string
  sess_expires :: string
  LastHeartbeat :: string
  SubstitutionCount :: int
  AllowAll :: bool

record PendingRequest =
  pend_id :: int
  pend_container :: string
  pend_container_id :: string
  pend_host :: string
  pend_port :: int
  pend_resolved :: "string option"
  FirstSeen :: string
  LastSeen :: string
  AttemptCount :: int

record RequestLog =
  log_id :: int
  log_time :: string
  log_container :: string
  log_container_id :: "string option"
  log_host :: string
  log_port :: "int option"
  log_resolved :: "string option"
  log_method :: "string option"
  log_result :: string
  log_rule :: "int option"
  log_response_ms :: "int option"
  log_skip_reason :: "string option"

record DB =
  rules :: "Rule list"
  next_rule :: int
  sessions :: "Session list"
  pendings :: "PendingRequest list"
  next_pending :: int
  logs :: "RequestLog list"
  next_log :: int
  foreign_keys :: bool

text \<open>
  \<open>foreign_keys\<close> says whether the SQLite connection enforces foreign keys, which the driver decides
  from the data source name.

  The clock of one operation: \<^verbatim>\<open>datetime('now')\<close>, \<^verbatim>\<open>datetime('now', '+n seconds')\<close>, and Go's
  \<^verbatim>\<open>time.Now().UTC().Add(d).Format(...)\<close> for a duration in nanoseconds.
\<close>

record clock =
  sql_now :: string
  sql_after :: "int \<Rightarrow> string"
  go_after :: "int \<Rightarrow> string"

text \<open>What the program relies on: adding a positive time gives a later timestamp, in text order.\<close>

definition clock_ok :: "clock \<Rightarrow> bool" where
  "clock_ok ck \<longleftrightarrow>
     (\<forall>n>0. sql_now ck < sql_after ck n) \<and>
     (\<forall>d. 10 ^ 9 \<le> d \<longrightarrow> sql_now ck < go_after ck d) \<and>
     (\<forall>d<0. go_after ck d \<le> sql_now ck)"

section \<open>Rule layers\<close>

definition RuleSource :: "Rule \<Rightarrow> string" where
  "RuleSource r =
     (if CreatedBy r = ''builtin'' then ''builtin''
      else if (case SessionID r of Some s \<Rightarrow> s \<noteq> [] | None \<Rightarrow> False) then ''session''
      else ''global'')"

definition RuleSourcePriority :: "Rule \<Rightarrow> int" where
  "RuleSourcePriority r =
     (if RuleSource r = ''global'' then 3
      else if RuleSource r = ''session'' then 2
      else if RuleSource r = ''builtin'' then 1
      else 0)"

lemma RuleSourcePriority_cases:
  "RuleSourcePriority r =
     (if CreatedBy r = ''builtin'' then 1
      else if (case SessionID r of Some s \<Rightarrow> s \<noteq> [] | None \<Rightarrow> False) then 2 else 3)"
  by (simp add: RuleSourcePriority_def RuleSource_def)

section \<open>Rules: keys, constraints and queries\<close>

text \<open>The \<^verbatim>\<open>UNIQUE\<close> and \<^verbatim>\<open>CHECK\<close> constraints of the rules table.\<close>

definition rule_key :: "Rule \<Rightarrow> string \<times> string \<times> string \<times> string" where
  "rule_key r = (ContainerPattern r, DestinationPattern r, PortPattern r, Action r)"

definition rule_check :: "Rule \<Rightarrow> bool" where
  "rule_check r \<longleftrightarrow> RuleType r \<in> {''permanent'', ''temporary''} \<and> Action r \<in> {''allow'', ''deny''}"

text \<open>The predicate \<^verbatim>\<open>expires_at IS NULL OR expires_at > datetime('now')\<close>.\<close>

definition live :: "string \<Rightarrow> Rule \<Rightarrow> bool" where
  "live now r = (case ExpiresAt r of None \<Rightarrow> True | Some e \<Rightarrow> now < e)"

definition GetRule :: "DB \<Rightarrow> int \<Rightarrow> Rule option" where
  "GetRule db i = find (\<lambda>r. ID r = i) (rules db)"

definition findExistingRule :: "DB \<Rightarrow> string \<Rightarrow> string \<Rightarrow> string \<Rightarrow> string \<Rightarrow> string \<Rightarrow> Rule option" where
  "findExistingRule db now cp dp pp act =
     find (\<lambda>r. rule_key r = (cp, dp, pp, act) \<and> live now r) (rules db)"

definition ErrCheck :: go_error where "ErrCheck = GoErr ''CHECK constraint failed''"
definition ErrUnique :: go_error where "ErrUnique = GoErr ''UNIQUE constraint failed''"

text \<open>\<^verbatim>\<open>INSERT INTO rules\<close>: constraints are checked, then the next autoincrement id is used.\<close>

definition insert_rule :: "DB \<Rightarrow> Rule \<Rightarrow> (DB \<times> int) go" where
  "insert_rule db r =
     (if \<not> rule_check r then Fail ErrCheck
      else if rule_key r \<in> rule_key ` set (rules db) then Fail ErrUnique
      else Ok (db\<lparr>rules := rules db @ [r\<lparr>ID := next_rule db\<rparr>], next_rule := next_rule db + 1\<rparr>, next_rule db))"

text \<open>
  \<^verbatim>\<open>DELETE FROM rules WHERE ...\<close>: with foreign keys enforced, the log rows that refer to a deleted
  rule lose the reference (\<^verbatim>\<open>ON DELETE SET NULL\<close>).
\<close>

definition delete_rules :: "(Rule \<Rightarrow> bool) \<Rightarrow> DB \<Rightarrow> DB" where
  "delete_rules P db =
     (let gone = map ID (filter P (rules db)) in
      db\<lparr>rules := filter (\<lambda>r. \<not> P r) (rules db),
         logs := (if foreign_keys db
                  then map (\<lambda>l. case log_rule l of
                                    Some i \<Rightarrow> if i \<in> set gone then l\<lparr>log_rule := None\<rparr> else l
                                  | None \<Rightarrow> l) (logs db)
                  else logs db)\<rparr>)"

section \<open>Rule operations\<close>

record RuleCreateInput =
  in_container :: string
  in_destination :: string
  in_port :: string
  in_type :: string
  in_action :: string
  in_expires :: "int option"
  in_notes :: "string option"
  in_created_by :: string

definition or_default :: "string \<Rightarrow> string \<Rightarrow> string" where
  "or_default s d = (if s = [] then d else s)"

text \<open>Signed 64-bit wrap-around: \<^verbatim>\<open>time.Duration(n) * time.Second\<close> is an \<^verbatim>\<open>int64\<close> product.\<close>

definition wrap64 :: "int \<Rightarrow> int" where
  "wrap64 i = (i + 2 ^ 63) mod 2 ^ 64 - 2 ^ 63"

definition expiry_of :: "clock \<Rightarrow> int option \<Rightarrow> string option" where
  "expiry_of ck e = (case e of Some n \<Rightarrow> if 0 < n then Some (go_after ck (wrap64 (n * 10 ^ 9))) else None
                      | None \<Rightarrow> None)"

definition CreateRule :: "clock \<Rightarrow> DB \<Rightarrow> RuleCreateInput \<Rightarrow> DB \<times> Rule option go" where
  "CreateRule ck db input =
     (let port = or_default (in_port input) ''*'';
          ty = or_default (in_type input) ''permanent'';
          act = or_default (in_action input) ''allow'';
          creator = or_default (in_created_by input) ''admin'';
          expiresAt = expiry_of ck (in_expires input);
          key = (in_container input, in_destination input, port, act);
          db1 = delete_rules (\<lambda>r. rule_key r = key \<and> \<not> live (sql_now ck) r) db;
          row = \<lparr>ID = 0, ContainerPattern = in_container input, DestinationPattern = in_destination input,
                 PortPattern = port, RuleType = ty, Action = act, CreatedAt = sql_now ck,
                 ExpiresAt = expiresAt, LastUsedAt = None, CreatedBy = creator, Notes = in_notes input,
                 SessionID = None\<rparr>
      in case insert_rule db1 row of
           Ok (db2, i) \<Rightarrow> (db2, Ok (GetRule db2 i))
         | Fail e \<Rightarrow>
             (db1, if e = ErrUnique then
                     (case findExistingRule db1 (sql_now ck) (in_container input) (in_destination input) port act of
                        Some existing \<Rightarrow> Ok (Some existing)
                      | None \<Rightarrow> Fail e)
                   else Fail e)
         | Panic \<Rightarrow> (db1, Panic))"

record RuleUpdateInput =
  up_container :: "string option"
  up_destination :: "string option"
  up_port :: "string option"
  up_action :: "string option"
  up_notes :: "string option"
  up_expires :: "string option"

definition upd :: "'a option \<Rightarrow> ('a \<Rightarrow> 'b \<Rightarrow> 'b) \<Rightarrow> 'b \<Rightarrow> 'b" where
  "upd x f b = (case x of None \<Rightarrow> b | Some a \<Rightarrow> f a b)"

text \<open>The \<^verbatim>\<open>SET\<close> list that \<^verbatim>\<open>UpdateRule\<close> assembles; an empty \<^verbatim>\<open>expires_at\<close> clears the column.\<close>

definition apply_update :: "RuleUpdateInput \<Rightarrow> Rule \<Rightarrow> Rule" where
  "apply_update u r =
     (let r1 = upd (up_container u) (\<lambda>v x. x\<lparr>ContainerPattern := v\<rparr>) r;
          r2 = upd (up_destination u) (\<lambda>v x. x\<lparr>DestinationPattern := v\<rparr>) r1;
          r3 = upd (up_port u) (\<lambda>v x. x\<lparr>PortPattern := v\<rparr>) r2;
          r4 = upd (up_action u) (\<lambda>v x. x\<lparr>Action := v\<rparr>) r3;
          r5 = upd (up_notes u) (\<lambda>v x. x\<lparr>Notes := Some v\<rparr>) r4
      in upd (up_expires u) (\<lambda>v x. x\<lparr>ExpiresAt := (if v = [] then None else Some v)\<rparr>) r5)"

definition UpdateRule :: "DB \<Rightarrow> int \<Rightarrow> RuleUpdateInput \<Rightarrow> DB \<times> Rule option go" where
  "UpdateRule db i u =
     (let noop = (up_container u = None \<and> up_destination u = None \<and> up_port u = None \<and>
                  up_action u = None \<and> up_notes u = None \<and> up_expires u = None) in
      if noop then (db, Ok (GetRule db i))
      else case GetRule db i of
             None \<Rightarrow> (db, Ok None)
           | Some r \<Rightarrow>
               let r' = apply_update u r in
               if \<not> rule_check r' then (db, Fail ErrCheck)
               else if rule_key r' \<in> rule_key ` set (filter (\<lambda>x. ID x \<noteq> i) (rules db)) then (db, Fail ErrUnique)
               else let db' = db\<lparr>rules := map (\<lambda>x. if ID x = i then apply_update u x else x) (rules db)\<rparr>
                    in (db', Ok (GetRule db' i)))"

definition DeleteRule :: "DB \<Rightarrow> int \<Rightarrow> DB \<times> bool" where
  "DeleteRule db i =
     (delete_rules (\<lambda>r. ID r = i) db, 0 < length (filter (\<lambda>r. ID r = i) (rules db)))"

text \<open>The background update that follows a rule's use.\<close>

definition touch_rule :: "string \<Rightarrow> DB \<Rightarrow> int \<Rightarrow> DB" where
  "touch_rule now db i =
     db\<lparr>rules := map (\<lambda>r. if ID r = i then r\<lparr>LastUsedAt := Some now\<rparr> else r) (rules db)\<rparr>"

section \<open>Listing rules\<close>

text \<open>
  SQLite's \<^verbatim>\<open>LIKE\<close>: percent stands for any text, underscore for one character, letters compare
  without case. The filter text is not escaped, so its own metacharacters count.
\<close>

fun like :: "string \<Rightarrow> string \<Rightarrow> bool" where
  "like [] t = (t = [])"
| "like (p # ps) t =
     (if p = CHR ''%'' then like ps t \<or> (case t of [] \<Rightarrow> False | _ # ts \<Rightarrow> like (p # ps) ts)
      else case t of [] \<Rightarrow> False
           | c # ts \<Rightarrow> (p = CHR 0x5F \<or> lower_char p = lower_char c) \<and> like ps ts)"

definition like_sub :: "string \<Rightarrow> string \<Rightarrow> bool" where
  "like_sub x t = like (''%'' @ x @ ''%'') t"

text \<open>\<^verbatim>\<open>ORDER BY ... DESC\<close> with ties in row order, and \<^verbatim>\<open>LIMIT ? OFFSET ?\<close>.\<close>

definition sort_desc :: "('a \<Rightarrow> string) \<Rightarrow> 'a list \<Rightarrow> 'a list" where
  "sort_desc f xs = rev (sort_key f (rev xs))"

definition limit_offset :: "int \<Rightarrow> int \<Rightarrow> 'a list \<Rightarrow> 'a list" where
  "limit_offset lim off xs = take (nat lim) (drop (nat off) xs)"

record RuleFilter =
  f_container :: string
  f_destination :: string
  f_action :: string
  IncludeExpired :: bool
  f_limit :: int
  f_offset :: int

definition rule_filter_matches :: "string \<Rightarrow> RuleFilter \<Rightarrow> Rule \<Rightarrow> bool" where
  "rule_filter_matches now f r \<longleftrightarrow>
     (IncludeExpired f \<or> live now r) \<and>
     (f_container f = [] \<or> like_sub (f_container f) (ContainerPattern r)) \<and>
     (f_destination f = [] \<or> like_sub (f_destination f) (DestinationPattern r)) \<and>
     (f_action f = [] \<or> Action r = f_action f)"

definition GetRules :: "string \<Rightarrow> DB \<Rightarrow> RuleFilter \<Rightarrow> Rule list \<times> nat" where
  "GetRules now db f =
     (let lim = (if f_limit f \<le> 0 then 100 else f_limit f);
          hits = filter (rule_filter_matches now f) (rules db)
      in (limit_offset lim (f_offset f) (sort_desc CreatedAt hits), length hits))"

declare like.simps(2) [simp del]

lemma like_cons [simp]:
  "like (CHR ''%'' # ps) [] = like ps []"
  "like (CHR ''%'' # ps) (c # t) = (like ps (c # t) \<or> like (CHR ''%'' # ps) t)"
  "p \<noteq> CHR ''%'' \<Longrightarrow> like (p # ps) [] = False"
  "p \<noteq> CHR ''%'' \<Longrightarrow> like (p # ps) (c # t) = ((p = CHR 0x5F \<or> lower_char p = lower_char c) \<and> like ps t)"
  by (simp_all add: like.simps(2))

lemma like_any [simp]: "like ''%'' t"
  by (induction t) auto

lemma like_percent_tail: "like ps s \<Longrightarrow> like (ps @ ''%'') (s @ t)"
proof (induction ps arbitrary: s)
  case Nil
  then show ?case by simp
next
  case (Cons p ps)
  show ?case
  proof (cases "p = CHR ''%''")
    case True
    have "like (CHR ''%'' # ps) s \<Longrightarrow> like (CHR ''%'' # ps @ ''%'') (s @ t)"
    proof (induction s)
      case Nil
      then have "like (ps @ ''%'') t" using Cons.IH [of "[]"] by simp
      then show ?case by (cases t) auto
    next
      case (Cons c s)
      then show ?case using \<open>\<And>s. like ps s \<Longrightarrow> like (ps @ ''%'') (s @ t)\<close> [of "c # s"] by auto
    qed
    with True Cons.prems show ?thesis by simp
  next
    case False
    with Cons show ?thesis by (cases s) auto
  qed
qed

lemma like_percent_head: "like ps s \<Longrightarrow> like (CHR ''%'' # ps) (t @ s)"
proof (induction t)
  case Nil
  then show ?case by (cases s) auto
qed simp

lemma like_literal: "like s s"
proof (induction s)
  case (Cons c s)
  then show ?case
    using like_percent_head [of s s "[c]"] by (cases "c = CHR ''%''") auto
qed simp

text \<open>A filter text finds every row that contains it.\<close>

lemma like_sub_contains: "like_sub x (a @ x @ b)"
  unfolding like_sub_def using like_percent_head [OF like_percent_tail [OF like_literal]] by simp

lemma mset_sort_desc [simp]: "mset (sort_desc f xs) = mset xs"
  by (simp add: sort_desc_def)

lemma set_sort_desc [simp]: "set (sort_desc f xs) = set xs"
  by (simp add: sort_desc_def)

section \<open>The invariant of the rules table\<close>

definition rules_ok :: "DB \<Rightarrow> bool" where
  "rules_ok db \<longleftrightarrow>
     distinct (map ID (rules db)) \<and> (\<forall>r \<in> set (rules db). ID r < next_rule db) \<and>
     distinct (map rule_key (rules db)) \<and> (\<forall>r \<in> set (rules db). rule_check r)"

lemma rules_ok_cong: "rules db' = rules db \<Longrightarrow> next_rule db' = next_rule db \<Longrightarrow> rules_ok db' = rules_ok db"
  by (simp add: rules_ok_def)

lemma rules_ok_filter:
  "rules_ok db \<Longrightarrow> rules db' = filter P (rules db) \<Longrightarrow> next_rule db' = next_rule db \<Longrightarrow> rules_ok db'"
  by (auto simp: rules_ok_def distinct_map_filter)

lemma delete_rules_simps [simp]:
  "rules (delete_rules P db) = filter (\<lambda>r. \<not> P r) (rules db)"
  "next_rule (delete_rules P db) = next_rule db"
  "sessions (delete_rules P db) = sessions db"
  "pendings (delete_rules P db) = pendings db"
  "next_pending (delete_rules P db) = next_pending db"
  "next_log (delete_rules P db) = next_log db"
  "foreign_keys (delete_rules P db) = foreign_keys db"
  "length (logs (delete_rules P db)) = length (logs db)"
  by (simp_all add: delete_rules_def Let_def)

lemma rules_ok_delete [intro]: "rules_ok db \<Longrightarrow> rules_ok (delete_rules P db)"
  by (rule rules_ok_filter) simp_all

lemma rule_key_ID [simp]: "rule_key (r\<lparr>ID := i\<rparr>) = rule_key r" "rule_check (r\<lparr>ID := i\<rparr>) = rule_check r"
  by (simp_all add: rule_key_def rule_check_def)

lemma rules_ok_insert:
  assumes "rules_ok db" "insert_rule db r = Ok (db', i)"
  shows "rules_ok db'"
  using assms by (fastforce simp: rules_ok_def insert_rule_def split: if_splits)

lemma insert_rule_Ok:
  assumes "insert_rule db r = Ok (db', i)"
  shows "i = next_rule db" "rules db' = rules db @ [r\<lparr>ID := i\<rparr>]" "next_rule db' = i + 1"
    "sessions db' = sessions db" "pendings db' = pendings db" "next_pending db' = next_pending db"
    "logs db' = logs db" "next_log db' = next_log db" "foreign_keys db' = foreign_keys db"
  using assms by (auto simp: insert_rule_def split: if_splits)

lemma insert_rule_not_Panic [simp]: "insert_rule db r \<noteq> Panic"
  by (simp add: insert_rule_def)

lemma find_new: "\<forall>r \<in> set xs. ID r < i \<Longrightarrow> find (\<lambda>r. ID r = i) (xs @ [y]) = (if ID y = i then Some y else None)"
  by (induction xs) auto

lemma find_eq_Some:
  "find P xs = Some x \<Longrightarrow> x \<in> set xs \<and> P x"
  by (induction xs) (auto split: if_splits)

lemma find_eq_None: "find P xs = None \<longleftrightarrow> (\<forall>x \<in> set xs. \<not> P x)"
  by (induction xs) auto

text \<open>Keys are unique, so looking a key up finds the row that has it.\<close>

lemma find_by_key:
  assumes "distinct (map k xs)" "x \<in> set xs" "P x" "\<And>y. y \<in> set xs \<Longrightarrow> P y \<Longrightarrow> k y = k x"
  shows "find P xs = Some x"
proof (cases "find P xs")
  case None
  with assms(2,3) show ?thesis by (auto simp: find_eq_None)
next
  case (Some y)
  with find_eq_Some assms(4) have "y \<in> set xs" "k y = k x" by fastforce+
  with assms(1,2) Some show ?thesis by (metis distinct_map inj_on_contraD)
qed


section \<open>Creating, updating and deleting rules\<close>

text \<open>The key and the row that \<^verbatim>\<open>CreateRule\<close> works with after it has filled in its defaults.\<close>

definition input_key :: "RuleCreateInput \<Rightarrow> string \<times> string \<times> string \<times> string" where
  "input_key input =
     (in_container input, in_destination input, or_default (in_port input) ''*'',
      or_default (in_action input) ''allow'')"

definition input_row :: "clock \<Rightarrow> RuleCreateInput \<Rightarrow> Rule" where
  "input_row ck input =
     \<lparr>ID = 0, ContainerPattern = in_container input, DestinationPattern = in_destination input,
      PortPattern = or_default (in_port input) ''*'', RuleType = or_default (in_type input) ''permanent'',
      Action = or_default (in_action input) ''allow'', CreatedAt = sql_now ck,
      ExpiresAt = expiry_of ck (in_expires input), LastUsedAt = None,
      CreatedBy = or_default (in_created_by input) ''admin'', Notes = in_notes input, SessionID = None\<rparr>"

definition purge :: "clock \<Rightarrow> RuleCreateInput \<Rightarrow> DB \<Rightarrow> DB" where
  "purge ck input = delete_rules (\<lambda>r. rule_key r = input_key input \<and> \<not> live (sql_now ck) r)"

lemma rule_key_input_row [simp]: "rule_key (input_row ck input) = input_key input"
  by (simp add: rule_key_def input_row_def input_key_def)

lemma CreateRule_alt:
  "CreateRule ck db input =
     (case insert_rule (purge ck input db) (input_row ck input) of
        Ok (db2, i) \<Rightarrow> (db2, Ok (GetRule db2 i))
      | Fail e \<Rightarrow> (purge ck input db,
          if e = ErrUnique then
            (case find (\<lambda>r. rule_key r = input_key input \<and> live (sql_now ck) r) (rules (purge ck input db)) of
               Some existing \<Rightarrow> Ok (Some existing) | None \<Rightarrow> Fail e)
          else Fail e)
      | Panic \<Rightarrow> (purge ck input db, Panic))"
  unfolding CreateRule_def Let_def purge_def input_row_def input_key_def findExistingRule_def ..

lemma errs_differ [simp]: "ErrCheck \<noteq> ErrUnique" "ErrUnique \<noteq> ErrCheck"
  by (simp_all add: ErrCheck_def ErrUnique_def)

lemma rules_ok_purge [intro]: "rules_ok db \<Longrightarrow> rules_ok (purge ck input db)"
  by (simp add: purge_def rules_ok_delete)

lemma purge_simps [simp]:
  "sessions (purge ck input db) = sessions db" "pendings (purge ck input db) = pendings db"
  "next_rule (purge ck input db) = next_rule db" "next_pending (purge ck input db) = next_pending db"
  "next_log (purge ck input db) = next_log db" "foreign_keys (purge ck input db) = foreign_keys db"
  "length (logs (purge ck input db)) = length (logs db)"
  "rules (purge ck input db) =
     filter (\<lambda>r. \<not> (rule_key r = input_key input \<and> \<not> live (sql_now ck) r)) (rules db)"
  by (simp_all add: purge_def)

lemma CreateRule_rules_ok:
  assumes "rules_ok db" "CreateRule ck db input = (db', res)"
  shows "rules_ok db'"
proof (cases "insert_rule (purge ck input db) (input_row ck input)")
  case (Ok x)
  then obtain db2 i where "insert_rule (purge ck input db) (input_row ck input) = Ok (db2, i)"
    by (cases x) auto
  with rules_ok_insert [OF rules_ok_purge [OF assms(1)] this] assms(2) show ?thesis
    by (simp add: CreateRule_alt)
qed (use assms in \<open>auto simp: CreateRule_alt\<close>)

lemma CreateRule_frame:
  assumes "CreateRule ck db input = (db', res)"
  shows "sessions db' = sessions db" "pendings db' = pendings db" "next_pending db' = next_pending db"
    "next_log db' = next_log db" "foreign_keys db' = foreign_keys db"
proof -
  have "sessions db' = sessions db \<and> pendings db' = pendings db \<and> next_pending db' = next_pending db \<and>
    next_log db' = next_log db \<and> foreign_keys db' = foreign_keys db"
  proof (cases "insert_rule (purge ck input db) (input_row ck input)")
    case (Ok x)
    then obtain db2 i where "insert_rule (purge ck input db) (input_row ck input) = Ok (db2, i)"
      by (cases x) auto
    with insert_rule_Ok [OF this] assms show ?thesis by (simp add: CreateRule_alt)
  qed (use assms in \<open>auto simp: CreateRule_alt\<close>)
  then show "sessions db' = sessions db" "pendings db' = pendings db" "next_pending db' = next_pending db"
    "next_log db' = next_log db" "foreign_keys db' = foreign_keys db" by simp_all
qed

text \<open>A request with an unknown type or action is refused by the \<^verbatim>\<open>CHECK\<close> constraint.\<close>

lemma CreateRule_rejected:
  assumes "\<not> rule_check (input_row ck input)"
  shows "CreateRule ck db input = (purge ck input db, Fail ErrCheck)"
  using assms by (simp add: CreateRule_alt insert_rule_def)

text \<open>A live rule with the same key is returned as it is; the table does not change.\<close>

lemma CreateRule_existing:
  assumes "rules_ok db" "rule_check (input_row ck input)"
    and "r \<in> set (rules db)" "rule_key r = input_key input" "live (sql_now ck) r"
  shows "CreateRule ck db input = (db, Ok (Some r))"
proof -
  have only: "x = r" if "x \<in> set (rules db)" "rule_key x = input_key input" for x
    using assms that by (auto simp: rules_ok_def distinct_map inj_on_def)
  have flt: "rules (purge ck input db) = rules db"
    using only assms(5) by (auto simp: filter_id_conv)
  have "map ID (filter (\<lambda>r. rule_key r = input_key input \<and> \<not> live (sql_now ck) r) (rules db)) = []"
    using only assms(5) by (auto simp: filter_empty_conv)
  then have "logs (purge ck input db) = logs db"
    by (simp add: purge_def delete_rules_def Let_def) (auto intro!: map_idI split: option.splits)
  with flt have same: "purge ck input db = db"
    by (intro DB.equality) simp_all
  have "find (\<lambda>r. rule_key r = input_key input \<and> live (sql_now ck) r) (rules db) = Some r"
    using assms by (intro find_by_key [where k = rule_key]) (auto simp: rules_ok_def)
  moreover from assms have "input_key input \<in> rule_key ` set (rules db)" by force
  ultimately show ?thesis
    using assms(2) by (simp add: CreateRule_alt insert_rule_def same)
qed

text \<open>Otherwise the new rule is stored under a fresh id and returned.\<close>

lemma CreateRule_fresh:
  assumes "rules_ok db" "rule_check (input_row ck input)"
    and none: "\<And>r. r \<in> set (rules db) \<Longrightarrow> rule_key r = input_key input \<Longrightarrow> \<not> live (sql_now ck) r"
  shows "\<exists>db'. CreateRule ck db input = (db', Ok (Some ((input_row ck input)\<lparr>ID := next_rule db\<rparr>))) \<and>
    rules db' = filter (\<lambda>r. rule_key r \<noteq> input_key input) (rules db) @
                [(input_row ck input)\<lparr>ID := next_rule db\<rparr>]"
proof -
  let ?p = "purge ck input db" and ?row = "input_row ck input"
  have gone: "rules ?p = filter (\<lambda>r. rule_key r \<noteq> input_key input) (rules db)"
    using none by (auto intro: filter_cong)
  then have "rule_key ?row \<notin> rule_key ` set (rules ?p)" by auto
  then obtain db2 where ins: "insert_rule ?p ?row = Ok (db2, next_rule db)"
    using assms(2) by (simp add: insert_rule_def)
  note facts = insert_rule_Ok [OF ins]
  have "GetRule db2 (next_rule db) = Some (?row\<lparr>ID := next_rule db\<rparr>)"
    using assms(1) by (simp add: GetRule_def facts(2) gone find_new rules_ok_def)
  with ins facts(2) gone show ?thesis by (simp add: CreateRule_alt)
qed

lemma upd_simps [simp]: "upd None f b = b" "upd (Some a) f b = f a b"
  by (simp_all add: upd_def)

lemma apply_update_ID [simp]: "ID (apply_update u r) = ID r"
  by (simp add: apply_update_def upd_def Let_def split: option.splits)

lemma apply_update_type [simp]: "RuleType (apply_update u r) = RuleType r" "SessionID (apply_update u r) = SessionID r"
  "CreatedBy (apply_update u r) = CreatedBy r" "CreatedAt (apply_update u r) = CreatedAt r"
  by (simp_all add: apply_update_def upd_def Let_def split: option.splits)

text \<open>Replacing one row of a table by a row with the same id and an unused key keeps the invariant.\<close>

lemma rules_ok_replace:
  assumes ok: "rules_ok db"
    and f: "\<And>r. ID (f r) = ID r" "rule_check (f r0)" "ID r0 = i" "r0 \<in> set (rules db)"
    and key: "rule_key (f r0) \<notin> rule_key ` {r \<in> set (rules db). ID r \<noteq> i}"
  shows "rules_ok (db\<lparr>rules := map (\<lambda>r. if ID r = i then f r else r) (rules db)\<rparr>)"
proof -
  let ?g = "\<lambda>r. if ID r = i then f r else r"
  have uniq: "r = r0" if "r \<in> set (rules db)" "ID r = i" for r
    using ok f(3,4) that by (auto simp: rules_ok_def distinct_map inj_on_def)
  have ids: "map ID (map ?g (rules db)) = map ID (rules db)" by (simp add: f(1))
  have "inj_on (\<lambda>r. rule_key (?g r)) (set (rules db))"
  proof (rule inj_onI)
    fix x y assume xy: "x \<in> set (rules db)" "y \<in> set (rules db)" "rule_key (?g x) = rule_key (?g y)"
    have inj: "inj_on rule_key (set (rules db))" using ok by (simp add: rules_ok_def distinct_map)
    show "x = y"
    proof (cases "ID x = i"; cases "ID y = i")
      assume "ID x = i" "ID y = i"
      with xy uniq show ?thesis by blast
    next
      assume "ID x = i" "ID y \<noteq> i"
      with xy uniq [of x] key show ?thesis by force
    next
      assume "ID x \<noteq> i" "ID y = i"
      with xy uniq [of y] have "rule_key (f r0) = rule_key x" "x \<in> {r \<in> set (rules db). ID r \<noteq> i}" by auto
      with key show ?thesis by (metis imageI)
    next
      assume "ID x \<noteq> i" "ID y \<noteq> i"
      with xy inj show ?thesis by (simp add: inj_on_eq_iff)
    qed
  qed
  moreover have "distinct (rules db)" using ok by (auto simp: rules_ok_def distinct_map)
  ultimately have "distinct (map rule_key (map ?g (rules db)))" by (simp add: distinct_map comp_def)
  moreover have "\<forall>r \<in> set (map ?g (rules db)). ID r < next_rule db \<and> rule_check r"
    using uniq f(1,2) ok by (auto simp: rules_ok_def)
  moreover have "distinct (map ID (map ?g (rules db)))" unfolding ids using ok by (simp add: rules_ok_def)
  ultimately show ?thesis unfolding rules_ok_def by simp
qed

lemma GetRule_Some: "GetRule db i = Some r \<Longrightarrow> r \<in> set (rules db) \<and> ID r = i"
  unfolding GetRule_def using find_eq_Some by fastforce

lemma UpdateRule_rules_ok:
  assumes "rules_ok db" "UpdateRule db i u = (db', res)"
  shows "rules_ok db'"
proof (cases "db' = db")
  case False
  then obtain r where r: "GetRule db i = Some r" "rule_check (apply_update u r)"
    "rule_key (apply_update u r) \<notin> rule_key ` set (filter (\<lambda>x. ID x \<noteq> i) (rules db))"
    "db' = db\<lparr>rules := map (\<lambda>x. if ID x = i then apply_update u x else x) (rules db)\<rparr>"
    using assms(2) by (auto simp: UpdateRule_def Let_def split: if_splits option.splits)
  then show ?thesis
    using rules_ok_replace [OF assms(1), of "apply_update u" r i] GetRule_Some [OF r(1)] by simp
qed (use assms in simp)

lemma touch_rule_simps [simp]:
  "sessions (touch_rule now db i) = sessions db" "pendings (touch_rule now db i) = pendings db"
  "next_rule (touch_rule now db i) = next_rule db" "logs (touch_rule now db i) = logs db"
  "next_log (touch_rule now db i) = next_log db" "foreign_keys (touch_rule now db i) = foreign_keys db"
  by (simp_all add: touch_rule_def)

lemma rules_ok_map_same:
  assumes "rules_ok db" "next_rule db' = next_rule db" "rules db' = map f (rules db)"
    and "\<And>r. ID (f r) = ID r" "\<And>r. rule_key (f r) = rule_key r" "\<And>r. rule_check (f r) = rule_check r"
  shows "rules_ok db'"
proof -
  from assms have keep: "map ID (rules db') = map ID (rules db)" "map rule_key (rules db') = map rule_key (rules db)"
    by (simp_all add: comp_def)
  have "\<forall>r \<in> set (rules db'). ID r < next_rule db' \<and> rule_check r" using assms by (auto simp: rules_ok_def)
  with keep assms(1) show ?thesis unfolding rules_ok_def by simp
qed

lemma touch_rule_rules_ok [intro]: "rules_ok db \<Longrightarrow> rules_ok (touch_rule now db i)"
  by (erule rules_ok_map_same [where f = "\<lambda>r. if ID r = i then r\<lparr>LastUsedAt := Some now\<rparr> else r"])
     (auto simp: touch_rule_def rule_key_def rule_check_def)

lemma DeleteRule_rules_ok: "rules_ok db \<Longrightarrow> DeleteRule db i = (db', b) \<Longrightarrow> rules_ok db'"
  by (auto simp: DeleteRule_def)

end
