(* ===== verification/Sessions.thy ===== *)
theory Sessions
  imports Store
begin

text \<open>
  \<^verbatim>\<open>internal/greyproxy/credential_crud.go\<close>: the sessions table. A session belongs to a container,
  lives for a TTL that heartbeats renew, and brings network rules that carry its id. JSON marshalling
  and the encryption of the credential mappings are parameters. The lemmas say that the session
  operations keep the rules table well formed, and that no rule outlives the session it belongs to
  (the schema has no foreign key for this: the order of the statements does it).
\<close>

section \<open>Operations\<close>

record SessionNetworkRule =
  nr_destination :: string
  nr_port :: string
  nr_action :: string
  nr_notes :: string

record SessionCreateInput =
  si_session_id :: string
  si_container :: string
  si_mappings :: "(string \<rightharpoonup> string) option"
  si_labels :: "(string \<rightharpoonup> string) option"
  si_metadata :: "(string \<rightharpoonup> string) option"
  si_ttl :: int
  si_network_rules :: "SessionNetworkRule list"
  si_allow_all :: bool

definition getSessionLocked :: "DB \<Rightarrow> string \<Rightarrow> Session option" where
  "getSessionLocked db sid = find (\<lambda>s. sess_id s = sid) (sessions db)"

definition GetSession :: "DB \<Rightarrow> string \<Rightarrow> Session option" where
  "GetSession db sid = getSessionLocked db sid"

text \<open>
  \<^verbatim>\<open>INSERT ... ON CONFLICT(session_id) DO UPDATE\<close>: the conflicting row keeps its place, its creation
  time and its substitution count.
\<close>

definition upsert_session :: "DB \<Rightarrow> Session \<Rightarrow> DB" where
  "upsert_session db s =
     (if sess_id s \<in> sess_id ` set (sessions db)
      then db\<lparr>sessions := map (\<lambda>old. if sess_id old = sess_id s
               then s\<lparr>sess_created := sess_created old, SubstitutionCount := SubstitutionCount old\<rparr>
               else old) (sessions db)\<rparr>
      else db\<lparr>sessions := sessions db @ [s]\<rparr>)"

text \<open>\<^verbatim>\<open>INSERT OR IGNORE INTO rules\<close>: a row that violates a constraint is skipped.\<close>

definition insert_or_ignore :: "DB \<Rightarrow> Rule \<Rightarrow> DB" where
  "insert_or_ignore db r = (case insert_rule db r of Ok (db', _) \<Rightarrow> db' | _ \<Rightarrow> db)"

definition session_rule :: "clock \<Rightarrow> SessionCreateInput \<Rightarrow> int \<Rightarrow> SessionNetworkRule \<Rightarrow> Rule" where
  "session_rule ck input ttl nr =
     \<lparr>ID = 0, ContainerPattern = si_container input, DestinationPattern = nr_destination nr,
      PortPattern = or_default (nr_port nr) ''*'', RuleType = ''temporary'',
      Action = or_default (nr_action nr) ''allow'', CreatedAt = sql_now ck,
      ExpiresAt = Some (sql_after ck ttl), LastUsedAt = None,
      CreatedBy = ''session:'' @ si_session_id input, Notes = Some (nr_notes nr),
      SessionID = Some (si_session_id input)\<rparr>"

text \<open>The row that the upsert writes; absent metadata is stored as the empty object.\<close>

definition session_row ::
  "((string \<rightharpoonup> string) option \<Rightarrow> string) \<Rightarrow> clock \<Rightarrow> SessionCreateInput \<Rightarrow> int \<Rightarrow> byte list \<Rightarrow> Session" where
  "session_row marshal ck input ttl mappingsEnc =
     \<lparr>sess_id = si_session_id input, sess_container = si_container input, MappingsEnc = mappingsEnc,
      LabelsJSON = marshal (si_labels input),
      MetadataJSON = marshal (case si_metadata input of None \<Rightarrow> Some Map.empty | Some m \<Rightarrow> Some m),
      TTLSeconds = ttl, sess_created = sql_now ck, sess_expires = sql_after ck ttl,
      LastHeartbeat = sql_now ck, SubstitutionCount = 0, AllowAll = si_allow_all input\<rparr>"

definition CreateOrUpdateSession ::
  "((string \<rightharpoonup> string) option \<Rightarrow> string) \<Rightarrow> (string \<Rightarrow> byte list go) \<Rightarrow> clock \<Rightarrow> DB \<Rightarrow>
   SessionCreateInput \<Rightarrow> DB \<times> Session option go" where
  "CreateOrUpdateSession marshal encrypt ck db input =
     (let ttl = (if si_ttl input \<le> 0 then 900 else si_ttl input) in
      case encrypt (marshal (si_mappings input)) of
        Fail e \<Rightarrow> (db, Fail e)
      | Panic \<Rightarrow> (db, Panic)
      | Ok mappingsEnc \<Rightarrow>
          let db1 = upsert_session db (session_row marshal ck input ttl mappingsEnc);
              db2 = delete_rules (\<lambda>r. SessionID r = Some (si_session_id input)) db1;
              db3 = foldl insert_or_ignore db2 (map (session_rule ck input ttl) (si_network_rules input))
          in (db3, Ok (getSessionLocked db3 (si_session_id input))))"

definition sess_active :: "string \<Rightarrow> Session \<Rightarrow> bool" where
  "sess_active now s \<longleftrightarrow> now < sess_expires s"

definition HeartbeatSession :: "clock \<Rightarrow> DB \<Rightarrow> string \<Rightarrow> DB \<times> Session option" where
  "HeartbeatSession ck db sid =
     (let hit = (\<lambda>s. sess_id s = sid \<and> sess_active (sql_now ck) s);
          db1 = db\<lparr>sessions := map (\<lambda>s. if hit s
                  then s\<lparr>sess_expires := sql_after ck (TTLSeconds s), LastHeartbeat := sql_now ck\<rparr>
                  else s) (sessions db)\<rparr>
      in if filter hit (sessions db) = [] then (db, None)
         else let e = map_option sess_expires (find (\<lambda>s. sess_id s = sid) (sessions db1));
                  db2 = db1\<lparr>rules := map (\<lambda>r. if SessionID r = Some sid then r\<lparr>ExpiresAt := e\<rparr> else r) (rules db1)\<rparr>
              in (db2, getSessionLocked db2 sid))"

definition DeleteSession :: "DB \<Rightarrow> string \<Rightarrow> DB \<times> bool" where
  "DeleteSession db sid =
     (let db1 = delete_rules (\<lambda>r. SessionID r = Some sid) db
      in (db1\<lparr>sessions := filter (\<lambda>s. sess_id s \<noteq> sid) (sessions db1)\<rparr>,
          0 < length (filter (\<lambda>s. sess_id s = sid) (sessions db1))))"

definition ListSessions :: "string \<Rightarrow> DB \<Rightarrow> Session list" where
  "ListSessions now db = sort_desc sess_created (filter (sess_active now) (sessions db))"

definition DeleteExpiredSessions :: "string \<Rightarrow> DB \<Rightarrow> DB \<times> string list" where
  "DeleteExpiredSessions now db =
     (let ids = map sess_id (filter (\<lambda>s. \<not> sess_active now s) (sessions db)) in
      if 0 < length ids then
        (let db1 = foldl (\<lambda>d i. delete_rules (\<lambda>r. SessionID r = Some i) d) db ids
         in (db1\<lparr>sessions := filter (sess_active now) (sessions db1)\<rparr>, ids))
      else (db, ids))"

definition IsContainerAllowAll :: "string \<Rightarrow> DB \<Rightarrow> string \<Rightarrow> bool" where
  "IsContainerAllowAll now db c \<longleftrightarrow>
     0 < length (filter (\<lambda>s. sess_container s = c \<and> AllowAll s \<and> sess_active now s) (sessions db))"

definition GetSessionRuleCount :: "DB \<Rightarrow> string \<Rightarrow> nat" where
  "GetSessionRuleCount db sid = length (filter (\<lambda>r. SessionID r = Some sid) (rules db))"

definition IncrementSubstitutionCount :: "DB \<Rightarrow> string \<Rightarrow> int \<Rightarrow> DB" where
  "IncrementSubstitutionCount db sid delta =
     db\<lparr>sessions := map (\<lambda>s. if sess_id s = sid then s\<lparr>SubstitutionCount := SubstitutionCount s + delta\<rparr> else s)
                       (sessions db)\<rparr>"

definition LoadAllSessions :: "DB \<Rightarrow> Session list" where
  "LoadAllSessions db = sort_key sess_created (sessions db)"

section \<open>Invariants\<close>

definition sessions_ok :: "DB \<Rightarrow> bool" where
  "sessions_ok db \<longleftrightarrow> distinct (map sess_id (sessions db))"

text \<open>Every rule that names a session names one of the table.\<close>

definition session_refs_ok :: "DB \<Rightarrow> bool" where
  "session_refs_ok db \<longleftrightarrow>
     (\<forall>r \<in> set (rules db). \<forall>s. SessionID r = Some s \<longrightarrow> s \<in> sess_id ` set (sessions db))"

lemma session_refs_okD: "session_refs_ok db \<Longrightarrow> r \<in> set (rules db) \<Longrightarrow> SessionID r = Some s \<Longrightarrow>
  s \<in> sess_id ` set (sessions db)"
  by (fastforce simp: session_refs_ok_def)

lemma session_refs_okI:
  "(\<And>r s. r \<in> set (rules db) \<Longrightarrow> SessionID r = Some s \<Longrightarrow> s \<in> sess_id ` set (sessions db)) \<Longrightarrow> session_refs_ok db"
  by (auto simp: session_refs_ok_def split: option.splits)

text \<open>Deleting rules and adding sessions keep the references good.\<close>

lemma session_refs_ok_mono:
  assumes "session_refs_ok db" "SessionID ` set (rules db') \<subseteq> insert None (SessionID ` set (rules db))"
    "sess_id ` set (sessions db) \<subseteq> sess_id ` set (sessions db')"
  shows "session_refs_ok db'"
proof (rule session_refs_okI)
  fix r s assume "r \<in> set (rules db')" "SessionID r = Some s"
  with assms(2) have "Some s \<in> SessionID ` set (rules db)" by force
  then obtain r0 where "r0 \<in> set (rules db)" "SessionID r0 = Some s" by auto
  with session_refs_okD [OF assms(1)] assms(3) show "s \<in> sess_id ` set (sessions db')" by blast
qed

lemma upsert_simps [simp]:
  "rules (upsert_session db s) = rules db" "next_rule (upsert_session db s) = next_rule db"
  "logs (upsert_session db s) = logs db" "pendings (upsert_session db s) = pendings db"
  "next_log (upsert_session db s) = next_log db" "next_pending (upsert_session db s) = next_pending db"
  "foreign_keys (upsert_session db s) = foreign_keys db"
  by (simp_all add: upsert_session_def)

lemma map_sess_id_upd: "map sess_id (map (\<lambda>old. if sess_id old = i then f old else old) xs) = map sess_id xs"
  if "\<And>old. sess_id old = i \<Longrightarrow> sess_id (f old) = i"
  using that by (induction xs) auto

lemma upsert_map_ids:
  "map sess_id (sessions (upsert_session db s)) =
     (if sess_id s \<in> sess_id ` set (sessions db) then map sess_id (sessions db)
      else map sess_id (sessions db) @ [sess_id s])"
  by (simp add: upsert_session_def map_sess_id_upd del: map_map)

lemma upsert_ids [simp]:
  "sess_id ` set (sessions (upsert_session db s)) = insert (sess_id s) (sess_id ` set (sessions db))"
proof -
  have "set (map sess_id (sessions (upsert_session db s))) = insert (sess_id s) (sess_id ` set (sessions db))"
    unfolding upsert_map_ids by auto
  then show ?thesis by simp
qed

lemma upsert_sessions_ok: "sessions_ok db \<Longrightarrow> sessions_ok (upsert_session db s)"
  by (simp add: sessions_ok_def upsert_map_ids)

lemma upsert_mem:
  "\<exists>old :: Session. s\<lparr>sess_created := sess_created old, SubstitutionCount := SubstitutionCount old\<rparr>
     \<in> set (sessions (upsert_session db s))"
proof (cases "sess_id s \<in> sess_id ` set (sessions db)")
  case True
  then obtain o0 where "o0 \<in> set (sessions db)" "sess_id o0 = sess_id s" by force
  then have "s\<lparr>sess_created := sess_created o0, SubstitutionCount := SubstitutionCount o0\<rparr>
    \<in> (\<lambda>old. if sess_id old = sess_id s
        then s\<lparr>sess_created := sess_created old, SubstitutionCount := SubstitutionCount old\<rparr> else old) `
       set (sessions db)" by (intro image_eqI [of _ _ o0]) simp_all
  with True show ?thesis by (intro exI [of _ o0]) (simp add: upsert_session_def)
next
  case False
  then show ?thesis by (intro exI [of _ s]) (simp add: upsert_session_def)
qed

lemma insert_or_ignore_cases:
  obtains "insert_or_ignore db r = db"
  | "rule_check r" "insert_rule db r = Ok (insert_or_ignore db r, next_rule db)"
  by (cases "insert_rule db r") (auto simp: insert_or_ignore_def insert_rule_def split: if_splits)

lemma insert_or_ignore_frame [simp]:
  "sessions (insert_or_ignore db r) = sessions db" "pendings (insert_or_ignore db r) = pendings db"
  "logs (insert_or_ignore db r) = logs db" "next_pending (insert_or_ignore db r) = next_pending db"
  "next_log (insert_or_ignore db r) = next_log db" "foreign_keys (insert_or_ignore db r) = foreign_keys db"
  by (auto simp: insert_or_ignore_def insert_rule_def)

lemma insert_or_ignore_rules:
  "rules (insert_or_ignore db r) =
     (if rule_check r \<and> rule_key r \<notin> rule_key ` set (rules db) then rules db @ [r\<lparr>ID := next_rule db\<rparr>] else rules db)"
  by (simp add: insert_or_ignore_def insert_rule_def)

lemma foldl_ignore_frame [simp]:
  "sessions (foldl insert_or_ignore db rs) = sessions db" "pendings (foldl insert_or_ignore db rs) = pendings db"
  "logs (foldl insert_or_ignore db rs) = logs db" "next_pending (foldl insert_or_ignore db rs) = next_pending db"
  "next_log (foldl insert_or_ignore db rs) = next_log db"
  "foreign_keys (foldl insert_or_ignore db rs) = foreign_keys db"
  by (induction rs arbitrary: db) simp_all

lemma insert_or_ignore_rules_ok: "rules_ok db \<Longrightarrow> rules_ok (insert_or_ignore db r)"
  by (rule insert_or_ignore_cases [of db r]) (auto intro: rules_ok_insert)

lemma foldl_ignore_rules_ok: "rules_ok db \<Longrightarrow> rules_ok (foldl insert_or_ignore db rs)"
  by (induction rs arbitrary: db) (auto intro: insert_or_ignore_rules_ok)

text \<open>What a run of ignoring inserts leaves: old rows stay, and every new row is one of the list.\<close>

lemma foldl_ignore_mono: "set (rules db) \<subseteq> set (rules (foldl insert_or_ignore db rs))"
proof (induction rs arbitrary: db)
  case (Cons r rs)
  have "set (rules db) \<subseteq> set (rules (insert_or_ignore db r))" by (auto simp: insert_or_ignore_rules)
  with Cons [of "insert_or_ignore db r"] show ?case by auto
qed simp

lemma foldl_ignore_new:
  "x \<in> set (rules (foldl insert_or_ignore db rs)) \<Longrightarrow>
   x \<in> set (rules db) \<or> (\<exists>r \<in> set rs. \<exists>i. x = r\<lparr>ID := i\<rparr> \<and> rule_check r)"
proof (induction rs arbitrary: db)
  case (Cons r rs)
  from Cons.IH [of "insert_or_ignore db r"] Cons.prems show ?case
    by (auto simp: insert_or_ignore_rules split: if_splits)
qed simp

lemma foldl_ignore_key:
  "r \<in> set rs \<Longrightarrow> rule_check r \<Longrightarrow> rule_key r \<in> rule_key ` set (rules (foldl insert_or_ignore db rs))"
proof (induction rs arbitrary: db)
  case (Cons x rs)
  show ?case
  proof (cases "r = x")
    case True
    with Cons.prems have "rule_key r \<in> rule_key ` set (rules (insert_or_ignore db x))"
      by (auto simp: insert_or_ignore_rules)
    with foldl_ignore_mono show ?thesis by (fastforce simp: True)
  next
    case False
    with Cons show ?thesis by simp
  qed
qed simp

section \<open>Every operation keeps the tables well formed\<close>

definition store_ok :: "DB \<Rightarrow> bool" where
  "store_ok db \<longleftrightarrow> rules_ok db \<and> sessions_ok db \<and> session_refs_ok db"

lemma store_okI: "rules_ok db \<Longrightarrow> sessions_ok db \<Longrightarrow> session_refs_ok db \<Longrightarrow> store_ok db"
  by (simp add: store_ok_def)

lemma store_okD: "store_ok db \<Longrightarrow> rules_ok db" "store_ok db \<Longrightarrow> sessions_ok db" "store_ok db \<Longrightarrow> session_refs_ok db"
  by (simp_all add: store_ok_def)

lemma CreateOrUpdateSession_store_ok:
  assumes "store_ok db" "CreateOrUpdateSession marshal encrypt ck db input = (db', res)"
  shows "store_ok db'"
proof (cases "encrypt (marshal (si_mappings input))")
  case (Ok enc)
  let ?sid = "si_session_id input" and ?ttl = "if si_ttl input \<le> 0 then 900 else si_ttl input"
  let ?s = "session_row marshal ck input ?ttl enc"
  have sid: "sess_id ?s = ?sid" by (simp add: session_row_def)
  have db': "db' = foldl insert_or_ignore (delete_rules (\<lambda>r. SessionID r = Some ?sid) (upsert_session db ?s))
                  (map (session_rule ck input ?ttl) (si_network_rules input))"
    using assms(2) Ok by (auto simp: CreateOrUpdateSession_def Let_def)
  note ok = store_okD [OF assms(1)]
  have "rules_ok (upsert_session db ?s)" using ok(1) by (simp add: rules_ok_def)
  then have "rules_ok db'" unfolding db' by (intro foldl_ignore_rules_ok rules_ok_delete)
  moreover have "sessions_ok db'"
    unfolding db' using upsert_sessions_ok [OF ok(2)] by (simp add: sessions_ok_def)
  moreover have "session_refs_ok db'"
  proof (rule session_refs_okI)
    fix r t assume "r \<in> set (rules db')" "SessionID r = Some t"
    then have "(r \<in> set (rules db)) \<or> t = ?sid"
      unfolding db' by (auto dest!: foldl_ignore_new simp: session_rule_def)
    with session_refs_okD [OF ok(3)] \<open>SessionID r = Some t\<close>
    show "t \<in> sess_id ` set (sessions db')" unfolding db' by (auto simp: sid)
  qed
  ultimately show ?thesis by (rule store_okI)
qed (use assms in \<open>simp_all add: CreateOrUpdateSession_def Let_def\<close>)

lemma HeartbeatSession_store_ok:
  assumes "store_ok db" "HeartbeatSession ck db sid = (db', res)"
  shows "store_ok db'"
proof (cases "db' = db")
  case False
  let ?f = "\<lambda>s. if sess_id s = sid \<and> sess_active (sql_now ck) s
     then s\<lparr>sess_expires := sql_after ck (TTLSeconds s), LastHeartbeat := sql_now ck\<rparr> else s"
  define e where "e = map_option sess_expires (find (\<lambda>s. sess_id s = sid) (map ?f (sessions db)))"
  from False assms(2) have
    db': "sessions db' = map ?f (sessions db)" "next_rule db' = next_rule db"
      "rules db' = map (\<lambda>r. if SessionID r = Some sid then r\<lparr>ExpiresAt := e\<rparr> else r) (rules db)"
    by (auto simp: HeartbeatSession_def Let_def e_def split: if_splits)
  note ok = store_okD [OF assms(1)]
  have "rules_ok db'"
    by (rule rules_ok_map_same [OF ok(1) db'(2,3)]) (auto simp: rule_key_def rule_check_def)
  moreover have ids: "map sess_id (sessions db') = map sess_id (sessions db)" by (simp add: db')
  moreover have "map SessionID (rules db') = map SessionID (rules db)" by (simp add: db')
  with ids have "session_refs_ok db'" using ok(3)
    by (intro session_refs_ok_mono [OF ok(3)]) (metis list.set_map order_refl subset_insertI2)+
  ultimately show ?thesis using ok by (simp add: store_ok_def sessions_ok_def)
qed (use assms in simp)

lemma DeleteSession_store_ok:
  assumes "store_ok db" "DeleteSession db sid = (db', b)"
  shows "store_ok db'"
proof -
  note ok = store_okD [OF assms(1)]
  from assms(2) have db': "rules db' = filter (\<lambda>r. SessionID r \<noteq> Some sid) (rules db)"
    "next_rule db' = next_rule db" "sessions db' = filter (\<lambda>s. sess_id s \<noteq> sid) (sessions db)"
    by (auto simp: DeleteSession_def Let_def)
  have "session_refs_ok db'"
    using ok(3) by (intro session_refs_okI) (auto simp: db' image_iff dest!: session_refs_okD)
  with ok db' rules_ok_filter [OF ok(1)] show ?thesis
    by (simp add: store_ok_def sessions_ok_def distinct_map_filter)
qed

lemma foldl_delete_rules:
  "rules (foldl (\<lambda>d i. delete_rules (\<lambda>r. SessionID r = Some i) d) db ids) =
     filter (\<lambda>r. SessionID r \<notin> Some ` set ids) (rules db)"
  "sessions (foldl (\<lambda>d i. delete_rules (\<lambda>r. SessionID r = Some i) d) db ids) = sessions db"
  "next_rule (foldl (\<lambda>d i. delete_rules (\<lambda>r. SessionID r = Some i) d) db ids) = next_rule db"
proof (induction ids arbitrary: db)
  case (Cons i ids)
  { case 1 show ?case by (simp add: Cons(1) conj_commute) }
  { case 2 show ?case by (simp add: Cons(2)) }
  { case 3 show ?case by (simp add: Cons(3)) }
qed simp_all

lemma DeleteExpiredSessions_tables:
  assumes "DeleteExpiredSessions now db = (db', ids)"
  shows "ids = map sess_id (filter (\<lambda>s. \<not> sess_active now s) (sessions db))"
    "rules db' = filter (\<lambda>r. SessionID r \<notin> Some ` set ids) (rules db)"
    "sessions db' = filter (sess_active now) (sessions db)" "next_rule db' = next_rule db"
  using assms
  by (auto simp: DeleteExpiredSessions_def Let_def foldl_delete_rules filter_empty_conv filter_id_conv
           split: if_splits)

lemma DeleteExpiredSessions_store_ok:
  assumes "store_ok db" "DeleteExpiredSessions now db = (db', ids)"
  shows "store_ok db'"
proof -
  note ok = store_okD [OF assms(1)] and tab = DeleteExpiredSessions_tables [OF assms(2)]
  have "session_refs_ok db'"
  proof (rule session_refs_okI)
    fix r t assume r: "r \<in> set (rules db')" "SessionID r = Some t"
    then have "t \<in> sess_id ` set (sessions db)" "t \<notin> set ids"
      using session_refs_okD [OF ok(3)] by (auto simp: tab(2))
    then show "t \<in> sess_id ` set (sessions db')" by (auto simp: tab(1,3))
  qed
  with ok tab rules_ok_filter [OF ok(1)] show ?thesis
    by (simp add: store_ok_def sessions_ok_def distinct_map_filter)
qed

lemma IncrementSubstitutionCount_store_ok:
  "store_ok db \<Longrightarrow> store_ok (IncrementSubstitutionCount db sid d)"
proof -
  assume ok: "store_ok db"
  let ?d = "IncrementSubstitutionCount db sid d"
  have ids: "map sess_id (sessions ?d) = map sess_id (sessions db)"
    unfolding IncrementSubstitutionCount_def by (simp add: map_sess_id_upd del: map_map)
  then have ims: "sess_id ` set (sessions ?d) = sess_id ` set (sessions db)" by (metis list.set_map)
  have rls: "rules ?d = rules db" "next_rule ?d = next_rule db" by (simp_all add: IncrementSubstitutionCount_def)
  have "session_refs_ok ?d"
    by (rule session_refs_ok_mono [OF store_okD(3) [OF ok]]) (auto simp: ims rls)
  with ok show ?thesis by (simp add: store_ok_def sessions_ok_def rules_ok_def ids rls)
qed


section \<open>What the operations do\<close>

lemma getSession_upserted:
  assumes "sessions_ok db" "sessions d = sessions (upsert_session db s)"
  shows "\<exists>old :: Session. getSessionLocked d (sess_id s) =
    Some (s\<lparr>sess_created := sess_created old, SubstitutionCount := SubstitutionCount old\<rparr>)"
proof -
  obtain old :: Session where "s\<lparr>sess_created := sess_created old, SubstitutionCount := SubstitutionCount old\<rparr>
    \<in> set (sessions (upsert_session db s))" using upsert_mem by blast
  moreover have "distinct (map sess_id (sessions d))"
    using upsert_sessions_ok [OF assms(1), of s] assms(2) by (simp add: sessions_ok_def)
  ultimately show ?thesis
    unfolding getSessionLocked_def assms(2)
    by (intro exI [of _ old] find_by_key [where k = sess_id]) (simp_all add: assms(2))
qed

definition eff_ttl :: "SessionCreateInput \<Rightarrow> int" where
  "eff_ttl input = (if si_ttl input \<le> 0 then 900 else si_ttl input)"

lemma eff_ttl_pos: "0 < eff_ttl input"
  by (simp add: eff_ttl_def)

lemma rule_key_session_rule:
  "rule_key (session_rule ck input ttl nr) =
     (si_container input, nr_destination nr, or_default (nr_port nr) ''*'', or_default (nr_action nr) ''allow'')"
  by (simp add: rule_key_def session_rule_def)

lemma CreateOrUpdateSession_Ok:
  assumes "encrypt (marshal (si_mappings input)) = Ok enc"
    and "CreateOrUpdateSession marshal encrypt ck db input = (db', res)"
  shows "db' = foldl insert_or_ignore (delete_rules (\<lambda>r. SessionID r = Some (si_session_id input))
             (upsert_session db (session_row marshal ck input (eff_ttl input) enc)))
             (map (session_rule ck input (eff_ttl input)) (si_network_rules input))"
    and "res = Ok (getSessionLocked db' (si_session_id input))"
  using assms by (auto simp: CreateOrUpdateSession_def Let_def eff_ttl_def)

lemma session_rule_set:
  assumes "db' = foldl insert_or_ignore (delete_rules (\<lambda>r. SessionID r = Some sid) d)
                   (map (session_rule ck input ttl) nrs)"
    and "r \<in> set (rules db')"
  shows "r \<in> set (rules d) \<and> SessionID r \<noteq> Some sid \<or>
         (\<exists>nr \<in> set nrs. \<exists>i. r = (session_rule ck input ttl nr)\<lparr>ID := i\<rparr>)"
proof -
  from assms(2) have "r \<in> set (rules (delete_rules (\<lambda>r. SessionID r = Some sid) d)) \<or>
    (\<exists>x \<in> set (map (session_rule ck input ttl) nrs). \<exists>i. r = x\<lparr>ID := i\<rparr> \<and> rule_check x)"
    unfolding assms(1) by (rule foldl_ignore_new)
  then show ?thesis unfolding set_map by auto
qed

text \<open>
  Creating or refreshing a session returns it with the requested container and allow-all flag,
  and active from now on. Afterwards the rules of the session are rows made from the submitted
  network rules; the key of each submitted rule with a valid action is in the table; and the rules
  that belong to no session or to another one are untouched.
\<close>

theorem create_session_effect:
  assumes "store_ok db" "clock_ok ck" "encrypt (marshal (si_mappings input)) = Ok enc"
    and "CreateOrUpdateSession marshal encrypt ck db input = (db', res)"
  shows "(\<exists>s. res = Ok (Some s) \<and> GetSession db' (si_session_id input) = Some s \<and>
            sess_container s = si_container input \<and> AllowAll s = si_allow_all input \<and> sess_active (sql_now ck) s) \<and>
    (\<forall>r \<in> set (rules db'). SessionID r = Some (si_session_id input) \<longrightarrow>
       (\<exists>nr \<in> set (si_network_rules input). rule_key r =
          (si_container input, nr_destination nr, or_default (nr_port nr) ''*'', or_default (nr_action nr) ''allow''))) \<and>
    (\<forall>nr \<in> set (si_network_rules input). or_default (nr_action nr) ''allow'' \<in> {''allow'', ''deny''} \<longrightarrow>
       (si_container input, nr_destination nr, or_default (nr_port nr) ''*'', or_default (nr_action nr) ''allow'')
         \<in> rule_key ` set (rules db')) \<and>
    {r \<in> set (rules db'). SessionID r \<noteq> Some (si_session_id input)} =
    {r \<in> set (rules db). SessionID r \<noteq> Some (si_session_id input)}"
proof (intro conjI)
  let ?sid = "si_session_id input" and ?ttl = "eff_ttl input"
  let ?s = "session_row marshal ck input ?ttl enc" and ?rs = "map (session_rule ck input ?ttl) (si_network_rules input)"
  let ?d = "delete_rules (\<lambda>r. SessionID r = Some ?sid) (upsert_session db ?s)"
  note db' = CreateOrUpdateSession_Ok(1) [where encrypt = encrypt and marshal = marshal and input = input, OF assms(3,4)]
  note res = CreateOrUpdateSession_Ok(2) [where encrypt = encrypt and marshal = marshal and input = input, OF assms(3,4)]
  note new = session_rule_set [OF db']
  have "sessions db' = sessions (upsert_session db ?s)" by (simp add: db')
  from getSession_upserted [OF store_okD(2) [OF assms(1)] this] obtain old :: Session where
    old: "getSessionLocked db' ?sid =
      Some (?s\<lparr>sess_created := sess_created old, SubstitutionCount := SubstitutionCount old\<rparr>)"
    by (auto simp: session_row_def)
  have "sql_now ck < sql_after ck ?ttl" using assms(2) eff_ttl_pos by (simp add: clock_ok_def)
  with old show "\<exists>s. res = Ok (Some s) \<and> GetSession db' ?sid = Some s \<and> sess_container s = si_container input \<and>
      AllowAll s = si_allow_all input \<and> sess_active (sql_now ck) s"
    by (simp add: res GetSession_def session_row_def sess_active_def)
  show "\<forall>r \<in> set (rules db'). SessionID r = Some ?sid \<longrightarrow> (\<exists>nr \<in> set (si_network_rules input). rule_key r =
      (si_container input, nr_destination nr, or_default (nr_port nr) ''*'', or_default (nr_action nr) ''allow''))"
    using new rule_key_session_rule by (metis rule_key_ID(1))
  show "\<forall>nr \<in> set (si_network_rules input). or_default (nr_action nr) ''allow'' \<in> {''allow'', ''deny''} \<longrightarrow>
      (si_container input, nr_destination nr, or_default (nr_port nr) ''*'', or_default (nr_action nr) ''allow'')
        \<in> rule_key ` set (rules db')"
  proof (intro ballI impI)
    fix nr assume "nr \<in> set (si_network_rules input)" "or_default (nr_action nr) ''allow'' \<in> {''allow'', ''deny''}"
    then have "session_rule ck input ?ttl nr \<in> set ?rs" "rule_check (session_rule ck input ?ttl nr)"
      by (auto simp: rule_check_def session_rule_def)
    from foldl_ignore_key [OF this, of ?d] show "(si_container input, nr_destination nr,
      or_default (nr_port nr) ''*'', or_default (nr_action nr) ''allow'') \<in> rule_key ` set (rules db')"
      unfolding db' [symmetric] rule_key_session_rule .
  qed
  have "set (rules ?d) \<subseteq> set (rules db')" unfolding db' by (rule foldl_ignore_mono)
  with new show "{r \<in> set (rules db'). SessionID r \<noteq> Some ?sid} = {r \<in> set (rules db). SessionID r \<noteq> Some ?sid}"
    by (fastforce simp: session_rule_def)
qed

text \<open>
  Deleting a session removes its row and every rule that carries its id, reports whether the
  session existed, and keeps all other sessions and rules.
\<close>

theorem delete_session_complete:
  "sessions (fst (DeleteSession db sid)) = filter (\<lambda>s. sess_id s \<noteq> sid) (sessions db) \<and>
   rules (fst (DeleteSession db sid)) = filter (\<lambda>r. SessionID r \<noteq> Some sid) (rules db) \<and>
   GetSessionRuleCount (fst (DeleteSession db sid)) sid = 0 \<and>
   (snd (DeleteSession db sid) \<longleftrightarrow> GetSession db sid \<noteq> None)"
  by (auto simp: DeleteSession_def Let_def GetSessionRuleCount_def GetSession_def getSessionLocked_def
                 find_eq_None filter_empty_conv)

text \<open>
  After a sweep of expired sessions, the sessions left are the active ones, and every rule that
  still belongs to a session belongs to an active one.
\<close>

theorem expired_sessions_leave_no_rules:
  assumes "store_ok db"
  shows "sessions (fst (DeleteExpiredSessions now db)) = filter (sess_active now) (sessions db) \<and>
    (\<forall>r \<in> set (rules (fst (DeleteExpiredSessions now db))). \<forall>t. SessionID r = Some t \<longrightarrow>
       (\<exists>s \<in> set (sessions db). sess_id s = t \<and> sess_active now s)) \<and>
    {r \<in> set (rules db). SessionID r = None} \<subseteq> set (rules (fst (DeleteExpiredSessions now db)))"
proof -
  obtain db' ids where d: "DeleteExpiredSessions now db = (db', ids)" by fastforce
  note tab = DeleteExpiredSessions_tables [OF d]
  have "store_ok db'" using DeleteExpiredSessions_store_ok [OF assms d] .
  then have "session_refs_ok db'" by (rule store_okD)
  then show ?thesis by (fastforce simp: d tab dest: session_refs_okD)
qed

text \<open>
  A heartbeat renews an active session: its expiry and that of all its rules move to the same
  later time. A session that has expired, or does not exist, is not revived: nothing changes.
\<close>

theorem heartbeat_renews_or_refuses:
  assumes "store_ok db" "clock_ok ck" "\<forall>s \<in> set (sessions db). 0 < TTLSeconds s"
  shows "(case GetSession db sid of
            Some s \<Rightarrow>
              if sess_active (sql_now ck) s
              then (\<exists>db' s'. HeartbeatSession ck db sid = (db', Some s') \<and>
                      sess_expires s' = sql_after ck (TTLSeconds s) \<and> sess_active (sql_now ck) s' \<and>
                      (\<forall>r \<in> set (rules db'). SessionID r = Some sid \<longrightarrow>
                         ExpiresAt r = Some (sess_expires s') \<and> live (sql_now ck) r))
              else HeartbeatSession ck db sid = (db, None)
          | None \<Rightarrow> HeartbeatSession ck db sid = (db, None))"
proof -
  let ?hit = "\<lambda>s. sess_id s = sid \<and> sess_active (sql_now ck) s"
  let ?f = "\<lambda>s. if ?hit s then s\<lparr>sess_expires := sql_after ck (TTLSeconds s), LastHeartbeat := sql_now ck\<rparr> else s"
  show ?thesis
  proof (cases "GetSession db sid")
    case None
    then have "filter ?hit (sessions db) = []"
      by (auto simp: GetSession_def getSessionLocked_def find_eq_None filter_empty_conv)
    with None show ?thesis by (simp add: HeartbeatSession_def Let_def)
  next
    case (Some s)
    then have s: "s \<in> set (sessions db)" "sess_id s = sid"
      by (auto simp: GetSession_def getSessionLocked_def dest: find_eq_Some)
    have dist: "distinct (map sess_id (sessions db))" using store_okD(2) [OF assms(1)] by (simp add: sessions_ok_def)
    then have only: "x = s" if "x \<in> set (sessions db)" "sess_id x = sid" for x
      using s that by (auto simp: distinct_map inj_on_def)
    show ?thesis
    proof (cases "sess_active (sql_now ck) s")
      case False
      with only have "filter ?hit (sessions db) = []" by (auto simp: filter_empty_conv)
      with Some False show ?thesis by (simp add: HeartbeatSession_def Let_def)
    next
      case True
      let ?s' = "s\<lparr>sess_expires := sql_after ck (TTLSeconds s), LastHeartbeat := sql_now ck\<rparr>"
      have ids: "map sess_id (map ?f (sessions db)) = map sess_id (sessions db)" by simp
      have mem: "?s' \<in> set (map ?f (sessions db))" using s True by (auto intro!: image_eqI [of _ _ s])
      have "find (\<lambda>x. sess_id x = sid) (map ?f (sessions db)) = Some ?s'"
        by (rule find_by_key [where k = sess_id, OF _ mem]) (use dist ids s in \<open>simp_all del: map_map\<close>)
      moreover have "sql_now ck < sql_after ck (TTLSeconds s)" using assms(2,3) s by (simp add: clock_ok_def)
      moreover have "filter ?hit (sessions db) \<noteq> []" using s True by (auto simp: filter_empty_conv)
      ultimately show ?thesis
        using Some True by (auto simp: HeartbeatSession_def Let_def getSessionLocked_def sess_active_def live_def)
    qed
  qed
qed

end
