(* ===== verification/RuleEngine.thy ===== *)
theory RuleEngine
  imports Patterns Sessions "HOL-Library.Product_Lexorder"
begin

text \<open>
  \<^verbatim>\<open>FindMatchingRule\<close> of \<^verbatim>\<open>internal/greyproxy/crud.go\<close>: the rule that decides a request. The query
  selects the live rules that are global, built in, or of the container's newest active session; the
  matching ones are scored, sorted with \<^verbatim>\<open>sort.Slice\<close>, and the first wins. \<^verbatim>\<open>sort.Slice\<close> may order
  ties as it likes, so it is a parameter with the contract \<open>slice_sort\<close>; every lemma holds for each
  sort that meets it. The specification \<open>rule_decision\<close> speaks of the set of matching rules only.
\<close>

section \<open>The contract of \<^verbatim>\<open>sort.Slice\<close>\<close>

text \<open>
  For a strict weak order given as ``greater rank first'', the result is a permutation of the input
  and no element comes after one that it should precede.
\<close>

locale slice_sort =
  fixes srt :: "('a \<Rightarrow> 'a \<Rightarrow> bool) \<Rightarrow> 'a list \<Rightarrow> 'a list"
  assumes srt_perm: "mset (srt lt xs) = mset xs"
    and srt_order: "(\<And>a b. lt a b \<longleftrightarrow> (rank b :: int \<times> int \<times> int) < rank a) \<Longrightarrow> i < j \<Longrightarrow>
      j < length xs \<Longrightarrow> \<not> lt (srt lt xs ! j) (srt lt xs ! i)"
begin

lemma srt_set: "set (srt lt xs) = set xs"
  using srt_perm by (metis set_mset_mset)

lemma srt_length: "length (srt lt xs) = length xs"
  using srt_perm by (metis size_mset)

lemma srt_Nil [simp]: "srt lt [] = []"
  using srt_length [of lt "[]"] by simp

text \<open>The head of the result has the greatest rank of all elements.\<close>

lemma srt_head:
  fixes rank :: "'a \<Rightarrow> int \<times> int \<times> int"
  assumes lt: "\<And>a b. lt a b \<longleftrightarrow> rank b < rank a" and "xs \<noteq> []"
  shows "hd (srt lt xs) \<in> set xs"
    "x \<in> set xs \<Longrightarrow> rank x \<le> rank (hd (srt lt xs))"
proof -
  let ?ys = "srt lt xs"
  have ne: "?ys \<noteq> []" using assms(2) srt_length [of lt xs] by auto
  then show "hd ?ys \<in> set xs" using srt_set [of lt xs] hd_in_set by blast
  assume "x \<in> set xs"
  then obtain j where j: "j < length ?ys" "?ys ! j = x" using srt_set by (metis in_set_conv_nth)
  show "rank x \<le> rank (hd ?ys)"
  proof (cases j)
    case 0
    with j ne show ?thesis by (simp add: hd_conv_nth)
  next
    case (Suc k)
    with j srt_length srt_order [of lt rank 0 j xs] lt have "\<not> rank (?ys ! 0) < rank x" by simp
    with ne show ?thesis by (simp add: hd_conv_nth)
  qed
qed

end

text \<open>Insertion sort, which \<^verbatim>\<open>sort.Slice\<close> uses for short slices, meets the contract.\<close>

fun insort_by :: "('a \<Rightarrow> 'a \<Rightarrow> bool) \<Rightarrow> 'a \<Rightarrow> 'a list \<Rightarrow> 'a list" where
  "insort_by lt x [] = [x]"
| "insort_by lt x (y # ys) = (if lt y x then y # insort_by lt x ys else x # y # ys)"

definition insertion_sort :: "('a \<Rightarrow> 'a \<Rightarrow> bool) \<Rightarrow> 'a list \<Rightarrow> 'a list" where
  "insertion_sort lt xs = foldr (insort_by lt) xs []"

lemma mset_insort_by [simp]: "mset (insort_by lt x ys) = add_mset x (mset ys)"
  by (induction ys) auto

lemma mset_insertion_sort: "mset (insertion_sort lt xs) = mset xs"
  by (induction xs) (simp_all add: insertion_sort_def)

lemma insort_by_sorted:
  fixes rank :: "'a \<Rightarrow> 'b :: linorder"
  assumes "\<And>a b. lt a b \<longleftrightarrow> rank b < rank a"
  shows "sorted_wrt (\<lambda>a b. rank b \<le> rank a) ys \<Longrightarrow> sorted_wrt (\<lambda>a b. rank b \<le> rank a) (insort_by lt x ys)"
proof (induction ys)
  case (Cons y ys)
  have "set (insort_by lt x ys) = insert x (set ys)"
    by (metis mset_insort_by set_mset_add_mset_insert set_mset_mset)
  moreover have "lt y x \<longleftrightarrow> rank x < rank y" by (rule assms)
  ultimately show ?case using Cons by (auto simp: not_less)
qed simp

interpretation go_sort: slice_sort "insertion_sort :: ('a \<Rightarrow> 'a \<Rightarrow> bool) \<Rightarrow> 'a list \<Rightarrow> 'a list"
proof
  fix lt :: "'a \<Rightarrow> 'a \<Rightarrow> bool" and xs :: "'a list"
  show "mset (insertion_sort lt xs) = mset xs" by (rule mset_insertion_sort)
  fix rank :: "'a \<Rightarrow> int \<times> int \<times> int" and i j
  assume lt: "\<And>a b. lt a b \<longleftrightarrow> rank b < rank a" and ij: "i < j" "j < length xs"
  have "sorted_wrt (\<lambda>a b. rank b \<le> rank a) (insertion_sort lt xs)"
    by (induction xs) (simp_all add: insertion_sort_def insort_by_sorted [OF lt])
  moreover have "length (insertion_sort lt xs) = length xs"
    using mset_insertion_sort by (metis size_mset)
  ultimately show "\<not> lt (insertion_sort lt xs ! j) (insertion_sort lt xs ! i)"
    using ij lt sorted_wrt_nth_less [of "\<lambda>a b. rank b \<le> rank a" "insertion_sort lt xs" i j] by (simp add: not_less)
qed

section \<open>The query\<close>

text \<open>The newest active session of a container: \<^verbatim>\<open>ORDER BY created_at DESC, rowid DESC LIMIT 1\<close>.\<close>

definition current_session :: "string \<Rightarrow> DB \<Rightarrow> string \<Rightarrow> string option" where
  "current_session now db containerName =
     (case rev (sort_key sess_created
                 (filter (\<lambda>s. sess_container s = containerName \<and> sess_active now s) (sessions db))) of
        [] \<Rightarrow> None
      | s # _ \<Rightarrow> Some (sess_id s))"

definition applicable :: "string \<Rightarrow> DB \<Rightarrow> string \<Rightarrow> Rule \<Rightarrow> bool" where
  "applicable now db containerName r \<longleftrightarrow>
     live now r \<and>
     (case SessionID r of
        None \<Rightarrow> True
      | Some sid \<Rightarrow>
          (case find (\<lambda>s. sess_id s = sid) (sessions db) of
             None \<Rightarrow> False
           | Some s \<Rightarrow> sess_active now s \<and> current_session now db containerName = Some sid))"

section \<open>Scoring and sorting\<close>

record scored =
  scored_rule :: Rule
  specificity :: int
  sourcePriority :: int

definition rule_matches :: "string \<Rightarrow> string \<Rightarrow> int \<Rightarrow> string \<Rightarrow> Rule \<Rightarrow> bool" where
  "rule_matches containerName destHost destPort resolvedHostname r =
     (let matched = MatchesRule containerName destHost destPort
                      (ContainerPattern r) (DestinationPattern r) (PortPattern r)
      in if \<not> matched \<and> resolvedHostname \<noteq> []
         then MatchesRule containerName resolvedHostname destPort
                (ContainerPattern r) (DestinationPattern r) (PortPattern r)
         else matched)"

definition score :: "Rule \<Rightarrow> scored" where
  "score r = \<lparr>scored_rule = r,
              specificity = CalculateSpecificity (ContainerPattern r) (DestinationPattern r) (PortPattern r),
              sourcePriority = RuleSourcePriority r\<rparr>"

definition scored_less :: "scored \<Rightarrow> scored \<Rightarrow> bool" where
  "scored_less a b =
     (if sourcePriority a \<noteq> sourcePriority b then sourcePriority a > sourcePriority b
      else if specificity a \<noteq> specificity b then specificity a > specificity b
      else if Action (scored_rule a) \<noteq> Action (scored_rule b) then Action (scored_rule a) = ''deny''
      else False)"

definition FindMatchingRule ::
  "((scored \<Rightarrow> scored \<Rightarrow> bool) \<Rightarrow> scored list \<Rightarrow> scored list) \<Rightarrow> string \<Rightarrow> DB \<Rightarrow>
   string \<Rightarrow> string \<Rightarrow> int \<Rightarrow> string \<Rightarrow> Rule option" where
  "FindMatchingRule srt now db containerName destHost destPort resolvedHostname =
     (let rows = filter (applicable now db containerName) (rules db);
          matches = map score (filter (rule_matches containerName destHost destPort resolvedHostname) rows)
      in if matches = [] then None
         else Some (scored_rule (hd (srt scored_less matches))))"

text \<open>
  The goroutine started for the winner updates its \<^verbatim>\<open>last_used_at\<close> at some later moment, under the
  lock: it is the step \<open>touch_rule\<close> on whatever database that moment has.
\<close>

definition find_background :: "Rule option \<Rightarrow> string \<Rightarrow> DB \<Rightarrow> DB" where
  "find_background winner now db = (case winner of None \<Rightarrow> db | Some r \<Rightarrow> touch_rule now db (ID r))"

section \<open>Ranks\<close>

definition rule_rank :: "Rule \<Rightarrow> int \<times> int \<times> int" where
  "rule_rank r = (RuleSourcePriority r,
                  CalculateSpecificity (ContainerPattern r) (DestinationPattern r) (PortPattern r),
                  if Action r = ''deny'' then 1 else 0)"

definition scored_rank :: "scored \<Rightarrow> int \<times> int \<times> int" where
  "scored_rank s = (sourcePriority s, specificity s, if Action (scored_rule s) = ''deny'' then 1 else 0)"

lemma scored_less_rank: "scored_less a b \<longleftrightarrow> scored_rank b < scored_rank a"
  by (auto simp: scored_less_def scored_rank_def less_prod_simp)

lemma score_simps [simp]: "scored_rule (score r) = r" "scored_rank (score r) = rule_rank r"
  by (simp_all add: score_def scored_rank_def rule_rank_def)

text \<open>The rules a request is decided by.\<close>

definition matching_rules :: "string \<Rightarrow> DB \<Rightarrow> string \<Rightarrow> string \<Rightarrow> int \<Rightarrow> string \<Rightarrow> Rule set" where
  "matching_rules now db c h p rh = {r \<in> set (rules db). applicable now db c r \<and> rule_matches c h p rh r}"

lemma FindMatchingRule_None:
  "FindMatchingRule srt now db c h p rh = None \<longleftrightarrow> matching_rules now db c h p rh = {}"
  by (auto simp: FindMatchingRule_def Let_def matching_rules_def filter_empty_conv)

context slice_sort
begin

text \<open>The winner for any sort that meets the contract.\<close>

lemma winner_max:
  fixes rank :: "'a \<Rightarrow> int \<times> int \<times> int"
  assumes "xs \<noteq> []" and "\<And>a b. lt a b \<longleftrightarrow> rank b < rank a" and "x \<in> set xs"
  shows "rank x \<le> rank (hd (srt lt xs))"
  using srt_head(2) [of lt rank xs x] assms by blast

end

lemma FindMatchingRule_Some:
  assumes "slice_sort srt" "FindMatchingRule srt now db c h p rh = Some w"
  shows "w \<in> matching_rules now db c h p rh"
    and "r \<in> matching_rules now db c h p rh \<Longrightarrow> rule_rank r \<le> rule_rank w"
proof -
  let ?ms = "map score (filter (rule_matches c h p rh) (filter (applicable now db c) (rules db)))"
  have ne: "?ms \<noteq> []" and w: "w = scored_rule (hd (srt scored_less ?ms))"
    using assms(2) by (auto simp: FindMatchingRule_def Let_def split: if_splits)
  have "hd (srt scored_less ?ms) \<in> set ?ms"
    by (rule slice_sort.srt_head(1) [OF assms(1), of scored_less scored_rank, OF scored_less_rank ne])
  then have sc: "hd (srt scored_less ?ms) = score w" and "w \<in> matching_rules now db c h p rh"
    by (auto simp: w matching_rules_def)
  then show "w \<in> matching_rules now db c h p rh" by simp
  assume "r \<in> matching_rules now db c h p rh"
  then have "score r \<in> set ?ms" by (auto simp: matching_rules_def)
  from slice_sort.winner_max [OF assms(1), of ?ms scored_less scored_rank, OF ne scored_less_rank this] show "rule_rank r \<le> rule_rank w"
    unfolding sc by simp
qed


lemma finite_matching [simp]: "finite (matching_rules now db c h p rh)"
  by (simp add: matching_rules_def)

lemma FindMatchingRule_rank:
  assumes "slice_sort srt"
  shows "map_option rule_rank (FindMatchingRule srt now db c h p rh) =
    (let R = matching_rules now db c h p rh in if R = {} then None else Some (Max (rule_rank ` R)))"
proof (cases "FindMatchingRule srt now db c h p rh")
  case None
  then show ?thesis using FindMatchingRule_None [of srt now db c h p rh] by simp
next
  case (Some w)
  note win = FindMatchingRule_Some [OF assms Some]
  then have "Max (rule_rank ` matching_rules now db c h p rh) = rule_rank w"
    by (intro Max_eqI) auto
  with Some win(1) show ?thesis by (auto simp: Let_def)
qed

section \<open>The specification\<close>

text \<open>
  The decision of a set of matching rules: none if it is empty; otherwise the rules of the highest
  layer, and among them those of the highest specificity, decide, and one deny among them denies.
\<close>

definition top_rules :: "Rule set \<Rightarrow> Rule set" where
  "top_rules R =
     (let L = {r \<in> R. \<forall>q \<in> R. RuleSourcePriority q \<le> RuleSourcePriority r};
          spec = (\<lambda>r. CalculateSpecificity (ContainerPattern r) (DestinationPattern r) (PortPattern r))
      in {r \<in> L. \<forall>q \<in> L. spec q \<le> spec r})"

definition rule_decision :: "Rule set \<Rightarrow> string option" where
  "rule_decision R =
     (if R = {} then None
      else Some (if \<exists>r \<in> top_rules R. Action r = ''deny'' then ''deny'' else ''allow''))"

lemma rank_le_iff:
  "rule_rank q \<le> rule_rank w \<longleftrightarrow>
     RuleSourcePriority q < RuleSourcePriority w \<or>
     RuleSourcePriority q = RuleSourcePriority w \<and>
     (let spec = (\<lambda>r. CalculateSpecificity (ContainerPattern r) (DestinationPattern r) (PortPattern r)) in
      spec q < spec w \<or> spec q = spec w \<and> (Action q = ''deny'' \<longrightarrow> Action w = ''deny''))"
  by (auto simp: rule_rank_def less_eq_prod_simp Let_def)

lemma max_rank_decides:
  assumes "w \<in> R" "\<And>q. q \<in> R \<Longrightarrow> rule_rank q \<le> rule_rank w" "Action w \<in> {''allow'', ''deny''}"
  shows "rule_decision R = Some (Action w)"
proof -
  have top: "w \<in> top_rules R"
    using assms(1,2) by (fastforce simp: top_rules_def Let_def rank_le_iff)
  have "Action w = ''deny''" if q: "q \<in> top_rules R" "Action q = ''deny''" for q
  proof -
    from q(1) have "q \<in> R" by (simp add: top_rules_def Let_def)
    with assms(2) [of q] have "rule_rank q \<le> rule_rank w" by simp
    moreover have "RuleSourcePriority w \<le> RuleSourcePriority q"
      "CalculateSpecificity (ContainerPattern w) (DestinationPattern w) (PortPattern w) \<le>
       CalculateSpecificity (ContainerPattern q) (DestinationPattern q) (PortPattern q)"
      using q(1) top assms(1) by (auto simp: top_rules_def Let_def)
    ultimately show ?thesis using q(2) by (auto simp: rank_le_iff Let_def)
  qed
  with top assms(1,3) show ?thesis by (auto simp: rule_decision_def)
qed

lemma current_session_Some:
  assumes "current_session now db c = Some sid"
  shows "\<exists>s \<in> set (sessions db). sess_id s = sid \<and> sess_container s = c \<and> sess_active now s \<and>
    (\<forall>t \<in> set (sessions db). sess_container t = c \<longrightarrow> sess_active now t \<longrightarrow> sess_created t \<le> sess_created s)"
proof -
  let ?xs = "filter (\<lambda>s. sess_container s = c \<and> sess_active now s) (sessions db)"
  obtain s rest where srt: "rev (sort_key sess_created ?xs) = s # rest" and sid: "sess_id s = sid"
    using assms by (auto simp: current_session_def split: list.splits)
  then have eq: "sort_key sess_created ?xs = rev rest @ [s]" by (metis rev.simps(2) rev_swap)
  have mem: "set (sort_key sess_created ?xs) = set ?xs" by simp
  then have s: "s \<in> set ?xs" unfolding eq by auto
  have "sorted (map sess_created (sort_key sess_created ?xs))" by (rule sorted_sort_key)
  then have "sess_created t \<le> sess_created s" if "t \<in> set ?xs" for t
    using that mem unfolding eq by (auto simp: sorted_append)
  with s sid show ?thesis by auto
qed

lemma touch_preserves [simp]:
  "rule_rank (r\<lparr>LastUsedAt := t\<rparr>) = rule_rank r" "live now (r\<lparr>LastUsedAt := t\<rparr>) = live now r"
  "rule_matches c h p rh (r\<lparr>LastUsedAt := t\<rparr>) = rule_matches c h p rh r"
  by (simp_all add: rule_rank_def live_def rule_matches_def RuleSourcePriority_def RuleSource_def)

lemma applicable_touch [simp]:
  "applicable now (touch_rule t db i) c r = applicable now db c r"
  "applicable now db c (r\<lparr>LastUsedAt := v\<rparr>) = applicable now db c r"
  by (simp_all add: applicable_def current_session_def cong: option.case_cong)

lemma matching_rules_touch:
  "matching_rules now (touch_rule t db i) c h p rh =
     (\<lambda>r. if ID r = i then r\<lparr>LastUsedAt := Some t\<rparr> else r) ` matching_rules now db c h p rh"
proof -
  define f where "f = (\<lambda>r. if ID r = i then r\<lparr>LastUsedAt := Some t\<rparr> else (r :: Rule))"
  have rls: "rules (touch_rule t db i) = map f (rules db)" by (simp add: touch_rule_def f_def)
  have same: "applicable now (touch_rule t db i) c (f r) = applicable now db c r"
    "rule_matches c h p rh (f r) = rule_matches c h p rh r" for r by (simp_all add: f_def)
  have "matching_rules now (touch_rule t db i) c h p rh = f ` matching_rules now db c h p rh"
    unfolding matching_rules_def rls set_map using same by blast
  then show ?thesis by (simp only: f_def)
qed

section \<open>Properties\<close>

text \<open>
  C1. The rule engine implements its specification: for every sort that meets the contract of
  \<^verbatim>\<open>sort.Slice\<close>, the action of the rule it returns is the decision of the set of live, applicable,
  matching rules by layer, then specificity, then deny over allow; it returns no rule exactly when
  no rule matches.
\<close>

theorem find_rule_implements_decision:
  assumes "slice_sort srt" "rules_ok db"
  shows "map_option Action (FindMatchingRule srt now db c h p rh) =
    rule_decision (matching_rules now db c h p rh)"
proof (cases "FindMatchingRule srt now db c h p rh")
  case None
  then show ?thesis using FindMatchingRule_None [of srt now db c h p rh] by (simp add: rule_decision_def)
next
  case (Some w)
  note win = FindMatchingRule_Some [OF assms(1) Some]
  have "Action w \<in> {''allow'', ''deny''}"
    using win(1) assms(2) by (auto simp: matching_rules_def rules_ok_def rule_check_def)
  from max_rank_decides [OF win(1) win(2) this] Some show ?thesis by simp
qed

text \<open>
  A human decision is final: when a global rule matches, the winning rule is global, whatever
  session or built-in rules match and however specific they are; and a session rule wins over every
  built-in one.
\<close>

theorem global_rules_win:
  assumes "slice_sort srt" "FindMatchingRule srt now db c h p rh = Some w"
    and "r \<in> matching_rules now db c h p rh"
  shows "(RuleSource r = ''global'' \<longrightarrow> RuleSource w = ''global'') \<and>
    (RuleSource r = ''session'' \<longrightarrow> RuleSource w \<noteq> ''builtin'')"
proof -
  have "RuleSourcePriority r \<le> RuleSourcePriority w"
    using FindMatchingRule_Some(2) [OF assms] by (auto simp: rank_le_iff)
  then show ?thesis by (auto simp: RuleSourcePriority_def RuleSource_def split: if_splits)
qed

text \<open>
  C10. Session rules do not leak: a rule that wins for a container and carries a session id belongs
  to a session of that container that is active and the most recently created active one. The rules
  of older, expired or deleted sessions, and of other containers' sessions, never decide.
\<close>

theorem session_rules_are_current:
  assumes "slice_sort srt" "FindMatchingRule srt now db c h p rh = Some w" "SessionID w = Some sid"
  shows "\<exists>s \<in> set (sessions db). sess_id s = sid \<and> sess_container s = c \<and> sess_active now s \<and>
    (\<forall>t \<in> set (sessions db). sess_container t = c \<longrightarrow> sess_active now t \<longrightarrow> sess_created t \<le> sess_created s)"
proof -
  have "applicable now db c w"
    using FindMatchingRule_Some(1) [OF assms(1,2)] by (simp add: matching_rules_def)
  with assms(3) have "current_session now db c = Some sid"
    by (auto simp: applicable_def split: option.splits)
  then show ?thesis by (rule current_session_Some)
qed

text \<open>
  The background update of \<^verbatim>\<open>last_used_at\<close> may run at any moment between other decisions: it
  changes no decision, neither its action nor the layer and specificity of the winning rule.
\<close>

theorem background_touch_is_invisible:
  assumes "slice_sort srt"
  shows "map_option rule_rank (FindMatchingRule srt now (find_background winner t db) c h p rh) =
    map_option rule_rank (FindMatchingRule srt now db c h p rh)"
proof (cases winner)
  case (Some r)
  have "rule_rank ` matching_rules now (touch_rule t db (ID r)) c h p rh =
    rule_rank ` matching_rules now db c h p rh"
    unfolding matching_rules_touch image_image by (rule image_cong) auto
  moreover from this have "matching_rules now (touch_rule t db (ID r)) c h p rh = {} \<longleftrightarrow>
    matching_rules now db c h p rh = {}" by (metis image_is_empty)
  ultimately show ?thesis
    unfolding FindMatchingRule_rank [OF assms] Some find_background_def option.case by (simp add: Let_def)
qed (simp add: find_background_def)

end
