(* ===== verification/Pendings.thy ===== *)
theory Pendings
  imports RuleEngine
begin

text \<open>
  The pending queue of \<^verbatim>\<open>internal/greyproxy/crud.go\<close>: requests that no rule decided wait here for a
  person to allow or deny them. Repeated attempts update one row; rows of one host name seen under
  several addresses are shown and removed together. Allowing or denying a request makes a rule whose
  patterns depend on the chosen scope. The bulk import of rules is here too, because it cleans up the
  requests it allows.
\<close>

section \<open>Creating, reading and deleting\<close>

definition pending_host :: "PendingRequest \<Rightarrow> string" where
  "pending_host p =
     (case pend_resolved p of
        Some h \<Rightarrow> if h \<noteq> [] then h else pend_host p
      | None \<Rightarrow> pend_host p)"

definition getPendingByIDLocked :: "DB \<Rightarrow> int \<Rightarrow> PendingRequest option" where
  "getPendingByIDLocked db i = find (\<lambda>p. pend_id p = i) (pendings db)"

definition GetPending :: "DB \<Rightarrow> int \<Rightarrow> PendingRequest option" where
  "GetPending db i = getPendingByIDLocked db i"

definition FindPendingByDestination :: "DB \<Rightarrow> string \<Rightarrow> string \<Rightarrow> int \<Rightarrow> PendingRequest option" where
  "FindPendingByDestination db c host port =
     find (\<lambda>p. pend_container p = c \<and> pend_host p = host \<and> pend_port p = port) (pendings db)"

definition update_pending :: "int \<Rightarrow> (PendingRequest \<Rightarrow> PendingRequest) \<Rightarrow> DB \<Rightarrow> DB" where
  "update_pending i f db = db\<lparr>pendings := map (\<lambda>p. if pend_id p = i then f p else p) (pendings db)\<rparr>"

definition CreateOrUpdatePending ::
  "string \<Rightarrow> DB \<Rightarrow> string \<Rightarrow> string \<Rightarrow> string \<Rightarrow> int \<Rightarrow> string \<Rightarrow> DB \<times> PendingRequest option \<times> bool" where
  "CreateOrUpdatePending now db containerName containerID destHost destPort resolvedHostname =
     (let rh = (if resolvedHostname \<noteq> [] then Some resolvedHostname else None);
          bump = (\<lambda>p. p\<lparr>LastSeen := now, AttemptCount := AttemptCount p + 1\<rparr>) in
      case find (\<lambda>p. pend_container p = containerName \<and> pend_host p = destHost \<and> pend_port p = destPort)
             (pendings db) of
        Some existing \<Rightarrow>
          let db' = update_pending (pend_id existing)
                      (\<lambda>p. (bump p)\<lparr>pend_resolved := (case rh of None \<Rightarrow> pend_resolved p | Some _ \<Rightarrow> rh)\<rparr>) db
          in (db', getPendingByIDLocked db' (pend_id existing), False)
      | None \<Rightarrow>
          (case (if resolvedHostname \<noteq> []
                 then find (\<lambda>p. pend_container p = containerName \<and> pend_resolved p = Some resolvedHostname \<and>
                                pend_port p = destPort) (pendings db)
                 else None) of
             Some sibling \<Rightarrow>
               let db' = update_pending (pend_id sibling) bump db
               in (db', getPendingByIDLocked db' (pend_id sibling), False)
           | None \<Rightarrow>
               let i = next_pending db;
                   p = \<lparr>pend_id = i, pend_container = containerName, pend_container_id = containerID,
                        pend_host = destHost, pend_port = destPort, pend_resolved = rh,
                        FirstSeen = now, LastSeen = now, AttemptCount = 1\<rparr>;
                   db' = db\<lparr>pendings := pendings db @ [p], next_pending := i + 1\<rparr>
               in (db', getPendingByIDLocked db' i, True)))"

definition DeletePending :: "DB \<Rightarrow> int \<Rightarrow> DB \<times> bool" where
  "DeletePending db i =
     (db\<lparr>pendings := filter (\<lambda>p. pend_id p \<noteq> i) (pendings db)\<rparr>,
      0 < length (filter (\<lambda>p. pend_id p = i) (pendings db)))"

definition deletePendingSiblings :: "DB \<Rightarrow> PendingRequest \<Rightarrow> DB \<times> nat" where
  "deletePendingSiblings db p =
     (let db1 = db\<lparr>pendings := filter (\<lambda>q. pend_id q \<noteq> pend_id p) (pendings db)\<rparr>;
          total = length (filter (\<lambda>q. pend_id q = pend_id p) (pendings db))
      in case pend_resolved p of
           Some h \<Rightarrow>
             if h \<noteq> [] then
               (let sib = (\<lambda>q. pend_container q = pend_container p \<and> pend_resolved q = Some h \<and>
                               pend_port q = pend_port p \<and> pend_id q \<noteq> pend_id p)
                in (db1\<lparr>pendings := filter (\<lambda>q. \<not> sib q) (pendings db1)\<rparr>,
                    total + length (filter sib (pendings db1))))
             else (db1, total)
         | None \<Rightarrow> (db1, total))"

section \<open>Listing\<close>

record PendingFilter =
  pf_container :: string
  pf_destination :: string
  pf_limit :: int
  pf_offset :: int

definition pending_filter_matches :: "PendingFilter \<Rightarrow> PendingRequest \<Rightarrow> bool" where
  "pending_filter_matches f p \<longleftrightarrow>
     (pf_container f = [] \<or> like_sub (pf_container f) (pend_container p)) \<and>
     (pf_destination f = [] \<or> like_sub (pf_destination f) (pend_host p) \<or>
        (case pend_resolved p of None \<Rightarrow> False | Some h \<Rightarrow> like_sub (pf_destination f) h))"

type_synonym groupKey = "string \<times> string \<times> int"

definition group_key :: "PendingRequest \<Rightarrow> groupKey" where
  "group_key p = (pend_container p, pending_host p, pend_port p)"

definition merge_pending :: "PendingRequest \<Rightarrow> PendingRequest \<Rightarrow> PendingRequest" where
  "merge_pending existing p =
     existing\<lparr>AttemptCount := AttemptCount existing + AttemptCount p,
              FirstSeen := (if FirstSeen p < FirstSeen existing then FirstSeen p else FirstSeen existing),
              LastSeen := (if LastSeen p > LastSeen existing then LastSeen p else LastSeen existing)\<rparr>"

text \<open>The loop over the rows: the map of groups with the order of first occurrence.\<close>

fun consolidate :: "PendingRequest list \<Rightarrow> (groupKey \<times> PendingRequest) list \<Rightarrow> (groupKey \<times> PendingRequest) list" where
  "consolidate [] acc = acc"
| "consolidate (p # ps) acc =
     (if group_key p \<in> fst ` set acc
      then consolidate ps (map (\<lambda>(k, e). if k = group_key p then (k, merge_pending e p) else (k, e)) acc)
      else consolidate ps (acc @ [(group_key p, p)]))"

definition GetPendingRequests :: "DB \<Rightarrow> PendingFilter \<Rightarrow> (PendingRequest list \<times> nat) go" where
  "GetPendingRequests db f =
     (let lim = (if pf_limit f \<le> 0 then 100 else pf_limit f);
          allPending = sort_desc LastSeen (filter (pending_filter_matches f) (pendings db));
          consolidated = map snd (consolidate allPending []);
          n = int (length consolidated);
          start = (if pf_offset f > n then n else pf_offset f);
          stop = (let e = wrap64 (start + lim) in if e > n then n else e)
      in if start < 0 \<or> stop < start then Panic
         else Ok (take (nat (stop - start)) (drop (nat start) consolidated), length consolidated))"

text \<open>\<^verbatim>\<open>COUNT(DISTINCT COALESCE(resolved_hostname, destination_host) || ':' || port || ':' || container)\<close>.\<close>

definition count_label :: "PendingRequest \<Rightarrow> string" where
  "count_label p =
     (case pend_resolved p of Some h \<Rightarrow> h | None \<Rightarrow> pend_host p) @ '':'' @ Itoa (pend_port p) @ '':'' @ pend_container p"

definition GetPendingCount :: "DB \<Rightarrow> nat" where
  "GetPendingCount db = length (remdups (map count_label (pendings db)))"

section \<open>Deciding a pending request\<close>

definition extractBaseDomain :: "string \<Rightarrow> string" where
  "extractBaseDomain host =
     (let parts = Split (CHR ''.'') host
      in if 2 \<le> length parts then Join ''.'' (drop (length parts - 2) parts) else host)"

definition buildPatterns :: "PendingRequest \<Rightarrow> string \<Rightarrow> string \<times> string \<times> string" where
  "buildPatterns p scope =
     (let host = pending_host p; portStr = Itoa (pend_port p) in
      if scope = ''any_port'' then (pend_container p, host, ''*'')
      else if scope = ''subdomain_wildcard'' then (pend_container p, ''*.'' @ extractBaseDomain host, ''*'')
      else if scope = ''all_containers'' then (''*'', host, portStr)
      else (pend_container p, host, portStr))"

definition parseDuration :: "string \<Rightarrow> string \<times> int option" where
  "parseDuration duration =
     (if duration = ''once'' then (''temporary'', Some 30)
      else if duration = ''1h'' then (''temporary'', Some 3600)
      else if duration = ''12h'' then (''temporary'', Some 43200)
      else if duration = ''24h'' then (''temporary'', Some 86400)
      else if duration = ''7d'' then (''temporary'', Some 604800)
      else if duration = ''30d'' then (''temporary'', Some 2592000)
      else (''permanent'', None))"

definition ErrPendingNotFound :: go_error where
  "ErrPendingNotFound = GoErr ''pending request not found''"

text \<open>\<^verbatim>\<open>AllowPending\<close> and \<^verbatim>\<open>DenyPending\<close> are the same statements with another action.\<close>

definition resolve_pending ::
  "string \<Rightarrow> clock \<Rightarrow> DB \<Rightarrow> int \<Rightarrow> string \<Rightarrow> string \<Rightarrow> string option \<Rightarrow> DB \<times> Rule option go" where
  "resolve_pending action ck db i scope duration notes =
     (case GetPending db i of
        None \<Rightarrow> (db, Fail ErrPendingNotFound)
      | Some p \<Rightarrow>
          (case buildPatterns p scope of (containerPattern, destPattern, portPattern) \<Rightarrow>
           case parseDuration duration of (ruleType, expiresIn) \<Rightarrow>
             (case findExistingRule db (sql_now ck) containerPattern destPattern portPattern action of
                Some existingRule \<Rightarrow> (fst (deletePendingSiblings db p), Ok (Some existingRule))
              | None \<Rightarrow>
                  (case CreateRule ck db
                          \<lparr>in_container = containerPattern, in_destination = destPattern, in_port = portPattern,
                           in_type = ruleType, in_action = action, in_expires = expiresIn, in_notes = notes,
                           in_created_by = []\<rparr> of
                     (db1, Ok rule) \<Rightarrow> (fst (deletePendingSiblings db1 p), Ok rule)
                   | (db1, Fail e) \<Rightarrow> (db1, Fail e)
                   | (db1, Panic) \<Rightarrow> (db1, Panic)))))"

definition AllowPending :: "clock \<Rightarrow> DB \<Rightarrow> int \<Rightarrow> string \<Rightarrow> string \<Rightarrow> string option \<Rightarrow> DB \<times> Rule option go" where
  "AllowPending = resolve_pending ''allow''"

definition DenyPending :: "clock \<Rightarrow> DB \<Rightarrow> int \<Rightarrow> string \<Rightarrow> string \<Rightarrow> string option \<Rightarrow> DB \<times> Rule option go" where
  "DenyPending = resolve_pending ''deny''"

section \<open>Bulk import\<close>

record IngestRuleInput =
  ir_container :: string
  ir_destination :: string
  ir_port :: string
  ir_action :: string
  ir_notes :: "string option"

record IngestResult =
  Imported :: nat
  Skipped :: nat
  PendingCleaned :: nat

fun ingest_loop :: "clock \<Rightarrow> DB \<Rightarrow> IngestResult \<Rightarrow> IngestRuleInput list \<Rightarrow> DB \<times> IngestResult go" where
  "ingest_loop ck db res [] = (db, Ok res)"
| "ingest_loop ck db res (r # rs) =
     (let port = or_default (ir_port r) ''*''; action = or_default (ir_action r) ''allow'' in
      case findExistingRule db (sql_now ck) (ir_container r) (ir_destination r) port action of
        Some _ \<Rightarrow> ingest_loop ck db (res\<lparr>Skipped := Skipped res + 1\<rparr>) rs
      | None \<Rightarrow>
          (case CreateRule ck db
                  \<lparr>in_container = ir_container r, in_destination = ir_destination r, in_port = port,
                   in_type = ''permanent'', in_action = action, in_expires = None, in_notes = ir_notes r,
                   in_created_by = []\<rparr> of
             (db1, Ok _) \<Rightarrow> ingest_loop ck db1 (res\<lparr>Imported := Imported res + 1\<rparr>) rs
           | (db1, Fail e) \<Rightarrow> (db1, Fail e)
           | (db1, Panic) \<Rightarrow> (db1, Panic)))"

fun clean_loop ::
  "((scored \<Rightarrow> scored \<Rightarrow> bool) \<Rightarrow> scored list \<Rightarrow> scored list) \<Rightarrow> string \<Rightarrow> DB \<Rightarrow> nat \<Rightarrow> PendingRequest list \<Rightarrow> DB \<times> nat" where
  "clean_loop srt now db n [] = (db, n)"
| "clean_loop srt now db n (p # ps) =
     (let rh = (case pend_resolved p of None \<Rightarrow> [] | Some h \<Rightarrow> h) in
      case FindMatchingRule srt now db (pend_container p) (pend_host p) (pend_port p) rh of
        Some rule \<Rightarrow>
          if Action rule = ''allow'' then clean_loop srt now (fst (deletePendingSiblings db p)) (n + 1) ps
          else clean_loop srt now db n ps
      | None \<Rightarrow> clean_loop srt now db n ps)"

definition IngestRules ::
  "((scored \<Rightarrow> scored \<Rightarrow> bool) \<Rightarrow> scored list \<Rightarrow> scored list) \<Rightarrow> clock \<Rightarrow> DB \<Rightarrow> IngestRuleInput list \<Rightarrow>
   DB \<times> IngestResult go" where
  "IngestRules srt ck db rs =
     (case ingest_loop ck db \<lparr>Imported = 0, Skipped = 0, PendingCleaned = 0\<rparr> rs of
        (db1, Ok result) \<Rightarrow>
          if 0 < Imported result then
            (case GetPendingRequests db1 \<lparr>pf_container = [], pf_destination = [], pf_limit = 10000, pf_offset = 0\<rparr> of
               Ok (pendingItems, _) \<Rightarrow>
                 (case clean_loop srt (sql_now ck) db1 0 pendingItems of
                    (db2, n) \<Rightarrow> (db2, Ok (result\<lparr>PendingCleaned := n\<rparr>)))
             | Fail _ \<Rightarrow> (db1, Ok result)
             | Panic \<Rightarrow> (db1, Panic))
          else (db1, Ok result)
      | (db1, Fail e) \<Rightarrow> (db1, Fail e)
      | (db1, Panic) \<Rightarrow> (db1, Panic))"


section \<open>The invariant of the pending table\<close>

definition pend_key :: "PendingRequest \<Rightarrow> string \<times> string \<times> int" where
  "pend_key p = (pend_container p, pend_host p, pend_port p)"

definition pendings_ok :: "DB \<Rightarrow> bool" where
  "pendings_ok db \<longleftrightarrow>
     distinct (map pend_id (pendings db)) \<and> distinct (map pend_key (pendings db)) \<and>
     (\<forall>p \<in> set (pendings db). pend_id p < next_pending db \<and> 1 \<le> AttemptCount p \<and> pend_resolved p \<noteq> Some [])"

lemma update_pending_simps [simp]:
  "rules (update_pending i f db) = rules db" "sessions (update_pending i f db) = sessions db"
  "logs (update_pending i f db) = logs db" "next_rule (update_pending i f db) = next_rule db"
  "next_log (update_pending i f db) = next_log db" "next_pending (update_pending i f db) = next_pending db"
  "foreign_keys (update_pending i f db) = foreign_keys db"
  "pendings (update_pending i f db) = map (\<lambda>p. if pend_id p = i then f p else p) (pendings db)"
  by (simp_all add: update_pending_def)

lemma pendings_ok_update:
  assumes "pendings_ok db" "\<And>p. pend_id (f p) = pend_id p" "\<And>p. pend_key (f p) = pend_key p"
    and "\<And>p. 1 \<le> AttemptCount p \<Longrightarrow> pend_resolved p \<noteq> Some [] \<Longrightarrow>
            1 \<le> AttemptCount (f p) \<and> pend_resolved (f p) \<noteq> Some []"
  shows "pendings_ok (update_pending i f db)"
proof -
  let ?g = "\<lambda>p. if pend_id p = i then f p else p"
  have "map pend_id (map ?g (pendings db)) = map pend_id (pendings db)"
    "map pend_key (map ?g (pendings db)) = map pend_key (pendings db)" using assms(2,3) by simp_all
  moreover have "\<forall>p \<in> set (map ?g (pendings db)). pend_id p < next_pending db \<and> 1 \<le> AttemptCount p \<and>
    pend_resolved p \<noteq> Some []" using assms by (auto simp: pendings_ok_def)
  ultimately show ?thesis
    using assms(1) unfolding pendings_ok_def update_pending_simps by metis
qed

lemma pendings_ok_filter:
  "pendings_ok db \<Longrightarrow> pendings db' = filter P (pendings db) \<Longrightarrow> next_pending db' = next_pending db \<Longrightarrow> pendings_ok db'"
  by (auto simp: pendings_ok_def distinct_map_filter)

lemma getPending_updated:
  assumes "pendings_ok db" "e \<in> set (pendings db)" "pend_id (f e) = pend_id e"
  shows "getPendingByIDLocked (update_pending (pend_id e) f db) (pend_id e) = Some (f e)"
proof -
  have only: "p = e" if "p \<in> set (pendings db)" "pend_id p = pend_id e" for p
    using assms(1,2) that by (auto simp: pendings_ok_def distinct_map inj_on_def)
  have "find (\<lambda>p. pend_id p = pend_id e) (map (\<lambda>p. if pend_id p = pend_id e then f p else p) xs) = Some (f e)"
    if "e \<in> set xs" "set xs \<subseteq> set (pendings db)" for xs
    using that by (induction xs) (auto simp: assms(3) dest!: only)
  with assms(2) show ?thesis by (simp add: getPendingByIDLocked_def)
qed

lemma find_new_pending:
  "\<forall>p \<in> set xs. pend_id p < i \<Longrightarrow> pend_id y = i \<Longrightarrow> find (\<lambda>p. pend_id p = i) (xs @ [y]) = Some y"
  by (induction xs) auto

lemma CreateOrUpdatePending_ok:
  assumes "pendings_ok db" "CreateOrUpdatePending now db c cid h p rh = (db', res)"
  shows "pendings_ok db'"
proof (cases "find (\<lambda>q. pend_container q = c \<and> pend_host q = h \<and> pend_port q = p) (pendings db)")
  case (Some e)
  with assms show ?thesis
    by (auto simp: CreateOrUpdatePending_def Let_def pend_key_def intro!: pendings_ok_update split: option.splits if_splits)
next
  case None
  note exact = this
  show ?thesis
  proof (cases "if rh \<noteq> [] then find (\<lambda>q. pend_container q = c \<and> pend_resolved q = Some rh \<and> pend_port q = p)
                  (pendings db) else None")
    case (Some s)
    with assms exact show ?thesis
      by (auto simp: CreateOrUpdatePending_def Let_def pend_key_def intro!: pendings_ok_update split: if_splits)
  next
    case None
    from exact have "(c, h, p) \<notin> pend_key ` set (pendings db)" by (auto simp: find_eq_None pend_key_def)
    with None exact assms show ?thesis
      by (fastforce simp: CreateOrUpdatePending_def Let_def pendings_ok_def pend_key_def split: if_splits)
  qed
qed

lemma deletePendingSiblings_simps [simp]:
  "rules (fst (deletePendingSiblings db p)) = rules db" "sessions (fst (deletePendingSiblings db p)) = sessions db"
  "logs (fst (deletePendingSiblings db p)) = logs db" "next_rule (fst (deletePendingSiblings db p)) = next_rule db"
  "next_log (fst (deletePendingSiblings db p)) = next_log db"
  "next_pending (fst (deletePendingSiblings db p)) = next_pending db"
  "foreign_keys (fst (deletePendingSiblings db p)) = foreign_keys db"
  by (auto simp: deletePendingSiblings_def Let_def split: option.splits)

lemma deletePendingSiblings_rows:
  "pendings (fst (deletePendingSiblings db p)) =
     filter (\<lambda>q. pend_id q \<noteq> pend_id p \<and>
       \<not> (\<exists>h. pend_resolved p = Some h \<and> h \<noteq> [] \<and> pend_container q = pend_container p \<and>
              pend_resolved q = Some h \<and> pend_port q = pend_port p)) (pendings db)"
  by (auto simp: deletePendingSiblings_def Let_def split: option.splits intro!: filter_cong)

lemma deletePendingSiblings_ok: "pendings_ok db \<Longrightarrow> pendings_ok (fst (deletePendingSiblings db p))"
  by (erule pendings_ok_filter) (auto simp: deletePendingSiblings_rows)

lemma resolve_pending_cases:
  assumes "resolve_pending act ck db i scope dur notes = (db', res)"
  obtains "db' = db" "GetPending db i = None"
  | p r where "GetPending db i = Some p" "db' = fst (deletePendingSiblings db p)" "res = Ok (Some r)"
      "r \<in> set (rules db)" "live (sql_now ck) r"
  | p input db1 r1 where "GetPending db i = Some p" "CreateRule ck db input = (db1, r1)"
      "db' = db1 \<or> db' = fst (deletePendingSiblings db1 p)"
  using assms
  by (fastforce simp: resolve_pending_def findExistingRule_def split: option.splits prod.splits go.splits
                dest: find_eq_Some)

lemma resolve_pending_rules_ok:
  assumes "rules_ok db" "resolve_pending act ck db i scope dur notes = (db', res)"
  shows "rules_ok db'"
  using assms(2)
proof (cases rule: resolve_pending_cases)
  case (3 p input db1 r1)
  with CreateRule_rules_ok [OF assms(1)] show ?thesis by (auto simp: rules_ok_def)
qed (use assms(1) in \<open>simp_all add: rules_ok_def\<close>)

lemma resolve_pending_pendings_ok:
  assumes "pendings_ok db" "resolve_pending act ck db i scope dur notes = (db', res)"
  shows "pendings_ok db'"
  using assms(2)
proof (cases rule: resolve_pending_cases)
  case (3 p input db1 r1)
  then have "pendings_ok db1" using assms(1) CreateRule_frame [OF 3(2)] by (simp add: pendings_ok_def)
  with 3 show ?thesis using deletePendingSiblings_ok by blast
qed (use assms(1) deletePendingSiblings_ok in \<open>auto\<close>)

text \<open>What the import and its clean-up leave alone.\<close>

lemma ingest_loop_tables:
  "ingest_loop ck db res rs = (db', out) \<Longrightarrow> rules_ok db \<Longrightarrow>
   rules_ok db' \<and> pendings db' = pendings db \<and> next_pending db' = next_pending db"
proof (induction rs arbitrary: db res)
  case (Cons r rs)
  from Cons.prems show ?case
    by (auto simp: Let_def split: option.splits prod.splits go.splits
             dest!: Cons.IH intro: CreateRule_rules_ok dest: CreateRule_frame)
qed simp

lemma clean_loop_tables:
  "clean_loop srt now db n ps = (db', m) \<Longrightarrow>
   rules db' = rules db \<and> next_rule db' = next_rule db \<and> (pendings_ok db \<longrightarrow> pendings_ok db')"
proof (induction ps arbitrary: db n)
  case (Cons p ps)
  from Cons.prems show ?case
    by (auto simp: Let_def deletePendingSiblings_ok split: option.splits if_splits dest!: Cons.IH)
qed simp


lemma CreateOrUpdatePending_returns:
  assumes "pendings_ok db"
  obtains db' p n where "CreateOrUpdatePending now db c cid h port rh = (db', Some p, n)"
proof (cases "find (\<lambda>q. pend_container q = c \<and> pend_host q = h \<and> pend_port q = port) (pendings db)")
  case (Some e)
  with find_eq_Some [OF Some] getPending_updated [OF assms, of e] show ?thesis
    by (cases "rh = []") (auto simp: CreateOrUpdatePending_def Let_def intro: that)
next
  case None
  note exact = this
  show ?thesis
  proof (cases "if rh \<noteq> [] then find (\<lambda>q. pend_container q = c \<and> pend_resolved q = Some rh \<and> pend_port q = port)
                  (pendings db) else None")
    case (Some e)
    then have "e \<in> set (pendings db)" by (auto split: if_splits dest!: find_eq_Some)
    with Some exact getPending_updated [OF assms, of e] show ?thesis
      by (intro that) (auto simp: CreateOrUpdatePending_def Let_def split: if_splits)
  next
    case None
    with exact assms show ?thesis
      by (intro that) (simp add: CreateOrUpdatePending_def Let_def getPendingByIDLocked_def find_new_pending pendings_ok_def)
  qed
qed

section \<open>Recording attempts\<close>

text \<open>
  An undecided attempt is always recorded and returned: either a new row with one attempt, when
  no row has the same container, host and port and none has the same container, resolved name and
  port, or one existing row with its attempt count one higher. The row was last seen now.
\<close>

theorem pending_attempt_recorded:
  assumes "pendings_ok db" "CreateOrUpdatePending now db c cid h port rh = (db', res, isNew)"
  shows "\<exists>q. res = Some q \<and> q \<in> set (pendings db') \<and> pend_container q = c \<and> pend_port q = port \<and>
    LastSeen q = now \<and>
    (isNew \<longleftrightarrow> (\<forall>p \<in> set (pendings db). \<not> (pend_container p = c \<and> pend_port p = port \<and>
                  (pend_host p = h \<or> rh \<noteq> [] \<and> pend_resolved p = Some rh)))) \<and>
    (if isNew then AttemptCount q = 1 \<and> pendings db' = pendings db @ [q]
     else map pend_id (pendings db') = map pend_id (pendings db) \<and>
          (\<exists>p \<in> set (pendings db). pend_id p = pend_id q \<and> AttemptCount q = AttemptCount p + 1))"
proof (cases "find (\<lambda>q. pend_container q = c \<and> pend_host q = h \<and> pend_port q = port) (pendings db)")
  case (Some e)
  note e = find_eq_Some [OF Some]
  let ?f = "\<lambda>p. p\<lparr>LastSeen := now, AttemptCount := AttemptCount p + 1,
      pend_resolved := (case (if rh \<noteq> [] then Some rh else None) of None \<Rightarrow> pend_resolved p
                        | Some _ \<Rightarrow> if rh \<noteq> [] then Some rh else None)\<rparr>"
  have db': "db' = update_pending (pend_id e) ?f db" and new: "\<not> isNew"
    and res: "res = getPendingByIDLocked db' (pend_id e)"
    using assms(2) Some by (auto simp: CreateOrUpdatePending_def Let_def)
  have "res = Some (?f e)" unfolding res db' using e by (intro getPending_updated [OF assms(1)]) auto
  moreover have "?f e \<in> set (pendings db')" unfolding db' using e by (auto intro!: image_eqI [of _ _ e])
  ultimately show ?thesis using e new by (intro exI [of _ "?f e"]) (auto simp: db')
next
  case None
  note exact = this
  let ?sib = "if rh \<noteq> [] then find (\<lambda>q. pend_container q = c \<and> pend_resolved q = Some rh \<and> pend_port q = port)
                 (pendings db) else None"
  show ?thesis
  proof (cases ?sib)
    case (Some e)
    then have e: "rh \<noteq> []" "e \<in> set (pendings db)" "pend_container e = c" "pend_resolved e = Some rh" "pend_port e = port"
      by (auto split: if_splits dest!: find_eq_Some)
    let ?f = "\<lambda>p. p\<lparr>LastSeen := now, AttemptCount := AttemptCount p + 1\<rparr>"
    have db': "db' = update_pending (pend_id e) ?f db" and new: "\<not> isNew"
      and res: "res = getPendingByIDLocked db' (pend_id e)"
      using assms(2) Some exact by (auto simp: CreateOrUpdatePending_def Let_def split: if_splits)
    have "res = Some (?f e)" unfolding res db' using e by (intro getPending_updated [OF assms(1)]) auto
    moreover have "?f e \<in> set (pendings db')" unfolding db' using e by (auto intro!: image_eqI [of _ _ e])
    ultimately show ?thesis using e new by (intro exI [of _ "?f e"]) (auto simp: db')
  next
    case None
    then have "\<forall>p \<in> set (pendings db). \<not> (pend_container p = c \<and> pend_port p = port \<and>
        (pend_host p = h \<or> rh \<noteq> [] \<and> pend_resolved p = Some rh))"
      using exact by (auto simp: find_eq_None split: if_splits)
    with None exact assms show ?thesis
      by (auto simp: CreateOrUpdatePending_def Let_def getPendingByIDLocked_def find_new_pending pendings_ok_def
               split: if_splits)
  qed
qed

section \<open>The consolidated list\<close>

lemma merge_pending_key [simp]: "group_key (merge_pending e p) = group_key e"
  unfolding group_key_def merge_pending_def pending_host_def by (simp split: option.split)

definition groups_ok :: "(groupKey \<times> PendingRequest) list \<Rightarrow> bool" where
  "groups_ok acc \<longleftrightarrow> distinct (map fst acc) \<and> (\<forall>(k, e) \<in> set acc. group_key e = k)"

lemma map_fst_merge: "map fst (map (\<lambda>(k, e). if k = x then (k, f e) else (k, e)) acc) = map fst acc"
  by (induction acc) auto

lemma sum_merge:
  assumes "distinct (map fst acc)" "x \<in> fst ` set acc"
  shows "(\<Sum>e \<leftarrow> map snd (map (\<lambda>(k, e). if k = x then (k, merge_pending e p) else (k, e)) acc). AttemptCount e) =
    (\<Sum>e \<leftarrow> map snd acc. AttemptCount e) + AttemptCount p"
proof -
  have none: "map (\<lambda>(k, e). if k = x then (k, merge_pending e p) else (k, e)) xs = xs" if "x \<notin> fst ` set xs" for xs
    using that by (induction xs) auto
  show ?thesis using assms
  proof (induction acc)
    case (Cons a acc)
    obtain k e where a: "a = (k, e)" by fastforce
    show ?case
    proof (cases "k = x")
      case True
      with Cons.prems a have "x \<notin> fst ` set acc" by simp
      from none [OF this] True a show ?thesis by (simp add: merge_pending_def)
    next
      case False
      with Cons a show ?thesis by simp
    qed
  qed simp
qed

lemma consolidate_props:
  "groups_ok acc \<Longrightarrow> groups_ok (consolidate ps acc) \<and>
   fst ` set (consolidate ps acc) = fst ` set acc \<union> group_key ` set ps \<and>
   (\<Sum>e \<leftarrow> map snd (consolidate ps acc). AttemptCount e) =
     (\<Sum>e \<leftarrow> map snd acc. AttemptCount e) + (\<Sum>p \<leftarrow> ps. AttemptCount p)"
proof (induction ps acc rule: consolidate.induct)
  case (2 p ps acc)
  show ?case
  proof (cases "group_key p \<in> fst ` set acc")
    case True
    let ?acc = "map (\<lambda>(k, e). if k = group_key p then (k, merge_pending e p) else (k, e)) acc"
    have fsts: "map fst ?acc = map fst acc" by (rule map_fst_merge)
    then have sets: "fst ` set ?acc = fst ` set acc" by (metis list.set_map)
    have "groups_ok ?acc"
      using "2.prems" unfolding groups_ok_def fsts by (auto split: if_splits)
    note ih = 2(1) [OF True this]
    have "consolidate (p # ps) acc = consolidate ps ?acc" using True by simp
    moreover have "insert (group_key p) (fst ` set acc) = fst ` set acc" using True by (rule insert_absorb)
    moreover have "distinct (map fst acc)" using "2.prems" by (simp add: groups_ok_def)
    note sum_merge [OF this True, of p]
    ultimately show ?thesis
      using ih unfolding sets by (simp add: Un_insert_left [symmetric] del: consolidate.simps map_map Un_insert_left)
  next
    case False
    with 2(2) [OF False] "2.prems" show ?thesis by (auto simp: groups_ok_def)
  qed
qed simp

lemma consolidated_rows:
  defines "out ps \<equiv> map snd (consolidate ps [])"
  shows "distinct (map group_key (out ps))" "group_key ` set (out ps) = group_key ` set ps"
    "(\<Sum>e \<leftarrow> out ps. AttemptCount e) = (\<Sum>p \<leftarrow> ps. AttemptCount p)"
    "length (out ps) = card (group_key ` set ps)"
proof -
  have "groups_ok []" by (simp add: groups_ok_def)
  note props = consolidate_props [OF this, of ps]
  have keys: "map group_key (out ps) = map fst (consolidate ps [])"
    using props by (auto simp: out_def groups_ok_def)
  with props show dist: "distinct (map group_key (out ps))" by (simp add: groups_ok_def)
  from keys have "set (map group_key (out ps)) = fst ` set (consolidate ps [])" by simp
  with props show im: "group_key ` set (out ps) = group_key ` set ps" by simp
  from props show "(\<Sum>e \<leftarrow> out ps. AttemptCount e) = (\<Sum>p \<leftarrow> ps. AttemptCount p)" by (simp add: out_def)
  from dist have "length (out ps) = card (set (map group_key (out ps)))" by (metis distinct_card length_map)
  with im show "length (out ps) = card (group_key ` set ps)" by simp
qed

lemma wrap64_id: "- (2 ^ 63) \<le> i \<Longrightarrow> i < 2 ^ 63 \<Longrightarrow> wrap64 i = i"
  by (simp add: wrap64_def)

lemma sum_list_mset_cong:
  fixes f :: "'a \<Rightarrow> int"
  shows "mset xs = mset ys \<Longrightarrow> (\<Sum>x \<leftarrow> xs. f x) = (\<Sum>y \<leftarrow> ys. f y)"
  by (metis mset_map sum_mset_sum_list)

text \<open>
  The pending list shows each group (container, displayed host, port) of the selected rows at
  most once, its total is the number of groups, a page has at most the requested length, and when
  the page holds everything the attempt counts add up to those of the rows: consolidation loses no
  attempt.
\<close>

theorem pending_list_consolidates:
  assumes "0 \<le> pf_offset f" "pf_offset f < 2 ^ 62" "pf_limit f < 2 ^ 62"
    and "hits = filter (pending_filter_matches f) (pendings db)"
  shows "\<exists>items. GetPendingRequests db f = Ok (items, card (group_key ` set hits)) \<and>
    distinct (map group_key items) \<and> group_key ` set items \<subseteq> group_key ` set hits \<and>
    int (length items) \<le> (if pf_limit f \<le> 0 then 100 else pf_limit f) \<and>
    (pf_offset f = 0 \<and> int (card (group_key ` set hits)) \<le> (if pf_limit f \<le> 0 then 100 else pf_limit f) \<longrightarrow>
      group_key ` set items = group_key ` set hits \<and>
      (\<Sum>p \<leftarrow> items. AttemptCount p) = (\<Sum>p \<leftarrow> hits. AttemptCount p))"
proof -
  let ?rows = "sort_desc LastSeen hits"
  define lim where "lim = (if pf_limit f \<le> 0 then 100 else pf_limit f)"
  define out where "out = map snd (consolidate ?rows [])"
  note rows = consolidated_rows [of ?rows, folded out_def]
  define n where "n = int (length out)"
  define start where "start = (if pf_offset f > n then n else pf_offset f)"
  define stop where "stop = (if start + lim > n then n else start + lim)"
  let ?items = "take (nat (stop - start)) (drop (nat start) out)"
  have st: "0 \<le> start" "start \<le> n" "start < 2 ^ 62" using assms(1,2) by (auto simp: start_def n_def)
  then have w: "wrap64 (start + lim) = start + lim" using assms(3) by (intro wrap64_id) (auto simp: lim_def)
  have ord: "start \<le> stop" "stop \<le> n" "stop - start \<le> lim" using st by (auto simp: stop_def lim_def)
  have "GetPendingRequests db f =
    (let e = wrap64 (start + lim); t = (if e > n then n else e) in
     if start < 0 \<or> t < start then Panic
     else Ok (take (nat (t - start)) (drop (nat start) out), length out))"
    by (simp only: GetPendingRequests_def Let_def assms(4) out_def n_def start_def lim_def)
  with st(1) ord(1) w have "GetPendingRequests db f = Ok (?items, length out)" by (simp add: stop_def)
  moreover have "length out = card (group_key ` set hits)" using rows(4) by simp
  moreover have "distinct (map group_key ?items)"
    using rows(1) by (simp add: take_map [symmetric] drop_map [symmetric])
  moreover have "group_key ` set ?items \<subseteq> group_key ` set hits"
    using rows(2) set_take_subset set_drop_subset by fastforce
  moreover have "int (length ?items) \<le> lim" using ord by simp
  moreover have "?items = out" if "pf_offset f = 0" "int (card (group_key ` set hits)) \<le> lim"
    using that calculation(2) by (auto simp: start_def stop_def n_def)
  moreover have "(\<Sum>p \<leftarrow> out. AttemptCount p) = (\<Sum>p \<leftarrow> hits. AttemptCount p)"
    using rows(3) sum_list_mset_cong [of ?rows hits AttemptCount] by simp
  ultimately show ?thesis using rows(2) unfolding lim_def [symmetric] by (intro exI [of _ ?items]) auto
qed

text \<open>
  A negative offset, which the list endpoint passes on unchecked, is not an empty page: slicing
  the consolidated list panics.
\<close>

theorem pending_list_negative_offset_panics:
  assumes "pf_offset f < 0"
  shows "GetPendingRequests db f = Panic"
  using assms by (simp add: GetPendingRequests_def Let_def)

section \<open>The badge and the list agree\<close>

lemma split_last:
  assumes "x \<notin> set b" "x \<notin> set d" "a @ x # b = c @ x # d"
  shows "a = c \<and> b = d"
  using assms
  by (induction a arbitrary: c) (auto simp: Cons_eq_append_conv append_eq_Cons_conv)

lemma Itoa_no_colon: "CHR '':'' \<notin> set (Itoa i)"
proof -
  have "\<not> is_digit (CHR '':'')" by (simp add: is_digit_def)
  then show ?thesis using show_nat_no_char [of "CHR '':''"] by (simp add: Itoa_def)
qed

lemma count_label_key:
  assumes "pend_resolved p \<noteq> Some []"
  shows "count_label p = (case group_key p of (c, h, n) \<Rightarrow> h @ '':'' @ Itoa n @ '':'' @ c)"
  using assms by (auto simp: count_label_def group_key_def pending_host_def split: option.split)

lemma label_inj:
  assumes "CHR '':'' \<notin> set c" "CHR '':'' \<notin> set c'"
    "h @ '':'' @ Itoa n @ '':'' @ c = h' @ '':'' @ Itoa n' @ '':'' @ c'"
  shows "(c, h, n) = (c', h', n')"
proof -
  have "(h @ '':'' @ Itoa n) @ CHR '':'' # c = (h' @ '':'' @ Itoa n') @ CHR '':'' # c'" using assms(3) by simp
  from split_last [OF assms(1,2) this] have "h @ CHR '':'' # Itoa n = h' @ CHR '':'' # Itoa n'" "c = c'" by auto
  with split_last [OF Itoa_no_colon Itoa_no_colon this(1)] show ?thesis by (simp add: Itoa_inj)
qed

text \<open>
  The badge counts what the list shows: it never exceeds the number of groups, and equals it when
  no container name contains a colon (the badge joins host, port and container with colons).
\<close>

theorem pending_count_matches_list:
  assumes "pendings_ok db"
  shows "GetPendingCount db \<le> card (group_key ` set (pendings db)) \<and>
    ((\<forall>p \<in> set (pendings db). CHR '':'' \<notin> set (pend_container p)) \<longrightarrow>
      GetPendingCount db = card (group_key ` set (pendings db)))"
proof -
  let ?lab = "\<lambda>(c, h, n). h @ '':'' @ Itoa n @ '':'' @ c"
  have lab: "count_label p = ?lab (group_key p)" if "p \<in> set (pendings db)" for p
    using that assms by (intro count_label_key) (auto simp: pendings_ok_def)
  have "GetPendingCount db = card (count_label ` set (pendings db))"
    by (simp add: GetPendingCount_def length_remdups_card_conv)
  also have "count_label ` set (pendings db) = ?lab ` group_key ` set (pendings db)"
    using lab by (force simp: image_image)
  finally have eq: "GetPendingCount db = card (?lab ` group_key ` set (pendings db))" .
  moreover have "inj_on ?lab (group_key ` set (pendings db))"
    if "\<forall>p \<in> set (pendings db). CHR '':'' \<notin> set (pend_container p)"
  proof (rule inj_onI)
    fix k l assume "k \<in> group_key ` set (pendings db)" "l \<in> group_key ` set (pendings db)" "?lab k = ?lab l"
    then obtain p q where pq: "p \<in> set (pendings db)" "q \<in> set (pendings db)" "k = group_key p" "l = group_key q"
      "?lab (group_key p) = ?lab (group_key q)" by auto
    with that have "(pend_container p, pending_host p, pend_port p) = (pend_container q, pending_host q, pend_port q)"
      by (intro label_inj) (simp_all add: group_key_def)
    with pq show "k = l" by (simp add: group_key_def)
  qed
  ultimately show ?thesis by (simp add: card_image card_image_le)
qed

section \<open>Scopes\<close>

lemma Join_append: "xs \<noteq> [] \<Longrightarrow> ys \<noteq> [] \<Longrightarrow> Join sep (xs @ ys) = Join sep xs @ sep @ Join sep ys"
proof (induction xs)
  case (Cons a xs)
  then show ?case by (cases xs) (simp_all add: Join_Cons)
qed simp

lemma extractBaseDomain_cases:
  "(length (Split (CHR ''.'') host) \<le> 2 \<longrightarrow> extractBaseDomain host = host) \<and>
   (2 < length (Split (CHR ''.'') host) \<longrightarrow> (\<exists>pre. host = pre @ ''.'' @ extractBaseDomain host))"
proof -
  let ?ps = "Split (CHR ''.'') host"
  have whole: "Join ''.'' ?ps = host" by (rule Join_Split)
  have "\<exists>pre. host = pre @ ''.'' @ Join ''.'' (drop (length ?ps - 2) ?ps)" if "2 < length ?ps"
  proof -
    have "Join ''.'' (take (length ?ps - 2) ?ps @ drop (length ?ps - 2) ?ps) =
      Join ''.'' (take (length ?ps - 2) ?ps) @ ''.'' @ Join ''.'' (drop (length ?ps - 2) ?ps)"
      using that by (intro Join_append) auto
    with whole show ?thesis by auto
  qed
  moreover have "length ?ps = 1 \<or> length ?ps = 2" if "length ?ps \<le> 2"
    using that Split_ne [of "CHR ''.''" host] by (cases ?ps) (auto simp: le_Suc_eq numeral_2_eq_2)
  ultimately show ?thesis using whole by (auto simp: extractBaseDomain_def Let_def)
qed

text \<open>
  The subdomain scope makes a rule for the last two labels of the host, and that rule matches the
  host the person decided about exactly when the host has more than two labels: for a root domain the
  new rule does not cover the request it was made for.
\<close>

theorem subdomain_scope_matches:
  assumes "CHR ''/'' \<notin> set host"
  shows "MatchesDestination host (''*.'' @ extractBaseDomain host) \<longleftrightarrow> 2 < length (Split (CHR ''.'') host)"
proof (cases "2 < length (Split (CHR ''.'') host)")
  case True
  then obtain pre where pre: "host = pre @ ''.'' @ extractBaseDomain host"
    using extractBaseDomain_cases by blast
  with assms have "CHR ''/'' \<notin> set (extractBaseDomain host)" by (metis UnCI set_append)
  moreover have "ToLower host = ToLower pre @ ''.'' @ ToLower (extractBaseDomain host)"
    by (subst pre) (simp add: ToLower_def)
  ultimately show ?thesis using True MatchesDestination_subdomain [of "extractBaseDomain host" host] by blast
next
  case False
  then have "extractBaseDomain host = host" using extractBaseDomain_cases [of host] by simp
  moreover have "ToLower host \<noteq> sub @ ''.'' @ ToLower host" for sub
    using arg_cong [of "ToLower host" "sub @ ''.'' @ ToLower host" length] by auto
  ultimately show ?thesis using False MatchesDestination_subdomain [OF assms, of host] by simp
qed

section \<open>Allowing and denying\<close>

lemma parseDuration_facts:
  "parseDuration d = (ty, e) \<Longrightarrow>
   ty \<in> {''permanent'', ''temporary''} \<and> (case e of None \<Rightarrow> True | Some n \<Rightarrow> 30 \<le> n \<and> n \<le> 2592000)"
  by (auto simp: parseDuration_def split: if_splits)

lemma Itoa_port_match:
  "0 \<le> q \<Longrightarrow> q \<le> maxInt \<Longrightarrow> MatchesPort q (Itoa q)"
  using MatchesPort_single [OF Itoa_no_comma] show_nat_ne_star matchSinglePort_exact [of q q]
  by (simp add: Itoa_nonneg)

text \<open>A host name or address that is not itself a pattern.\<close>

definition plain_host :: "string \<Rightarrow> bool" where
  "plain_host h \<longleftrightarrow> h \<noteq> [] \<and> CHR ''*'' \<notin> set h \<and> CHR ''/'' \<notin> set h"

lemma plain_host_match:
  assumes "plain_host h"
  shows "MatchesDestination h h"
proof -
  have "\<not> HasPrefix h ''*.''" "\<not> HasPrefix h ''**.''" "h \<noteq> ''*''"
    using assms by (auto simp: plain_host_def HasPrefix_iff)
  with MatchesDestination_exact [of h h] assms show ?thesis by (simp add: plain_host_def)
qed

lemma buildPatterns_match:
  assumes "buildPatterns p scope = (cp, dp, pp)" "scope \<noteq> ''subdomain_wildcard''"
    and "glob_literal (pend_container p)" "plain_host (pending_host p)" "0 \<le> pend_port p" "pend_port p \<le> maxInt"
  shows "MatchesRule (pend_container p) (pending_host p) (pend_port p) cp dp pp"
  using assms plain_host_match Itoa_port_match MatchesContainer_literal [OF assms(3)]
  by (auto simp: buildPatterns_def Let_def MatchesRule_def MatchesPort_def split: if_splits)

lemma resolve_pending_new_rule:
  assumes "rules_ok db" "clock_ok ck" "GetPending db i = Some p" "act \<in> {''allow'', ''deny''}"
    and "buildPatterns p scope = (cp, dp, pp)" "pp \<noteq> []"
  obtains db' r where "resolve_pending act ck db i scope dur notes = (db', Ok (Some r))"
    "r \<in> set (rules db')" "rule_key r = (cp, dp, pp, act)" "live (sql_now ck) r"
    "pendings db' = pendings (fst (deletePendingSiblings db p))" "sessions db' = sessions db"
    "r \<in> set (rules db) \<or> SessionID r = None" "set (rules db') \<subseteq> insert r (set (rules db))"
proof (cases "findExistingRule db (sql_now ck) cp dp pp act")
  case (Some r)
  then have "r \<in> set (rules db)" "rule_key r = (cp, dp, pp, act)" "live (sql_now ck) r"
    by (auto simp: findExistingRule_def dest: find_eq_Some)
  with Some assms show ?thesis
    by (intro that [of "fst (deletePendingSiblings db p)" r]) (auto simp: resolve_pending_def split: prod.splits)
next
  case None
  obtain ty e where dur: "parseDuration dur = (ty, e)" by fastforce
  define input where "input = \<lparr>in_container = cp, in_destination = dp, in_port = pp, in_type = ty, in_action = act,
    in_expires = e, in_notes = notes, in_created_by = []\<rparr>"
  let ?r = "(input_row ck input)\<lparr>ID := next_rule db\<rparr>"
  have key: "input_key input = (cp, dp, pp, act)"
    using assms(4,6) by (auto simp: input_key_def input_def or_default_def)
  have chk: "rule_check (input_row ck input)"
    using assms(4) parseDuration_facts [OF dur] by (auto simp: rule_check_def input_row_def input_def or_default_def)
  have "\<not> live (sql_now ck) x" if "x \<in> set (rules db)" "rule_key x = input_key input" for x
    using None that key by (auto simp: findExistingRule_def find_eq_None)
  from CreateRule_fresh [OF assms(1) chk this] obtain db1 where
    "CreateRule ck db input = (db1, Ok (Some ?r))"
    "rules db1 = filter (\<lambda>r. rule_key r \<noteq> input_key input) (rules db) @ [?r]" by blast
  then have db1: "CreateRule ck db input = (db1, Ok (Some ?r))" "?r \<in> set (rules db1)"
    "set (rules db1) \<subseteq> insert ?r (set (rules db))" by auto
  have "live (sql_now ck) ?r"
    using parseDuration_facts [OF dur] assms(2)
    by (auto simp: live_def input_row_def input_def expiry_of_def clock_ok_def wrap64_id split: option.splits)
  moreover have "rule_key ?r = (cp, dp, pp, act)" using key by simp
  moreover have "resolve_pending act ck db i scope dur notes = (fst (deletePendingSiblings db1 p), Ok (Some ?r))"
    using assms(3,5) None dur db1(1) by (simp add: resolve_pending_def input_def)
  moreover have "pendings (fst (deletePendingSiblings db1 p)) = pendings (fst (deletePendingSiblings db p))"
    using CreateRule_frame(2) [OF db1(1)] by (simp add: deletePendingSiblings_rows)
  ultimately show ?thesis
    using db1(2,3) CreateRule_frame(1) [OF db1(1)]
    by (intro that [of "fst (deletePendingSiblings db1 p)" ?r]) (auto simp: input_row_def)
qed

text \<open>A decision on a pending request, for any scope but the subdomain one: the rule it leaves behind.\<close>

lemma resolve_pending_decides:
  assumes "rules_ok db" "clock_ok ck" "GetPending db i = Some p" "act \<in> {''allow'', ''deny''}"
    and "scope \<noteq> ''subdomain_wildcard''" "glob_literal (pend_container p)" "plain_host (pending_host p)"
    and "0 \<le> pend_port p" "pend_port p \<le> maxInt"
    and "\<forall>r \<in> set (rules db). SessionID r \<noteq> None \<longrightarrow>
           rule_key r \<noteq> (case buildPatterns p scope of (cp, dp, pp) \<Rightarrow> (cp, dp, pp, act))"
  obtains db' r where "resolve_pending act ck db i scope dur notes = (db', Ok (Some r))" "Action r = act"
    "r \<in> set (rules db')" "live (sql_now ck) r" "SessionID r = None"
    "MatchesRule (pend_container p) (pending_host p) (pend_port p) (ContainerPattern r) (DestinationPattern r) (PortPattern r)"
    "sessions db' = sessions db" "set (rules db') \<subseteq> insert r (set (rules db))" "\<forall>q \<in> set (pendings db'). pend_id q \<noteq> i"
proof -
  obtain cp dp pp where b: "buildPatterns p scope = (cp, dp, pp)" by (metis prod_cases3)
  then have "pp \<noteq> []" using assms(5,8) by (auto simp: buildPatterns_def Let_def Itoa_nonneg split: if_splits)
  from resolve_pending_new_rule [OF assms(1-4) b this] obtain db' r where
    r: "resolve_pending act ck db i scope dur notes = (db', Ok (Some r))"
      "r \<in> set (rules db')" "rule_key r = (cp, dp, pp, act)" "live (sql_now ck) r"
      "pendings db' = pendings (fst (deletePendingSiblings db p))" "r \<in> set (rules db) \<or> SessionID r = None"
      "sessions db' = sessions db" "set (rules db') \<subseteq> insert r (set (rules db))"
    by metis
  have "MatchesRule (pend_container p) (pending_host p) (pend_port p) cp dp pp"
    by (rule buildPatterns_match [OF b assms(5-9)])
  moreover have "SessionID r = None" using r(3,6) assms(10) b by auto
  moreover have "pend_id p = i" using assms(3) by (auto simp: GetPending_def getPendingByIDLocked_def dest: find_eq_Some)
  ultimately show ?thesis
    using r by (intro that [of db' r]) (auto simp: deletePendingSiblings_rows rule_key_def)
qed

lemma matching_rules_global:
  assumes "r \<in> set (rules db)" "live now r" "SessionID r = None"
    and "MatchesRule c h p (ContainerPattern r) (DestinationPattern r) (PortPattern r)"
  shows "r \<in> matching_rules now db c h p rh" "h \<noteq> [] \<Longrightarrow> r \<in> matching_rules now db c h0 p h"
  using assms by (auto simp: matching_rules_def applicable_def rule_matches_def Let_def)


text \<open>
  An approval can be absorbed by another session's rule: if a live rule with the same patterns
  belongs to a session that is not the container's current one, allowing the request returns that rule
  and removes the request, but no rule is added and every decision stays as it was, so the next attempt
  is undecided again.
\<close>

theorem approval_absorbed_by_other_session:
  assumes "GetPending db i = Some p" "buildPatterns p scope = (cp, dp, pp)"
    and "findExistingRule db (sql_now ck) cp dp pp ''allow'' = Some r" "SessionID r = Some sid"
    and "current_session (sql_now ck) db (pend_container p) \<noteq> Some sid"
  shows "\<exists>db'. AllowPending ck db i scope dur notes = (db', Ok (Some r)) \<and> rules db' = rules db \<and>
    r \<notin> matching_rules (sql_now ck) db' (pend_container p) h port rh \<and>
    FindMatchingRule srt (sql_now ck) db' (pend_container p) h port rh =
    FindMatchingRule srt (sql_now ck) db (pend_container p) h port rh"
proof -
  let ?db' = "fst (deletePendingSiblings db p)"
  have cur: "current_session now ?db' c = current_session now db c" for now c by (simp add: current_session_def)
  then have app: "applicable now ?db' c x = applicable now db c x" for now c x
    by (simp add: applicable_def cong: option.case_cong)
  have "AllowPending ck db i scope dur notes = (?db', Ok (Some r))"
    using assms(1-3) by (simp add: AllowPending_def resolve_pending_def split: prod.split)
  moreover have "\<not> applicable (sql_now ck) db (pend_container p) r"
    using assms(4,5) by (simp add: applicable_def split: option.split)
  ultimately show ?thesis
    by (intro exI [of _ ?db']) (simp add: matching_rules_def FindMatchingRule_def app cong: filter_cong)
qed

end
