(* ===== verification/Database.thy ===== *)
theory Database
  imports Pendings
begin

text \<open>
  The request log of \<^verbatim>\<open>internal/greyproxy/crud.go\<close>, the tables of a fresh database
  (\<^verbatim>\<open>migrations.go\<close>), and the store as a whole: every exported operation that writes is one \<open>db_op\<close>,
  executed atomically under the lock of \<^verbatim>\<open>DB\<close>. \<open>db_ok\<close> collects the invariants of the tables; the
  locale \<open>invariant_steps\<close> lifts ``each step keeps the invariant'' to every sequence of steps, and the
  store is an instance of it.
\<close>

section \<open>Request logs\<close>

record LogCreateInput =
  li_container :: string
  li_container_id :: string
  li_host :: string
  li_port :: int
  li_resolved :: string
  li_method :: string
  li_result :: string
  li_rule :: "int option"
  li_response_ms :: "int option"
  li_skip_reason :: string

definition null_string :: "string \<Rightarrow> string option" where
  "null_string s = (if s \<noteq> [] then Some s else None)"

definition ErrForeignKey :: go_error where "ErrForeignKey = GoErr ''FOREIGN KEY constraint failed''"

definition getLogByID :: "DB \<Rightarrow> int \<Rightarrow> RequestLog go" where
  "getLogByID db i = (case find (\<lambda>l. log_id l = i) (logs db) of
                        Some l \<Rightarrow> Ok l | None \<Rightarrow> Fail (GoErr ''sql: no rows in result set''))"

definition CreateLogEntry :: "string \<Rightarrow> DB \<Rightarrow> LogCreateInput \<Rightarrow> DB \<times> RequestLog go" where
  "CreateLogEntry now db input =
     (let i = next_log db;
          l = \<lparr>log_id = i, log_time = now, log_container = li_container input,
               log_container_id = null_string (li_container_id input), log_host = li_host input,
               log_port = (if li_port input > 0 then Some (li_port input) else None),
               log_resolved = null_string (li_resolved input), log_method = null_string (li_method input),
               log_result = li_result input, log_rule = li_rule input,
               log_response_ms = li_response_ms input, log_skip_reason = null_string (li_skip_reason input)\<rparr>
      in if li_result input \<notin> {''allowed'', ''blocked''} then (db, Fail ErrCheck)
         else if foreign_keys db \<and>
                 (case li_rule input of None \<Rightarrow> False | Some r \<Rightarrow> r \<notin> ID ` set (rules db))
         then (db, Fail ErrForeignKey)
         else let db' = db\<lparr>logs := logs db @ [l], next_log := i + 1\<rparr> in (db', getLogByID db' i))"

text \<open>The row \<^verbatim>\<open>ORDER BY id DESC LIMIT 1\<close> selects: the last one in row order.\<close>

definition UpdateLatestLogMitmSkipReason :: "DB \<Rightarrow> string \<Rightarrow> string \<Rightarrow> int \<Rightarrow> string \<Rightarrow> DB" where
  "UpdateLatestLogMitmSkipReason db containerName destHost destPort reason =
     (if reason = [] then db
      else case find (\<lambda>l. log_container l = containerName \<and>
                          (log_host l = destHost \<or> log_resolved l = Some destHost) \<and>
                          (case log_port l of None \<Rightarrow> 0 | Some p \<Rightarrow> p) = destPort) (rev (logs db)) of
             None \<Rightarrow> db
           | Some hit \<Rightarrow> db\<lparr>logs := map (\<lambda>l. if log_id l = log_id hit then l\<lparr>log_skip_reason := Some reason\<rparr> else l)
                                      (logs db)\<rparr>)"

record LogFilter =
  lf_container :: string
  lf_destination :: string
  lf_result :: string
  lf_from :: "string option"
  lf_to :: "string option"
  lf_limit :: int
  lf_offset :: int

definition log_filter_matches :: "LogFilter \<Rightarrow> RequestLog \<Rightarrow> bool" where
  "log_filter_matches f l \<longleftrightarrow>
     (lf_container f = [] \<or> like_sub (lf_container f) (log_container l)) \<and>
     (lf_destination f = [] \<or> like_sub (lf_destination f) (log_host l) \<or>
        (case log_resolved l of None \<Rightarrow> False | Some h \<Rightarrow> like_sub (lf_destination f) h)) \<and>
     (lf_result f = [] \<or> log_result l = lf_result f) \<and>
     (case lf_from f of None \<Rightarrow> True | Some d \<Rightarrow> d \<le> log_time l) \<and>
     (case lf_to f of None \<Rightarrow> True | Some d \<Rightarrow> log_time l \<le> d)"

text \<open>The summary column joins the rule's patterns with an arrow (three UTF-8 bytes).\<close>

definition rule_summary :: "DB \<Rightarrow> RequestLog \<Rightarrow> string option" where
  "rule_summary db l =
     (case log_rule l of
        None \<Rightarrow> None
      | Some i \<Rightarrow> map_option (\<lambda>r. ContainerPattern r @ '' '' @ [CHR 0xE2, CHR 0x86, CHR 0x92] @ '' '' @
                                  DestinationPattern r @ '':'' @ PortPattern r) (GetRule db i))"

definition QueryLogs :: "DB \<Rightarrow> LogFilter \<Rightarrow> (RequestLog \<times> string option) list \<times> nat" where
  "QueryLogs db f =
     (let lim = (if lf_limit f \<le> 0 then 50 else lf_limit f);
          hits = filter (log_filter_matches f) (logs db)
      in (map (\<lambda>l. (l, rule_summary db l)) (limit_offset lim (lf_offset f) (sort_desc log_time hits)), length hits))"

section \<open>A fresh database\<close>

definition builtin_rule :: "string \<Rightarrow> string \<Rightarrow> Rule" where
  "builtin_rule now dest =
     \<lparr>ID = 0, ContainerPattern = ''*'', DestinationPattern = dest, PortPattern = ''*'', RuleType = ''permanent'',
      Action = ''allow'', CreatedAt = now, ExpiresAt = None, LastUsedAt = None, CreatedBy = ''builtin'',
      Notes = None, SessionID = None\<rparr>"

definition fresh_db :: "string \<Rightarrow> bool \<Rightarrow> DB" where
  "fresh_db now fk =
     foldl insert_or_ignore
       \<lparr>rules = [], next_rule = 1, sessions = [], pendings = [], next_pending = 1, logs = [], next_log = 1,
        foreign_keys = fk\<rparr>
       (map (builtin_rule now) [''127.0.0.1'', ''::1'', ''localhost''])"

section \<open>The invariant of the log\<close>

definition logs_ok :: "DB \<Rightarrow> bool" where
  "logs_ok db \<longleftrightarrow>
     distinct (map log_id (logs db)) \<and>
     (\<forall>l \<in> set (logs db). log_id l < next_log db \<and> log_result l \<in> {''allowed'', ''blocked''} \<and>
        (\<forall>i. foreign_keys db \<longrightarrow> log_rule l = Some i \<longrightarrow> i \<in> ID ` set (rules db)))"

lemma logs_ok_mono:
  assumes "logs_ok db" "logs db' = logs db" "next_log db' = next_log db" "foreign_keys db' = foreign_keys db"
    "ID ` set (rules db) \<subseteq> ID ` set (rules db')"
  shows "logs_ok db'"
  using assms(1,5) unfolding logs_ok_def assms(2-4) by blast

lemma logs_ok_delete [intro]:
  assumes "logs_ok db"
  shows "logs_ok (delete_rules P db)"
proof -
  let ?gone = "set (map ID (filter P (rules db)))"
  let ?f = "\<lambda>l. case log_rule l of Some i \<Rightarrow> if i \<in> ?gone then l\<lparr>log_rule := None\<rparr> else l | None \<Rightarrow> l"
  show ?thesis
  proof (cases "foreign_keys db")
    case False
    with assms show ?thesis by (simp add: logs_ok_def delete_rules_def Let_def)
  next
    case True
    have lg: "logs (delete_rules P db) = map ?f (logs db)" using True by (simp add: delete_rules_def Let_def)
    have keep: "log_id (?f l) = log_id l" "log_result (?f l) = log_result l" for l by (auto split: option.split)
    have "i \<in> ID ` {r \<in> set (rules db). \<not> P r}" if "l \<in> set (logs db)" "log_rule (?f l) = Some i" for l i
    proof -
      from that have i: "log_rule l = Some i" "i \<notin> ?gone" by (auto split: option.splits if_splits)
      with assms True that(1) have "i \<in> ID ` set (rules db)" by (fastforce simp: logs_ok_def)
      with i(2) show ?thesis by auto
    qed
    moreover have "map log_id (map ?f (logs db)) = map log_id (logs db)"
      unfolding map_map comp_def keep ..
    moreover have "log_id (?f l) < next_log db" "log_result (?f l) \<in> {''allowed'', ''blocked''}"
      if "l \<in> set (logs db)" for l unfolding keep using assms that by (auto simp: logs_ok_def)
    ultimately show ?thesis
      using assms unfolding logs_ok_def lg delete_rules_simps by (simp del: map_map)
  qed
qed

lemma insert_ids: "insert_rule db r = Ok (db', i) \<Longrightarrow> ID ` set (rules db') = insert i (ID ` set (rules db))"
  using insert_rule_Ok(1,2) [of db r db' i] by auto

lemma logs_ok_insert: "logs_ok db \<Longrightarrow> insert_rule db r = Ok (db', i) \<Longrightarrow> logs_ok db'"
  using insert_rule_Ok [of db r db' i] insert_ids [of db r db' i] by (intro logs_ok_mono [of db db']) auto

lemma logs_ok_insert_or_ignore: "logs_ok db \<Longrightarrow> logs_ok (insert_or_ignore db r)"
  by (rule insert_or_ignore_cases [of db r]) (auto intro: logs_ok_insert)

lemma logs_ok_foldl_ignore: "logs_ok db \<Longrightarrow> logs_ok (foldl insert_or_ignore db rs)"
  by (induction rs arbitrary: db) (auto intro: logs_ok_insert_or_ignore)

lemma logs_ok_foldl_delete:
  "logs_ok db \<Longrightarrow> logs_ok (foldl (\<lambda>d i. delete_rules (\<lambda>r. SessionID r = Some i) d) db ids)"
  by (induction ids arbitrary: db) auto

lemma CreateRule_logs_ok:
  assumes "logs_ok db" "CreateRule ck db input = (db', res)"
  shows "logs_ok db'"
proof (cases "insert_rule (purge ck input db) (input_row ck input)")
  case (Ok x)
  obtain db2 i where "x = (db2, i)" by fastforce
  with Ok assms logs_ok_insert [of "purge ck input db" "input_row ck input" db2 i] show ?thesis
    by (auto simp: CreateRule_alt purge_def)
qed (use assms in \<open>auto simp: CreateRule_alt purge_def\<close>)

lemma UpdateRule_tables:
  assumes "UpdateRule db i u = (db', res)"
  shows "map ID (rules db') = map ID (rules db)" "map SessionID (rules db') = map SessionID (rules db)"
    "sessions db' = sessions db" "pendings db' = pendings db" "next_pending db' = next_pending db"
    "logs db' = logs db" "next_log db' = next_log db" "foreign_keys db' = foreign_keys db"
  using assms by (auto simp: UpdateRule_def Let_def split: if_splits option.splits)

lemma CreateLogEntry_ok:
  assumes "logs_ok db" "CreateLogEntry now db input = (db', res)"
  shows "logs_ok db'"
proof (cases "db' = db")
  case False
  with assms(2) obtain l where "logs db' = logs db @ [l]" "next_log db' = next_log db + 1" "log_id l = next_log db"
    "rules db' = rules db" "foreign_keys db' = foreign_keys db" "log_result l \<in> {''allowed'', ''blocked''}"
    "\<And>i. foreign_keys db \<Longrightarrow> log_rule l = Some i \<Longrightarrow> i \<in> ID ` set (rules db)"
    by (simp add: CreateLogEntry_def Let_def split: if_splits option.splits) force+
  with assms(1) show ?thesis unfolding logs_ok_def by (auto dest: less_imp_neq intro: less_trans)
qed (use assms in simp)

lemma UpdateLatestLog_ok:
  assumes "logs_ok db"
  shows "logs_ok (UpdateLatestLogMitmSkipReason db c h p reason)"
proof (cases "UpdateLatestLogMitmSkipReason db c h p reason = db")
  case False
  then obtain i where d: "UpdateLatestLogMitmSkipReason db c h p reason =
    db\<lparr>logs := map (\<lambda>l. if log_id l = i then l\<lparr>log_skip_reason := Some reason\<rparr> else l) (logs db)\<rparr>"
    by (auto simp: UpdateLatestLogMitmSkipReason_def split: if_splits option.splits)
  have "map log_id (map (\<lambda>l. if log_id l = i then l\<lparr>log_skip_reason := Some reason\<rparr> else l) (logs db)) =
    map log_id (logs db)" by simp
  with assms show ?thesis unfolding d logs_ok_def by (auto simp del: map_map split: if_splits)
qed (use assms in simp)


section \<open>The store as a whole\<close>

definition db_ok :: "DB \<Rightarrow> bool" where
  "db_ok db \<longleftrightarrow> store_ok db \<and> pendings_ok db \<and> logs_ok db"

text \<open>The operations that write, with their arguments.\<close>

datatype db_op =
    OpCreateRule RuleCreateInput
  | OpUpdateRule int RuleUpdateInput
  | OpDeleteRule int
  | OpTouchRule int
  | OpSession SessionCreateInput
  | OpHeartbeat string
  | OpDeleteSession string
  | OpSweep
  | OpSubstitution string int
  | OpPending string string string int string
  | OpDeletePending int
  | OpAllow int string string "string option"
  | OpDeny int string string "string option"
  | OpIngest "IngestRuleInput list"
  | OpLog LogCreateInput
  | OpSkipReason string string int string

text \<open>What the operations take from outside: JSON, encryption, the sort.\<close>

record env =
  env_marshal :: "(string \<rightharpoonup> string) option \<Rightarrow> string"
  env_encrypt :: "string \<Rightarrow> byte list go"
  env_sort :: "(scored \<Rightarrow> scored \<Rightarrow> bool) \<Rightarrow> scored list \<Rightarrow> scored list"

fun db_step :: "env \<Rightarrow> DB \<Rightarrow> clock \<times> db_op \<Rightarrow> DB" where
  "db_step env db (ck, OpCreateRule input) = fst (CreateRule ck db input)"
| "db_step env db (ck, OpUpdateRule i u) = fst (UpdateRule db i u)"
| "db_step env db (ck, OpDeleteRule i) = fst (DeleteRule db i)"
| "db_step env db (ck, OpTouchRule i) = touch_rule (sql_now ck) db i"
| "db_step env db (ck, OpSession input) = fst (CreateOrUpdateSession (env_marshal env) (env_encrypt env) ck db input)"
| "db_step env db (ck, OpHeartbeat sid) = fst (HeartbeatSession ck db sid)"
| "db_step env db (ck, OpDeleteSession sid) = fst (DeleteSession db sid)"
| "db_step env db (ck, OpSweep) = fst (DeleteExpiredSessions (sql_now ck) db)"
| "db_step env db (ck, OpSubstitution sid d) = IncrementSubstitutionCount db sid d"
| "db_step env db (ck, OpPending c cid h p rh) = fst (CreateOrUpdatePending (sql_now ck) db c cid h p rh)"
| "db_step env db (ck, OpDeletePending i) = fst (DeletePending db i)"
| "db_step env db (ck, OpAllow i scope dur notes) = fst (AllowPending ck db i scope dur notes)"
| "db_step env db (ck, OpDeny i scope dur notes) = fst (DenyPending ck db i scope dur notes)"
| "db_step env db (ck, OpIngest rs) = fst (IngestRules (env_sort env) ck db rs)"
| "db_step env db (ck, OpLog input) = fst (CreateLogEntry (sql_now ck) db input)"
| "db_step env db (ck, OpSkipReason c h p reason) = UpdateLatestLogMitmSkipReason db c h p reason"

text \<open>Which tables an operation can touch: each group of columns is left alone by the others.\<close>

lemma pendings_ok_cong: "pendings_ok db \<Longrightarrow> pendings db' = pendings db \<Longrightarrow> next_pending db' = next_pending db \<Longrightarrow> pendings_ok db'"
  by (simp add: pendings_ok_def)

lemma session_refs_ok_cong:
  assumes "session_refs_ok db" "sessions db' = sessions db" "SessionID ` set (rules db') \<subseteq> insert None (SessionID ` set (rules db))"
  shows "session_refs_ok db'"
  by (rule session_refs_ok_mono [OF assms(1,3)]) (simp add: assms(2))

lemma CreateRule_SessionIDs:
  assumes "CreateRule ck db input = (db', res)"
  shows "SessionID ` set (rules db') \<subseteq> insert None (SessionID ` set (rules db))"
proof (cases "insert_rule (purge ck input db) (input_row ck input)")
  case (Ok x)
  then obtain db2 i where ins: "insert_rule (purge ck input db) (input_row ck input) = Ok (db2, i)" by (cases x) auto
  with assms have "db' = db2" by (simp add: CreateRule_alt)
  with insert_rule_Ok(2) [OF ins] show ?thesis by (auto simp: input_row_def)
qed (use assms in \<open>auto simp: CreateRule_alt\<close>)

lemma CreateRule_db_ok:
  assumes "db_ok db" "CreateRule ck db input = (db', res)"
  shows "db_ok db'"
proof -
  note frame = CreateRule_frame [OF assms(2)]
  from assms(1) have ok: "store_ok db" "pendings_ok db" "logs_ok db" by (simp_all add: db_ok_def)
  have "session_refs_ok db'"
    using session_refs_ok_cong [OF store_okD(3) [OF ok(1)] frame(1) CreateRule_SessionIDs [OF assms(2)]] .
  moreover have "sessions_ok db'" using store_okD(2) [OF ok(1)] frame(1) by (simp add: sessions_ok_def)
  moreover have "rules_ok db'" by (rule CreateRule_rules_ok [OF store_okD(1) [OF ok(1)] assms(2)])
  moreover have "pendings_ok db'" by (rule pendings_ok_cong [OF ok(2) frame(2,3)])
  moreover have "logs_ok db'" by (rule CreateRule_logs_ok [OF ok(3) assms(2)])
  ultimately show ?thesis by (simp add: db_ok_def store_ok_def)
qed

lemma db_ok_pendings_only:
  assumes "db_ok db" "rules db' = rules db" "next_rule db' = next_rule db" "sessions db' = sessions db"
    "logs db' = logs db" "next_log db' = next_log db" "foreign_keys db' = foreign_keys db" "pendings_ok db'"
  shows "db_ok db'"
  using assms by (simp add: db_ok_def store_ok_def rules_ok_def sessions_ok_def session_refs_ok_def logs_ok_def)

lemma db_ok_siblings: "db_ok db \<Longrightarrow> db_ok (fst (deletePendingSiblings db p))"
  by (rule db_ok_pendings_only [of db]) (auto simp: db_ok_def intro: deletePendingSiblings_ok)

lemma resolve_pending_db_ok:
  assumes "db_ok db" "resolve_pending act ck db i scope dur notes = (db', res)"
  shows "db_ok db'"
  using assms(2)
  by (cases rule: resolve_pending_cases) (use assms(1) db_ok_siblings CreateRule_db_ok in blast)+

lemma ingest_loop_db_ok: "ingest_loop ck db res rs = (db', out) \<Longrightarrow> db_ok db \<Longrightarrow> db_ok db'"
proof (induction rs arbitrary: db res)
  case (Cons r rs)
  from Cons.prems show ?case
    by (auto simp: Let_def split: option.splits prod.splits go.splits intro: Cons.IH CreateRule_db_ok)
qed simp

lemma clean_loop_db_ok: "clean_loop srt now db n ps = (db', m) \<Longrightarrow> db_ok db \<Longrightarrow> db_ok db'"
proof (induction ps arbitrary: db n)
  case (Cons p ps)
  from Cons.prems show ?case
    by (auto simp: Let_def split: option.splits if_splits intro: Cons.IH db_ok_siblings)
qed simp

lemma IngestRules_db_ok: "IngestRules srt ck db rs = (db', res) \<Longrightarrow> db_ok db \<Longrightarrow> db_ok db'"
  by (auto simp: IngestRules_def split: prod.splits go.splits if_splits
           intro: ingest_loop_db_ok clean_loop_db_ok)


lemma db_okD: "db_ok db \<Longrightarrow> store_ok db" "db_ok db \<Longrightarrow> pendings_ok db" "db_ok db \<Longrightarrow> logs_ok db"
  by (simp_all add: db_ok_def)

text \<open>The session operations leave the pending table alone and keep the log's references good.\<close>

lemma pendings_delete_fold [simp]:
  "pendings (foldl (\<lambda>d i. delete_rules (\<lambda>r. SessionID r = Some i) d) db ids) = pendings db"
  "next_pending (foldl (\<lambda>d i. delete_rules (\<lambda>r. SessionID r = Some i) d) db ids) = next_pending db"
  by (induction ids arbitrary: db) simp_all

lemma logs_ok_sessions: "logs_ok db \<Longrightarrow> logs_ok (db\<lparr>sessions := ss\<rparr>)"
  by (erule logs_ok_mono) simp_all

lemma session_create_other_tables:
  assumes "logs_ok db" "CreateOrUpdateSession marshal encrypt ck db input = (db', res)"
  shows "logs_ok db' \<and> pendings db' = pendings db \<and> next_pending db' = next_pending db"
proof -
  have "logs_ok (upsert_session db s)" for s using assms(1) by (rule logs_ok_mono) simp_all
  then show ?thesis using assms
    by (cases "encrypt (marshal (si_mappings input))")
       (auto simp: CreateOrUpdateSession_def Let_def intro!: logs_ok_foldl_ignore logs_ok_delete)
qed

lemma heartbeat_other_tables:
  assumes "HeartbeatSession ck db sid = (db', res)"
  shows "map ID (rules db') = map ID (rules db)" "pendings db' = pendings db" "next_pending db' = next_pending db"
    "logs db' = logs db" "next_log db' = next_log db" "foreign_keys db' = foreign_keys db"
  using assms by (auto simp: HeartbeatSession_def Let_def split: if_splits)

lemma sweep_other_tables:
  assumes "logs_ok db" "DeleteExpiredSessions now db = (db', ids)"
  shows "logs_ok db' \<and> pendings db' = pendings db \<and> next_pending db' = next_pending db"
  using assms by (auto simp: DeleteExpiredSessions_def Let_def split: if_splits
                       intro!: logs_ok_sessions logs_ok_foldl_delete)

lemma db_ok_store:
  assumes "db_ok db" "store_ok db'" "logs_ok db'" "pendings db' = pendings db" "next_pending db' = next_pending db"
  shows "db_ok db'"
  using assms pendings_ok_cong [of db db'] by (simp add: db_ok_def)

lemma UpdateRule_db_ok:
  assumes "db_ok db" "UpdateRule db i u = (db', res)"
  shows "db_ok db'"
proof -
  note tab = UpdateRule_tables [OF assms(2)] and ok = db_okD [OF assms(1)]
  have "SessionID ` set (rules db') = SessionID ` set (rules db)" using tab(2) by (metis list.set_map)
  then have "SessionID ` set (rules db') \<subseteq> insert None (SessionID ` set (rules db))" by auto
  with store_okD(3) [OF ok(1)] tab(3) have refs: "session_refs_ok db'" by (rule session_refs_ok_cong)
  have "sessions_ok db'" using store_okD(2) [OF ok(1)] tab(3) by (simp add: sessions_ok_def)
  with UpdateRule_rules_ok [OF store_okD(1) [OF ok(1)] assms(2)] have "store_ok db'" using refs by (rule store_okI)
  moreover have "ID ` set (rules db) \<subseteq> ID ` set (rules db')" using tab(1) by (metis list.set_map order_refl)
  with ok(3) tab(6,7,8) have "logs_ok db'" by (rule logs_ok_mono)
  ultimately show ?thesis by (rule db_ok_store [OF assms(1) _ _ tab(4,5)])
qed

lemma touch_rule_db_ok:
  assumes "db_ok db"
  shows "db_ok (touch_rule now db i)"
proof -
  note ok = db_okD [OF assms]
  let ?d = "touch_rule now db i"
  have sids: "map SessionID (rules ?d) = map SessionID (rules db)" and ids: "map ID (rules ?d) = map ID (rules db)"
    by (simp_all add: touch_rule_def)
  have "SessionID ` set (rules ?d) = SessionID ` set (rules db)" using sids by (metis list.set_map)
  then have "SessionID ` set (rules ?d) \<subseteq> insert None (SessionID ` set (rules db))" by auto
  with store_okD(3) [OF ok(1)] touch_rule_simps(1) have "session_refs_ok ?d" by (rule session_refs_ok_cong)
  moreover have "rules_ok ?d" using store_okD(1) [OF ok(1)] by (rule touch_rule_rules_ok)
  moreover have "sessions_ok ?d" using store_okD(2) [OF ok(1)] by (simp add: sessions_ok_def)
  ultimately have "store_ok ?d" by (intro store_okI)
  moreover have "ID ` set (rules db) \<subseteq> ID ` set (rules ?d)" using ids by (metis list.set_map order_refl)
  with ok(3) touch_rule_simps(4-6) have "logs_ok ?d" by (rule logs_ok_mono)
  ultimately show ?thesis by (rule db_ok_store [OF assms]) (simp_all add: touch_rule_def)
qed

lemma DeleteRule_db_ok:
  assumes "db_ok db" "DeleteRule db i = (db', b)"
  shows "db_ok db'"
proof -
  note ok = db_okD [OF assms(1)]
  have d: "db' = delete_rules (\<lambda>r. ID r = i) db" using assms(2) by (simp add: DeleteRule_def)
  have "session_refs_ok db'"
    using session_refs_ok_cong [OF store_okD(3) [OF ok(1)], of db'] by (auto simp: d)
  then have "store_ok db'" using store_okD [OF ok(1)] by (intro store_okI) (auto simp: d sessions_ok_def)
  moreover have "logs_ok db'" unfolding d using ok(3) by (rule logs_ok_delete)
  ultimately show ?thesis by (rule db_ok_store [OF assms(1)]) (simp_all add: d)
qed

lemma log_only_db_ok:
  assumes "db_ok db" "rules db' = rules db" "next_rule db' = next_rule db" "sessions db' = sessions db"
    "pendings db' = pendings db" "next_pending db' = next_pending db" "logs_ok db'"
  shows "db_ok db'"
  using assms
  by (simp add: db_ok_def store_ok_def rules_ok_def sessions_ok_def session_refs_ok_def pendings_ok_def)

lemma session_steps_ok:
  assumes "db_ok db"
  shows "db_ok (fst (CreateOrUpdateSession marshal encrypt ck db input))"
    "db_ok (fst (HeartbeatSession ck db sid))" "db_ok (fst (DeleteSession db sid))"
    "db_ok (fst (DeleteExpiredSessions now db))" "db_ok (IncrementSubstitutionCount db sid d)"
proof -
  note ok = db_okD [OF assms]
  show "db_ok (fst (CreateOrUpdateSession marshal encrypt ck db input))"
    using db_ok_store [OF assms] CreateOrUpdateSession_store_ok [OF ok(1)] session_create_other_tables [OF ok(3)]
    by (metis prod.collapse)
  show "db_ok (fst (DeleteExpiredSessions now db))"
    using db_ok_store [OF assms] DeleteExpiredSessions_store_ok [OF ok(1)] sweep_other_tables [OF ok(3)]
    by (metis prod.collapse)
  obtain db' res where h: "HeartbeatSession ck db sid = (db', res)" by fastforce
  note tab = heartbeat_other_tables [OF h]
  have "ID ` set (rules db) = ID ` set (rules db')" using tab(1) by (metis list.set_map)
  then have "logs_ok db'" using logs_ok_mono [OF ok(3) tab(4,5,6)] by simp
  with h show "db_ok (fst (HeartbeatSession ck db sid))"
    using db_ok_store [OF assms HeartbeatSession_store_ok [OF ok(1) h]] tab by simp
  obtain db1 b where d: "DeleteSession db sid = (db1, b)" by fastforce
  then have "logs_ok db1" "pendings db1 = pendings db" "next_pending db1 = next_pending db"
    using ok(3) by (auto simp: DeleteSession_def Let_def intro!: logs_ok_sessions)
  with d show "db_ok (fst (DeleteSession db sid))"
    using db_ok_store [OF assms DeleteSession_store_ok [OF ok(1) d]] by simp
  have "logs_ok (IncrementSubstitutionCount db sid d)"
    unfolding IncrementSubstitutionCount_def using ok(3) by (rule logs_ok_sessions)
  then show "db_ok (IncrementSubstitutionCount db sid d)"
    using db_ok_store [OF assms IncrementSubstitutionCount_store_ok [OF ok(1)]]
    by (simp add: IncrementSubstitutionCount_def)
qed

lemma pending_steps_ok:
  assumes "db_ok db"
  shows "db_ok (fst (CreateOrUpdatePending now db c cid h p rh))" "db_ok (fst (DeletePending db i))"
proof -
  obtain db' res where d: "CreateOrUpdatePending now db c cid h p rh = (db', res)" by (metis surj_pair)
  then have "rules db' = rules db" "next_rule db' = next_rule db" "sessions db' = sessions db"
    "logs db' = logs db" "next_log db' = next_log db" "foreign_keys db' = foreign_keys db"
    by (auto simp: CreateOrUpdatePending_def Let_def split: option.splits if_splits)
  with d show "db_ok (fst (CreateOrUpdatePending now db c cid h p rh))"
    using db_ok_pendings_only [OF assms] CreateOrUpdatePending_ok [OF db_okD(2) [OF assms] d] by simp
  have "pendings_ok (fst (DeletePending db i))"
    using db_okD(2) [OF assms] by (rule pendings_ok_filter) (simp_all add: DeletePending_def)
  then show "db_ok (fst (DeletePending db i))"
    using db_ok_pendings_only [OF assms, of "fst (DeletePending db i)"] by (simp add: DeletePending_def)
qed

lemma log_steps_ok:
  assumes "db_ok db"
  shows "db_ok (fst (CreateLogEntry now db input))" "db_ok (UpdateLatestLogMitmSkipReason db c h p reason)"
proof -
  obtain db' res where d: "CreateLogEntry now db input = (db', res)" by fastforce
  then have "rules db' = rules db" "next_rule db' = next_rule db" "sessions db' = sessions db"
    "pendings db' = pendings db" "next_pending db' = next_pending db"
    by (auto simp: CreateLogEntry_def Let_def split: if_splits)
  with d show "db_ok (fst (CreateLogEntry now db input))"
    using log_only_db_ok [OF assms] CreateLogEntry_ok [OF db_okD(3) [OF assms] d] by simp
  let ?d = "UpdateLatestLogMitmSkipReason db c h p reason"
  have "rules ?d = rules db" "next_rule ?d = next_rule db" "sessions ?d = sessions db"
    "pendings ?d = pendings db" "next_pending ?d = next_pending db"
    by (auto simp: UpdateLatestLogMitmSkipReason_def split: option.split)
  then show "db_ok ?d" using log_only_db_ok [OF assms] UpdateLatestLog_ok [OF db_okD(3) [OF assms]] by simp
qed

lemma rule_steps_ok:
  assumes "db_ok db"
  shows "db_ok (fst (CreateRule ck db input))" "db_ok (fst (UpdateRule db i u))" "db_ok (fst (DeleteRule db i))"
    "db_ok (fst (resolve_pending act ck db i scope dur notes))" "db_ok (fst (IngestRules srt ck db rs))"
  using assms CreateRule_db_ok UpdateRule_db_ok DeleteRule_db_ok resolve_pending_db_ok IngestRules_db_ok
  by (metis prod.collapse)+

lemma db_step_ok: "db_ok db \<Longrightarrow> db_ok (db_step env db (ck, op))"
  by (cases op)
     (simp_all add: rule_steps_ok session_steps_ok pending_steps_ok log_steps_ok touch_rule_db_ok
                    AllowPending_def DenyPending_def)

interpretation store: invariant_steps "db_step env" db_ok
proof
  fix db and i :: "clock \<times> db_op"
  assume "db_ok db"
  then show "db_ok (db_step env db i)" by (cases i) (simp add: db_step_ok)
qed

lemma fresh_db_ok: "db_ok (fresh_db now fk)"
proof -
  let ?e = "\<lparr>rules = [], next_rule = 1, sessions = [], pendings = [], next_pending = 1, logs = [], next_log = 1,
    foreign_keys = fk\<rparr>"
  have "rules_ok ?e" "logs_ok ?e" by (simp_all add: rules_ok_def logs_ok_def)
  then have "rules_ok (fresh_db now fk)" "logs_ok (fresh_db now fk)"
    unfolding fresh_db_def by (simp_all only: foldl_ignore_rules_ok logs_ok_foldl_ignore)
  moreover have "SessionID r = None" if "r \<in> set (rules (fresh_db now fk))" for r
    using foldl_ignore_new [OF that [unfolded fresh_db_def]] by (auto simp: builtin_rule_def)
  ultimately show ?thesis
    by (auto simp: db_ok_def store_ok_def session_refs_ok_def)
       (simp_all add: fresh_db_def sessions_ok_def pendings_ok_def)
qed

section \<open>Properties\<close>

text \<open>
  C5. Whatever sequence of operations runs on a fresh database, in whatever order and at whatever
  times, the tables stay well formed: ids and keys are unique, every rule satisfies the constraints,
  every session rule belongs to a session of the table, pending rows are unique per container, host and
  port with a positive attempt count, and (with foreign keys on) every log entry that names a rule
  names one that exists.
\<close>

theorem store_always_well_formed:
  "db_ok (foldl (db_step env) (fresh_db now fk) ops)"
  by (rule store.inv_run) (rule fresh_db_ok)

end
