(* ===== verification/Events.thy ===== *)
theory Events
  imports Pendings "HOL-Library.Mapping"
begin

text \<open>
  \<^verbatim>\<open>internal/greyproxy/events.go\<close> and \<^verbatim>\<open>waiters.go\<close>: the event bus over buffered channels, and the
  counters of held connections. Channels are explicit: a capacity, the buffered events and whether the
  channel is closed, so that a send on a closed channel and a second close panic as they do in Go. The
  invariants say that no publication panics or blocks, that slow subscribers only lose events, and that
  a counter is the number of connections still waiting.
\<close>

section \<open>Channels and the bus\<close>

datatype event_data =
    NoData
  | WaiterChangedData string string int int int
  | PendingData PendingRequest
  | DecidedData int Rule
  | DismissedData int
  | StatusData bool string "int option" "int option"
  | SessionData string

record Event =
  ev_type :: string
  ev_data :: event_data

definition EventPendingCreated :: string where "EventPendingCreated = ''pending_request.created''"
definition EventPendingUpdated :: string where "EventPendingUpdated = ''pending_request.updated''"
definition EventPendingAllowed :: string where "EventPendingAllowed = ''pending_request.allowed''"
definition EventPendingDismissed :: string where "EventPendingDismissed = ''pending_request.dismissed''"
definition EventWaitersChanged :: string where "EventWaitersChanged = ''waiters.changed''"
definition EventAllowAllChanged :: string where "EventAllowAllChanged = ''allowall.changed''"

record chan =
  ch_cap :: nat
  ch_buf :: "Event list"
  ch_closed :: bool

text \<open>Channel references are numbers; \<open>heap\<close> holds every channel ever made.\<close>

record EventBus =
  subscribers :: "nat list"
  heap :: "(nat, chan) mapping"
  next_chan :: nat

definition NewEventBus :: EventBus where
  "NewEventBus = \<lparr>subscribers = [], heap = Mapping.empty, next_chan = 0\<rparr>"

definition Subscribe :: "int \<Rightarrow> EventBus \<Rightarrow> EventBus \<times> nat" where
  "Subscribe bufSize eb =
     (let size = (if bufSize < 1 then 64 else bufSize); ch = next_chan eb in
      (eb\<lparr>subscribers := subscribers eb @ [ch],
          heap := Mapping.update ch \<lparr>ch_cap = nat size, ch_buf = [], ch_closed = False\<rparr> (heap eb),
          next_chan := ch + 1\<rparr>, ch))"

text \<open>\<^verbatim>\<open>close\<close> of a closed channel panics, after the channel has left the subscriber set.\<close>

definition Unsubscribe :: "nat \<Rightarrow> EventBus \<Rightarrow> EventBus go" where
  "Unsubscribe ch eb =
     (let subs = filter (\<lambda>c. c \<noteq> ch) (subscribers eb) in
      case Mapping.lookup (heap eb) ch of
        None \<Rightarrow> Panic
      | Some c \<Rightarrow> if ch_closed c then Panic
                  else Ok (eb\<lparr>subscribers := subs, heap := Mapping.update ch (c\<lparr>ch_closed := True\<rparr>) (heap eb)\<rparr>))"

text \<open>The non-blocking send of the \<^verbatim>\<open>select\<close>: it drops the event when the buffer is full.\<close>

definition send :: "Event \<Rightarrow> chan \<Rightarrow> chan go" where
  "send evt c = (if ch_closed c then Panic
                 else if length (ch_buf c) < ch_cap c then Ok (c\<lparr>ch_buf := ch_buf c @ [evt]\<rparr>) else Ok c)"

fun publish_to :: "Event \<Rightarrow> nat list \<Rightarrow> (nat, chan) mapping \<Rightarrow> (nat, chan) mapping go" where
  "publish_to evt [] h = Ok h"
| "publish_to evt (ch # chs) h =
     (case Mapping.lookup h ch of
        None \<Rightarrow> Panic
      | Some c \<Rightarrow> gbind (send evt c) (\<lambda>c'. publish_to evt chs (Mapping.update ch c' h)))"

definition Publish :: "Event \<Rightarrow> EventBus \<Rightarrow> EventBus go" where
  "Publish evt eb = gbind (publish_to evt (subscribers eb) (heap eb)) (\<lambda>h. Ok (eb\<lparr>heap := h\<rparr>))"

section \<open>The invariant of the bus\<close>

definition bus_ok :: "EventBus \<Rightarrow> bool" where
  "bus_ok eb \<longleftrightarrow>
     distinct (subscribers eb) \<and>
     (\<forall>ch \<in> set (subscribers eb). \<exists>c. Mapping.lookup (heap eb) ch = Some c \<and> \<not> ch_closed c) \<and>
     (\<forall>ch c. Mapping.lookup (heap eb) ch = Some c \<longrightarrow> ch < next_chan eb \<and> length (ch_buf c) \<le> ch_cap c)"

lemma bus_okD:
  assumes "bus_ok eb"
  shows "distinct (subscribers eb)"
    "ch \<in> set (subscribers eb) \<Longrightarrow> \<exists>c. Mapping.lookup (heap eb) ch = Some c \<and> \<not> ch_closed c"
    "Mapping.lookup (heap eb) ch = Some c \<Longrightarrow> ch < next_chan eb"
    "Mapping.lookup (heap eb) ch = Some c \<Longrightarrow> length (ch_buf c) \<le> ch_cap c"
  using assms unfolding bus_ok_def by blast+

lemma bus_okI:
  assumes "distinct (subscribers eb)"
    "\<And>ch. ch \<in> set (subscribers eb) \<Longrightarrow> \<exists>c. Mapping.lookup (heap eb) ch = Some c \<and> \<not> ch_closed c"
    "\<And>ch c. Mapping.lookup (heap eb) ch = Some c \<Longrightarrow> ch < next_chan eb \<and> length (ch_buf c) \<le> ch_cap c"
  shows "bus_ok eb"
  using assms unfolding bus_ok_def by blast

lemma NewEventBus_ok: "bus_ok NewEventBus"
  by (simp add: bus_ok_def NewEventBus_def)

lemma Subscribe_ok:
  assumes "bus_ok eb" "Subscribe n eb = (eb', ch)"
  shows "bus_ok eb'" "ch \<in> set (subscribers eb')" "ch \<notin> set (subscribers eb)"
proof -
  have eb': "eb' = fst (Subscribe n eb)" and ch: "ch = next_chan eb" using assms(2) by (auto simp: Subscribe_def Let_def)
  show new: "ch \<notin> set (subscribers eb)" using bus_okD(2,3) [OF assms(1)] unfolding ch by blast
  show "ch \<in> set (subscribers eb')" by (simp add: eb' ch Subscribe_def Let_def)
  have "ch < next_chan eb'" by (simp add: eb' ch Subscribe_def Let_def)
  with new assms(1) show "bus_ok eb'"
    unfolding eb' bus_ok_def by (auto simp: Subscribe_def Let_def ch lookup_update' less_SucI)
qed

lemma publish_to_spec:
  assumes "distinct chs" "\<forall>ch \<in> set chs. \<exists>c. Mapping.lookup h ch = Some c \<and> \<not> ch_closed c"
  shows "\<exists>h'. publish_to evt chs h = Ok h' \<and>
    (\<forall>ch. Mapping.lookup h' ch =
       (if ch \<in> set chs
        then map_option (\<lambda>c. if length (ch_buf c) < ch_cap c then c\<lparr>ch_buf := ch_buf c @ [evt]\<rparr> else c)
               (Mapping.lookup h ch)
        else Mapping.lookup h ch))"
  using assms
proof (induction chs arbitrary: h)
  case (Cons ch chs)
  obtain c where c: "Mapping.lookup h ch = Some c" "\<not> ch_closed c" using Cons.prems by auto
  let ?c = "if length (ch_buf c) < ch_cap c then c\<lparr>ch_buf := ch_buf c @ [evt]\<rparr> else c"
  let ?h = "Mapping.update ch ?c h"
  have send: "send evt c = Ok ?c" using c by (simp add: send_def)
  have "\<forall>x \<in> set chs. \<exists>c. Mapping.lookup ?h x = Some c \<and> \<not> ch_closed c"
    using Cons.prems by (auto simp: lookup_update')
  from Cons.IH [OF _ this] Cons.prems(1) obtain h' where
    h': "publish_to evt chs ?h = Ok h'"
    "\<forall>x. Mapping.lookup h' x = (if x \<in> set chs
        then map_option (\<lambda>c. if length (ch_buf c) < ch_cap c then c\<lparr>ch_buf := ch_buf c @ [evt]\<rparr> else c)
               (Mapping.lookup ?h x) else Mapping.lookup ?h x)" by auto
  have "publish_to evt (ch # chs) h = Ok h'" using c send h'(1) by (simp add: gbind_def)
  then show ?case using h'(2) c Cons.prems(1) by (auto simp: lookup_update')
qed simp

section \<open>Waiters\<close>

definition waiterKey :: "string \<Rightarrow> string \<Rightarrow> int \<Rightarrow> string" where
  "waiterKey containerName host port = containerName @ ''|'' @ host @ ''|'' @ Itoa port"

text \<open>
  The closure that \<^verbatim>\<open>Add\<close> returns is a token: its key and whether its \<^verbatim>\<open>sync.Once\<close> has fired.
\<close>

record WaiterTracker =
  counts :: "(string, int) mapping"
  tokens :: "((string \<times> string \<times> int) \<times> bool) list"

definition wt_get :: "(string, int) mapping \<Rightarrow> string \<Rightarrow> int" where
  "wt_get m k = (case Mapping.lookup m k of Some n \<Rightarrow> n | None \<Rightarrow> 0)"

definition waiter_event :: "string \<Rightarrow> string \<Rightarrow> int \<Rightarrow> int \<Rightarrow> int \<Rightarrow> Event" where
  "waiter_event c h p prev cur = \<lparr>ev_type = EventWaitersChanged, ev_data = WaiterChangedData c h p prev cur\<rparr>"

definition Add_waiter :: "string \<Rightarrow> string \<Rightarrow> int \<Rightarrow> WaiterTracker \<Rightarrow> WaiterTracker \<times> nat \<times> Event" where
  "Add_waiter containerName host port w =
     (let key = waiterKey containerName host port;
          prev = wt_get (counts w) key;
          counts' = Mapping.update key (prev + 1) (counts w);
          cur = wt_get counts' key
      in (w\<lparr>counts := counts', tokens := tokens w @ [((containerName, host, port), False)]\<rparr>,
          length (tokens w), waiter_event containerName host port prev cur))"

definition Done_waiter :: "nat \<Rightarrow> WaiterTracker \<Rightarrow> WaiterTracker \<times> Event option" where
  "Done_waiter t w =
     (case tokens w ! t of
        (_, True) \<Rightarrow> (w, None)
      | ((containerName, host, port), False) \<Rightarrow>
          (let key = waiterKey containerName host port;
               prev = wt_get (counts w) key;
               counts1 = Mapping.update key (prev - 1) (counts w);
               cur = wt_get counts1 key;
               counts2 = (if cur \<le> 0 then Mapping.delete key counts1 else counts1);
               cur' = (if cur \<le> 0 then 0 else cur)
           in (w\<lparr>counts := counts2, tokens := (tokens w)[t := ((containerName, host, port), True)]\<rparr>,
               Some (waiter_event containerName host port prev cur'))))"

definition Get_waiters :: "string \<Rightarrow> string \<Rightarrow> int \<Rightarrow> WaiterTracker \<Rightarrow> int" where
  "Get_waiters containerName host port w = wt_get (counts w) (waiterKey containerName host port)"

definition waiting :: "WaiterTracker \<Rightarrow> string \<Rightarrow> nat" where
  "waiting w k = length (filter (\<lambda>(y, used). \<not> used \<and> (case y of (c, h, p) \<Rightarrow> waiterKey c h p) = k) (tokens w))"

definition waiters_ok :: "WaiterTracker \<Rightarrow> bool" where
  "waiters_ok w \<longleftrightarrow> (\<forall>k. wt_get (counts w) k = int (waiting w k) \<and> Mapping.lookup (counts w) k \<noteq> Some 0)"

lemma waiters_okD: "waiters_ok w \<Longrightarrow> wt_get (counts w) k = int (waiting w k)"
  "waiters_ok w \<Longrightarrow> Mapping.lookup (counts w) k \<noteq> Some 0"
  by (simp_all add: waiters_ok_def)

lemma wt_get_update [simp]: "wt_get (Mapping.update k v m) j = (if j = k then v else wt_get m j)"
  by (simp add: wt_get_def lookup_update')

lemma wt_get_delete [simp]: "wt_get (Mapping.delete k m) j = (if j = k then 0 else wt_get m j)"
  by (cases "j = k") (simp_all add: wt_get_def lookup_delete_neq)

lemma Add_waiter_ok:
  assumes "waiters_ok w" "Add_waiter c h p w = (w', t, e)"
  shows "waiters_ok w'" "t < length (tokens w')" "tokens w' ! t = ((c, h, p), False)"
proof -
  have w': "w' = fst (Add_waiter c h p w)" and t: "t = length (tokens w)"
    using assms(2) by (auto simp: Add_waiter_def Let_def)
  show "t < length (tokens w')" "tokens w' ! t = ((c, h, p), False)" by (simp_all add: w' t Add_waiter_def Let_def)
  show "waiters_ok w'"
    using assms(1) by (auto simp: waiters_ok_def w' Add_waiter_def Let_def waiting_def lookup_update')
qed

lemma filter_use_token:
  assumes "t < length xs" "xs ! t = (a, False)"
  shows "length (filter (\<lambda>(y, used). \<not> used \<and> f y = k) (xs[t := (a, True)])) =
    length (filter (\<lambda>(y, used). \<not> used \<and> f y = k) xs) - (if f a = k then 1 else 0)"
    "f a = k \<Longrightarrow> 0 < length (filter (\<lambda>(y, used). \<not> used \<and> f y = k) xs)"
proof -
  have xs: "xs = take t xs @ (a, False) # drop (Suc t) xs" using assms by (metis id_take_nth_drop)
  have upd: "xs[t := (a, True)] = take t xs @ (a, True) # drop (Suc t) xs"
    using assms(1) by (simp add: upd_conv_take_nth_drop)
  show "length (filter (\<lambda>(y, used). \<not> used \<and> f y = k) (xs[t := (a, True)])) =
    length (filter (\<lambda>(y, used). \<not> used \<and> f y = k) xs) - (if f a = k then 1 else 0)"
    unfolding upd by (subst (3) xs) simp
  show "f a = k \<Longrightarrow> 0 < length (filter (\<lambda>(y, used). \<not> used \<and> f y = k) xs)"
    by (subst xs) simp
qed


lemma Done_waiter_ok:
  assumes "waiters_ok w" "t < length (tokens w)" "Done_waiter t w = (w', e)"
  shows "waiters_ok w'" "length (tokens w') = length (tokens w)"
proof -
  obtain c h p used where tok: "tokens w ! t = ((c, h, p), used)" by (metis surj_pair)
  have "waiters_ok w' \<and> length (tokens w') = length (tokens w)"
  proof (cases used)
    case True
    with assms tok show ?thesis by (simp add: Done_waiter_def)
  next
    case False
    define key where "key = waiterKey c h p"
    define prev where "prev = wt_get (counts w) key"
    let ?f = "\<lambda>(c, h, p). waiterKey c h p"
    have w': "w' = w\<lparr>counts := if prev - 1 \<le> 0 then Mapping.delete key (Mapping.update key (prev - 1) (counts w))
                              else Mapping.update key (prev - 1) (counts w),
                     tokens := (tokens w)[t := ((c, h, p), True)]\<rparr>"
      using assms(3) tok False by (simp add: Done_waiter_def Let_def key_def prev_def split: if_splits)
    from tok False have tok': "tokens w ! t = ((c, h, p), False)" by simp
    have cnt: "waiting w' k = waiting w k - (if k = key then 1 else 0)" for k
      using filter_use_token(1) [OF assms(2) tok', of ?f k] by (simp add: waiting_def w' key_def)
    have pos: "0 < waiting w key"
      using filter_use_token(2) [OF assms(2) tok', of ?f key] by (simp add: waiting_def key_def)
    have prev: "prev = int (waiting w key)" using waiters_okD(1) [OF assms(1)] by (simp add: prev_def)
    have got: "wt_get (counts w') k = (if k = key then (if prev - 1 \<le> 0 then 0 else prev - 1) else wt_get (counts w) k)"
      for k by (simp add: w')
    have "wt_get (counts w') k = int (waiting w' k)" for k
      unfolding got cnt using prev pos waiters_okD(1) [OF assms(1), of k] by auto
    moreover have "Mapping.lookup (counts w') k \<noteq> Some 0" for k
      using waiters_okD(2) [OF assms(1), of k] by (cases "k = key") (auto simp: w' lookup_delete_neq lookup_update')
    ultimately show ?thesis by (simp add: waiters_ok_def w')
  qed
  then show "waiters_ok w'" "length (tokens w') = length (tokens w)" by simp_all
qed

text \<open>Runs of the tracker: a connection arrives, or the one that holds a token finishes (again).\<close>

datatype waiter_op = AddOp string string int | DoneOp nat

fun waiter_step :: "WaiterTracker \<Rightarrow> waiter_op \<Rightarrow> WaiterTracker" where
  "waiter_step w (AddOp c h p) = fst (Add_waiter c h p w)"
| "waiter_step w (DoneOp t) = (if t < length (tokens w) then fst (Done_waiter t w) else w)"

definition NewWaiterTracker :: WaiterTracker where
  "NewWaiterTracker = \<lparr>counts = Mapping.empty, tokens = []\<rparr>"

interpretation waiters: invariant_steps waiter_step waiters_ok
proof
  fix w op
  assume "waiters_ok w"
  then show "waiters_ok (waiter_step w op)"
    by (cases op) (auto intro: Add_waiter_ok(1) Done_waiter_ok(1) simp: prod_eq_iff)
qed

lemma NewWaiterTracker_ok: "waiters_ok NewWaiterTracker"
  by (simp add: waiters_ok_def NewWaiterTracker_def wt_get_def waiting_def)

section \<open>Publishing and unsubscribing\<close>

text \<open>What publishing and unsubscribing do to a well-formed bus.\<close>

lemma Publish_spec:
  assumes "bus_ok eb"
  obtains h' where "Publish evt eb = Ok (eb\<lparr>heap := h'\<rparr>)" "bus_ok (eb\<lparr>heap := h'\<rparr>)"
    "\<And>ch. Mapping.lookup h' ch =
       (if ch \<in> set (subscribers eb)
        then map_option (\<lambda>c. if length (ch_buf c) < ch_cap c then c\<lparr>ch_buf := ch_buf c @ [evt]\<rparr> else c)
               (Mapping.lookup (heap eb) ch)
        else Mapping.lookup (heap eb) ch)"
proof -
  note ok = bus_okD [OF assms]
  let ?f = "\<lambda>c. if length (ch_buf c) < ch_cap c then c\<lparr>ch_buf := ch_buf c @ [evt]\<rparr> else c"
  have "\<forall>ch \<in> set (subscribers eb). \<exists>c. Mapping.lookup (heap eb) ch = Some c \<and> \<not> ch_closed c"
    using ok(2) by blast
  from publish_to_spec [OF ok(1) this] obtain h' where
    h': "publish_to evt (subscribers eb) (heap eb) = Ok h'"
      "\<And>ch. Mapping.lookup h' ch = (if ch \<in> set (subscribers eb) then map_option ?f (Mapping.lookup (heap eb) ch)
                                     else Mapping.lookup (heap eb) ch)" by blast
  have "bus_ok (eb\<lparr>heap := h'\<rparr>)"
  proof (rule bus_okI)
    show "distinct (subscribers (eb\<lparr>heap := h'\<rparr>))" using ok(1) by simp
    show "\<exists>c. Mapping.lookup (heap (eb\<lparr>heap := h'\<rparr>)) ch = Some c \<and> \<not> ch_closed c"
      if "ch \<in> set (subscribers (eb\<lparr>heap := h'\<rparr>))" for ch
    proof -
      from that ok(2) [of ch] obtain c where "Mapping.lookup (heap eb) ch = Some c" "\<not> ch_closed c" by auto
      with that show ?thesis by (simp add: h'(2))
    qed
    fix ch c assume "Mapping.lookup (heap (eb\<lparr>heap := h'\<rparr>)) ch = Some c"
    then obtain c0 where "Mapping.lookup (heap eb) ch = Some c0" "c = c0 \<or> c = ?f c0"
      by (auto simp: h'(2) split: if_splits)
    with ok(3,4) [of ch c0] show "ch < next_chan (eb\<lparr>heap := h'\<rparr>) \<and> length (ch_buf c) \<le> ch_cap c" by auto
  qed
  moreover have "Publish evt eb = Ok (eb\<lparr>heap := h'\<rparr>)" using h'(1) by (simp add: Publish_def)
  ultimately show ?thesis using h'(2) by (intro that) blast+
qed

lemma Publish_Ok:
  assumes "bus_ok eb"
  obtains eb' where "Publish evt eb = Ok eb'" "bus_ok eb'" "subscribers eb' = subscribers eb"
proof -
  obtain h' where "Publish evt eb = Ok (eb\<lparr>heap := h'\<rparr>)" "bus_ok (eb\<lparr>heap := h'\<rparr>)"
    using Publish_spec [OF assms] by metis
  then show ?thesis by (intro that [of "eb\<lparr>heap := h'\<rparr>"]) simp_all
qed

lemma Unsubscribe_Ok:
  assumes "bus_ok eb" "ch \<in> set (subscribers eb)"
  obtains c where "Unsubscribe ch eb = Ok (eb\<lparr>subscribers := filter (\<lambda>x. x \<noteq> ch) (subscribers eb),
      heap := Mapping.update ch (c\<lparr>ch_closed := True\<rparr>) (heap eb)\<rparr>)"
    "bus_ok (eb\<lparr>subscribers := filter (\<lambda>x. x \<noteq> ch) (subscribers eb),
      heap := Mapping.update ch (c\<lparr>ch_closed := True\<rparr>) (heap eb)\<rparr>)"
proof -
  obtain c where c: "Mapping.lookup (heap eb) ch = Some c" "\<not> ch_closed c" using bus_okD(2) [OF assms] by blast
  then show ?thesis
    using assms(1) by (intro that [of c]) (auto simp: Unsubscribe_def bus_ok_def lookup_update' split: if_splits)
qed

section \<open>Properties\<close>

text \<open>
  Publishing never panics and never blocks: on a well-formed bus every subscriber whose buffer
  has room receives the event at the end of its queue, a slow one only misses it, no other channel
  changes, and the bus stays well formed.
\<close>

theorem publish_delivers:
  assumes "bus_ok eb"
  shows "\<exists>eb'. Publish evt eb = Ok eb' \<and> bus_ok eb' \<and> subscribers eb' = subscribers eb \<and>
    (\<forall>ch c. Mapping.lookup (heap eb) ch = Some c \<longrightarrow>
       (\<exists>c'. Mapping.lookup (heap eb') ch = Some c' \<and> ch_closed c' = ch_closed c \<and>
          ch_buf c' = ch_buf c @ (if ch \<in> set (subscribers eb) \<and> length (ch_buf c) < ch_cap c then [evt] else [])))"
  by (rule Publish_spec [OF assms, of evt]) auto

text \<open>
  A subscriber's channel is open until it unsubscribes; the first \<^verbatim>\<open>Unsubscribe\<close> succeeds and
  removes it from the bus, and a second one panics on the closed channel.
\<close>

theorem unsubscribe_once:
  assumes "bus_ok eb" "ch \<in> set (subscribers eb)"
  shows "\<exists>eb'. Unsubscribe ch eb = Ok eb' \<and> bus_ok eb' \<and>
    set (subscribers eb') = set (subscribers eb) - {ch} \<and> Unsubscribe ch eb' = Panic"
  by (rule Unsubscribe_Ok [OF assms]) (auto simp: Unsubscribe_def Let_def)

text \<open>
  The number of waiting connections that is shown is exact: after any sequence of arrivals and
  completions, repeated completions of one connection included, the count of a destination is the
  number of connections with that key that have not finished, and it is never negative.
\<close>

theorem waiter_count_exact:
  "Get_waiters c h p (foldl waiter_step NewWaiterTracker ops) =
     int (waiting (foldl waiter_step NewWaiterTracker ops) (waiterKey c h p))"
  unfolding Get_waiters_def
  by (rule waiters_okD(1)) (rule waiters.inv_run, rule NewWaiterTracker_ok)

end
