(* ===== verification/SilentMode.thy ===== *)
theory SilentMode
  imports Events
begin

text \<open>
  \<^verbatim>\<open>internal/greyproxy/allowall.go\<close>: silent mode, which short-circuits the rules for every
  connection until it is switched off or its timer expires. Times are nanoseconds. A timer of
  \<^verbatim>\<open>time.AfterFunc\<close> is armed with its deadline; when it fires, its callback runs in a goroutine of its
  own and waits for the lock, so a fired callback can run after later calls. Those interleavings are the
  steps of the relation \<open>aa_step\<close>.
\<close>

section \<open>The manager\<close>

record AllowAllManager =
  active :: bool
  aa_mode :: string
  expiry :: "int option"
  timer :: "nat option"
  next_timer :: nat
  armed :: "(nat \<times> int) list"
  firing :: "nat list"

definition SilentModeAllow :: string where "SilentModeAllow = ''allow''"
definition SilentModeDeny :: string where "SilentModeDeny = ''deny''"

definition NewAllowAllManager :: AllowAllManager where
  "NewAllowAllManager = \<lparr>active = False, aa_mode = [], expiry = None, timer = None, next_timer = 0,
                          armed = [], firing = []\<rparr>"

definition status_event :: "bool \<Rightarrow> string \<Rightarrow> int option \<Rightarrow> int option \<Rightarrow> Event" where
  "status_event a m e r = \<lparr>ev_type = EventAllowAllChanged, ev_data = StatusData a m e r\<rparr>"

text \<open>\<^verbatim>\<open>Stop\<close> disarms the timer; it has no effect on a timer that has fired.\<close>

definition stop_timer :: "AllowAllManager \<Rightarrow> AllowAllManager" where
  "stop_timer m = (case timer m of
                     None \<Rightarrow> m
                   | Some t \<Rightarrow> m\<lparr>armed := filter (\<lambda>(u, _). u \<noteq> t) (armed m), timer := None\<rparr>)"

definition Enable :: "int \<Rightarrow> int \<Rightarrow> string \<Rightarrow> AllowAllManager \<Rightarrow> AllowAllManager \<times> Event" where
  "Enable now duration md m =
     (let m1 = (stop_timer m)\<lparr>active := True, aa_mode := md\<rparr> in
      if duration > 0 then
        (let ex = now + duration in
         (m1\<lparr>expiry := Some ex, timer := Some (next_timer m1), armed := armed m1 @ [(next_timer m1, ex)],
             next_timer := next_timer m1 + 1\<rparr>,
          status_event True md (Some ex) (Some (duration div 10 ^ 9))))
      else (m1\<lparr>expiry := None\<rparr>, status_event True md None None))"

text \<open>The callback of a timer.\<close>

definition timer_callback :: "AllowAllManager \<Rightarrow> AllowAllManager \<times> Event" where
  "timer_callback m = (m\<lparr>active := False, timer := None\<rparr>, status_event False [] None None)"

definition Disable :: "AllowAllManager \<Rightarrow> AllowAllManager \<times> Event option" where
  "Disable m =
     (if \<not> active m then (m, None)
      else ((stop_timer m)\<lparr>active := False\<rparr>, Some (status_event False [] None None)))"

definition IsActive :: "AllowAllManager \<Rightarrow> bool" where
  "IsActive m = active m"

definition Mode :: "AllowAllManager \<Rightarrow> string" where
  "Mode m = aa_mode m"

record AllowAllStatus =
  st_active :: bool
  st_mode :: string
  st_expires :: "int option"
  st_remaining :: "int option"

definition Status :: "int \<Rightarrow> AllowAllManager \<Rightarrow> AllowAllStatus" where
  "Status now m =
     (if \<not> active m then \<lparr>st_active = False, st_mode = [], st_expires = None, st_remaining = None\<rparr>
      else case expiry m of
             None \<Rightarrow> \<lparr>st_active = True, st_mode = aa_mode m, st_expires = None, st_remaining = None\<rparr>
           | Some e \<Rightarrow>
               let rem = (e - now) div 10 ^ 9 in
               \<lparr>st_active = True, st_mode = aa_mode m, st_expires = Some e,
                st_remaining = Some (if rem < 0 then 0 else rem)\<rparr>)"

section \<open>Steps\<close>

datatype aa_op = EnableOp int int string | DisableOp | FireOp nat int | CallbackOp nat

text \<open>Removing one pending callback.\<close>

definition take_callback :: "nat \<Rightarrow> AllowAllManager \<Rightarrow> AllowAllManager" where
  "take_callback t m = m\<lparr>firing := remove1 t (firing m)\<rparr>"

inductive aa_step :: "AllowAllManager \<Rightarrow> aa_op \<Rightarrow> AllowAllManager \<Rightarrow> bool" where
  enable: "aa_step m (EnableOp now d md) (fst (Enable now d md m))"
| disable: "aa_step m DisableOp (fst (Disable m))"
| fire: "(t, dl) \<in> set (armed m) \<Longrightarrow> dl \<le> now \<Longrightarrow>
    aa_step m (FireOp t now) (m\<lparr>armed := filter (\<lambda>(u, _). u \<noteq> t) (armed m), firing := firing m @ [t]\<rparr>)"
| callback: "t \<in> set (firing m) \<Longrightarrow> aa_step m (CallbackOp t) (fst (timer_callback (take_callback t m)))"

inductive aa_run :: "AllowAllManager \<Rightarrow> aa_op list \<Rightarrow> AllowAllManager \<Rightarrow> bool" where
  run_nil: "aa_run m [] m"
| run_cons: "aa_step m op m' \<Longrightarrow> aa_run m' ops m'' \<Longrightarrow> aa_run m (op # ops) m''"

inductive_cases aa_step_cases [elim!]:
  "aa_step m (EnableOp now d md) m'" "aa_step m DisableOp m'" "aa_step m (FireOp t now) m'"
  "aa_step m (CallbackOp t) m'"

inductive_cases aa_run_consE: "aa_run m (op # ops) m'"

section \<open>Prompt callbacks\<close>

text \<open>
  When no callback is left waiting, the armed timer is exactly the one the manager knows, with the
  announced deadline, and silent mode is on while it is armed.
\<close>

definition prompt_ok :: "AllowAllManager \<Rightarrow> bool" where
  "prompt_ok m \<longleftrightarrow>
     firing m = [] \<and>
     (case timer m of
        None \<Rightarrow> armed m = [] \<and> (active m \<longrightarrow> expiry m = None)
      | Some t \<Rightarrow> active m \<and> t < next_timer m \<and> (\<exists>e. expiry m = Some e \<and> armed m = [(t, e)]))"

lemma prompt_ok_new: "prompt_ok NewAllowAllManager"
  by (simp add: prompt_ok_def NewAllowAllManager_def)

lemma prompt_cases:
  assumes "prompt_ok m"
  obtains "timer m = None" "armed m = []" "firing m = []" "active m \<Longrightarrow> expiry m = None"
  | t e where "timer m = Some t" "armed m = [(t, e)]" "firing m = []" "active m" "expiry m = Some e" "t < next_timer m"
  using assms by (auto simp: prompt_ok_def split: option.splits)

lemma stop_timer_prompt:
  "prompt_ok m \<Longrightarrow> armed (stop_timer m) = [] \<and> timer (stop_timer m) = None \<and> firing (stop_timer m) = []"
  by (erule prompt_cases) (auto simp: stop_timer_def)

lemma Enable_prompt: "prompt_ok m \<Longrightarrow> prompt_ok (fst (Enable now d md m))"
  using stop_timer_prompt [of m] by (simp add: Enable_def Let_def prompt_ok_def)

lemma Disable_prompt: "prompt_ok m \<Longrightarrow> prompt_ok (fst (Disable m))"
  using stop_timer_prompt [of m] by (simp add: Disable_def prompt_ok_def split: option.splits)

lemma fire_callback_prompt:
  assumes "prompt_ok m" "aa_step m (FireOp t now) m1" "aa_step m1 (CallbackOp t) m2"
  shows "prompt_ok m2" "\<not> active m2" "\<exists>e. expiry m = Some e \<and> e \<le> now \<and> active m"
  using assms(2,3)
  by (rule_tac prompt_cases [OF assms(1)];
      auto simp: timer_callback_def take_callback_def prompt_ok_def)+

section \<open>Properties\<close>

text \<open>
  With prompt callbacks silent mode ends only when it should: in every well-formed state, enabling
  keeps it on, disabling turns it off, and a timer turns it off only at or after the announced expiry.
  A mode enabled without a duration has no timer that could fire. Each of these leads to a well-formed
  state again.
\<close>

theorem silent_mode_ends_on_time:
  assumes "prompt_ok m"
  shows "prompt_ok (fst (Enable now d md m)) \<and> IsActive (fst (Enable now d md m)) \<and>
    Mode (fst (Enable now d md m)) = md \<and>
    prompt_ok (fst (Disable m)) \<and> \<not> IsActive (fst (Disable m)) \<and>
    (\<forall>t m1 m2. aa_step m (FireOp t now) m1 \<longrightarrow> aa_step m1 (CallbackOp t) m2 \<longrightarrow>
       prompt_ok m2 \<and> \<not> IsActive m2 \<and> IsActive m \<and> (\<exists>e. expiry m = Some e \<and> e \<le> now)) \<and>
    (d \<le> 0 \<longrightarrow> (\<forall>t later m1. \<not> aa_step (fst (Enable now d md m)) (FireOp t later) m1))"
proof (intro conjI allI impI)
  show "prompt_ok (fst (Enable now d md m))" "prompt_ok (fst (Disable m))"
    using assms by (simp_all add: Enable_prompt Disable_prompt)
  show "IsActive (fst (Enable now d md m))" "Mode (fst (Enable now d md m)) = md"
    by (simp_all add: IsActive_def Mode_def Enable_def Let_def)
  show "\<not> IsActive (fst (Disable m))" by (simp add: IsActive_def Disable_def)
next
  fix t m1 m2 assume "aa_step m (FireOp t now) m1" "aa_step m1 (CallbackOp t) m2"
  from fire_callback_prompt [OF assms this]
  show "prompt_ok m2" "\<not> IsActive m2" "IsActive m" "\<exists>e. expiry m = Some e \<and> e \<le> now"
    by (auto simp: IsActive_def)
next
  fix t later m1 assume "d \<le> 0"
  then have "armed (fst (Enable now d md m)) = []"
    using stop_timer_prompt [OF assms] by (simp add: Enable_def Let_def)
  then show "\<not> aa_step (fst (Enable now d md m)) (FireOp t later) m1" by auto
qed

text \<open>
  A late callback defeats a newer setting: if a timer has fired and its callback still waits for
  the lock, then enabling silent mode without an end is undone when the callback runs. \<^verbatim>\<open>Stop\<close> cannot
  prevent it and the callback does not check which timer it belongs to.
\<close>

theorem late_callback_undoes_enable:
  assumes "t \<in> set (firing m)"
  shows "\<exists>m'. aa_run m [EnableOp now 0 md, CallbackOp t] m' \<and> \<not> IsActive m'"
proof -
  let ?m1 = "fst (Enable now 0 md m)"
  have "t \<in> set (firing ?m1)" using assms by (simp add: Enable_def Let_def stop_timer_def split: option.split)
  then have "aa_step ?m1 (CallbackOp t) (fst (timer_callback (take_callback t ?m1)))" by (rule callback)
  then have "aa_run m [EnableOp now 0 md, CallbackOp t] (fst (timer_callback (take_callback t ?m1)))"
    by (rule run_cons [OF enable run_cons [OF _ run_nil]])
  then show ?thesis by (auto simp: IsActive_def timer_callback_def)
qed

end
