(* ===== verification/Connections.thy ===== *)
theory Connections
  imports GoStrings GoNet "HOL-Library.Mapping"
begin

text \<open>
  \<^verbatim>\<open>internal/greyproxy/conn_tracker.go\<close> and \<^verbatim>\<open>dns_cache.go\<close>: the connections a rule has
  authorised, so that they end when the rule goes away, and the cache that names addresses. A cancel
  function is represented by the connection it ends. The reverse lookup of the resolver and the
  persisted table are parameters of the cache operations; the goroutine that persists an entry is
  returned as the rows it will write.
\<close>

section \<open>Connection tracker\<close>

record ConnTracker =
  conns :: "(int, (u64, nat) mapping) mapping"
  nextConnID :: u64

definition NewConnTracker :: "u64 \<Rightarrow> ConnTracker" where
  "NewConnTracker n = \<lparr>conns = Mapping.empty, nextConnID = n\<rparr>"

definition conn_map :: "int \<Rightarrow> ConnTracker \<Rightarrow> (u64, nat) mapping" where
  "conn_map r ct = (case Mapping.lookup (conns ct) r of Some m \<Rightarrow> m | None \<Rightarrow> Mapping.empty)"

definition Register :: "int \<Rightarrow> nat \<Rightarrow> ConnTracker \<Rightarrow> ConnTracker \<times> u64" where
  "Register ruleID cancel ct =
     (let i = nextConnID ct + 1;
          m = Mapping.update i cancel (conn_map ruleID ct)
      in (ct\<lparr>conns := Mapping.update ruleID m (conns ct), nextConnID := i\<rparr>, i))"

definition Unregister :: "int \<Rightarrow> u64 \<Rightarrow> ConnTracker \<Rightarrow> ConnTracker" where
  "Unregister ruleID i ct =
     (case Mapping.lookup (conns ct) ruleID of
        None \<Rightarrow> ct
      | Some m \<Rightarrow>
          let m' = Mapping.delete i m in
          if Mapping.is_empty m' then ct\<lparr>conns := Mapping.delete ruleID (conns ct)\<rparr>
          else ct\<lparr>conns := Mapping.update ruleID m' (conns ct)\<rparr>)"

text \<open>The second result is the set of connections whose cancel function is called.\<close>

definition CancelByRule :: "int \<Rightarrow> ConnTracker \<Rightarrow> ConnTracker \<times> nat set" where
  "CancelByRule ruleID ct =
     (ct\<lparr>conns := Mapping.delete ruleID (conns ct)\<rparr>,
      (\<lambda>i. the (Mapping.lookup (conn_map ruleID ct) i)) ` Mapping.keys (conn_map ruleID ct))"

text \<open>A connection is tracked for a rule under an id.\<close>

definition tracked :: "ConnTracker \<Rightarrow> int \<Rightarrow> u64 \<Rightarrow> nat option" where
  "tracked ct r i = Mapping.lookup (conn_map r ct) i"

lemma tracked_Register:
  "tracked (fst (Register r c ct)) q j =
     (if q = r \<and> j = nextConnID ct + 1 then Some c else tracked ct q j)"
  by (auto simp: tracked_def Register_def Let_def conn_map_def lookup_update' split: option.splits)

lemma lookup_delete_if: "Mapping.lookup (Mapping.delete k m) j = (if j = k then None else Mapping.lookup m j)"
  by (cases "j = k") (simp_all add: lookup_delete_neq)

lemma lookup_is_empty: "Mapping.is_empty m \<Longrightarrow> Mapping.lookup m k = None"
  by (simp add: Mapping.is_empty_def keys_dom_lookup)

lemma tracked_Unregister:
  "tracked (Unregister r i ct) q j = (if q = r \<and> j = i then None else tracked ct q j)"
proof (cases "Mapping.lookup (conns ct) r")
  case None
  then show ?thesis by (simp add: tracked_def Unregister_def conn_map_def)
next
  case (Some m)
  show ?thesis
  proof (cases "Mapping.is_empty (Mapping.delete i m)")
    case True
    then have "Mapping.lookup m j = None" if "j \<noteq> i" for j
      using lookup_is_empty [OF True, of j] that by (simp add: lookup_delete_neq)
    with True Some show ?thesis
      by (auto simp: tracked_def Unregister_def conn_map_def lookup_delete_if)
  next
    case False
    with Some show ?thesis
      by (auto simp: tracked_def Unregister_def Let_def conn_map_def lookup_update' lookup_delete_if)
  qed
qed

lemma tracked_CancelByRule:
  "tracked (fst (CancelByRule r ct)) q j = (if q = r then None else tracked ct q j)"
  by (simp add: tracked_def CancelByRule_def conn_map_def lookup_delete_if)

lemma cancelled_set: "snd (CancelByRule r ct) = {c. \<exists>i. tracked ct r i = Some c}"
  by (auto simp: CancelByRule_def tracked_def keys_dom_lookup dom_def image_iff) (metis option.sel)

text \<open>
  Deleting or denying a rule ends exactly the connections it authorised: \<^verbatim>\<open>CancelByRule\<close> cancels
  every connection registered for the rule and not yet unregistered, no other, and afterwards nothing is
  tracked for the rule while the tracking of other rules is unchanged.
\<close>

theorem cancel_by_rule_exact:
  "snd (CancelByRule r ct) = {c. \<exists>i. tracked ct r i = Some c} \<and>
   (\<forall>q i. tracked (fst (CancelByRule r ct)) q i = (if q = r then None else tracked ct q i)) \<and>
   c \<in> snd (CancelByRule r (fst (Register r c ct))) \<and>
   (\<forall>i. tracked (Unregister r (snd (Register r c ct)) (fst (Register r c ct))) r i =
        (if i = nextConnID ct + 1 then None else tracked ct r i))"
  unfolding cancelled_set tracked_CancelByRule tracked_Unregister tracked_Register
  by (auto simp: Register_def Let_def)

section \<open>Names of addresses\<close>

record dnsCacheEntry =
  e_hostname :: string
  e_expiry :: int

record dns_row =
  row_ip :: string
  row_hostname :: string
  row_updated :: int

record DNSCache =
  entries :: "(string, dnsCacheEntry) mapping"
  ttl :: int
  has_db :: bool

text \<open>Times are in seconds: the in-memory entries live an hour, persisted ones seven days.\<close>

definition defaultDNSCacheTTL :: int where "defaultDNSCacheTTL = 3600"
definition dnsCacheDBTTL :: int where "dnsCacheDBTTL = 604800"

definition GetCached :: "int \<Rightarrow> DNSCache \<Rightarrow> string \<Rightarrow> string" where
  "GetCached now c addr =
     (case Mapping.lookup (entries c) addr of
        None \<Rightarrow> []
      | Some e \<Rightarrow> if now > e_expiry e then [] else e_hostname e)"

definition getFromDB :: "int \<Rightarrow> dns_row list \<Rightarrow> DNSCache \<Rightarrow> string \<Rightarrow> string" where
  "getFromDB now tab c addr =
     (if \<not> has_db c then []
      else case find (\<lambda>r. row_ip r = addr \<and> row_updated r > now - dnsCacheDBTTL) tab of
             None \<Rightarrow> [] | Some r \<Rightarrow> row_hostname r)"

text \<open>\<^verbatim>\<open>INSERT OR REPLACE\<close> on the primary key \<^verbatim>\<open>ip\<close>.\<close>

definition dns_replace :: "dns_row list \<Rightarrow> dns_row \<Rightarrow> dns_row list" where
  "dns_replace tab r = filter (\<lambda>x. row_ip x \<noteq> row_ip r) tab @ [r]"

definition put_entry :: "int \<Rightarrow> string \<Rightarrow> DNSCache \<Rightarrow> string \<Rightarrow> DNSCache" where
  "put_entry now hostname c addr =
     c\<lparr>entries := Mapping.update addr \<lparr>e_hostname = hostname, e_expiry = now + ttl c\<rparr> (entries c)\<rparr>"

definition NewDNSCache :: "int \<Rightarrow> dns_row list option \<Rightarrow> DNSCache" where
  "NewDNSCache now db =
     (let c = \<lparr>entries = Mapping.empty, ttl = defaultDNSCacheTTL, has_db = (db \<noteq> None)\<rparr> in
      case db of
        None \<Rightarrow> c
      | Some tab \<Rightarrow>
          foldl (\<lambda>d r. put_entry now (row_hostname r) d (row_ip r)) c
            (filter (\<lambda>r. row_updated r > now - dnsCacheDBTTL) tab))"

text \<open>The name without the root dot.\<close>

definition trim_dot :: "string \<Rightarrow> string" where
  "trim_dot h = (if 0 < length h \<and> last h = CHR ''.'' then butlast h else h)"

text \<open>Third result: the rows the persisting goroutine will write.\<close>

definition cache_ResolveIP ::
  "(string \<Rightarrow> string list option) \<Rightarrow> int \<Rightarrow> dns_row list \<Rightarrow> DNSCache \<Rightarrow> string \<Rightarrow> DNSCache \<times> string \<times> dns_row list" where
  "cache_ResolveIP lookupAddr now tab c addr =
     (let h = GetCached now c addr in
      if h \<noteq> [] then (c, h, [])
      else let d = getFromDB now tab c addr in
        if d \<noteq> [] then (put_entry now d c addr, d, [])
        else case lookupAddr addr of
               None \<Rightarrow> (c, [], [])
             | Some [] \<Rightarrow> (c, [], [])
             | Some (n # _) \<Rightarrow>
                 let hostname = trim_dot n in
                 (put_entry now hostname c addr, hostname,
                  if has_db c then [\<lparr>row_ip = addr, row_hostname = hostname, row_updated = now\<rparr>] else []))"

definition RegisterIPs :: "int \<Rightarrow> DNSCache \<Rightarrow> string \<Rightarrow> string list \<Rightarrow> DNSCache \<times> dns_row list" where
  "RegisterIPs now c hostname ips =
     (foldl (put_entry now hostname) c ips,
      if has_db c then map (\<lambda>i. \<lparr>row_ip = i, row_hostname = hostname, row_updated = now\<rparr>) ips else [])"

definition RegisterHostname ::
  "(string \<Rightarrow> string list option) \<Rightarrow> int \<Rightarrow> DNSCache \<Rightarrow> string \<Rightarrow> DNSCache \<times> dns_row list" where
  "RegisterHostname lookupHost now c hostname =
     (case lookupHost hostname of None \<Rightarrow> (c, []) | Some ips \<Rightarrow> RegisterIPs now c hostname ips)"

lemma put_entry_simps [simp]:
  "ttl (put_entry now h c a) = ttl c" "has_db (put_entry now h c a) = has_db c"
  "Mapping.lookup (entries (put_entry now h c a)) b =
     (if b = a then Some \<lparr>e_hostname = h, e_expiry = now + ttl c\<rparr> else Mapping.lookup (entries c) b)"
  by (simp_all add: put_entry_def lookup_update')

lemma foldl_put_entry:
  "ttl (foldl (put_entry now h) c as) = ttl c"
  "Mapping.lookup (entries (foldl (put_entry now h) c as)) b =
     (if b \<in> set as then Some \<lparr>e_hostname = h, e_expiry = now + ttl c\<rparr> else Mapping.lookup (entries c) b)"
  by (induction as arbitrary: c) auto

text \<open>
  The address cache returns what it was told, for an hour: after a forward lookup registered a
  host name, each of its addresses resolves to that name without asking the resolver again, up to and
  including the moment the entry expires; addresses that were not registered keep their entries.
\<close>

theorem registered_addresses_resolve:
  assumes "a \<in> set ips" "hostname \<noteq> []" "later \<le> now + ttl c"
  shows "GetCached later (fst (RegisterIPs now c hostname ips)) a = hostname \<and>
    cache_ResolveIP lookupAddr later tab (fst (RegisterIPs now c hostname ips)) a =
      (fst (RegisterIPs now c hostname ips), hostname, []) \<and>
    (b \<notin> set ips \<longrightarrow> GetCached later (fst (RegisterIPs now c hostname ips)) b = GetCached later c b)"
  using assms by (simp add: RegisterIPs_def GetCached_def cache_ResolveIP_def Let_def foldl_put_entry)

text \<open>
  Resolution is cached: when an address that is not in memory resolves to a name, through the
  persisted table or the resolver, then for the lifetime of an entry the next resolution gives the same
  name from memory, whatever the table and the resolver say by then.
\<close>

theorem resolve_is_cached:
  assumes "cache_ResolveIP lookupAddr now tab c a = (c', h, w)" "GetCached now c a = []" "h \<noteq> []"
    and "later \<le> now + ttl c"
  shows "cache_ResolveIP lookupAddr2 later tab2 c' a = (c', h, [])"
proof -
  from assms(1-3) have "c' = put_entry now h c a"
    by (auto simp: cache_ResolveIP_def Let_def split: if_splits option.splits list.splits)
  with assms(3,4) show ?thesis by (simp add: cache_ResolveIP_def Let_def GetCached_def)
qed

end
