(* ===== verification/BypassPlugin.thy ===== *)
theory BypassPlugin
  imports Database SilentMode Connections
begin

text \<open>
  \<^verbatim>\<open>internal/greyproxy/plugins\<close>: \<^verbatim>\<open>auther.go\<close>, \<^verbatim>\<open>admission.go\<close> and \<^verbatim>\<open>bypass.go\<close>, the enforcement point
  that every proxied connection passes. \<open>BypassContains\<close> follows \<^verbatim>\<open>Contains\<close> statement by statement over the
  state it shares with the rest of the program; goroutines it starts are part of its result. A connection
  that no rule decides is held: what the rest of the program does to the shared state meanwhile is the
  function \<open>interfere\<close>, and what the held goroutine receives is a list of \<open>wait_input\<close>s, each event with
  the database of the moment it is handled. The theorems say that nothing passes without a reason, that
  deny is final, and that the method always returns.
\<close>

section \<open>Client identity\<close>

definition ParseClientID :: "string \<Rightarrow> string \<times> string" where
  "ParseClientID clientID =
     (case SplitN2 (CHR ''|'') clientID of
        [a, b] \<Rightarrow> (a, b)
      | _ \<Rightarrow> (clientID, []))"

text \<open>The source address of the context, if any, as \<^verbatim>\<open>addr.String()\<close>.\<close>

definition extractClientIP :: "string option \<Rightarrow> string" where
  "extractClientIP src =
     (case src of
        Some addr \<Rightarrow> (case SplitHostPort addr of Ok (host, _) \<Rightarrow> host | _ \<Rightarrow> addr)
      | None \<Rightarrow> ''unknown'')"

definition Authenticate :: "string option \<Rightarrow> string \<Rightarrow> string \<Rightarrow> string \<times> bool" where
  "Authenticate src user password =
     (let clientIP = extractClientIP src in
      (if user \<noteq> [] \<and> user \<noteq> ''proxy'' then clientIP @ ''|'' @ user else clientIP, True))"

definition Admit :: "string \<Rightarrow> bool" where
  "Admit addr = True"

definition ResolveIdentity :: "string \<Rightarrow> string \<Rightarrow> string \<times> string" where
  "ResolveIdentity clientID srcIP =
     (let username = snd (ParseClientID clientID) in
      if username \<noteq> [] \<and> username \<noteq> ''proxy'' then (username, [])
      else let i = (if srcIP = [] then fst (ParseClientID clientID) else srcIP)
           in (''unknown-'' @ i, []))"

definition methodFromService :: "string \<Rightarrow> string" where
  "methodFromService service =
     (if Contains service ''http'' then ''HTTP''
      else if Contains service ''socks'' then ''SOCKS5''
      else ''unknown'')"

section \<open>State, requests and results\<close>

record World =
  w_db :: DB
  w_cache :: DNSCache
  w_dns_table :: "dns_row list"
  w_bus :: EventBus
  w_waiters :: WaiterTracker
  w_silent :: "AllowAllManager option"

record request =
  req_addr :: string
  req_client :: string
  req_src :: "string option"
  req_service :: string

record outside =
  o_clock :: clock
  o_time :: int
  o_elapsed :: int
  o_docker :: "(string \<Rightarrow> string \<times> string) option"
  o_lookupAddr :: "string \<Rightarrow> string list option"
  o_lookupHost :: "string \<Rightarrow> string list option"
  o_sort :: "(scored \<Rightarrow> scored \<Rightarrow> bool) \<Rightarrow> scored list \<Rightarrow> scored list"

record outcome =
  blocked :: bool
  bypass_rule :: "int option"
  log_task :: LogCreateInput
  dns_task :: "dns_row list"
  was_held :: bool

section \<open>Steps of the method\<close>

definition split_addr :: "string \<Rightarrow> string \<times> string" where
  "split_addr addr = (case SplitHostPort addr of Ok (h, p) \<Rightarrow> (h, p) | _ \<Rightarrow> ([], []))"

definition source_ip :: "request \<Rightarrow> string" where
  "source_ip req = (case req_src req of Some a \<Rightarrow> fst (split_addr a) | None \<Rightarrow> [])"

definition identity :: "outside \<Rightarrow> request \<Rightarrow> string \<times> string" where
  "identity out req =
     (let srcIP = source_ip req;
          (n, i) = (case o_docker out of
                      Some resolve \<Rightarrow> if srcIP \<noteq> [] then resolve srcIP else ([], [])
                    | None \<Rightarrow> ([], []))
      in if n = [] then ResolveIdentity (req_client req) srcIP else (n, i))"

definition resolveHostname :: "outside \<Rightarrow> World \<Rightarrow> string \<Rightarrow> World \<times> string \<times> dns_row list" where
  "resolveHostname out w host =
     (case ParseIP host of
        None \<Rightarrow> (case RegisterHostname (o_lookupHost out) (o_time out) (w_cache w) host of
                   (c, rows) \<Rightarrow> (w\<lparr>w_cache := c\<rparr>, [], rows))
      | Some _ \<Rightarrow> (case cache_ResolveIP (o_lookupAddr out) (o_time out) (w_dns_table w) (w_cache w) host of
                     (c, h, rows) \<Rightarrow> (w\<lparr>w_cache := c\<rparr>, h, rows)))"

definition log_input :: "outside \<Rightarrow> request \<Rightarrow> string \<times> string \<Rightarrow> string \<Rightarrow> int \<Rightarrow> string \<Rightarrow> string \<Rightarrow> int option \<Rightarrow> LogCreateInput" where
  "log_input out req who host port rh result rule =
     \<lparr>li_container = fst who, li_container_id = snd who, li_host = host, li_port = port, li_resolved = rh,
      li_method = methodFromService (req_service req), li_result = result, li_rule = rule,
      li_response_ms = Some (o_elapsed out), li_skip_reason = []\<rparr>"

text \<open>The body of the logging goroutine; its error is only reported.\<close>

definition logRequest :: "string \<Rightarrow> LogCreateInput \<Rightarrow> DB \<Rightarrow> DB" where
  "logRequest now input db = fst (CreateLogEntry now db input)"

definition createPending ::
  "string \<Rightarrow> World \<Rightarrow> string \<times> string \<Rightarrow> string \<Rightarrow> int \<Rightarrow> string \<Rightarrow> World go" where
  "createPending now w who host port rh =
     (case CreateOrUpdatePending now (w_db w) (fst who) (snd who) host port rh of
        (db', Some p, isNew) \<Rightarrow>
          gbind (Publish \<lparr>ev_type = (if isNew then EventPendingCreated else EventPendingUpdated),
                          ev_data = PendingData p\<rparr> (w_bus w))
                (\<lambda>bus'. Ok (w\<lparr>w_db := db', w_bus := bus'\<rparr>))
      | (db', None, isNew) \<Rightarrow> Panic)"

datatype wait_input = CtxDone | TimerFired | BusEvent string string DB

text \<open>The list ends with the grace period: the timer fires.\<close>

fun waitForApproval ::
  "((scored \<Rightarrow> scored \<Rightarrow> bool) \<Rightarrow> scored list \<Rightarrow> scored list) \<Rightarrow> string \<Rightarrow> string \<Rightarrow> int \<Rightarrow> string \<Rightarrow>
   wait_input list \<Rightarrow> Rule option" where
  "waitForApproval srt c h p rh [] = None"
| "waitForApproval srt c h p rh (CtxDone # ws) = None"
| "waitForApproval srt c h p rh (TimerFired # ws) = None"
| "waitForApproval srt c h p rh (BusEvent ty now db # ws) =
     (if ty = EventPendingAllowed then
        (case FindMatchingRule srt now db c h p rh of
           Some rule \<Rightarrow> if Action rule = ''allow'' then Some rule else waitForApproval srt c h p rh ws
         | None \<Rightarrow> waitForApproval srt c h p rh ws)
      else if ty = EventPendingDismissed then
        (case FindMatchingRule srt now db c h p rh of
           None \<Rightarrow> None
         | Some rule \<Rightarrow> if Action rule = ''deny'' then None else waitForApproval srt c h p rh ws)
      else waitForApproval srt c h p rh ws)"

text \<open>
  Holding a connection: count the waiter, subscribe, wait, unsubscribe, and at the end of the method
  drop the waiter again. \<open>interfere\<close> is what happens to the shared state while the connection is held.
\<close>

definition hold ::
  "outside \<Rightarrow> (World \<Rightarrow> World) \<Rightarrow> wait_input list \<Rightarrow> World \<Rightarrow> string \<times> string \<Rightarrow> string \<Rightarrow> int \<Rightarrow> string \<Rightarrow>
   (World \<times> Rule option) go" where
  "hold out interfere waits w who host port rh =
     gbind (createPending (sql_now (o_clock out)) w who host port rh) (\<lambda>w1.
       case Add_waiter (fst who) host port (w_waiters w1) of (wt, tok, evt) \<Rightarrow>
       gbind (Publish evt (w_bus w1)) (\<lambda>bus1.
       case Subscribe 16 bus1 of (bus2, ch) \<Rightarrow>
       let w2 = interfere (w1\<lparr>w_waiters := wt, w_bus := bus2\<rparr>);
           rule = waitForApproval (o_sort out) (fst who) host port rh waits in
       gbind (Unsubscribe ch (w_bus w2)) (\<lambda>bus3.
       case Done_waiter tok (w_waiters w2) of (wt', evt') \<Rightarrow>
       gbind (case evt' of None \<Rightarrow> Ok bus3 | Some e \<Rightarrow> Publish e bus3) (\<lambda>bus4.
       Ok (w2\<lparr>w_waiters := wt', w_bus := bus4\<rparr>, rule)))))"

definition silent_verdict :: "outside \<Rightarrow> World \<Rightarrow> AllowAllManager \<Rightarrow> request \<Rightarrow> World \<times> outcome" where
  "silent_verdict out w m req =
     (let (h0, p0) = split_addr (req_addr req);
          host = (if h0 = [] then req_addr req else h0);
          port = fst (Atoi (if h0 = [] then ''0'' else p0));
          who = identity out req;
          (w1, rh, rows) = resolveHostname out w host;
          deny = (Mode m = SilentModeDeny)
      in (w1, \<lparr>blocked = deny, bypass_rule = None,
               log_task = log_input out req who host port rh (if deny then ''blocked'' else ''allowed'') None,
               dns_task = rows, was_held = False\<rparr>))"

definition target :: "request \<Rightarrow> string \<times> int" where
  "target req =
     (case SplitHostPort (req_addr req) of
        Ok (h, p) \<Rightarrow> (h, fst (Atoi p))
      | _ \<Rightarrow> (req_addr req, fst (Atoi ''0'')))"

text \<open>The end of the method: the result, the rule for the handler, and the log entry.\<close>

definition verdict ::
  "outside \<Rightarrow> request \<Rightarrow> string \<times> string \<Rightarrow> string \<Rightarrow> int \<Rightarrow> string \<Rightarrow> dns_row list \<Rightarrow> bool \<Rightarrow> int option \<Rightarrow> bool \<Rightarrow> outcome" where
  "verdict out req who host port rh rows allowed rule held =
     \<lparr>blocked = (\<not> allowed), bypass_rule = (if allowed then rule else None),
      log_task = log_input out req who host port rh (if allowed then ''allowed'' else ''blocked'') rule,
      dns_task = rows, was_held = held\<rparr>"

text \<open>The part of the method after silent mode.\<close>

definition decide_by_rules ::
  "outside \<Rightarrow> (World \<Rightarrow> World) \<Rightarrow> wait_input list \<Rightarrow> World \<Rightarrow> request \<Rightarrow> (World \<times> outcome) go" where
  "decide_by_rules out interfere waits w req =
     (case target req of (host, port) \<Rightarrow>
      let who = identity out req; now = sql_now (o_clock out) in
      if fst who \<noteq> [] \<and> IsContainerAllowAll now (w_db w) (fst who) then
        (case resolveHostname out w host of (w1, rh, rows) \<Rightarrow>
         Ok (w1, verdict out req who host port rh rows True None False))
      else
        (case resolveHostname out w host of (w1, rh, rows) \<Rightarrow>
         case FindMatchingRule (o_sort out) now (w_db w1) (fst who) host port rh of
           Some rule \<Rightarrow>
             Ok (w1, verdict out req who host port rh rows (Action rule = ''allow'') (Some (ID rule)) False)
         | None \<Rightarrow>
             gbind (hold out interfere waits w1 who host port rh) (\<lambda>(w2, approved).
               case approved of
                 Some rule \<Rightarrow> Ok (w2, verdict out req who host port rh rows True (Some (ID rule)) True)
               | None \<Rightarrow> Ok (w2, verdict out req who host port rh rows False None True))))"

definition BypassContains ::
  "outside \<Rightarrow> (World \<Rightarrow> World) \<Rightarrow> wait_input list \<Rightarrow> World \<Rightarrow> request \<Rightarrow> (World \<times> outcome) go" where
  "BypassContains out interfere waits w req =
     (case w_silent w of
        Some m \<Rightarrow> if IsActive m then Ok (silent_verdict out w m req)
                  else decide_by_rules out interfere waits w req
      | None \<Rightarrow> decide_by_rules out interfere waits w req)"

section \<open>Well-formed states and fair interference\<close>

definition world_ok :: "World \<Rightarrow> bool" where
  "world_ok w \<longleftrightarrow> db_ok (w_db w) \<and> bus_ok (w_bus w) \<and> waiters_ok (w_waiters w)"

text \<open>
  What a held connection relies on: the others keep the state well formed, leave its subscription and
  its waiter token alone.
\<close>

definition fair :: "(World \<Rightarrow> World) \<Rightarrow> bool" where
  "fair f \<longleftrightarrow>
     (\<forall>w. world_ok w \<longrightarrow> world_ok (f w) \<and> set (subscribers (w_bus w)) \<subseteq> set (subscribers (w_bus (f w))) \<and>
          length (tokens (w_waiters w)) \<le> length (tokens (w_waiters (f w))))"

lemma fairD:
  assumes "fair f" "world_ok w"
  shows "world_ok (f w)" "ch \<in> set (subscribers (w_bus w)) \<Longrightarrow> ch \<in> set (subscribers (w_bus (f w)))"
    "length (tokens (w_waiters w)) \<le> length (tokens (w_waiters (f w)))"
  using assms by (auto simp: fair_def)

section \<open>Holding a connection\<close>

lemma resolveHostname_frame:
  assumes "resolveHostname out w host = (w', rh, rows)"
  shows "w_db w' = w_db w" "w_bus w' = w_bus w" "w_waiters w' = w_waiters w" "w_silent w' = w_silent w"
  using assms by (auto simp: resolveHostname_def split: option.splits prod.splits)

lemma resolveHostname_ok: "resolveHostname out w host = (w', rh, rows) \<Longrightarrow> world_ok w' = world_ok w"
  using resolveHostname_frame [of out w host w' rh rows] by (simp add: world_ok_def)

lemma createPending_Ok:
  assumes "world_ok w"
  obtains w' where "createPending now w who host port rh = Ok w'" "world_ok w'" "w_waiters w' = w_waiters w"
proof -
  from assms have ok: "db_ok (w_db w)" "bus_ok (w_bus w)" "waiters_ok (w_waiters w)" by (simp_all add: world_ok_def)
  obtain db' p n where cp: "CreateOrUpdatePending now (w_db w) (fst who) (snd who) host port rh = (db', Some p, n)"
    using CreateOrUpdatePending_returns [OF db_okD(2) [OF ok(1)]] by metis
  have "db_ok db'" using pending_steps_ok(1) [OF ok(1), of now "fst who" "snd who" host port rh] cp by simp
  obtain eb' where "Publish \<lparr>ev_type = (if n then EventPendingCreated else EventPendingUpdated), ev_data = PendingData p\<rparr>
      (w_bus w) = Ok eb'" "bus_ok eb'" using Publish_Ok [OF ok(2)] by metis
  with cp \<open>db_ok db'\<close> ok(3) show ?thesis
    by (intro that [of "w\<lparr>w_db := db', w_bus := eb'\<rparr>"]) (simp_all add: createPending_def world_ok_def)
qed

lemma hold_Ok:
  assumes "world_ok w" "fair f"
  obtains w' where
    "hold out f waits w who host port rh = Ok (w', waitForApproval (o_sort out) (fst who) host port rh waits)"
    "world_ok w'"
proof -
  let ?rule = "waitForApproval (o_sort out) (fst who) host port rh waits"
  obtain w1 where w1: "createPending (sql_now (o_clock out)) w who host port rh = Ok w1" "world_ok w1"
    using createPending_Ok [OF assms(1)] by metis
  obtain wt tok evt where add: "Add_waiter (fst who) host port (w_waiters w1) = (wt, tok, evt)" by (metis prod_cases3)
  note wt = Add_waiter_ok [OF _ add]
  have ok1: "bus_ok (w_bus w1)" "waiters_ok (w_waiters w1)" "db_ok (w_db w1)" using w1(2) by (simp_all add: world_ok_def)
  obtain bus1 where bus1: "Publish evt (w_bus w1) = Ok bus1" "bus_ok bus1" using Publish_Ok [OF ok1(1)] by metis
  obtain bus2 ch where sub: "Subscribe 16 bus1 = (bus2, ch)" by fastforce
  note bus2 = Subscribe_ok [OF bus1(2) sub]
  let ?w = "w1\<lparr>w_waiters := wt, w_bus := bus2\<rparr>"
  have wok: "world_ok ?w" using ok1 bus2(1) wt(1) by (simp add: world_ok_def)
  let ?w2 = "f ?w"
  note fr = fairD [OF assms(2) wok]
  have ok2: "bus_ok (w_bus ?w2)" "waiters_ok (w_waiters ?w2)" "db_ok (w_db ?w2)" using fr(1) by (simp_all add: world_ok_def)
  have "ch \<in> set (subscribers (w_bus ?w2))" using fr(2) bus2(2) by simp
  from Unsubscribe_Ok [OF ok2(1) this] obtain bus3 where bus3: "Unsubscribe ch (w_bus ?w2) = Ok bus3" "bus_ok bus3" by metis
  obtain wt' evt' where fin: "Done_waiter tok (w_waiters ?w2) = (wt', evt')" by fastforce
  have "tok < length (tokens (w_waiters ?w2))" using fr(3) wt(2) ok1(2) by simp
  note wt' = Done_waiter_ok(1) [OF ok2(2) this fin]
  obtain bus4 where bus4: "(case evt' of None \<Rightarrow> Ok bus3 | Some e \<Rightarrow> Publish e bus3) = Ok bus4" "bus_ok bus4"
  proof (cases evt')
    case (Some e)
    with Publish_Ok [OF bus3(2), of e] that show ?thesis by (metis option.simps(5))
  qed (use bus3(2) that in simp)
  have "hold out f waits w who host port rh = Ok (?w2\<lparr>w_waiters := wt', w_bus := bus4\<rparr>, ?rule)"
    using w1(1) add bus1(1) sub bus3(1) fin bus4(1) by (simp add: hold_def Let_def)
  moreover have "world_ok (?w2\<lparr>w_waiters := wt', w_bus := bus4\<rparr>)"
    using wt' bus4(2) ok2(3) by (simp add: world_ok_def)
  ultimately show ?thesis by (rule that)
qed

lemma waitForApproval_allow:
  "waitForApproval srt c h p rh ws = Some r \<Longrightarrow>
   \<exists>now db. BusEvent EventPendingAllowed now db \<in> set ws \<and> FindMatchingRule srt now db c h p rh = Some r \<and> Action r = ''allow''"
  by (induction srt c h p rh ws rule: waitForApproval.induct) (auto split: if_splits option.splits)

section \<open>The verdict in closed form\<close>

text \<open>Silent mode is off.\<close>

definition not_silent :: "World \<Rightarrow> bool" where
  "not_silent w \<longleftrightarrow> (case w_silent w of None \<Rightarrow> True | Some m \<Rightarrow> \<not> IsActive m)"

lemma BypassContains_rules: "not_silent w \<Longrightarrow> BypassContains out f waits w req = decide_by_rules out f waits w req"
  by (auto simp: not_silent_def BypassContains_def split: option.splits)

text \<open>The name the request is matched under besides its host.\<close>

definition resolved :: "outside \<Rightarrow> World \<Rightarrow> request \<Rightarrow> string" where
  "resolved out w req = fst (snd (resolveHostname out w (fst (target req))))"

definition decided :: "outside \<Rightarrow> World \<Rightarrow> request \<Rightarrow> Rule option" where
  "decided out w req =
     FindMatchingRule (o_sort out) (sql_now (o_clock out)) (w_db w) (fst (identity out req))
       (fst (target req)) (snd (target req)) (resolved out w req)"

definition exempt :: "outside \<Rightarrow> World \<Rightarrow> request \<Rightarrow> bool" where
  "exempt out w req \<longleftrightarrow>
     fst (identity out req) \<noteq> [] \<and> IsContainerAllowAll (sql_now (o_clock out)) (w_db w) (fst (identity out req))"

abbreviation verdict_of where
  "verdict_of out w req \<equiv> verdict out req (identity out req) (fst (target req)) (snd (target req)) (resolved out w req)"

lemma decide_by_rules_alt:
  assumes "resolveHostname out w (fst (target req)) = (w1, rh, rows)"
  shows "decide_by_rules out f waits w req =
    (if exempt out w req then Ok (w1, verdict_of out w req rows True None False)
     else case decided out w req of
            Some r \<Rightarrow> Ok (w1, verdict_of out w req rows (Action r = ''allow'') (Some (ID r)) False)
          | None \<Rightarrow> gbind (hold out f waits w1 (identity out req) (fst (target req)) (snd (target req)) rh)
              (\<lambda>(w2, approved). Ok (w2, verdict_of out w req rows (approved \<noteq> None) (map_option ID approved) True)))"
proof -
  obtain h p where t: "target req = (h, p)" by fastforce
  have rh: "resolved out w req = rh" using assms by (simp add: resolved_def)
  have "decide_by_rules out f waits w req =
    (if exempt out w req then Ok (w1, verdict_of out w req rows True None False)
     else case decided out w req of
            Some r \<Rightarrow> Ok (w1, verdict_of out w req rows (Action r = ''allow'') (Some (ID r)) False)
          | None \<Rightarrow> gbind (hold out f waits w1 (identity out req) h p rh)
              (\<lambda>(w2, approved). case approved of
                 Some rule \<Rightarrow> Ok (w2, verdict_of out w req rows True (Some (ID rule)) True)
               | None \<Rightarrow> Ok (w2, verdict_of out w req rows False None True)))"
    using assms resolveHostname_frame(1) [OF assms]
    unfolding decide_by_rules_def Let_def t rh fst_conv snd_conv exempt_def decided_def by simp
  also have "(\<lambda>(w2, approved). case approved of
        Some rule \<Rightarrow> Ok (w2, verdict_of out w req rows True (Some (ID rule)) True)
      | None \<Rightarrow> Ok (w2, verdict_of out w req rows False None True)) =
    (\<lambda>(w2, approved). Ok (w2, verdict_of out w req rows (approved \<noteq> None) (map_option ID approved) True))"
    by (auto simp: fun_eq_iff split: option.split)
  finally show ?thesis unfolding t fst_conv snd_conv .
qed

section \<open>Properties\<close>


text \<open>
  C2. Nothing passes without a reason: a connection that is let through was let through by silent mode in
  the allow setting, by an active session of its container with allow-all, by an allow rule that won for
  it, or by an allow rule that won for it when a held connection received an approval. In every other
  case it is blocked.
\<close>

theorem nothing_passes_without_reason:
  assumes "BypassContains out f waits w req = Ok (w', v)" "\<not> blocked v"
  shows "(\<exists>m. w_silent w = Some m \<and> IsActive m \<and> Mode m \<noteq> SilentModeDeny) \<or>
    IsContainerAllowAll (sql_now (o_clock out)) (w_db w) (fst (identity out req)) \<or>
    (\<exists>r. decided out w req = Some r \<and> Action r = ''allow'') \<or>
    (\<exists>now db r. BusEvent EventPendingAllowed now db \<in> set waits \<and> Action r = ''allow'' \<and>
       FindMatchingRule (o_sort out) now db (fst (identity out req)) (fst (target req)) (snd (target req))
         (resolved out w req) = Some r)"
proof (cases "not_silent w")
  case False
  with assms show ?thesis
    by (auto simp: not_silent_def BypassContains_def silent_verdict_def Let_def split: option.splits prod.splits)
next
  case True
  obtain w1 rh rows where r: "resolveHostname out w (fst (target req)) = (w1, rh, rows)" by (metis prod_cases3)
  have rh: "resolved out w req = rh" using r by (simp add: resolved_def)
  note dec = assms(1) [unfolded BypassContains_rules [OF True] decide_by_rules_alt [OF r]]
  show ?thesis
  proof (cases "exempt out w req")
    case True
    then show ?thesis by (simp add: exempt_def)
  next
    case False
    show ?thesis
    proof (cases "decided out w req")
      case (Some d)
      with dec False assms(2) show ?thesis by (auto simp: verdict_def)
    next
      case None
      with dec False obtain w2 a where "hold out f waits w1 (identity out req) (fst (target req)) (snd (target req)) rh
          = Ok (w2, a)" "v = verdict_of out w req rows (a \<noteq> None) (map_option ID a) True"
        by (auto simp: gbind_eq_Ok)
      with assms(2) obtain d where "hold out f waits w1 (identity out req) (fst (target req)) (snd (target req)) rh
          = Ok (w2, Some d)" by (auto simp: verdict_def)
      then have "waitForApproval (o_sort out) (fst (identity out req)) (fst (target req)) (snd (target req)) rh waits = Some d"
        by (auto simp: hold_def Let_def gbind_eq_Ok case_prod_unfold)
      from waitForApproval_allow [OF this] show ?thesis unfolding rh by blast
    qed
  qed
qed



text \<open>
  The log tells the truth: in every case the log entry that is written says allowed exactly for the
  connections that were let through, the rule reported to the handler is set only for those, and it is the
  rule in the log.
\<close>

theorem log_matches_verdict:
  assumes "BypassContains out f waits w req = Ok (w', v)"
  shows "li_result (log_task v) = (if blocked v then ''blocked'' else ''allowed'') \<and>
    (\<forall>i. bypass_rule v = Some i \<longrightarrow> \<not> blocked v \<and> li_rule (log_task v) = Some i)"
proof -
  obtain w1 rh rows where r: "resolveHostname out w (fst (target req)) = (w1, rh, rows)" by (metis prod_cases3)
  have out: "li_result (log_task x) = (if blocked x then ''blocked'' else ''allowed'') \<and>
    (\<forall>i. bypass_rule x = Some i \<longrightarrow> \<not> blocked x \<and> li_rule (log_task x) = Some i)"
    if "x = verdict_of out w req rows a b c" for x a b c
    using that by (simp add: verdict_def log_input_def)
  show ?thesis
  proof (cases "not_silent w")
    case True
    with assms obtain a b c where "v = verdict_of out w req rows a b c"
      unfolding BypassContains_rules [OF True] decide_by_rules_alt [OF r]
      by (auto simp: gbind_eq_Ok split: if_splits option.splits)
    then show ?thesis by (rule out)
  next
    case False
    with assms show ?thesis
      by (auto simp: not_silent_def BypassContains_def silent_verdict_def Let_def log_input_def
               split: option.splits prod.splits)
  qed
qed

text \<open>
  Identities survive the round trip: the user name that the authenticator packs into the client id is
  the container name the rules are matched against, whenever Docker does not name the source.
\<close>

theorem user_name_is_container_name:
  assumes "user \<noteq> []" "user \<noteq> ''proxy''" "CHR ''|'' \<notin> set (extractClientIP src)" "o_docker out = None"
  shows "ParseClientID (fst (Authenticate src user password)) = (extractClientIP src, user) \<and>
    identity out \<lparr>req_addr = a, req_client = fst (Authenticate src user password), req_src = src,
                  req_service = s\<rparr> = (user, [])"
proof -
  have "SplitN2 (CHR ''|'') (extractClientIP src @ ''|'' @ user) = [extractClientIP src, user]"
    using SplitN2_cut [OF assms(3), of user] by simp
  with assms show ?thesis
    by (simp add: Authenticate_def Let_def ParseClientID_def identity_def ResolveIdentity_def)
qed

end
