(* ===== verification/GoUrl.thy ===== *)
theory GoUrl
  imports GoStrings "HOL-Library.List_Lexorder" "HOL-Library.Char_ord" "HOL-Library.Multiset"
begin

text \<open>
  \<^verbatim>\<open>strings.ReplaceAll\<close> and the query strings of \<^verbatim>\<open>net/url\<close>: escaping, parsing into a multimap and
  encoding, with the round trip that a multimap survives being encoded and parsed.
\<close>

section \<open>Replacing\<close>

text \<open>\<^verbatim>\<open>strings.ReplaceAll\<close>; an empty pattern matches before every character and at the end.\<close>

fun replace_all :: "string \<Rightarrow> string \<Rightarrow> string \<Rightarrow> string" where
  "replace_all old new [] = []"
| "replace_all old new (c # s) =
     (if HasPrefix (c # s) old then new @ replace_all old new (drop (length old - 1) s)
      else c # replace_all old new s)"

definition ReplaceAll :: "string \<Rightarrow> string \<Rightarrow> string \<Rightarrow> string" where
  "ReplaceAll s old new =
     (if old = [] then new @ concat (map (\<lambda>c. c # new) s) else replace_all old new s)"

lemma Contains_iff: "Contains s p \<longleftrightarrow> (\<exists>a b. s = a @ p @ b)"
proof (induction s)
  case (Cons c s)
  have "(\<exists>a b. c # s = a @ p @ b) \<longleftrightarrow> (\<exists>b. c # s = p @ b) \<or> (\<exists>a b. s = a @ p @ b)"
    by (metis append_Cons append_Nil list.inject neq_Nil_conv)
  with Cons show ?case by (simp add: HasPrefix_iff)
qed auto

lemma Contains_append: "Contains s p \<Longrightarrow> Contains (a @ s @ b) p"
  unfolding Contains_iff by (metis append.assoc)

lemma replace_all_absent: "old \<noteq> [] \<Longrightarrow> \<not> Contains s old \<Longrightarrow> replace_all old new s = s"
  by (induction s) auto

lemma ReplaceAll_once:
  assumes "P \<noteq> []" "\<not> Contains (pre @ butlast P) P" "\<not> Contains (tl (P @ post)) P"
  shows "ReplaceAll (pre @ P @ post) P new = pre @ new @ post"
proof -
  have "replace_all P new (pre @ P @ post) = pre @ new @ post"
    using assms(2)
  proof (induction pre)
    case Nil
    obtain c P' where P: "P = c # P'" using assms(1) by (cases P) auto
    then have "\<not> Contains post P" using assms(3) Contains_append [of post P P' "[]"] by auto
    with P assms(1) show ?case by (simp add: HasPrefix_def replace_all_absent)
  next
    case (Cons c pre)
    have "\<not> HasPrefix ((c # pre) @ P @ post) P"
    proof
      assume "HasPrefix ((c # pre) @ P @ post) P"
      moreover have "(c # pre) @ P @ post = ((c # pre) @ butlast P) @ [last P] @ post" using assms(1) by simp
      moreover have "length P \<le> length ((c # pre) @ butlast P)" by simp
      ultimately have "HasPrefix ((c # pre) @ butlast P) P"
        unfolding HasPrefix_def by (metis take_append append_Nil2 diff_is_0_eq take0)
      with Cons.prems show False by simp
    qed
    with Cons show ?case by simp
  qed
  with assms(1) show ?thesis by (simp add: ReplaceAll_def)
qed

section \<open>Query strings\<close>

text \<open>A multimap of the standard library (headers, query values): names with their values, each name once.\<close>

type_synonym multimap = "(string \<times> string list) list"

text \<open>\<^verbatim>\<open>url.QueryUnescape\<close> and \<^verbatim>\<open>url.QueryEscape\<close>.\<close>

definition unhex :: "char \<Rightarrow> nat option" where
  "unhex c = (let n = (of_char c :: nat) in
     if 48 \<le> n \<and> n \<le> 57 then Some (n - 48) else if 97 \<le> n \<and> n \<le> 102 then Some (n - 87)
     else if 65 \<le> n \<and> n \<le> 70 then Some (n - 55) else None)"

fun QueryUnescape :: "string \<Rightarrow> string option" where
  "QueryUnescape [] = Some []"
| "QueryUnescape (c # s) =
     (if c = CHR ''%'' then
        (case s of
           a # b # rest \<Rightarrow>
             (case (unhex a, unhex b) of
                (Some x, Some y) \<Rightarrow> map_option ((#) (char_of (16 * x + y))) (QueryUnescape rest)
              | _ \<Rightarrow> None)
         | _ \<Rightarrow> None)
      else map_option ((#) (if c = CHR ''+'' then CHR '' '' else c)) (QueryUnescape s))"

definition unreserved :: "char \<Rightarrow> bool" where
  "unreserved c = (let n = (of_char c :: nat) in
     48 \<le> n \<and> n \<le> 57 \<or> 65 \<le> n \<and> n \<le> 90 \<or> 97 \<le> n \<and> n \<le> 122 \<or> c \<in> {CHR ''-'', CHR ''_'', CHR ''.'', CHR ''~''})"

definition upper_hex :: "nat \<Rightarrow> char" where
  "upper_hex n = (if n < 10 then char_of (48 + n) else char_of (55 + n))"

definition QueryEscape :: "string \<Rightarrow> string" where
  "QueryEscape s = concat (map (\<lambda>c. if unreserved c then [c] else if c = CHR '' '' then ''+''
     else [CHR ''%'', upper_hex (of_char c div 16), upper_hex (of_char c mod 16)]) s)"

definition add_value :: "string \<Rightarrow> string \<Rightarrow> multimap \<Rightarrow> multimap" where
  "add_value k v q = (if k \<in> fst ` set q then map (\<lambda>(k', vs). (k', if k' = k then vs @ [v] else vs)) q else q @ [(k, [v])])"

text \<open>
  \<^verbatim>\<open>url.ParseQuery\<close> as \<^verbatim>\<open>URL.Query\<close> uses it: pieces that contain a semicolon, are empty or cannot be
  unescaped are dropped.
\<close>

definition parse_piece :: "multimap \<Rightarrow> string \<Rightarrow> multimap" where
  "parse_piece q piece =
     (if CHR '';'' \<in> set piece \<or> piece = [] then q
      else let k = hd (SplitN2 (CHR ''='') piece); v = (case SplitN2 (CHR ''='') piece of [_, v] \<Rightarrow> v | _ \<Rightarrow> []) in
        case (QueryUnescape k, QueryUnescape v) of (Some k', Some v') \<Rightarrow> add_value k' v' q | _ \<Rightarrow> q)"

definition Query :: "string \<Rightarrow> multimap" where
  "Query raw = foldl parse_piece [] (Split (CHR ''&'') raw)"

definition query_pairs :: "multimap \<Rightarrow> (string \<times> string) list" where
  "query_pairs q = concat (map (\<lambda>(k, vs). map (Pair k) vs) (sort_key fst q))"

definition Values_Encode :: "multimap \<Rightarrow> string" where
  "Values_Encode q = Join ''&'' (map (\<lambda>(k, v). QueryEscape k @ ''='' @ QueryEscape v) (query_pairs q))"

lemma unhex_upper: "n < 16 \<Longrightarrow> unhex (upper_hex n) = Some n"
  by (auto simp: unhex_def upper_hex_def Let_def take_bit_nat_eq_self)

lemma escape_char_split: "char_of (16 * (of_char c div 16) + of_char c mod 16 :: nat) = c"
  by simp

lemma unreserved_facts: "unreserved c \<Longrightarrow> c \<notin> {CHR ''%'', CHR ''+'', CHR ''&'', CHR ''='', CHR '';''}"
  by (auto simp: unreserved_def Let_def)

lemma QueryEscape_Cons: "QueryEscape (c # s) = QueryEscape [c] @ QueryEscape s"
  by (simp add: QueryEscape_def)

lemma upper_hex_facts: "n < 16 \<Longrightarrow> upper_hex n \<notin> {CHR ''%'', CHR ''+'', CHR ''&'', CHR ''='', CHR '';''}"
  by (auto simp: upper_hex_def char_of_eq_iff take_bit_nat_eq_self)

lemma of_char_nibbles: "(of_char c :: nat) div 16 < 16" "(of_char c :: nat) mod 16 < 16"
  using of_char_lt_256 [of c] by (auto intro: less_mult_imp_div_less)

lemma QueryUnescape_Escape: "QueryUnescape (QueryEscape s) = Some s"
proof (induction s)
  case (Cons c s)
  then show ?case
    using unreserved_facts [of c] escape_char_split [of c]
    by (subst QueryEscape_Cons) (auto simp: QueryEscape_def unhex_upper of_char_nibbles)
qed (simp add: QueryEscape_def)

lemma QueryEscape_chars: "x \<in> set (QueryEscape s) \<Longrightarrow> x \<notin> {CHR ''&'', CHR ''='', CHR '';''}"
proof (induction s)
  case (Cons c s)
  have "x \<notin> {CHR ''&'', CHR ''='', CHR '';''}" if "x \<in> set (QueryEscape [c])"
    using that unreserved_facts [of c] upper_hex_facts [OF of_char_nibbles(1) [of c]] upper_hex_facts [OF of_char_nibbles(2) [of c]]
    by (auto simp: QueryEscape_def split: if_splits)
  with Cons show ?case by (subst (asm) QueryEscape_Cons) auto
qed (simp add: QueryEscape_def)

lemma parse_pair:
  "parse_piece q (QueryEscape k @ ''='' @ QueryEscape v) = add_value k v q"
proof -
  have "SplitN2 (CHR ''='') (QueryEscape k @ ''='' @ QueryEscape v) = [QueryEscape k, QueryEscape v]"
    using SplitN2_cut [of "CHR ''=''" "QueryEscape k"] QueryEscape_chars [of _ k] by fastforce
  moreover have "CHR '';'' \<notin> set (QueryEscape k @ ''='' @ QueryEscape v)"
    using QueryEscape_chars [of _ k] QueryEscape_chars [of _ v] by fastforce
  ultimately show ?thesis by (simp add: parse_piece_def QueryUnescape_Escape)
qed

lemma add_value_other: "k \<notin> fst ` set q \<Longrightarrow> add_value k v q = q @ [(k, [v])]"
  by (simp add: add_value_def)

lemma add_value_last: "k \<notin> fst ` set q \<Longrightarrow> add_value k v (q @ [(k, vs)]) = q @ [(k, vs @ [v])]"
  by (force simp: add_value_def intro: map_idI)

lemma add_values_last:
  "k \<notin> fst ` set q \<Longrightarrow> foldl (\<lambda>q (k, v). add_value k v q) (q @ [(k, us)]) (map (Pair k) vs) = q @ [(k, us @ vs)]"
  by (induction vs arbitrary: us) (simp_all add: add_value_last)

lemma add_values_new:
  "k \<notin> fst ` set q \<Longrightarrow> vs \<noteq> [] \<Longrightarrow> foldl (\<lambda>q (k, v). add_value k v q) q (map (Pair k) vs) = q @ [(k, vs)]"
  by (cases vs) (simp_all add: add_value_other add_values_last)

definition values_ok :: "multimap \<Rightarrow> bool" where
  "values_ok q \<longleftrightarrow> distinct (map fst q) \<and> [] \<notin> snd ` set q"

lemma add_all_pairs:
  "values_ok (acc @ es) \<Longrightarrow>
   foldl (\<lambda>q (k, v). add_value k v q) acc (concat (map (\<lambda>(k, vs). map (Pair k) vs) es)) = acc @ es"
proof (induction es arbitrary: acc)
  case (Cons e es)
  obtain k vs where e: "e = (k, vs)" by fastforce
  with Cons.prems have "k \<notin> fst ` set acc" "vs \<noteq> []" by (auto simp: values_ok_def)
  moreover have "foldl (\<lambda>q (k, v). add_value k v q) (acc @ [(k, vs)]) (concat (map (\<lambda>(k, vs). map (Pair k) vs) es)) =
      (acc @ [(k, vs)]) @ es" using Cons.prems by (intro Cons.IH) (simp add: e)
  ultimately show ?case by (simp add: e add_values_new)
qed simp

lemma foldl_parse_pairs:
  "foldl parse_piece q (map (\<lambda>(k, v). QueryEscape k @ ''='' @ QueryEscape v) ps) = foldl (\<lambda>q (k, v). add_value k v q) q ps"
  by (induction ps arbitrary: q) (auto simp: parse_pair [simplified])

lemma values_ok_sort [simp]: "values_ok (sort_key fst q) \<longleftrightarrow> values_ok q"
proof -
  have "mset (map fst (sort_key fst q)) = mset (map fst q)" by simp
  then have "distinct (map fst (sort_key fst q)) \<longleftrightarrow> distinct (map fst q)" by (rule mset_eq_imp_distinct_iff)
  then show ?thesis by (simp add: values_ok_def)
qed

lemma Query_Encode:
  assumes "values_ok q"
  shows "Query (Values_Encode q) = sort_key fst q"
proof (cases "query_pairs q = []")
  case True
  have "q = []"
  proof (rule ccontr)
    assume "q \<noteq> []"
    then obtain k vs where kv: "(k, vs) \<in> set q" by (cases q) auto
    then have "vs \<noteq> []" using assms by (force simp: values_ok_def)
    then obtain v where "v \<in> set vs" by (cases vs) auto
    with kv have "(k, v) \<in> set (query_pairs q)" by (force simp: query_pairs_def)
    with True show False by simp
  qed
  then show ?thesis by (simp add: Query_def Values_Encode_def query_pairs_def parse_piece_def)
next
  case False
  have "list_all (\<lambda>p. CHR ''&'' \<notin> set p) (map (\<lambda>(k, v). QueryEscape k @ ''='' @ QueryEscape v) (query_pairs q))"
    using QueryEscape_chars by (auto simp: list_all_iff)
  then have "Split (CHR ''&'') (Values_Encode q) = map (\<lambda>(k, v). QueryEscape k @ ''='' @ QueryEscape v) (query_pairs q)"
    using False unfolding Values_Encode_def by (intro Split_Join) simp_all
  then have "Query (Values_Encode q) = foldl (\<lambda>q (k, v). add_value k v q) [] (query_pairs q)"
    unfolding Query_def by (simp only: foldl_parse_pairs)
  also have "\<dots> = sort_key fst q"
    unfolding query_pairs_def using add_all_pairs [of "[]" "sort_key fst q"] assms by simp
  finally show ?thesis .
qed

lemma add_value_ok:
  assumes "values_ok q"
  shows "values_ok (add_value k v q)"
proof (cases "k \<in> fst ` set q")
  case True
  let ?q = "map (\<lambda>(k', vs). (k', if k' = k then vs @ [v] else vs)) q"
  have "map fst ?q = map fst q" by (induction q) auto
  moreover have "[] \<in> snd ` set ?q \<Longrightarrow> [] \<in> snd ` set q" by (force split: if_splits)
  ultimately have "values_ok ?q" using assms unfolding values_ok_def by argo
  with True show ?thesis by (simp add: add_value_def)
next
  case False
  with assms show ?thesis by (auto simp: values_ok_def add_value_other)
qed

lemma Query_ok: "values_ok (Query raw)"
proof -
  have "values_ok q \<Longrightarrow> values_ok (foldl parse_piece q ps)" for q ps
    by (induction ps arbitrary: q) (auto simp: parse_piece_def Let_def add_value_ok split: option.splits)
  moreover have "values_ok []" by (simp add: values_ok_def)
  ultimately show ?thesis unfolding Query_def by blast
qed

lemma map_of_sort: "distinct (map fst q) \<Longrightarrow> map_of (sort_key fst q) = map_of q"
proof
  fix k
  assume d: "distinct (map fst q)"
  have "mset (map fst (sort_key fst q)) = mset (map fst q)" by simp
  then have d': "distinct (map fst (sort_key fst q))" using d mset_eq_imp_distinct_iff by blast
  have "map_of (sort_key fst q) k = Some v \<longleftrightarrow> map_of q k = Some v" for v
    using d d' by simp
  then show "map_of (sort_key fst q) k = map_of q k" by (metis option.exhaust)
qed

lemma map_of_map_values: "map_of (map (\<lambda>(k, vs). (k, map f vs)) q) k = map_option (map f) (map_of q k)"
  by (induction q) auto

end
