(* ===== verification/Credentials.thy ===== *)
theory Credentials
  imports Database Events GoUrl
begin

text \<open>
  Credential substitution: \<^verbatim>\<open>internal/greyproxy/credential_crypto.go\<close>, the global credentials of
  \<^verbatim>\<open>credential_crud.go\<close> and the in-memory \<^verbatim>\<open>CredentialStore\<close> of \<^verbatim>\<open>credential_store.go\<close>. The authenticated
  cipher (\<open>seal\<close>, \<open>open\<close>), JSON and the random source are parameters. Go visits the keys of a map in an
  arbitrary order; a loop whose result could depend on it takes the order as an argument, and the
  statements are over every order. The lemmas say which placeholders a session owns after each
  operation, that a placeholder is replaced by its credential whatever the order, and that stored
  credentials are recovered after a restart.
\<close>

section \<open>Encryption\<close>

definition sessionKeySize :: nat where "sessionKeySize = 32"
definition PlaceholderPrefix :: string where "PlaceholderPrefix = ''greyproxy:credential:''"
definition PlaceholderVersion :: string where "PlaceholderVersion = ''v1''"
definition placeholderRandomBytes :: nat where "placeholderRandomBytes = 16"
definition gcm_nonce_size :: nat where "gcm_nonce_size = 12"

type_synonym aead_seal = "byte list \<Rightarrow> byte list \<Rightarrow> byte list \<Rightarrow> byte list"
type_synonym aead_open = "byte list \<Rightarrow> byte list \<Rightarrow> byte list \<Rightarrow> byte list option"

text \<open>\<^verbatim>\<open>aes.NewCipher\<close> accepts keys of 16, 24 and 32 bytes. A failed read of the random source is \<open>None\<close>.\<close>

definition key_size_ok :: "byte list \<Rightarrow> bool" where
  "key_size_ok key \<longleftrightarrow> length key \<in> {16, 24, 32}"

definition Encrypt :: "aead_seal \<Rightarrow> byte list option \<Rightarrow> byte list \<Rightarrow> byte list \<Rightarrow> byte list go" where
  "Encrypt seal random key plaintext =
     (if \<not> key_size_ok key then Fail (GoErr ''create cipher'')
      else case random of
        None \<Rightarrow> Fail (GoErr ''generate nonce'')
      | Some nonce \<Rightarrow> Ok (nonce @ seal key nonce plaintext))"

definition Decrypt :: "aead_open \<Rightarrow> byte list \<Rightarrow> byte list \<Rightarrow> byte list go" where
  "Decrypt open key ciphertext =
     (if \<not> key_size_ok key then Fail (GoErr ''create cipher'')
      else if length ciphertext < gcm_nonce_size then Fail (GoErr ''ciphertext too short'')
      else case open key (take gcm_nonce_size ciphertext) (drop gcm_nonce_size ciphertext) of
        None \<Rightarrow> Fail (GoErr ''cipher: message authentication failed'')
      | Some plaintext \<Rightarrow> Ok plaintext)"

text \<open>The promise of an authenticated cipher that the program relies on.\<close>

definition aead_ok :: "aead_seal \<Rightarrow> aead_open \<Rightarrow> bool" where
  "aead_ok seal open \<longleftrightarrow> (\<forall>key nonce p. open key nonce (seal key nonce p) = Some p)"

lemma Decrypt_Encrypt:
  assumes "aead_ok seal open" "length nonce = gcm_nonce_size" "Encrypt seal (Some nonce) key p = Ok c"
  shows "Decrypt open key c = Ok p"
  using assms by (auto simp: aead_ok_def Encrypt_def Decrypt_def split: if_splits)

definition hex_digit :: "nat \<Rightarrow> char" where
  "hex_digit n = (if n < 10 then char_of (48 + n) else char_of (87 + n))"

definition hex_EncodeToString :: "byte list \<Rightarrow> string" where
  "hex_EncodeToString bs = concat (map (\<lambda>b. [hex_digit (unat b div 16), hex_digit (unat b mod 16)]) bs)"

definition GeneratePlaceholder :: "byte list option \<Rightarrow> string \<Rightarrow> string go" where
  "GeneratePlaceholder random sessionID =
     (case random of
        None \<Rightarrow> Fail (GoErr ''generate random'')
      | Some b \<Rightarrow> Ok (PlaceholderPrefix @ PlaceholderVersion @ '':'' @ sessionID @ '':'' @ hex_EncodeToString b))"

definition MaskCredentialValue :: "string \<Rightarrow> string" where
  "MaskCredentialValue value =
     (if 9 \<le> length value then take 6 value @ ''***'' @ drop (length value - 3) value
      else if length value \<le> 2 then ''***''
      else ''***'' @ drop (length value - 2) value)"

section \<open>Global credentials\<close>

record GlobalCredential =
  gc_id :: string
  gc_label :: string
  gc_placeholder :: string
  ValueEnc :: "byte list"
  ValuePreview :: string
  gc_created :: string

record GlobalCredentialCreateInput =
  gci_label :: string
  gci_value :: string

text \<open>What one request draws from the random source.\<close>

record entropy =
  e_id :: "byte list option"
  e_placeholder :: "byte list option"
  e_nonce :: "byte list option"

definition generateCredentialID :: "byte list option \<Rightarrow> string go" where
  "generateCredentialID random =
     (case random of None \<Rightarrow> Fail (GoErr ''generate credential ID'') | Some b \<Rightarrow> Ok (''cred_'' @ hex_EncodeToString b))"

definition GetGlobalCredential :: "GlobalCredential list \<Rightarrow> string \<Rightarrow> GlobalCredential go" where
  "GetGlobalCredential creds i =
     (case find (\<lambda>c. gc_id c = i) creds of None \<Rightarrow> Fail (GoErr ''sql: no rows in result set'') | Some c \<Rightarrow> Ok c)"

text \<open>The primary key and the two UNIQUE columns of \<^verbatim>\<open>global_credentials\<close>.\<close>

definition insert_global :: "GlobalCredential \<Rightarrow> GlobalCredential list \<Rightarrow> GlobalCredential list go" where
  "insert_global c creds =
     (if gc_id c \<in> gc_id ` set creds \<or> gc_label c \<in> gc_label ` set creds \<or>
         gc_placeholder c \<in> gc_placeholder ` set creds
      then Fail (GoErr ''insert global credential'') else Ok (creds @ [c]))"

definition CreateGlobalCredential ::
  "aead_seal \<Rightarrow> entropy \<Rightarrow> string \<Rightarrow> byte list \<Rightarrow> GlobalCredential list \<Rightarrow> GlobalCredentialCreateInput \<Rightarrow>
   GlobalCredential list \<times> GlobalCredential go" where
  "CreateGlobalCredential seal rnd now key creds input =
     (case gbind (generateCredentialID (e_id rnd)) (\<lambda>i.
           gbind (GeneratePlaceholder (e_placeholder rnd) ''global'') (\<lambda>placeholder.
           gbind (Encrypt seal (e_nonce rnd) key (bytes_of_string (gci_value input))) (\<lambda>valueEnc.
           gbind (insert_global \<lparr>gc_id = i, gc_label = gci_label input, gc_placeholder = placeholder, ValueEnc = valueEnc,
                    ValuePreview = MaskCredentialValue (gci_value input), gc_created = now\<rparr> creds) (\<lambda>creds'.
           Ok (creds', i))))) of
        Ok (creds', i) \<Rightarrow> (creds', GetGlobalCredential creds' i)
      | Fail e \<Rightarrow> (creds, Fail e)
      | Panic \<Rightarrow> (creds, Panic))"

definition ListGlobalCredentials :: "GlobalCredential list \<Rightarrow> GlobalCredential list" where
  "ListGlobalCredentials creds = sort_desc gc_created creds"

text \<open>The map from labels to rows, and the labels that have none, in their order.\<close>

definition GetGlobalCredentialsByLabels ::
  "GlobalCredential list \<Rightarrow> string list \<Rightarrow> (string \<rightharpoonup> GlobalCredential) \<times> string list" where
  "GetGlobalCredentialsByLabels creds labels =
     (let byLabel = foldl (\<lambda>m c. m(gc_label c \<mapsto> c)) Map.empty (ListGlobalCredentials creds)
      in ((\<lambda>l. if l \<in> set labels then byLabel l else None), filter (\<lambda>l. byLabel l = None) labels))"

definition DeleteGlobalCredential :: "GlobalCredential list \<Rightarrow> string \<Rightarrow> GlobalCredential list \<times> bool" where
  "DeleteGlobalCredential creds i =
     (filter (\<lambda>c. gc_id c \<noteq> i) creds, 0 < length (filter (\<lambda>c. gc_id c = i) creds))"

definition DecryptGlobalCredentialValue :: "aead_open \<Rightarrow> byte list \<Rightarrow> GlobalCredential \<Rightarrow> string go" where
  "DecryptGlobalCredentialValue open key c =
     gbind (Decrypt open key (ValueEnc c)) (\<lambda>plaintext. Ok (string_of_bytes plaintext))"

definition globals_ok :: "GlobalCredential list \<Rightarrow> bool" where
  "globals_ok creds \<longleftrightarrow> distinct (map gc_id creds) \<and> distinct (map gc_label creds) \<and> distinct (map gc_placeholder creds)"

lemma insert_global_ok: "globals_ok creds \<Longrightarrow> insert_global c creds = Ok creds' \<Longrightarrow> globals_ok creds'"
  by (auto simp: globals_ok_def insert_global_def split: if_splits)

lemma DeleteGlobalCredential_ok: "globals_ok creds \<Longrightarrow> globals_ok (fst (DeleteGlobalCredential creds i))"
  by (simp add: globals_ok_def DeleteGlobalCredential_def distinct_map_filter)

lemma find_append_none: "find P xs = None \<Longrightarrow> find P (xs @ ys) = find P ys"
  by (induction xs) (auto split: if_splits)

lemma CreateGlobalCredential_Ok:
  assumes "CreateGlobalCredential seal rnd now key creds input = (creds', Ok c)"
  shows "creds' = creds @ [c]" "insert_global c creds = Ok creds'" "gc_label c = gci_label input"
    "Encrypt seal (e_nonce rnd) key (bytes_of_string (gci_value input)) = Ok (ValueEnc c)"
    "ValuePreview c = MaskCredentialValue (gci_value input)"
proof -
  let ?row = "\<lambda>i ph enc. \<lparr>gc_id = i, gc_label = gci_label input, gc_placeholder = ph, ValueEnc = enc,
    ValuePreview = MaskCredentialValue (gci_value input), gc_created = now\<rparr>"
  obtain i ph enc where enc: "Encrypt seal (e_nonce rnd) key (bytes_of_string (gci_value input)) = Ok enc"
    and ins: "insert_global (?row i ph enc) creds = Ok creds'" and get: "GetGlobalCredential creds' i = Ok c"
    using assms by (auto simp: CreateGlobalCredential_def gbind_eq_Ok split: go.splits)
  from ins have app: "creds' = creds @ [?row i ph enc]" and new: "i \<notin> gc_id ` set creds"
    by (auto simp: insert_global_def split: if_splits)
  from new have "find (\<lambda>c. gc_id c = i) creds = None" by (auto simp: find_None_iff)
  with get app have "c = ?row i ph enc"
    by (auto simp: GetGlobalCredential_def find_append_none split: option.splits)
  with app ins enc show "creds' = creds @ [c]" "insert_global c creds = Ok creds'" "gc_label c = gci_label input"
    "Encrypt seal (e_nonce rnd) key (bytes_of_string (gci_value input)) = Ok (ValueEnc c)"
    "ValuePreview c = MaskCredentialValue (gci_value input)" by simp_all
qed

section \<open>The store\<close>

definition EventSessionCreated :: string where "EventSessionCreated = ''session.created''"
definition EventSessionExpired :: string where "EventSessionExpired = ''session.expired''"
definition EventSessionDeleted :: string where "EventSessionDeleted = ''session.deleted''"
definition EventSessionHeartbeat :: string where "EventSessionHeartbeat = ''session.heartbeat''"
definition EventSessionSubstitution :: string where "EventSessionSubstitution = ''session.substitution''"

record SubstitutionResult =
  sr_Count :: int
  sr_Labels :: "string set"
  sr_SessionIDs :: "string set"

text \<open>
  The four maps of the store; its database, key and bus are passed to the operations that use them.
  The counters are as wide as they need to be here; 64 bits do not overflow in practice.
\<close>

record CredentialStore =
  cs_lookup :: "string \<rightharpoonup> string"
  sessionMap :: "string \<rightharpoonup> string"
  labelsMap :: "string \<rightharpoonup> string"
  pendingCounts :: "string \<rightharpoonup> int"

definition empty_store :: CredentialStore where
  "empty_store = \<lparr>cs_lookup = Map.empty, sessionMap = Map.empty, labelsMap = Map.empty, pendingCounts = Map.empty\<rparr>"

definition GetSessionLabels :: "(string \<Rightarrow> (string \<rightharpoonup> string) go) \<Rightarrow> Session \<Rightarrow> (string \<rightharpoonup> string)" where
  "GetSessionLabels unmarshal s = (case unmarshal (LabelsJSON s) of Ok labels \<Rightarrow> labels | _ \<Rightarrow> Map.empty)"

definition DecryptSessionMappings ::
  "aead_open \<Rightarrow> (string \<Rightarrow> (string \<rightharpoonup> string) go) \<Rightarrow> byte list \<Rightarrow> Session \<Rightarrow> (string \<rightharpoonup> string) go" where
  "DecryptSessionMappings open unmarshal key s =
     gbind (Decrypt open key (MappingsEnc s)) (\<lambda>plaintext. unmarshal (string_of_bytes plaintext))"

text \<open>The loop over the mappings of a session: every key is visited once, so the order does not matter.\<close>

definition put_mappings :: "string \<Rightarrow> (string \<rightharpoonup> string) \<Rightarrow> (string \<rightharpoonup> string) \<Rightarrow> CredentialStore \<Rightarrow> CredentialStore" where
  "put_mappings sid labels mappings cs =
     cs\<lparr>cs_lookup := cs_lookup cs ++ mappings,
        sessionMap := sessionMap cs ++ (\<lambda>p. map_option (\<lambda>_. sid) (mappings p)),
        labelsMap := labelsMap cs ++ (\<lambda>p. if mappings p = None then None else labels p)\<rparr>"

definition RegisterGlobalCredential :: "string \<Rightarrow> string \<Rightarrow> string \<Rightarrow> CredentialStore \<Rightarrow> CredentialStore" where
  "RegisterGlobalCredential placeholder value label cs =
     cs\<lparr>cs_lookup := (cs_lookup cs)(placeholder \<mapsto> value), labelsMap := (labelsMap cs)(placeholder \<mapsto> label)\<rparr>"

definition UnregisterGlobalCredential :: "string \<Rightarrow> CredentialStore \<Rightarrow> CredentialStore" where
  "UnregisterGlobalCredential placeholder cs =
     cs\<lparr>cs_lookup := (cs_lookup cs)(placeholder := None), labelsMap := (labelsMap cs)(placeholder := None)\<rparr>"

text \<open>
  \<open>before\<close> is the comparison \<^verbatim>\<open>ExpiresAt.Before(time.Now())\<close>. Sessions that have expired or cannot be
  decrypted are skipped; global credentials come last.
\<close>

definition load_session ::
  "aead_open \<Rightarrow> (string \<Rightarrow> (string \<rightharpoonup> string) go) \<Rightarrow> (string \<Rightarrow> bool) \<Rightarrow> byte list \<Rightarrow> CredentialStore \<Rightarrow> Session \<Rightarrow>
   CredentialStore" where
  "load_session open unmarshal before key cs s =
     (if before (sess_expires s) then cs
      else case DecryptSessionMappings open unmarshal key s of
        Ok mappings \<Rightarrow> put_mappings (sess_id s) (GetSessionLabels unmarshal s) mappings cs
      | _ \<Rightarrow> cs)"

definition load_global :: "aead_open \<Rightarrow> byte list \<Rightarrow> CredentialStore \<Rightarrow> GlobalCredential \<Rightarrow> CredentialStore" where
  "load_global open key cs c =
     (case DecryptGlobalCredentialValue open key c of
        Ok value \<Rightarrow> RegisterGlobalCredential (gc_placeholder c) value (gc_label c) cs
      | _ \<Rightarrow> cs)"

definition loadFromDB ::
  "aead_open \<Rightarrow> (string \<Rightarrow> (string \<rightharpoonup> string) go) \<Rightarrow> (string \<Rightarrow> bool) \<Rightarrow> byte list \<Rightarrow> DB \<Rightarrow> GlobalCredential list \<Rightarrow>
   CredentialStore \<Rightarrow> CredentialStore" where
  "loadFromDB open unmarshal before key db creds cs =
     foldl (load_global open key) (foldl (load_session open unmarshal before key) cs (LoadAllSessions db))
       (ListGlobalCredentials creds)"

definition NewCredentialStore ::
  "aead_open \<Rightarrow> (string \<Rightarrow> (string \<rightharpoonup> string) go) \<Rightarrow> (string \<Rightarrow> bool) \<Rightarrow> byte list \<Rightarrow> DB \<Rightarrow> GlobalCredential list \<Rightarrow>
   CredentialStore" where
  "NewCredentialStore open unmarshal before key db creds = loadFromDB open unmarshal before key db creds empty_store"

definition removeSessionLocked :: "string \<Rightarrow> CredentialStore \<Rightarrow> CredentialStore" where
  "removeSessionLocked sid cs =
     (let gone = (\<lambda>p. sessionMap cs p = Some sid) in
      cs\<lparr>cs_lookup := (\<lambda>p. if gone p then None else cs_lookup cs p),
         sessionMap := (\<lambda>p. if gone p then None else sessionMap cs p),
         labelsMap := (\<lambda>p. if gone p then None else labelsMap cs p),
         pendingCounts := (pendingCounts cs)(sid := None)\<rparr>)"

text \<open>\<^verbatim>\<open>if cs.bus != nil { cs.bus.Publish(...) }\<close>\<close>

definition publish_opt :: "Event \<Rightarrow> EventBus option \<Rightarrow> EventBus option go" where
  "publish_opt evt bus = (case bus of None \<Rightarrow> Ok None | Some eb \<Rightarrow> gbind (Publish evt eb) (\<lambda>eb'. Ok (Some eb')))"

definition session_event :: "string \<Rightarrow> string \<Rightarrow> Event" where
  "session_event t sid = \<lparr>ev_type = t, ev_data = SessionData sid\<rparr>"

text \<open>A nil map of mappings has no keys.\<close>

definition RegisterSession ::
  "(string \<Rightarrow> (string \<rightharpoonup> string) go) \<Rightarrow> Session \<Rightarrow> (string \<rightharpoonup> string) option \<Rightarrow> EventBus option \<Rightarrow> CredentialStore \<Rightarrow>
   (CredentialStore \<times> EventBus option) go" where
  "RegisterSession unmarshal session mappings bus cs =
     (let cs1 = put_mappings (sess_id session) (GetSessionLabels unmarshal session)
                  (case mappings of None \<Rightarrow> Map.empty | Some m \<Rightarrow> m) (removeSessionLocked (sess_id session) cs);
          cs2 = cs1\<lparr>pendingCounts := (pendingCounts cs1)(sess_id session \<mapsto> 0)\<rparr>
      in gbind (publish_opt (session_event EventSessionCreated (sess_id session)) bus) (\<lambda>bus'. Ok (cs2, bus')))"

definition UnregisterSession ::
  "string \<Rightarrow> EventBus option \<Rightarrow> CredentialStore \<Rightarrow> (CredentialStore \<times> EventBus option) go" where
  "UnregisterSession sid bus cs =
     gbind (publish_opt (session_event EventSessionDeleted sid) bus) (\<lambda>bus'. Ok (removeSessionLocked sid cs, bus'))"

section \<open>Substitution\<close>

type_synonym used = "string set \<times> string set"

definition replace_one :: "CredentialStore \<Rightarrow> string \<times> used \<Rightarrow> string \<Rightarrow> string \<times> used" where
  "replace_one cs = (\<lambda>(s, su, lu) placeholder.
     case cs_lookup cs placeholder of
       None \<Rightarrow> (s, su, lu)
     | Some real \<Rightarrow>
         if Contains s placeholder
         then (ReplaceAll s placeholder real, su \<union> set_option (sessionMap cs placeholder),
               lu \<union> set_option (labelsMap cs placeholder))
         else (s, su, lu))"

text \<open>\<open>order\<close> is the order in which the loop visits the keys of the lookup map.\<close>

definition replaceInString :: "string list \<Rightarrow> CredentialStore \<Rightarrow> string \<Rightarrow> used \<Rightarrow> string \<times> used" where
  "replaceInString order cs s u = foldl (replace_one cs) (s, u) order"

type_synonym tally = "int \<times> used"

definition subst_value :: "string list \<Rightarrow> CredentialStore \<Rightarrow> string \<Rightarrow> tally \<Rightarrow> string \<times> tally" where
  "subst_value order cs v t =
     (if \<not> Contains v PlaceholderPrefix then (v, t)
      else case replaceInString order cs v (snd t) of
        (replaced, u) \<Rightarrow> if replaced \<noteq> v then (replaced, fst t + 1, u) else (v, fst t, u))"

fun subst_values :: "(nat \<Rightarrow> string list) \<Rightarrow> CredentialStore \<Rightarrow> nat \<Rightarrow> string list \<Rightarrow> tally \<Rightarrow> string list \<times> tally" where
  "subst_values order cs i [] t = ([], t)"
| "subst_values order cs i (v # vs) t =
     (case subst_value (order i) cs v t of (v', t1) \<Rightarrow>
      case subst_values order cs (i + 1) vs t1 of (vs', t2) \<Rightarrow> (v' # vs', t2))"

fun subst_entries ::
  "(string \<Rightarrow> nat \<Rightarrow> string list) \<Rightarrow> CredentialStore \<Rightarrow> multimap \<Rightarrow> tally \<Rightarrow> multimap \<times> tally" where
  "subst_entries order cs [] t = ([], t)"
| "subst_entries order cs ((key, vs) # es) t =
     (case subst_values (order key) cs 0 vs t of (vs', t1) \<Rightarrow>
      case subst_entries order cs es t1 of (es', t2) \<Rightarrow> ((key, vs') # es', t2))"

subsection \<open>The request\<close>

record http_request =
  hr_Header :: multimap
  RawQuery :: string

definition trackSubstitutions :: "string set \<Rightarrow> CredentialStore \<Rightarrow> CredentialStore" where
  "trackSubstitutions sessionsUsed cs =
     cs\<lparr>pendingCounts := (\<lambda>sid. if sid \<in> sessionsUsed then map_option (\<lambda>n. n + 1) (pendingCounts cs sid)
                               else pendingCounts cs sid)\<rparr>"

text \<open>
  \<open>keys\<close> enumerates the keys of the lookup map; \<open>horder\<close> and \<open>qorder\<close> are the orders of the loops over it
  for each header and each query value.
\<close>

definition SubstituteRequest ::
  "string list \<Rightarrow> (string \<Rightarrow> nat \<Rightarrow> string list) \<Rightarrow> (string \<Rightarrow> nat \<Rightarrow> string list) \<Rightarrow> CredentialStore \<Rightarrow> http_request \<Rightarrow>
   CredentialStore \<times> http_request \<times> SubstitutionResult" where
  "SubstituteRequest keys horder qorder cs req =
     (if keys = [] then (cs, req, \<lparr>sr_Count = 0, sr_Labels = {}, sr_SessionIDs = {}\<rparr>)
      else
        let (header, t1) = subst_entries horder cs (hr_Header req) (0, {}, {});
            q = Query (RawQuery req);
            (q', t2) = subst_entries qorder cs q t1;
            req' = req\<lparr>hr_Header := header, RawQuery := (if q' \<noteq> q then Values_Encode q' else RawQuery req)\<rparr>;
            cs' = (if 0 < fst t2 then trackSubstitutions (fst (snd t2)) cs else cs)
        in (cs', req', \<lparr>sr_Count = fst t2, sr_Labels = snd (snd t2), sr_SessionIDs = fst (snd t2)\<rparr>))"

section \<open>The cleanup loop\<close>

fun publish_all :: "Event list \<Rightarrow> EventBus option \<Rightarrow> EventBus option go" where
  "publish_all [] bus = Ok bus"
| "publish_all (e # es) bus = gbind (publish_opt e bus) (publish_all es)"

definition cleanup ::
  "string \<Rightarrow> DB \<Rightarrow> EventBus option \<Rightarrow> CredentialStore \<Rightarrow> (DB \<times> CredentialStore \<times> EventBus option) go" where
  "cleanup now db bus cs =
     (case DeleteExpiredSessions now db of (db', expiredIDs) \<Rightarrow>
      if 0 < length expiredIDs then
        gbind (publish_all (map (session_event EventSessionExpired) expiredIDs) bus) (\<lambda>bus'.
          Ok (db', foldl (\<lambda>c i. removeSessionLocked i c) cs expiredIDs, bus'))
      else Ok (db', cs, bus))"

text \<open>\<open>order\<close> enumerates the sessions with a counter; the counters are swapped with zero first.\<close>

definition flushSubstitutionCounts ::
  "string list \<Rightarrow> DB \<Rightarrow> EventBus option \<Rightarrow> CredentialStore \<Rightarrow> (DB \<times> CredentialStore \<times> EventBus option) go" where
  "flushSubstitutionCounts order db bus cs =
     (let toFlush = filter (\<lambda>(sid, v). 0 < v) (map (\<lambda>sid. (sid, case pendingCounts cs sid of None \<Rightarrow> 0 | Some v \<Rightarrow> v)) order);
          cs' = cs\<lparr>pendingCounts := (\<lambda>sid. map_option (\<lambda>_. 0) (pendingCounts cs sid))\<rparr>;
          db' = foldl (\<lambda>d (sid, delta). IncrementSubstitutionCount d sid delta) db toFlush
      in gbind (publish_all (map (\<lambda>(sid, _). session_event EventSessionSubstitution sid) toFlush) bus) (\<lambda>bus'.
          Ok (db', cs', bus')))"

definition is_Ok :: "'a go \<Rightarrow> bool" where
  "is_Ok r = (case r of Ok _ \<Rightarrow> True | _ \<Rightarrow> False)"

definition PurgeUnreadableCredentials ::
  "aead_open \<Rightarrow> (string \<Rightarrow> (string \<rightharpoonup> string) go) \<Rightarrow> byte list \<Rightarrow> DB \<Rightarrow> GlobalCredential list \<Rightarrow>
   DB \<times> GlobalCredential list \<times> nat \<times> nat" where
  "PurgeUnreadableCredentials open unmarshal key db creds =
     (let bad = filter (\<lambda>s. \<not> is_Ok (DecryptSessionMappings open unmarshal key s)) (LoadAllSessions db);
          badc = filter (\<lambda>c. \<not> is_Ok (DecryptGlobalCredentialValue open key c)) (ListGlobalCredentials creds)
      in (foldl (\<lambda>d s. fst (DeleteSession d (sess_id s))) db bad,
          foldl (\<lambda>cr c. fst (DeleteGlobalCredential cr (gc_id c))) creds badc, length bad, length badc))"

definition SessionCount :: "string list \<Rightarrow> CredentialStore \<Rightarrow> nat" where
  "SessionCount placeholders cs = card (set (List.map_filter (sessionMap cs) placeholders))"

section \<open>Replacing a placeholder\<close>

text \<open>
  A value with exactly one occurrence of exactly one known placeholder, before and after the substitution;
  and a value with none.
\<close>

definition one_placeholder :: "CredentialStore \<Rightarrow> string \<Rightarrow> string \<Rightarrow> bool" where
  "one_placeholder cs v w \<longleftrightarrow>
     (\<exists>P real pre post. v = pre @ P @ post \<and> w = pre @ real @ post \<and> cs_lookup cs P = Some real \<and>
        Contains P PlaceholderPrefix \<and> \<not> Contains (pre @ butlast P) P \<and> \<not> Contains (tl (P @ post)) P \<and>
        (\<forall>Q \<in> dom (cs_lookup cs) - {P}. \<not> Contains v Q \<and> \<not> Contains w Q))"

definition no_placeholder :: "CredentialStore \<Rightarrow> string \<Rightarrow> bool" where
  "no_placeholder cs v \<longleftrightarrow> (\<forall>Q \<in> dom (cs_lookup cs). \<not> Contains v Q)"

text \<open>An enumeration of the keys of the lookup map, each once, as a range loop visits them.\<close>

definition visits_keys :: "CredentialStore \<Rightarrow> string list \<Rightarrow> bool" where
  "visits_keys cs order \<longleftrightarrow> distinct order \<and> set order = dom (cs_lookup cs)"

lemma replace_absent: "(\<forall>Q \<in> set order. \<not> Contains s Q) \<Longrightarrow> foldl (replace_one cs) (s, u) order = (s, u)"
proof (induction order)
  case (Cons Q order)
  then have "replace_one cs (s, u) Q = (s, u)" by (cases u) (simp add: replace_one_def split: option.splits)
  with Cons show ?case by simp
qed simp

lemma replaceInString_none: "no_placeholder cs v \<Longrightarrow> visits_keys cs order \<Longrightarrow> replaceInString order cs v u = (v, u)"
  by (simp add: replaceInString_def no_placeholder_def visits_keys_def replace_absent)

lemma replaceInString_one:
  assumes "one_placeholder cs v w" "visits_keys cs order"
  shows "fst (replaceInString order cs v u) = w"
proof -
  obtain P real pre post where v: "v = pre @ P @ post" and w: "w = pre @ real @ post" and l: "cs_lookup cs P = Some real"
    and P: "Contains P PlaceholderPrefix" "\<not> Contains (pre @ butlast P) P" "\<not> Contains (tl (P @ post)) P"
    and Q: "\<forall>Q \<in> dom (cs_lookup cs) - {P}. \<not> Contains v Q \<and> \<not> Contains w Q"
    using assms(1) unfolding one_placeholder_def by blast
  have "P \<in> set order" using l assms(2) by (auto simp: visits_keys_def)
  then obtain o1 o2 where o: "order = o1 @ P # o2" by (meson split_list)
  then have "P \<notin> set o1" "P \<notin> set o2" "set o1 \<union> set o2 \<subseteq> dom (cs_lookup cs)"
    using assms(2) by (auto simp: visits_keys_def)
  with Q have out: "\<forall>Q \<in> set o1. \<not> Contains v Q" "\<forall>Q \<in> set o2. \<not> Contains w Q" by blast+
  have "P \<noteq> []" using P(1) by (auto simp: PlaceholderPrefix_def)
  from ReplaceAll_once [OF this P(2,3)] have "ReplaceAll v P real = w" unfolding v w .
  moreover have "Contains v P" unfolding v Contains_iff by blast
  ultimately have "fst (replace_one cs (v, u) P) = w" using l by (cases u) (simp add: replace_one_def)
  then obtain u' where "replace_one cs (v, u) P = (w, u')" by (metis prod.collapse)
  then show ?thesis using out by (simp add: replaceInString_def o replace_absent)
qed

lemma subst_value_fst:
  assumes "no_placeholder cs v \<and> w = v \<or> one_placeholder cs v w" "visits_keys cs order"
  shows "fst (subst_value order cs v t) = w"
  using assms(1)
proof
  assume "no_placeholder cs v \<and> w = v"
  with replaceInString_none [OF _ assms(2)] show ?thesis by (simp add: subst_value_def)
next
  assume one: "one_placeholder cs v w"
  then obtain P pre post where "v = pre @ P @ post" "Contains P PlaceholderPrefix" unfolding one_placeholder_def by blast
  then have "Contains v PlaceholderPrefix" using Contains_append [of P PlaceholderPrefix pre post] by simp
  with replaceInString_one [OF one assms(2), of "snd t"] show ?thesis
    by (auto simp: subst_value_def split: prod.splits)
qed

lemma subst_values_fst:
  assumes "\<And>v. v \<in> set vs \<Longrightarrow> no_placeholder cs v \<and> f v = v \<or> one_placeholder cs v (f v)" "\<And>i. visits_keys cs (order i)"
  shows "fst (subst_values order cs i vs t) = map f vs"
  using assms(1)
proof (induction vs arbitrary: i t)
  case (Cons v vs)
  have "fst (subst_value (order i) cs v t) = f v" using Cons.prems by (intro subst_value_fst assms(2)) simp
  with Cons show ?case by (auto split: prod.splits) (metis fst_conv)
qed simp

lemma subst_entries_fst:
  assumes "\<And>k vs v. (k, vs) \<in> set es \<Longrightarrow> v \<in> set vs \<Longrightarrow> no_placeholder cs v \<and> f v = v \<or> one_placeholder cs v (f v)"
    and "\<And>k i. visits_keys cs (order k i)"
  shows "fst (subst_entries order cs es t) = map (\<lambda>(k, vs). (k, map f vs)) es"
  using assms(1)
proof (induction es arbitrary: t)
  case (Cons e es)
  obtain k vs where e: "e = (k, vs)" by fastforce
  have "fst (subst_values (order k) cs 0 vs t) = map f vs"
    using Cons.prems unfolding e by (intro subst_values_fst assms(2)) (meson list.set_intros(1))
  moreover have "fst (subst_entries order cs es t') = map (\<lambda>(k, vs). (k, map f vs)) es" for t'
    using Cons.prems by (intro Cons.IH) (meson list.set_intros(2))
  ultimately show ?case unfolding e by (auto split: prod.splits) (metis fst_conv)+
qed simp

section \<open>Ownership\<close>

text \<open>
  Things that belong to an owner and can be dropped owner by owner: the contract that the rules of the
  sessions and the placeholders of the sessions share.
\<close>

locale owned_store =
  fixes drop_owner :: "'i \<Rightarrow> 's \<Rightarrow> 's" and owns :: "'s \<Rightarrow> 'i \<Rightarrow> 'k set"
  assumes owns_drop: "owns (drop_owner i s) j = (if j = i then {} else owns s j)"
begin

lemma owns_drop_all: "owns (foldl (\<lambda>s i. drop_owner i s) s is) j = (if j \<in> set is then {} else owns s j)"
  by (induction "is" arbitrary: s) (auto simp: owns_drop)

end

definition placeholders_of :: "CredentialStore \<Rightarrow> string \<Rightarrow> string set" where
  "placeholders_of cs sid = {p. sessionMap cs p = Some sid}"

definition rules_of :: "DB \<Rightarrow> string \<Rightarrow> Rule set" where
  "rules_of db sid = {r \<in> set (rules db). SessionID r = Some sid}"

interpretation credentials: owned_store removeSessionLocked placeholders_of
  by unfold_locales (auto simp: removeSessionLocked_def placeholders_of_def Let_def)

interpretation session_rules: owned_store "\<lambda>sid. delete_rules (\<lambda>r. SessionID r = Some sid)" rules_of
  by unfold_locales (auto simp: rules_of_def)

lemma put_mappings_owns:
  "placeholders_of (put_mappings sid labels m cs) j =
     (if j = sid then placeholders_of cs j \<union> dom m else placeholders_of cs j - dom m)"
  by (auto simp: placeholders_of_def put_mappings_def map_add_def split: option.splits)

definition bus_opt_ok :: "EventBus option \<Rightarrow> bool" where
  "bus_opt_ok eb \<longleftrightarrow> (case eb of None \<Rightarrow> True | Some b \<Rightarrow> bus_ok b)"

lemma publish_opt_Ok: "bus_opt_ok eb \<Longrightarrow> \<exists>eb'. publish_opt e eb = Ok eb' \<and> bus_opt_ok eb'"
proof (cases eb)
  case (Some b)
  assume "bus_opt_ok eb"
  then have "bus_ok b" using Some by (simp add: bus_opt_ok_def)
  then obtain b' where "Publish e b = Ok b'" "bus_ok b'" by (rule Publish_Ok)
  with Some show ?thesis by (simp add: publish_opt_def bus_opt_ok_def)
qed (simp add: publish_opt_def bus_opt_ok_def)

lemma publish_all_Ok: "bus_opt_ok eb \<Longrightarrow> \<exists>eb'. publish_all es eb = Ok eb' \<and> bus_opt_ok eb'"
proof (induction es arbitrary: eb)
  case (Cons e es)
  from publish_opt_Ok [OF Cons.prems, of e] Cons.IH show ?case by fastforce
qed simp

section \<open>Restarting\<close>

lemma load_global_other: "p \<noteq> gc_placeholder c \<Longrightarrow> cs_lookup (load_global open key cs c) p = cs_lookup cs p"
  "p \<noteq> gc_placeholder c \<Longrightarrow> labelsMap (load_global open key cs c) p = labelsMap cs p"
  by (simp_all add: load_global_def RegisterGlobalCredential_def split: go.splits)

lemma load_globals_other:
  "p \<notin> gc_placeholder ` set xs \<Longrightarrow> cs_lookup (foldl (load_global open key) cs xs) p = cs_lookup cs p"
  "p \<notin> gc_placeholder ` set xs \<Longrightarrow> labelsMap (foldl (load_global open key) cs xs) p = labelsMap cs p"
  by (induction xs arbitrary: cs) (simp_all add: load_global_other)

lemma load_globals_hit:
  assumes "distinct (map gc_placeholder xs)" "c \<in> set xs" "DecryptGlobalCredentialValue open key c = Ok v"
  shows "cs_lookup (foldl (load_global open key) cs xs) (gc_placeholder c) = Some v"
    "labelsMap (foldl (load_global open key) cs xs) (gc_placeholder c) = Some (gc_label c)"
proof -
  obtain us vs where xs: "xs = us @ c # vs" using assms(2) by (meson split_list)
  then have "gc_placeholder c \<notin> gc_placeholder ` set vs" using assms(1) by auto
  with assms(3) show "cs_lookup (foldl (load_global open key) cs xs) (gc_placeholder c) = Some v"
    "labelsMap (foldl (load_global open key) cs xs) (gc_placeholder c) = Some (gc_label c)"
    by (simp_all add: xs load_globals_other load_global_def RegisterGlobalCredential_def)
qed

lemma loadFromDB_counts: "pendingCounts (loadFromDB open unmarshal before key db creds cs) = pendingCounts cs"
proof -
  have g: "pendingCounts (foldl (load_global open key) c xs) = pendingCounts c" for c xs
    by (induction xs arbitrary: c) (simp_all add: load_global_def RegisterGlobalCredential_def split: go.splits)
  have "pendingCounts (foldl (load_session open unmarshal before key) c xs) = pendingCounts c" for c xs
    by (induction xs arbitrary: c) (simp_all add: load_session_def put_mappings_def split: go.splits)
  then show ?thesis by (simp add: loadFromDB_def g)
qed

lemma SubstituteRequest_counts:
  "pendingCounts cs = Map.empty \<Longrightarrow> pendingCounts (fst (SubstituteRequest keys ho qo cs req)) = Map.empty"
  by (auto simp: SubstituteRequest_def trackSubstitutions_def Let_def split: prod.splits)

section \<open>Properties\<close>


text \<open>
  C14. A global credential survives a restart: what is encrypted into the table when it is created is what
  the store loads again, under its placeholder and label, whatever the sessions of the database hold.
\<close>

theorem global_credential_survives_restart:
  assumes "aead_ok seal open" "globals_ok creds"
    and "CreateGlobalCredential seal rnd now key creds input = (creds', Ok c)"
    and "e_nonce rnd = Some nonce" "length nonce = gcm_nonce_size"
  shows "cs_lookup (NewCredentialStore open unmarshal before key db creds') (gc_placeholder c) = Some (gci_value input) \<and>
    labelsMap (NewCredentialStore open unmarshal before key db creds') (gc_placeholder c) = Some (gci_label input)"
proof -
  note c = CreateGlobalCredential_Ok [OF assms(3)]
  have "mset (map gc_placeholder (ListGlobalCredentials creds')) = mset (map gc_placeholder creds')"
    by (simp add: ListGlobalCredentials_def)
  moreover have "globals_ok creds'" using insert_global_ok [OF assms(2) c(2)] .
  ultimately have "distinct (map gc_placeholder (ListGlobalCredentials creds'))"
    using mset_eq_imp_distinct_iff globals_ok_def by blast
  moreover have "c \<in> set (ListGlobalCredentials creds')" using c(1) by (simp add: ListGlobalCredentials_def)
  moreover have "DecryptGlobalCredentialValue open key c = Ok (gci_value input)"
    using Decrypt_Encrypt [OF assms(1,5)] c(4) assms(4) by (simp add: DecryptGlobalCredentialValue_def)
  ultimately show ?thesis
    unfolding NewCredentialStore_def loadFromDB_def using load_globals_hit c(3) by metis
qed

text \<open>
  Sessions that are restored when the process starts are never counted: the counters are allocated when
  a session is registered and not when it is loaded, so no substitution for a restored session ever reaches
  the database.
\<close>

theorem restored_sessions_are_not_counted:
  "\<exists>cs'. flushSubstitutionCounts order db bus
     (fst (SubstituteRequest keys ho qo (NewCredentialStore open unmarshal before key db0 creds) req)) = Ok (db, cs', bus)"
proof -
  have "pendingCounts (NewCredentialStore open unmarshal before key db0 creds) = Map.empty"
    by (simp add: NewCredentialStore_def loadFromDB_counts empty_store_def)
  then show ?thesis
    using SubstituteRequest_counts by (simp add: flushSubstitutionCounts_def Let_def filter_map o_def)
qed

text \<open>The preview of a nine-character secret shows all of it.\<close>

lemma nine_characters_are_shown: "length v = 9 \<Longrightarrow> filter (\<lambda>c. c \<noteq> CHR ''*'') (MaskCredentialValue v) = filter (\<lambda>c. c \<noteq> CHR ''*'') v"
proof -
  assume "length v = 9"
  then have "MaskCredentialValue v = take 6 v @ ''***'' @ drop 6 v" by (simp add: MaskCredentialValue_def)
  moreover have "filter P (take 6 v) @ filter P (drop 6 v) = filter P v" for P
    by (metis append_take_drop_id filter_append)
  ultimately show ?thesis by simp
qed
end
