(* ===== verification/Api.thy ===== *)
theory Api
  imports BypassPlugin Credentials
begin

text \<open>
  The REST handlers of \<^verbatim>\<open>internal/greyproxy/api\<close> that decide pending requests, edit rules, switch silent
  mode and manage sessions and credentials. A handler takes the shared state, the path and query
  parameters as strings and the result of binding the JSON body, and returns the new state and its
  response, or a panic, which \<^verbatim>\<open>gin.Recovery\<close> turns into a 500.
\<close>

section \<open>Shared state, requests and responses\<close>

text \<open>\<open>s_cancelled\<close> records the cancel functions that have been called.\<close>

record Shared =
  s_db :: DB
  s_creds :: "GlobalCredential list"
  s_bus :: EventBus
  s_conns :: "ConnTracker option"
  s_cancelled :: "nat set"
  s_store :: "CredentialStore option"
  s_silent :: AllowAllManager

text \<open>What a request takes from outside: the clocks, the random source, JSON, the cipher, the sort.\<close>

record api_env =
  a_clock :: clock
  a_time :: int
  a_sort :: "(scored \<Rightarrow> scored \<Rightarrow> bool) \<Rightarrow> scored list \<Rightarrow> scored list"
  a_marshal :: "(string \<rightharpoonup> string) option \<Rightarrow> string"
  a_unmarshal :: "string \<Rightarrow> (string \<rightharpoonup> string) go"
  a_seal :: aead_seal
  a_entropy :: entropy
  a_key :: "byte list"
  a_ParseDuration :: "string \<Rightarrow> int go"

datatype body =
    JError string
  | JErr go_error
  | JCount nat
  | JPendings "PendingRequest list" nat
  | JDecided Rule
  | JRemoved bool
  | JBulk "Rule list" nat
  | JBulkRemoved nat
  | JRules "Rule list" nat
  | JRule Rule
  | JIngest IngestResult
  | JDeleted bool
  | JStatus AllowAllStatus
  | JSessions "Session list"
  | JSession string string nat nat
  | JHeartbeat string string
  | JSessionDeleted string bool
  | JCredentials "GlobalCredential list"
  | JCredential GlobalCredential
  | JCredentialDeleted string bool

record response =
  resp_code :: int
  resp_body :: body

type_synonym reply = "Shared \<times> response go"

text \<open>What \<^verbatim>\<open>ShouldBindJSON\<close> makes of the request body: an error or a value.\<close>

type_synonym 'a bound = "go_error + 'a"

abbreviation reply_with :: "Shared \<Rightarrow> int \<Rightarrow> body \<Rightarrow> reply" where
  "reply_with s code b \<equiv> (s, Ok \<lparr>resp_code = code, resp_body = b\<rparr>)"

definition parse_id :: "string \<Rightarrow> int option" where
  "parse_id s = (case Atoi s of (i, None) \<Rightarrow> Some i | _ \<Rightarrow> None)"

definition DefaultQuery :: "string option \<Rightarrow> string \<Rightarrow> string" where
  "DefaultQuery q d = (case q of None \<Rightarrow> d | Some v \<Rightarrow> v)"

text \<open>Publishing on the shared bus and going on with the new bus.\<close>

definition publish_then :: "Event \<Rightarrow> Shared \<Rightarrow> (Shared \<Rightarrow> Shared \<times> 'a go) \<Rightarrow> Shared \<times> 'a go" where
  "publish_then evt s k = (case Publish evt (s_bus s) of Ok eb \<Rightarrow> k (s\<lparr>s_bus := eb\<rparr>) | _ \<Rightarrow> (s, Panic))"

section \<open>Pending requests\<close>

record allowRequest =
  ar_Scope :: string
  ar_Duration :: string
  ar_Notes :: "string option"

record bulkAllowRequest =
  ba_PendingIDs :: "int list"
  ba_Duration :: string

definition PendingCountHandler :: "Shared \<Rightarrow> reply" where
  "PendingCountHandler s = reply_with s 200 (JCount (GetPendingCount (s_db s)))"

definition PendingListHandler :: "Shared \<Rightarrow> string option \<Rightarrow> string option \<Rightarrow> string \<Rightarrow> string \<Rightarrow> reply" where
  "PendingListHandler s limit offset container destination =
     (case GetPendingRequests (s_db s) \<lparr>pf_container = container, pf_destination = destination,
             pf_limit = fst (Atoi (DefaultQuery limit ''100'')), pf_offset = fst (Atoi (DefaultQuery offset ''0''))\<rparr> of
        Ok (items, n) \<Rightarrow> reply_with s 200 (JPendings items n)
      | Fail e \<Rightarrow> reply_with s 500 (JErr e)
      | Panic \<Rightarrow> (s, Panic))"

text \<open>The two decision handlers differ in the operation and the event. A nil rule would panic in \<^verbatim>\<open>ToJSON\<close>.\<close>

definition decide_pending ::
  "(DB \<Rightarrow> int \<Rightarrow> string \<Rightarrow> string \<Rightarrow> string option \<Rightarrow> DB \<times> Rule option go) \<Rightarrow> string \<Rightarrow> Shared \<Rightarrow> string \<Rightarrow>
   allowRequest bound \<Rightarrow> reply" where
  "decide_pending operation evt s param bind =
     (case parse_id param of
        None \<Rightarrow> reply_with s 400 (JError ''invalid id'')
      | Some i \<Rightarrow>
          (case bind of
             Inl e \<Rightarrow> reply_with s 400 (JErr e)
           | Inr req \<Rightarrow>
               (case operation (s_db s) i (or_default (ar_Scope req) ''exact'')
                       (or_default (ar_Duration req) ''permanent'') (ar_Notes req) of
                  (db', Fail e) \<Rightarrow> reply_with (s\<lparr>s_db := db'\<rparr>) 404 (JErr e)
                | (db', Panic) \<Rightarrow> (s\<lparr>s_db := db'\<rparr>, Panic)
                | (db', Ok None) \<Rightarrow> (s\<lparr>s_db := db'\<rparr>, Panic)
                | (db', Ok (Some rule)) \<Rightarrow>
                    publish_then \<lparr>ev_type = evt, ev_data = DecidedData i rule\<rparr> (s\<lparr>s_db := db'\<rparr>) (\<lambda>s'.
                      reply_with s' 200 (JDecided rule)))))"

definition PendingAllowHandler :: "api_env \<Rightarrow> Shared \<Rightarrow> string \<Rightarrow> allowRequest bound \<Rightarrow> reply" where
  "PendingAllowHandler e = decide_pending (AllowPending (a_clock e)) EventPendingAllowed"

definition PendingDenyHandler :: "api_env \<Rightarrow> Shared \<Rightarrow> string \<Rightarrow> allowRequest bound \<Rightarrow> reply" where
  "PendingDenyHandler e = decide_pending (DenyPending (a_clock e)) EventPendingDismissed"

definition PendingDeleteHandler :: "Shared \<Rightarrow> string \<Rightarrow> reply" where
  "PendingDeleteHandler s param =
     (case parse_id param of
        None \<Rightarrow> reply_with s 400 (JError ''invalid id'')
      | Some i \<Rightarrow>
          (case DeletePending (s_db s) i of
             (db', removed) \<Rightarrow>
               if removed then
                 publish_then \<lparr>ev_type = EventPendingDismissed, ev_data = DismissedData i\<rparr> (s\<lparr>s_db := db'\<rparr>) (\<lambda>s'.
                   reply_with s' 200 (JRemoved removed))
               else reply_with (s\<lparr>s_db := db'\<rparr>) 200 (JRemoved removed)))"

fun bulk_allow :: "api_env \<Rightarrow> string \<Rightarrow> int list \<Rightarrow> Shared \<Rightarrow> Rule list \<Rightarrow> Shared \<times> Rule list go" where
  "bulk_allow e dur [] s rs = (s, Ok rs)"
| "bulk_allow e dur (pid # pids) s rs =
     (case AllowPending (a_clock e) (s_db s) pid ''exact'' dur None of
        (db', Fail _) \<Rightarrow> bulk_allow e dur pids (s\<lparr>s_db := db'\<rparr>) rs
      | (db', Panic) \<Rightarrow> (s\<lparr>s_db := db'\<rparr>, Panic)
      | (db', Ok None) \<Rightarrow> (s\<lparr>s_db := db'\<rparr>, Panic)
      | (db', Ok (Some rule)) \<Rightarrow>
          publish_then \<lparr>ev_type = EventPendingAllowed, ev_data = DecidedData pid rule\<rparr> (s\<lparr>s_db := db'\<rparr>) (\<lambda>s'.
            bulk_allow e dur pids s' (rs @ [rule])))"

definition PendingBulkAllowHandler :: "api_env \<Rightarrow> Shared \<Rightarrow> bulkAllowRequest bound \<Rightarrow> reply" where
  "PendingBulkAllowHandler e s bind =
     (case bind of
        Inl err \<Rightarrow> reply_with s 400 (JErr err)
      | Inr req \<Rightarrow>
          (case bulk_allow e (or_default (ba_Duration req) ''permanent'') (ba_PendingIDs req) s [] of
             (s', Ok rs) \<Rightarrow> reply_with s' 200 (JBulk rs (length rs))
           | (s', Fail err) \<Rightarrow> (s', Fail err)
           | (s', Panic) \<Rightarrow> (s', Panic)))"

fun bulk_dismiss :: "int list \<Rightarrow> Shared \<Rightarrow> nat \<Rightarrow> Shared \<times> nat go" where
  "bulk_dismiss [] s removed = (s, Ok removed)"
| "bulk_dismiss (pid # pids) s removed =
     (case DeletePending (s_db s) pid of
        (db', True) \<Rightarrow>
          publish_then \<lparr>ev_type = EventPendingDismissed, ev_data = DismissedData pid\<rparr> (s\<lparr>s_db := db'\<rparr>) (\<lambda>s'.
            bulk_dismiss pids s' (removed + 1))
      | (db', False) \<Rightarrow> bulk_dismiss pids (s\<lparr>s_db := db'\<rparr>) removed)"

definition PendingBulkDismissHandler :: "Shared \<Rightarrow> int list bound \<Rightarrow> reply" where
  "PendingBulkDismissHandler s bind =
     (case bind of
        Inl err \<Rightarrow> reply_with s 400 (JErr err)
      | Inr pids \<Rightarrow>
          (case bulk_dismiss pids s 0 of
             (s', Ok n) \<Rightarrow> reply_with s' 200 (JBulkRemoved n)
           | (s', Fail err) \<Rightarrow> (s', Fail err)
           | (s', Panic) \<Rightarrow> (s', Panic)))"

section \<open>Rules\<close>

definition RulesListHandler ::
  "api_env \<Rightarrow> Shared \<Rightarrow> string option \<Rightarrow> string option \<Rightarrow> string \<Rightarrow> string \<Rightarrow> string \<Rightarrow> string \<Rightarrow> reply" where
  "RulesListHandler e s limit offset container destination action include_expired =
     (case GetRules (sql_now (a_clock e)) (s_db s) \<lparr>f_container = container, f_destination = destination, f_action = action,
             IncludeExpired = (include_expired = ''true''), f_limit = fst (Atoi (DefaultQuery limit ''100'')),
             f_offset = fst (Atoi (DefaultQuery offset ''0''))\<rparr> of
        (items, n) \<Rightarrow> reply_with s 200 (JRules items n))"

definition RulesCreateHandler :: "api_env \<Rightarrow> Shared \<Rightarrow> RuleCreateInput bound \<Rightarrow> reply" where
  "RulesCreateHandler e s bind =
     (case bind of
        Inl err \<Rightarrow> reply_with s 400 (JErr err)
      | Inr input \<Rightarrow>
          (case CreateRule (a_clock e) (s_db s) input of
             (db', Fail err) \<Rightarrow> reply_with (s\<lparr>s_db := db'\<rparr>) 500 (JErr err)
           | (db', Panic) \<Rightarrow> (s\<lparr>s_db := db'\<rparr>, Panic)
           | (db', Ok None) \<Rightarrow> (s\<lparr>s_db := db'\<rparr>, Panic)
           | (db', Ok (Some rule)) \<Rightarrow> reply_with (s\<lparr>s_db := db'\<rparr>) 201 (JRule rule)))"

text \<open>\<^verbatim>\<open>if s.ConnTracker != nil { s.ConnTracker.CancelByRule(id) }\<close>\<close>

definition cancel_rule :: "int \<Rightarrow> Shared \<Rightarrow> Shared" where
  "cancel_rule i s =
     (case s_conns s of
        None \<Rightarrow> s
      | Some ct \<Rightarrow> (case CancelByRule i ct of (ct', cs) \<Rightarrow> s\<lparr>s_conns := Some ct', s_cancelled := s_cancelled s \<union> cs\<rparr>))"

definition RulesUpdateHandler :: "Shared \<Rightarrow> string \<Rightarrow> RuleUpdateInput bound \<Rightarrow> reply" where
  "RulesUpdateHandler s param bind =
     (case parse_id param of
        None \<Rightarrow> reply_with s 400 (JError ''invalid id'')
      | Some i \<Rightarrow>
          (case bind of
             Inl err \<Rightarrow> reply_with s 400 (JErr err)
           | Inr input \<Rightarrow>
               (case UpdateRule (s_db s) i input of
                  (db', Fail err) \<Rightarrow> reply_with (s\<lparr>s_db := db'\<rparr>) 500 (JErr err)
                | (db', Panic) \<Rightarrow> (s\<lparr>s_db := db'\<rparr>, Panic)
                | (db', Ok None) \<Rightarrow> reply_with (s\<lparr>s_db := db'\<rparr>) 404 (JError ''rule not found'')
                | (db', Ok (Some rule)) \<Rightarrow>
                    reply_with (if Action rule = ''deny'' then cancel_rule i (s\<lparr>s_db := db'\<rparr>) else s\<lparr>s_db := db'\<rparr>)
                      200 (JRule rule))))"

definition RulesIngestHandler :: "api_env \<Rightarrow> Shared \<Rightarrow> IngestRuleInput list bound \<Rightarrow> reply" where
  "RulesIngestHandler e s bind =
     (case bind of
        Inl err \<Rightarrow> reply_with s 400 (JErr err)
      | Inr input \<Rightarrow>
          (case IngestRules (a_sort e) (a_clock e) (s_db s) input of
             (db', Fail err) \<Rightarrow> reply_with (s\<lparr>s_db := db'\<rparr>) 500 (JErr err)
           | (db', Panic) \<Rightarrow> (s\<lparr>s_db := db'\<rparr>, Panic)
           | (db', Ok result) \<Rightarrow> reply_with (s\<lparr>s_db := db'\<rparr>) 200 (JIngest result)))"

definition RulesDeleteHandler :: "Shared \<Rightarrow> string \<Rightarrow> reply" where
  "RulesDeleteHandler s param =
     (case parse_id param of
        None \<Rightarrow> reply_with s 400 (JError ''invalid id'')
      | Some i \<Rightarrow>
          (case DeleteRule (s_db s) i of
             (db', deleted) \<Rightarrow>
               reply_with (if deleted then cancel_rule i (s\<lparr>s_db := db'\<rparr>) else s\<lparr>s_db := db'\<rparr>) 200 (JDeleted deleted)))"

section \<open>Silent mode\<close>

definition maxSilentModeDuration :: int where "maxSilentModeDuration = 8 * 3600 * 10 ^ 9"

record silentRequest =
  sm_Duration :: string
  sm_Mode :: string

definition quoted :: "string \<Rightarrow> string" where "quoted t = CHR 0x22 # t @ [CHR 0x22]"

definition invalid_duration :: string where
  "invalid_duration = ''invalid duration; use a Go duration (e.g. '' @ quoted ''5m'' @ '', '' @ quoted ''1h'' @ '') or '' @
     quoted ''restart''"

definition AllowAllStatusHandler :: "api_env \<Rightarrow> Shared \<Rightarrow> reply" where
  "AllowAllStatusHandler e s = reply_with s 200 (JStatus (Status (a_time e) (s_silent s)))"

definition AllowAllEnableHandler :: "api_env \<Rightarrow> Shared \<Rightarrow> silentRequest bound \<Rightarrow> reply" where
  "AllowAllEnableHandler e s bind =
     (case bind of
        Inl err \<Rightarrow> reply_with s 400 (JErr err)
      | Inr req \<Rightarrow>
          if sm_Mode req \<noteq> SilentModeAllow \<and> sm_Mode req \<noteq> SilentModeDeny
          then reply_with s 400 (JError (''mode must be '' @ quoted ''allow'' @ '' or '' @ quoted ''deny''))
          else
            let enable = (\<lambda>d. case Enable (a_time e) d (sm_Mode req) (s_silent s) of
                   (m', evt) \<Rightarrow> publish_then evt (s\<lparr>s_silent := m'\<rparr>) (\<lambda>s'.
                     reply_with s' 200 (JStatus (Status (a_time e) (s_silent s'))))) in
            if sm_Duration req = ''restart'' then enable 0
            else (case a_ParseDuration e (sm_Duration req) of
                Ok d \<Rightarrow>
                  if d \<le> 0 then reply_with s 400 (JError invalid_duration)
                  else if maxSilentModeDuration < d then reply_with s 400 (JError ''duration exceeds maximum of 8h'')
                  else enable d
              | _ \<Rightarrow> reply_with s 400 (JError invalid_duration)))"

definition AllowAllDisableHandler :: "api_env \<Rightarrow> Shared \<Rightarrow> reply" where
  "AllowAllDisableHandler e s =
     (case Disable (s_silent s) of
        (m', None) \<Rightarrow> reply_with (s\<lparr>s_silent := m'\<rparr>) 200 (JStatus (Status (a_time e) m'))
      | (m', Some evt) \<Rightarrow> publish_then evt (s\<lparr>s_silent := m'\<rparr>) (\<lambda>s'.
          reply_with s' 200 (JStatus (Status (a_time e) (s_silent s')))))"

section \<open>Sessions\<close>

text \<open>
  The JSON body of a session request. A JSON object is the list of its members in order; when a name is
  repeated the last member counts.
\<close>

record session_request =
  sq_session_id :: string
  sq_container :: string
  sq_mappings :: "(string \<times> string) list option"
  sq_labels :: "(string \<times> string) list option"
  sq_metadata :: "(string \<times> string) list option"
  sq_ttl :: int
  sq_network_rules :: "SessionNetworkRule list"
  sq_allow_all :: bool
  GlobalCredentials :: "string list"

definition json_map :: "(string \<times> string) list option \<Rightarrow> (string \<rightharpoonup> string) option" where
  "json_map ms = map_option (\<lambda>l. map_of (rev l)) ms"

definition json_count :: "(string \<times> string) list option \<Rightarrow> nat" where
  "json_count ms = (case ms of None \<Rightarrow> 0 | Some l \<Rightarrow> length (remdups (map fst l)))"

definition maxTTL :: int where "maxTTL = 3600"

text \<open>The labels of the session with those of the resolved global credentials, by placeholder.\<close>

definition merge_labels ::
  "(string \<rightharpoonup> GlobalCredential) \<Rightarrow> string list \<Rightarrow> (string \<rightharpoonup> string) option \<Rightarrow> (string \<rightharpoonup> string) option" where
  "merge_labels found labels own =
     (if labels = [] then own
      else Some (foldl (\<lambda>m l. case found l of None \<Rightarrow> m | Some c \<Rightarrow> m(gc_placeholder c \<mapsto> l))
                   (case own of None \<Rightarrow> Map.empty | Some m \<Rightarrow> m) labels))"

definition session_input :: "GlobalCredential list \<Rightarrow> session_request \<Rightarrow> SessionCreateInput" where
  "session_input creds req =
     \<lparr>si_session_id = sq_session_id req, si_container = sq_container req, si_mappings = json_map (sq_mappings req),
      si_labels = merge_labels (fst (GetGlobalCredentialsByLabels creds (GlobalCredentials req)))
                    (GlobalCredentials req) (json_map (sq_labels req)),
      si_metadata = json_map (sq_metadata req),
      si_ttl = (if maxTTL < sq_ttl req then maxTTL else sq_ttl req),
      si_network_rules = sq_network_rules req, si_allow_all = sq_allow_all req\<rparr>"

definition encrypt_with :: "api_env \<Rightarrow> string \<Rightarrow> byte list go" where
  "encrypt_with e text = Encrypt (a_seal e) (e_nonce (a_entropy e)) (a_key e) (bytes_of_string text)"

text \<open>\<^verbatim>\<open>if s.CredentialStore != nil\<close>, with the bus the store shares with the handlers.\<close>

definition with_store ::
  "(EventBus option \<Rightarrow> CredentialStore \<Rightarrow> (CredentialStore \<times> EventBus option) go) \<Rightarrow> Shared \<Rightarrow> (Shared \<Rightarrow> reply) \<Rightarrow> reply" where
  "with_store f s k =
     (case s_store s of
        None \<Rightarrow> k s
      | Some cs \<Rightarrow>
          (case f (Some (s_bus s)) cs of
             Ok (cs', Some eb) \<Rightarrow> k (s\<lparr>s_store := Some cs', s_bus := eb\<rparr>)
           | Ok (cs', None) \<Rightarrow> k (s\<lparr>s_store := Some cs'\<rparr>)
           | _ \<Rightarrow> (s, Panic)))"

definition SessionsListHandler :: "api_env \<Rightarrow> Shared \<Rightarrow> reply" where
  "SessionsListHandler e s = reply_with s 200 (JSessions (ListSessions (sql_now (a_clock e)) (s_db s)))"

definition SessionsCreateHandler :: "api_env \<Rightarrow> Shared \<Rightarrow> session_request bound \<Rightarrow> reply" where
  "SessionsCreateHandler e s bind =
     (case bind of
        Inl err \<Rightarrow> reply_with s 400 (JErr err)
      | Inr req \<Rightarrow>
          if sq_session_id req = [] then reply_with s 400 (JError ''session_id is required'')
          else if sq_container req = [] then reply_with s 400 (JError ''container_name is required'')
          else
            let missing = snd (GetGlobalCredentialsByLabels (s_creds s) (GlobalCredentials req)) in
            if missing \<noteq> [] then reply_with s 400 (JError (''unknown global credentials: '' @ Join '', '' missing))
            else if json_count (sq_mappings req) = 0 \<and> GlobalCredentials req = [] \<and> sq_network_rules req = [] \<and>
                    \<not> sq_allow_all req
            then reply_with s 400 (JError ''no credentials or network rules provided'')
            else
              let input = session_input (s_creds s) req in
              (case CreateOrUpdateSession (a_marshal e) (encrypt_with e) (a_clock e) (s_db s) input of
                (db', Fail err) \<Rightarrow> reply_with (s\<lparr>s_db := db'\<rparr>) 500 (JErr err)
              | (db', Panic) \<Rightarrow> (s\<lparr>s_db := db'\<rparr>, Panic)
              | (db', Ok None) \<Rightarrow> (s\<lparr>s_db := db'\<rparr>, Panic)
              | (db', Ok (Some session)) \<Rightarrow>
                  with_store (RegisterSession (a_unmarshal e) session (si_mappings input)) (s\<lparr>s_db := db'\<rparr>) (\<lambda>s'.
                    reply_with s' 200 (JSession (sess_id session) (sess_expires session)
                      (json_count (sq_mappings req) + length (remdups (GlobalCredentials req)))
                      (GetSessionRuleCount (s_db s') (sess_id session))))))"

definition SessionsHeartbeatHandler :: "api_env \<Rightarrow> Shared \<Rightarrow> string \<Rightarrow> reply" where
  "SessionsHeartbeatHandler e s sid =
     (case HeartbeatSession (a_clock e) (s_db s) sid of
        (db', None) \<Rightarrow> reply_with (s\<lparr>s_db := db'\<rparr>) 404 (JError ''session not found or expired'')
      | (db', Some session) \<Rightarrow>
          publish_then (session_event EventSessionHeartbeat sid) (s\<lparr>s_db := db'\<rparr>) (\<lambda>s'.
            reply_with s' 200 (JHeartbeat (sess_id session) (sess_expires session))))"

definition SessionsDeleteHandler :: "Shared \<Rightarrow> string \<Rightarrow> reply" where
  "SessionsDeleteHandler s sid =
     (case DeleteSession (s_db s) sid of
        (db', deleted) \<Rightarrow>
          if deleted then
            with_store (UnregisterSession sid) (s\<lparr>s_db := db'\<rparr>) (\<lambda>s'. reply_with s' 200 (JSessionDeleted sid deleted))
          else reply_with (s\<lparr>s_db := db'\<rparr>) 200 (JSessionDeleted sid deleted))"

section \<open>Global credentials\<close>

definition CredentialsListHandler :: "Shared \<Rightarrow> reply" where
  "CredentialsListHandler s = reply_with s 200 (JCredentials (ListGlobalCredentials (s_creds s)))"

definition CredentialsCreateHandler :: "api_env \<Rightarrow> Shared \<Rightarrow> GlobalCredentialCreateInput bound \<Rightarrow> reply" where
  "CredentialsCreateHandler e s bind =
     (case bind of
        Inl err \<Rightarrow> reply_with s 400 (JErr err)
      | Inr input \<Rightarrow>
          if gci_label input = [] then reply_with s 400 (JError ''label is required'')
          else if gci_value input = [] then reply_with s 400 (JError ''value is required'')
          else (case CreateGlobalCredential (a_seal e) (a_entropy e) (sql_now (a_clock e)) (a_key e) (s_creds s) input of
              (creds', Ok c) \<Rightarrow>
                reply_with (s\<lparr>s_creds := creds',
                  s_store := map_option (RegisterGlobalCredential (gc_placeholder c) (gci_value input) (gci_label input))
                               (s_store s)\<rparr>) 200 (JCredential c)
            | (creds', Fail err) \<Rightarrow> reply_with (s\<lparr>s_creds := creds'\<rparr>) 500 (JErr err)
            | (creds', Panic) \<Rightarrow> (s\<lparr>s_creds := creds'\<rparr>, Panic)))"

definition CredentialsDeleteHandler :: "Shared \<Rightarrow> string \<Rightarrow> reply" where
  "CredentialsDeleteHandler s i =
     (case GetGlobalCredential (s_creds s) i of
        Ok c \<Rightarrow>
          (case DeleteGlobalCredential (s_creds s) i of
             (creds', deleted) \<Rightarrow>
               reply_with (s\<lparr>s_creds := creds',
                 s_store := (if deleted then map_option (UnregisterGlobalCredential (gc_placeholder c)) (s_store s)
                             else s_store s)\<rparr>) 200 (JCredentialDeleted i deleted))
      | _ \<Rightarrow> reply_with s 404 (JError ''credential not found''))"

section \<open>The router\<close>

datatype api_request =
    GetPendingCountReq
  | ListPending "string option" "string option" string string
  | AllowPendingReq string "allowRequest bound"
  | DenyPendingReq string "allowRequest bound"
  | DeletePendingReq string
  | BulkAllow "bulkAllowRequest bound"
  | BulkDismiss "int list bound"
  | ListRules "string option" "string option" string string string string
  | CreateRuleReq "RuleCreateInput bound"
  | IngestReq "IngestRuleInput list bound"
  | UpdateRuleReq string "RuleUpdateInput bound"
  | DeleteRuleReq string
  | GetAllowAll
  | EnableAllowAll "silentRequest bound"
  | DisableAllowAll
  | ListSessionsReq
  | CreateSessionReq "session_request bound"
  | HeartbeatReq string
  | DeleteSessionReq string
  | ListCredentials
  | CreateCredential "GlobalCredentialCreateInput bound"
  | DeleteCredential string

fun handle :: "api_env \<Rightarrow> Shared \<Rightarrow> api_request \<Rightarrow> reply" where
  "handle e s GetPendingCountReq = PendingCountHandler s"
| "handle e s (ListPending limit offset container destination) = PendingListHandler s limit offset container destination"
| "handle e s (AllowPendingReq param bind) = PendingAllowHandler e s param bind"
| "handle e s (DenyPendingReq param bind) = PendingDenyHandler e s param bind"
| "handle e s (DeletePendingReq param) = PendingDeleteHandler s param"
| "handle e s (BulkAllow bind) = PendingBulkAllowHandler e s bind"
| "handle e s (BulkDismiss bind) = PendingBulkDismissHandler s bind"
| "handle e s (ListRules limit offset container destination action expired) =
     RulesListHandler e s limit offset container destination action expired"
| "handle e s (CreateRuleReq bind) = RulesCreateHandler e s bind"
| "handle e s (IngestReq bind) = RulesIngestHandler e s bind"
| "handle e s (UpdateRuleReq param bind) = RulesUpdateHandler s param bind"
| "handle e s (DeleteRuleReq param) = RulesDeleteHandler s param"
| "handle e s GetAllowAll = AllowAllStatusHandler e s"
| "handle e s (EnableAllowAll bind) = AllowAllEnableHandler e s bind"
| "handle e s DisableAllowAll = AllowAllDisableHandler e s"
| "handle e s ListSessionsReq = SessionsListHandler e s"
| "handle e s (CreateSessionReq bind) = SessionsCreateHandler e s bind"
| "handle e s (HeartbeatReq sid) = SessionsHeartbeatHandler e s sid"
| "handle e s (DeleteSessionReq sid) = SessionsDeleteHandler s sid"
| "handle e s ListCredentials = CredentialsListHandler s"
| "handle e s (CreateCredential bind) = CredentialsCreateHandler e s bind"
| "handle e s (DeleteCredential i) = CredentialsDeleteHandler s i"

text \<open>\<^verbatim>\<open>gin.Recovery()\<close>: a panic is answered with a 500.\<close>

definition serve :: "api_env \<Rightarrow> Shared \<Rightarrow> api_request \<Rightarrow> Shared \<times> response" where
  "serve e s req =
     (case handle e s req of
        (s', Ok r) \<Rightarrow> (s', r)
      | (s', _) \<Rightarrow> (s', \<lparr>resp_code = 500, resp_body = JError []\<rparr>))"

end
