(* ===== verification/ControlPlane.thy ===== *)
theory ControlPlane
  imports Api
begin

text \<open>
  The shared state of the REST interface under every request, every tick of the cleanup loop and every
  write of the proxy. The invariant says that the database, the bus and the credentials table are well
  formed and that the store holds placeholders only for sessions of the database; the lemmas say that all
  handlers keep it and which of them can panic.
\<close>

section \<open>What the store operations return\<close>

lemma CreateRule_result:
  assumes "rules_ok db" "CreateRule ck db input = (db', res)"
  shows "res \<noteq> Panic" "res \<noteq> Ok None"
proof -
  have "rules_ok (purge ck input db)" using assms(1) by (rule rules_ok_purge)
  then have "GetRule db2 i \<noteq> None" if "insert_rule (purge ck input db) (input_row ck input) = Ok (db2, i)" for db2 i
    using that insert_rule_Ok [OF that] by (auto simp: GetRule_def find_eq_None)
  with assms(2) show "res \<noteq> Panic" "res \<noteq> Ok None"
    by (auto simp: CreateRule_alt split: go.splits if_splits option.splits)
qed

lemma resolve_pending_result:
  assumes "rules_ok db" "resolve_pending act ck db i scope dur notes = (db', res)"
  shows "res \<noteq> Panic" "res \<noteq> Ok None" "sessions db' = sessions db"
proof -
  have "res \<noteq> Panic \<and> res \<noteq> Ok None \<and> sessions db' = sessions db"
    using assms CreateRule_result [OF assms(1)] CreateRule_frame(1)
    by (auto simp: resolve_pending_def split: option.splits prod.splits go.splits)
  then show "res \<noteq> Panic" "res \<noteq> Ok None" "sessions db' = sessions db" by auto
qed

lemma ingest_loop_result:
  "ingest_loop ck db res rs = (db', out) \<Longrightarrow> rules_ok db \<Longrightarrow> out \<noteq> Panic \<and> sessions db' = sessions db"
proof (induction rs arbitrary: db res)
  case (Cons r rs)
  from Cons.prems show ?case
    by (auto simp: Let_def split: option.splits prod.splits go.splits
             dest!: Cons.IH intro: CreateRule_rules_ok dest: CreateRule_frame CreateRule_result)
qed auto

lemma clean_loop_sessions: "clean_loop srt now db n ps = (db', m) \<Longrightarrow> sessions db' = sessions db"
proof (induction ps arbitrary: db n)
  case (Cons p ps)
  from Cons.prems show ?case by (auto simp: Let_def split: option.splits if_splits dest!: Cons.IH)
qed simp

lemma length_consolidate: "length (consolidate ps acc) \<le> length ps + length acc"
proof (induction ps arbitrary: acc)
  case (Cons p ps)
  from Cons [of "acc @ [(group_key p, p)]"]
    Cons [of "map (\<lambda>(k, e). if k = group_key p then (k, merge_pending e p) else (k, e)) acc"]
  show ?case by (simp del: split_paired_All)
qed simp

lemma GetPendingRequests_total:
  assumes "0 \<le> pf_offset f" "pf_offset f = 0 \<or> int (length (pendings db)) + lim \<le> maxInt"
    and "lim = (if pf_limit f \<le> 0 then 100 else pf_limit f)" "lim \<le> maxInt"
  shows "\<exists>items n. GetPendingRequests db f = Ok (items, n)"
proof -
  let ?c = "map snd (consolidate (sort_desc LastSeen (filter (pending_filter_matches f) (pendings db))) [])"
  let ?start = "if pf_offset f > int (length ?c) then int (length ?c) else pf_offset f"
  have "length (sort_desc LastSeen (filter (pending_filter_matches f) (pendings db))) \<le> length (pendings db)"
    by (metis size_mset mset_sort_desc length_filter_le)
  with length_consolidate [of "sort_desc LastSeen (filter (pending_filter_matches f) (pendings db))" "[]"]
  have "length ?c \<le> length (pendings db)" by simp
  then have "0 \<le> ?start" "?start \<le> int (length ?c)" "?start + lim \<le> maxInt" "0 < lim"
    using assms by (auto split: if_splits)
  moreover from this have "wrap64 (?start + lim) = ?start + lim" by (intro wrap64_id) (auto simp: maxInt_def)
  ultimately show ?thesis
    unfolding GetPendingRequests_def Let_def assms(3) [symmetric] by auto
qed

lemma ingest_list:
  "GetPendingRequests db \<lparr>pf_container = [], pf_destination = [], pf_limit = 10000, pf_offset = 0\<rparr> \<noteq> Panic"
  using GetPendingRequests_total [of "\<lparr>pf_container = [], pf_destination = [], pf_limit = 10000, pf_offset = 0\<rparr>" db 10000]
  by (auto simp: maxInt_def)

lemma IngestRules_result:
  assumes "rules_ok db" "IngestRules srt ck db rs = (db', res)"
  shows "res \<noteq> Panic \<and> sessions db' = sessions db"
  using assms by (auto simp: IngestRules_def ingest_list split: prod.splits go.splits if_splits
                       dest!: ingest_loop_result clean_loop_sessions)

lemma UpdateRule_result: "UpdateRule db i u = (db', res) \<Longrightarrow> res \<noteq> Panic"
  by (auto simp: UpdateRule_def Let_def split: if_splits option.splits)

section \<open>The invariant of the shared state\<close>

text \<open>Every placeholder the store holds for a session is held for a session of the database.\<close>

definition backed :: "CredentialStore \<Rightarrow> DB \<Rightarrow> bool" where
  "backed cs db \<longleftrightarrow> (\<forall>sid. placeholders_of cs sid \<noteq> {} \<longrightarrow> sid \<in> sess_id ` set (sessions db))"

definition shared_ok :: "Shared \<Rightarrow> bool" where
  "shared_ok s \<longleftrightarrow> db_ok (s_db s) \<and> bus_ok (s_bus s) \<and> globals_ok (s_creds s) \<and>
     (\<forall>cs. s_store s = Some cs \<longrightarrow> backed cs (s_db s))"

lemma backed_mono: "backed cs db \<Longrightarrow> sess_id ` set (sessions db) \<subseteq> sess_id ` set (sessions db') \<Longrightarrow> backed cs db'"
  by (auto simp: backed_def)

lemma shared_okD:
  assumes "shared_ok s"
  shows "db_ok (s_db s)" "bus_ok (s_bus s)" "globals_ok (s_creds s)" "s_store s = Some cs \<Longrightarrow> backed cs (s_db s)"
    "rules_ok (s_db s)"
  using assms by (auto simp: shared_ok_def db_ok_def store_ok_def)

lemma shared_ok_db:
  assumes "shared_ok s" "db_ok db'" "sess_id ` set (sessions (s_db s)) \<subseteq> sess_id ` set (sessions db')"
  shows "shared_ok (s\<lparr>s_db := db'\<rparr>)"
  using assms backed_mono by (auto simp: shared_ok_def split: option.splits)

text \<open>An answer: the state is well formed and the handler has returned.\<close>

definition answered :: "Shared \<times> 'a go \<Rightarrow> bool" where
  "answered r \<longleftrightarrow> shared_ok (fst r) \<and> (\<exists>a. snd r = Ok a)"

lemma answered_simps [simp]: "answered (s, Ok a) \<longleftrightarrow> shared_ok s" "\<not> answered (s, Panic)"
  by (simp_all add: answered_def)

lemma publish_then_answered:
  assumes "shared_ok s" "\<And>s'. shared_ok s' \<Longrightarrow> answered (k s')"
  shows "answered (publish_then evt s k)"
proof -
  obtain eb where "Publish evt (s_bus s) = Ok eb" "bus_ok eb" using shared_okD(2) [OF assms(1)] by (rule Publish_Ok)
  moreover from this have "shared_ok (s\<lparr>s_bus := eb\<rparr>)" using assms(1) by (simp add: shared_ok_def)
  ultimately show ?thesis using assms(2) by (simp add: publish_then_def)
qed

lemma cancel_rule_ok [simp]: "shared_ok (cancel_rule i s) = shared_ok s"
  by (simp add: cancel_rule_def shared_ok_def split: option.splits prod.splits)

lemma silent_ok [simp]: "shared_ok (s\<lparr>s_silent := m\<rparr>) = shared_ok s"
  by (simp add: shared_ok_def)

subsection \<open>Pending requests\<close>

lemma resolve_shared_ok:
  assumes "shared_ok s" "resolve_pending act ck (s_db s) i scope dur notes = (db', res)"
  shows "shared_ok (s\<lparr>s_db := db'\<rparr>)" "res \<noteq> Panic" "res \<noteq> Ok None"
  using shared_ok_db [OF assms(1) resolve_pending_db_ok [OF shared_okD(1) [OF assms(1)] assms(2)]]
    resolve_pending_result [OF shared_okD(5) [OF assms(1)] assms(2)] by simp_all

lemma decide_pending_answered:
  assumes "shared_ok s"
  shows "answered (decide_pending (resolve_pending act ck) evt s param bind)"
proof -
  have "answered (case resolve_pending act ck (s_db s) i scope dur note_text of
      (db', Fail e) \<Rightarrow> reply_with (s\<lparr>s_db := db'\<rparr>) 404 (JErr e)
    | (db', Panic) \<Rightarrow> (s\<lparr>s_db := db'\<rparr>, Panic)
    | (db', Ok None) \<Rightarrow> (s\<lparr>s_db := db'\<rparr>, Panic)
    | (db', Ok (Some rule)) \<Rightarrow>
        publish_then \<lparr>ev_type = evt, ev_data = DecidedData i rule\<rparr> (s\<lparr>s_db := db'\<rparr>) (\<lambda>s'.
          reply_with s' 200 (JDecided rule)))" for i scope dur note_text
    using resolve_shared_ok [OF assms, of act ck i scope dur note_text]
    by (auto split: prod.splits go.splits option.splits intro!: publish_then_answered)
  with assms show ?thesis by (simp add: decide_pending_def split: option.splits sum.splits)
qed

lemma DeletePending_shared_ok: "shared_ok s \<Longrightarrow> DeletePending (s_db s) i = (db', b) \<Longrightarrow> shared_ok (s\<lparr>s_db := db'\<rparr>)"
  using pending_steps_ok(2) [OF shared_okD(1), of s i] by (intro shared_ok_db) (auto simp: DeletePending_def)

lemma bulk_allow_answered: "shared_ok s \<Longrightarrow> answered (bulk_allow e dur pids s rs)"
proof (induction pids arbitrary: s rs)
  case (Cons pid pids)
  note r = resolve_shared_ok [OF Cons.prems, of "''allow''" "a_clock e" pid "''exact''" dur None]
  show ?case using r Cons.IH
    by (auto simp: AllowPending_def split: prod.splits go.splits option.splits intro!: publish_then_answered)
qed simp

lemma bulk_dismiss_answered: "shared_ok s \<Longrightarrow> answered (bulk_dismiss pids s n)"
proof (induction pids arbitrary: s n)
  case (Cons pid pids)
  then show ?case
    using DeletePending_shared_ok [OF Cons.prems, of pid]
    by (auto split: prod.splits bool.splits intro!: publish_then_answered)
qed simp

lemma answered_case:
  assumes "answered r" "\<And>s a. shared_ok s \<Longrightarrow> answered (f s a)"
  shows "answered (case r of (s, Ok a) \<Rightarrow> f s a | (s, Fail e) \<Rightarrow> (s, Fail e) | (s, Panic) \<Rightarrow> (s, Panic))"
  using assms by (auto simp: answered_def split: prod.splits go.splits)

lemma pending_handlers_answered:
  assumes "shared_ok s"
  shows "answered (PendingAllowHandler e s param b)" "answered (PendingDenyHandler e s param b)"
    "answered (PendingDeleteHandler s param)" "answered (PendingBulkAllowHandler e s ba)"
    "answered (PendingBulkDismissHandler s bd)" "answered (PendingCountHandler s)"
proof -
  show "answered (PendingAllowHandler e s param b)" "answered (PendingDenyHandler e s param b)"
    using decide_pending_answered [OF assms]
    by (simp_all add: PendingAllowHandler_def PendingDenyHandler_def AllowPending_def DenyPending_def)
  show "answered (PendingDeleteHandler s param)"
    using assms DeletePending_shared_ok [OF assms]
    by (auto simp: PendingDeleteHandler_def split: option.splits prod.splits intro!: publish_then_answered)
  show "answered (PendingBulkAllowHandler e s ba)"
    using assms unfolding PendingBulkAllowHandler_def
    by (cases ba) (auto intro!: answered_case bulk_allow_answered)
  show "answered (PendingBulkDismissHandler s bd)"
    using assms unfolding PendingBulkDismissHandler_def
    by (cases bd) (auto intro!: answered_case bulk_dismiss_answered)
  show "answered (PendingCountHandler s)" using assms by (simp add: PendingCountHandler_def)
qed

subsection \<open>Rules and silent mode\<close>

lemma rule_operations_shared_ok:
  assumes "shared_ok s"
  shows "CreateRule ck (s_db s) input = (db', res) \<Longrightarrow> shared_ok (s\<lparr>s_db := db'\<rparr>) \<and> res \<noteq> Panic \<and> res \<noteq> Ok None"
    "UpdateRule (s_db s) i u = (db', res) \<Longrightarrow> shared_ok (s\<lparr>s_db := db'\<rparr>) \<and> res \<noteq> Panic"
    "IngestRules srt ck (s_db s) rs = (db', ires) \<Longrightarrow> shared_ok (s\<lparr>s_db := db'\<rparr>) \<and> ires \<noteq> Panic"
    "DeleteRule (s_db s) i = (db', b) \<Longrightarrow> shared_ok (s\<lparr>s_db := db'\<rparr>)"
proof -
  note ok = shared_okD [OF assms] and keep = shared_ok_db [OF assms]
  show "CreateRule ck (s_db s) input = (db', res) \<Longrightarrow> shared_ok (s\<lparr>s_db := db'\<rparr>) \<and> res \<noteq> Panic \<and> res \<noteq> Ok None"
    using keep [OF CreateRule_db_ok [OF ok(1)]] CreateRule_frame(1) CreateRule_result [OF ok(5)] by simp
  show "UpdateRule (s_db s) i u = (db', res) \<Longrightarrow> shared_ok (s\<lparr>s_db := db'\<rparr>) \<and> res \<noteq> Panic"
    using keep [OF UpdateRule_db_ok [OF ok(1)]] UpdateRule_tables(3) UpdateRule_result by simp
  show "IngestRules srt ck (s_db s) rs = (db', ires) \<Longrightarrow> shared_ok (s\<lparr>s_db := db'\<rparr>) \<and> ires \<noteq> Panic"
    using keep [OF IngestRules_db_ok [OF _ ok(1)]] IngestRules_result [OF ok(5)] by simp
  show "DeleteRule (s_db s) i = (db', b) \<Longrightarrow> shared_ok (s\<lparr>s_db := db'\<rparr>)"
    using keep [OF DeleteRule_db_ok [OF ok(1)]] by (auto simp: DeleteRule_def)
qed

lemma rule_handlers_answered:
  assumes "shared_ok s"
  shows "answered (RulesListHandler e s l off c d a x)" "answered (RulesCreateHandler e s bc)"
    "answered (RulesIngestHandler e s bi)" "answered (RulesUpdateHandler s param bu)" "answered (RulesDeleteHandler s param)"
proof -
  note ok = rule_operations_shared_ok [OF assms]
  show "answered (RulesListHandler e s l off c d a x)" using assms by (simp add: RulesListHandler_def split: prod.splits)
  show "answered (RulesCreateHandler e s bc)"
    using assms ok(1) by (auto simp: RulesCreateHandler_def split: sum.splits prod.splits go.splits option.splits)
  show "answered (RulesIngestHandler e s bi)"
    using assms by (auto simp: RulesIngestHandler_def split: sum.splits prod.splits go.splits dest: ok(3))
  show "answered (RulesUpdateHandler s param bu)"
    using assms ok(2) by (auto simp: RulesUpdateHandler_def split: option.splits sum.splits prod.splits go.splits)
  show "answered (RulesDeleteHandler s param)"
    using assms ok(4) by (auto simp: RulesDeleteHandler_def split: option.splits prod.splits)
qed

lemma silent_handlers_answered:
  assumes "shared_ok s"
  shows "answered (AllowAllStatusHandler e s)" "answered (AllowAllEnableHandler e s b)" "answered (AllowAllDisableHandler e s)"
  using assms
  by (auto simp: AllowAllStatusHandler_def AllowAllEnableHandler_def AllowAllDisableHandler_def Let_def
           split: sum.splits prod.splits go.splits option.splits intro!: publish_then_answered)

subsection \<open>Sessions and credentials\<close>

lemma with_store_answered:
  assumes "db_ok (s_db s)" "bus_ok (s_bus s)" "globals_ok (s_creds s)"
    and "\<And>cs. s_store s = Some cs \<Longrightarrow>
      \<exists>cs' eb. f (Some (s_bus s)) cs = Ok (cs', Some eb) \<and> bus_ok eb \<and> backed cs' (s_db s)"
    and "\<And>s'. shared_ok s' \<Longrightarrow> answered (k s')"
  shows "answered (with_store f s k)"
proof (cases "s_store s")
  case None
  then have "shared_ok s" using assms by (simp add: shared_ok_def)
  with None assms(5) show ?thesis by (simp add: with_store_def)
next
  case (Some cs)
  from assms(4) [OF this] obtain cs' eb where f: "f (Some (s_bus s)) cs = Ok (cs', Some eb)" "bus_ok eb" "backed cs' (s_db s)"
    by blast
  then have "shared_ok (s\<lparr>s_store := Some cs', s_bus := eb\<rparr>)" using assms by (simp add: shared_ok_def)
  with Some f assms(5) show ?thesis by (simp add: with_store_def)
qed

lemma publish_some:
  assumes "bus_ok eb"
  obtains eb' where "publish_opt evt (Some eb) = Ok (Some eb')" "bus_ok eb'"
proof -
  obtain eb' where "Publish evt eb = Ok eb'" "bus_ok eb'" using assms by (rule Publish_Ok)
  then show ?thesis by (intro that [of eb']) (simp_all add: publish_opt_def)
qed

lemma RegisterSession_backed:
  assumes "backed cs db" "sess_id session \<in> sess_id ` set (sessions db)" "bus_ok eb"
  shows "\<exists>cs' eb'. RegisterSession unmarshal session mappings (Some eb) cs = Ok (cs', Some eb') \<and> bus_ok eb' \<and> backed cs' db"
proof -
  obtain eb' where eb: "publish_opt (session_event EventSessionCreated (sess_id session)) (Some eb) = Ok (Some eb')" "bus_ok eb'"
    using assms(3) by (rule publish_some)
  let ?m = "case mappings of None \<Rightarrow> Map.empty | Some m \<Rightarrow> m"
  let ?cs = "put_mappings (sess_id session) (GetSessionLabels unmarshal session) ?m (removeSessionLocked (sess_id session) cs)"
  have "placeholders_of (?cs\<lparr>pendingCounts := c\<rparr>) sid = placeholders_of ?cs sid" for c sid by (simp add: placeholders_of_def)
  then have "backed (?cs\<lparr>pendingCounts := c\<rparr>) db" for c
    using assms(1,2) by (auto simp: backed_def put_mappings_owns credentials.owns_drop)
  with eb show ?thesis by (simp add: RegisterSession_def Let_def)
qed

lemma UnregisterSession_backed:
  assumes "backed cs db" "sess_id ` set (sessions db') = sess_id ` set (sessions db) - {sid}" "bus_ok eb"
  shows "\<exists>cs' eb'. UnregisterSession sid (Some eb) cs = Ok (cs', Some eb') \<and> bus_ok eb' \<and> backed cs' db'"
proof -
  obtain eb' where "publish_opt (session_event EventSessionDeleted sid) (Some eb) = Ok (Some eb')" "bus_ok eb'"
    using assms(3) by (rule publish_some)
  moreover have "backed (removeSessionLocked sid cs) db'"
    using assms(1,2) by (auto simp: backed_def credentials.owns_drop)
  ultimately show ?thesis by (simp add: UnregisterSession_def)
qed

lemma session_create_ids:
  assumes "CreateOrUpdateSession marshal encrypt ck db input = (db', res)"
  shows "sess_id ` set (sessions db) \<subseteq> sess_id ` set (sessions db')"
    "res = Ok (Some session) \<Longrightarrow> sess_id session \<in> sess_id ` set (sessions db')"
    "(\<And>t. encrypt t \<noteq> Panic) \<Longrightarrow> res \<noteq> Panic" "res \<noteq> Ok None"
proof -
  have "sess_id ` set (sessions db) \<subseteq> sess_id ` set (sessions db') \<and>
     (res = Ok (Some session) \<longrightarrow> sess_id session \<in> sess_id ` set (sessions db')) \<and>
     ((\<forall>t. encrypt t \<noteq> Panic) \<longrightarrow> res \<noteq> Panic) \<and> res \<noteq> Ok None"
  proof (cases "encrypt (marshal (si_mappings input))")
    case (Ok enc)
    note f = CreateOrUpdateSession_Ok [OF Ok assms]
    have s: "sessions db' = sessions (upsert_session db (session_row marshal ck input (eff_ttl input) enc))"
      unfolding f(1) by (simp add: foldl_ignore_frame)
    have "sess_id (session_row marshal ck input (eff_ttl input) enc) = si_session_id input" by (simp add: session_row_def)
    then have ids: "sess_id ` set (sessions db') = insert (si_session_id input) (sess_id ` set (sessions db))"
      unfolding s upsert_ids by simp
    then have "si_session_id input \<in> sess_id ` set (sessions db')" by simp
    then have "getSessionLocked db' (si_session_id input) \<noteq> None"
      unfolding getSessionLocked_def find_eq_None by (metis imageE)
    moreover have "sess_id session \<in> sess_id ` set (sessions db')" if "getSessionLocked db' (si_session_id input) = Some session"
      using find_eq_Some [OF that [unfolded getSessionLocked_def]] by blast
    ultimately show ?thesis unfolding f(2) using ids by (simp add: subset_insertI)
  qed (use assms in \<open>auto simp: CreateOrUpdateSession_def Let_def\<close>)
  then show "sess_id ` set (sessions db) \<subseteq> sess_id ` set (sessions db')"
    "res = Ok (Some session) \<Longrightarrow> sess_id session \<in> sess_id ` set (sessions db')"
    "(\<And>t. encrypt t \<noteq> Panic) \<Longrightarrow> res \<noteq> Panic" "res \<noteq> Ok None" by auto
qed

lemma encrypt_with_not_Panic [simp]: "encrypt_with e t \<noteq> Panic"
  by (simp add: encrypt_with_def Encrypt_def split: option.splits)

lemma SessionsCreate_answered:
  assumes "shared_ok s"
  shows "answered (SessionsCreateHandler e s b)"
proof -
  note ok = shared_okD [OF assms]
  have "answered (case CreateOrUpdateSession (a_marshal e) (encrypt_with e) (a_clock e) (s_db s) input of
      (db', Fail err) \<Rightarrow> reply_with (s\<lparr>s_db := db'\<rparr>) 500 (JErr err)
    | (db', Panic) \<Rightarrow> (s\<lparr>s_db := db'\<rparr>, Panic)
    | (db', Ok None) \<Rightarrow> (s\<lparr>s_db := db'\<rparr>, Panic)
    | (db', Ok (Some session)) \<Rightarrow>
        with_store (RegisterSession (a_unmarshal e) session m) (s\<lparr>s_db := db'\<rparr>) (\<lambda>s'. reply_with s' 200 (g session s')))"
    for input m g
  proof -
    obtain db' res where c: "CreateOrUpdateSession (a_marshal e) (encrypt_with e) (a_clock e) (s_db s) input = (db', res)"
      by (metis surj_pair)
    have db: "db_ok db'" using session_steps_ok(1) [OF ok(1)] c by (metis fst_conv)
    note ids = session_create_ids [OF c]
    have s': "shared_ok (s\<lparr>s_db := db'\<rparr>)" using assms db ids(1) by (rule shared_ok_db)
    have "answered (with_store (RegisterSession (a_unmarshal e) session m) (s\<lparr>s_db := db'\<rparr>) (\<lambda>s'. reply_with s' 200 (g session s')))"
      if "res = Ok (Some session)" for session
    proof (rule with_store_answered)
      fix cs assume "s_store (s\<lparr>s_db := db'\<rparr>) = Some cs"
      then have "backed cs db'" using shared_okD(4) [OF s', of cs] by simp
      from RegisterSession_backed [OF this ids(2) [OF that] ok(2), of "a_unmarshal e" m]
      show "\<exists>cs' eb. RegisterSession (a_unmarshal e) session m (Some (s_bus (s\<lparr>s_db := db'\<rparr>))) cs = Ok (cs', Some eb) \<and>
          bus_ok eb \<and> backed cs' (s_db (s\<lparr>s_db := db'\<rparr>))" by simp
    qed (use shared_okD [OF s'] in simp_all)
    with s' ids(3,4) show ?thesis unfolding c by (auto split: go.splits option.splits)
  qed
  with assms show ?thesis unfolding SessionsCreateHandler_def Let_def by (simp split: sum.splits)
qed

lemma session_handlers_answered:
  assumes "shared_ok s"
  shows "answered (SessionsListHandler e s)" "answered (SessionsHeartbeatHandler e s sid)" "answered (SessionsDeleteHandler s sid)"
proof -
  note ok = shared_okD [OF assms]
  show "answered (SessionsListHandler e s)" using assms by (simp add: SessionsListHandler_def)
  obtain db' res where h: "HeartbeatSession (a_clock e) (s_db s) sid = (db', res)" by (metis surj_pair)
  then have "map sess_id (sessions db') = map sess_id (sessions (s_db s))"
    by (auto simp: HeartbeatSession_def Let_def split: if_splits)
  then have "sess_id ` set (sessions db') = sess_id ` set (sessions (s_db s))" by (metis list.set_map)
  moreover have "db_ok db'" using session_steps_ok(2) [OF ok(1)] h by (metis fst_conv)
  ultimately have "shared_ok (s\<lparr>s_db := db'\<rparr>)" using assms by (intro shared_ok_db) simp_all
  with h show "answered (SessionsHeartbeatHandler e s sid)"
    by (auto simp: SessionsHeartbeatHandler_def split: option.splits intro!: publish_then_answered)
  obtain db1 deleted where d: "DeleteSession (s_db s) sid = (db1, deleted)" by (metis surj_pair)
  then have ids: "sess_id ` set (sessions db1) = sess_id ` set (sessions (s_db s)) - {sid}"
    and del: "deleted \<longleftrightarrow> sid \<in> sess_id ` set (sessions (s_db s))"
    by (auto simp: DeleteSession_def Let_def filter_empty_conv)
  have db: "db_ok db1" using session_steps_ok(3) [OF ok(1)] d by (metis fst_conv)
  show "answered (SessionsDeleteHandler s sid)"
  proof (cases deleted)
    case True
    have "answered (with_store (UnregisterSession sid) (s\<lparr>s_db := db1\<rparr>) (\<lambda>s'. reply_with s' 200 (JSessionDeleted sid True)))"
      using UnregisterSession_backed [OF ok(4) ids ok(2)] db ok(2,3) by (intro with_store_answered) simp_all
    with True d show ?thesis by (simp add: SessionsDeleteHandler_def)
  next
    case False
    with ids del db have "shared_ok (s\<lparr>s_db := db1\<rparr>)" by (intro shared_ok_db [OF assms]) auto
    with False d show ?thesis by (simp add: SessionsDeleteHandler_def)
  qed
qed

lemma global_owns [simp]:
  "placeholders_of (RegisterGlobalCredential p v l cs) = placeholders_of cs"
  "placeholders_of (UnregisterGlobalCredential p cs) = placeholders_of cs"
  by (simp_all add: fun_eq_iff placeholders_of_def RegisterGlobalCredential_def UnregisterGlobalCredential_def)

lemma shared_ok_creds:
  assumes "shared_ok s" "globals_ok creds'"
    and "\<And>cs'. st = Some cs' \<Longrightarrow> \<exists>cs. s_store s = Some cs \<and> placeholders_of cs' = placeholders_of cs"
  shows "shared_ok (s\<lparr>s_creds := creds', s_store := st\<rparr>)"
  using assms by (fastforce simp: shared_ok_def backed_def)

lemma CreateGlobalCredential_keeps:
  assumes "globals_ok creds" "CreateGlobalCredential seal rnd now key creds input = (creds', res)"
  shows "globals_ok creds'" "res \<noteq> Panic"
proof -
  have "globals_ok creds' \<and> res \<noteq> Panic"
    using assms
    by (auto simp: CreateGlobalCredential_def gbind_def generateCredentialID_def GeneratePlaceholder_def Encrypt_def
                   insert_global_def GetGlobalCredential_def globals_ok_def split: go.splits option.splits if_splits)
  then show "globals_ok creds'" "res \<noteq> Panic" by auto
qed

lemma credential_handlers_answered:
  assumes "shared_ok s"
  shows "answered (CredentialsListHandler s)" "answered (CredentialsCreateHandler e s b)" "answered (CredentialsDeleteHandler s i)"
proof -
  note ok = shared_okD [OF assms]
  show "answered (CredentialsListHandler s)" using assms by (simp add: CredentialsListHandler_def)
  have keep: "shared_ok (s\<lparr>s_creds := creds'\<rparr>)" if "globals_ok creds'" for creds'
    using assms that by (simp add: shared_ok_def)
  with assms show "answered (CredentialsCreateHandler e s b)"
    by (auto simp: CredentialsCreateHandler_def split: sum.splits prod.splits go.splits intro!: shared_ok_creds
             dest: CreateGlobalCredential_keeps [OF ok(3)])
  show "answered (CredentialsDeleteHandler s i)"
    using assms keep DeleteGlobalCredential_ok [OF ok(3), of i]
    by (auto simp: CredentialsDeleteHandler_def split: go.splits prod.splits intro!: shared_ok_creds)
qed

subsection \<open>All requests\<close>

text \<open>
  Listing pending requests with an offset below zero, or with a limit so large that adding it to the number
  of rows overflows, slices out of bounds.
\<close>

definition safe_page :: "DB \<Rightarrow> string option \<Rightarrow> string option \<Rightarrow> bool" where
  "safe_page db limit offset \<longleftrightarrow>
     (let l = fst (Atoi (DefaultQuery limit ''100'')) in
      0 \<le> fst (Atoi (DefaultQuery offset ''0'')) \<and>
      int (length (pendings db)) + (if l \<le> 0 then 100 else l) \<le> maxInt)"

fun safe_request :: "DB \<Rightarrow> api_request \<Rightarrow> bool" where
  "safe_request db (ListPending limit offset c d) = safe_page db limit offset"
| "safe_request db _ = True"

lemma PendingList_answered:
  assumes "shared_ok s" "safe_page (s_db s) limit offset"
  shows "answered (PendingListHandler s limit offset c d)"
proof -
  let ?l = "fst (Atoi (DefaultQuery limit ''100''))"
  let ?f = "\<lparr>pf_container = c, pf_destination = d, pf_limit = ?l, pf_offset = fst (Atoi (DefaultQuery offset ''0''))\<rparr>"
  have "\<exists>items n. GetPendingRequests (s_db s) ?f = Ok (items, n)"
    using assms(2) by (intro GetPendingRequests_total [of _ _ "if ?l \<le> 0 then 100 else ?l"]) (auto simp: safe_page_def Let_def)
  with assms(1) show ?thesis by (auto simp: PendingListHandler_def)
qed

lemma handle_answered: "shared_ok s \<Longrightarrow> safe_request (s_db s) req \<Longrightarrow> answered (handle e s req)"
  by (cases req) (simp_all add: pending_handlers_answered rule_handlers_answered silent_handlers_answered
      session_handlers_answered SessionsCreate_answered credential_handlers_answered PendingList_answered)

lemma PendingList_state: "fst (PendingListHandler s limit offset c d) = s"
  by (simp add: PendingListHandler_def split: go.splits prod.splits)

lemma handle_keeps: "shared_ok s \<Longrightarrow> shared_ok (fst (handle e s req))"
proof (cases "safe_request (s_db s) req")
  case False
  assume "shared_ok s"
  with False show ?thesis by (cases req) (simp_all add: PendingList_state)
qed (use handle_answered in \<open>auto simp: answered_def\<close>)

text \<open>
  C9. Every request to the REST interface is answered: from a well-formed state no handler panics, whatever
  the path parameters and the body are, except when pending requests are listed with an offset below zero or
  a limit that overflows; and every request, answered or not, leaves the state well formed.
\<close>

theorem api_answers_every_request:
  assumes "shared_ok s"
  shows "shared_ok (fst (serve e s req)) \<and> (safe_request (s_db s) req \<longrightarrow> (\<exists>s' r. handle e s req = (s', Ok r)))"
proof -
  have "fst (serve e s req) = fst (handle e s req)" by (simp add: serve_def split: prod.splits go.splits)
  then show ?thesis using handle_keeps [OF assms] handle_answered [OF assms, of req e]
    by (metis answered_def prod.collapse)
qed

section \<open>Running\<close>

text \<open>
  The shared state as it evolves: requests, ticks of the cleanup loop, substitutions in proxied requests, and
  the database writes of the proxy itself (a new pending request, a log entry, the use of a rule).
\<close>

definition sweep_store :: "string \<Rightarrow> Shared \<Rightarrow> CredentialStore \<Rightarrow> Shared go" where
  "sweep_store now s cs =
     gbind (cleanup now (s_db s) (Some (s_bus s)) cs) (\<lambda>(db', cs', eb).
       Ok (s\<lparr>s_db := db', s_store := Some cs', s_bus := (case eb of None \<Rightarrow> s_bus s | Some b \<Rightarrow> b)\<rparr>))"

definition flush_store :: "string list \<Rightarrow> Shared \<Rightarrow> CredentialStore \<Rightarrow> Shared go" where
  "flush_store order s cs =
     gbind (flushSubstitutionCounts order (s_db s) (Some (s_bus s)) cs) (\<lambda>(db', cs', eb).
       Ok (s\<lparr>s_db := db', s_store := Some cs', s_bus := (case eb of None \<Rightarrow> s_bus s | Some b \<Rightarrow> b)\<rparr>))"

inductive shared_step :: "Shared \<Rightarrow> Shared \<Rightarrow> bool" where
  request: "shared_step s (fst (serve e s req))"
| sweep: "s_store s = Some cs \<Longrightarrow> sweep_store now s cs = Ok s' \<Longrightarrow> shared_step s s'"
| flush: "s_store s = Some cs \<Longrightarrow> flush_store order s cs = Ok s' \<Longrightarrow> shared_step s s'"
| substitute: "s_store s = Some cs \<Longrightarrow> SubstituteRequest keys ho qo cs req = (cs', req', res) \<Longrightarrow>
    shared_step s (s\<lparr>s_store := Some cs'\<rparr>)"
| pending: "CreateOrUpdatePending now (s_db s) c cid h p rh = (db', row, isNew) \<Longrightarrow> shared_step s (s\<lparr>s_db := db'\<rparr>)"
| log: "CreateLogEntry now (s_db s) input = (db', res) \<Longrightarrow> shared_step s (s\<lparr>s_db := db'\<rparr>)"
| use_rule: "shared_step s (s\<lparr>s_db := touch_rule now (s_db s) i\<rparr>)"

lemma removeSessions_backed:
  assumes "backed cs db" "DeleteExpiredSessions now db = (db', ids)" "sessions_ok db"
  shows "backed (foldl (\<lambda>c i. removeSessionLocked i c) cs ids) db'"
proof -
  note d = DeleteExpiredSessions_tables [OF assms(2)]
  have "sid \<in> sess_id ` set (sessions db')" if "sid \<in> sess_id ` set (sessions db)" "sid \<notin> set ids" for sid
    using that unfolding d(1,3) by auto
  with assms(1) show ?thesis by (auto simp: backed_def credentials.owns_drop_all)
qed

lemma sweep_store_Ok:
  assumes "shared_ok s" "s_store s = Some cs"
  obtains s' cs' where "sweep_store now s cs = Ok s'" "shared_ok s'" "s_store s' = Some cs'"
    "sessions (s_db s') = filter (sess_active now) (sessions (s_db s))" "s_cancelled s' = s_cancelled s"
proof -
  note ok = shared_okD [OF assms(1)]
  obtain db' ids where d: "DeleteExpiredSessions now (s_db s) = (db', ids)" by (metis surj_pair)
  obtain eb where eb: "publish_all (map (session_event EventSessionExpired) ids) (Some (s_bus s)) = Ok eb" "bus_opt_ok eb"
    using publish_all_Ok [of "Some (s_bus s)"] ok(2) by (metis bus_opt_ok_def option.case(2))
  have db: "db_ok db'" using session_steps_ok(4) [OF ok(1)] d by (metis fst_conv)
  have se: "sessions_ok (s_db s)" using ok(1) by (simp add: db_ok_def store_ok_def)
  let ?cs = "foldl (\<lambda>c i. removeSessionLocked i c) cs ids"
  let ?b = "case eb of None \<Rightarrow> s_bus s | Some b \<Rightarrow> b"
  let ?s = "s\<lparr>s_db := db', s_store := Some ?cs, s_bus := (if ids = [] then s_bus s else ?b)\<rparr>"
  have "sweep_store now s cs = Ok ?s"
    using eb(1) d by (cases "ids = []") (auto simp: sweep_store_def cleanup_def)
  moreover have "bus_ok ?b" using eb(2) ok(2) by (simp add: bus_opt_ok_def split: option.splits)
  then have "shared_ok ?s"
    using ok db removeSessions_backed [OF ok(4) [OF assms(2)] d se] by (simp add: shared_ok_def)
  ultimately show ?thesis using DeleteExpiredSessions_tables(3) [OF d] by (intro that [of ?s ?cs]) simp_all
qed

lemma foldl_increment_ok:
  "db_ok db \<Longrightarrow> db_ok (foldl (\<lambda>d (sid, delta). IncrementSubstitutionCount d sid delta) db xs)"
  by (induction xs arbitrary: db) (auto intro: session_steps_ok(5))

lemma foldl_increment_ids:
  "map sess_id (sessions (foldl (\<lambda>d (sid, delta). IncrementSubstitutionCount d sid delta) db xs)) = map sess_id (sessions db)"
proof (induction xs arbitrary: db)
  case (Cons x xs)
  obtain sid d where x: "x = (sid, d)" by fastforce
  have "map sess_id (sessions (IncrementSubstitutionCount db sid d)) = map sess_id (sessions db)"
    by (simp add: IncrementSubstitutionCount_def map_sess_id_upd del: map_map)
  with Cons.IH show ?case by (simp add: x)
qed simp

lemma flush_store_Ok:
  assumes "shared_ok s" "s_store s = Some cs" "flush_store order s cs = Ok s'"
  shows "shared_ok s'"
proof -
  note ok = shared_okD [OF assms(1)]
  define toFlush where "toFlush = filter (\<lambda>(sid, v). 0 < v)
    (map (\<lambda>sid. (sid, case pendingCounts cs sid of None \<Rightarrow> 0 | Some v \<Rightarrow> v)) order)"
  let ?db = "foldl (\<lambda>d (sid, delta). IncrementSubstitutionCount d sid delta) (s_db s) toFlush"
  let ?cs = "cs\<lparr>pendingCounts := (\<lambda>sid. map_option (\<lambda>_. 0) (pendingCounts cs sid))\<rparr>"
  obtain eb where eb: "publish_all (map (\<lambda>(sid, _). session_event EventSessionSubstitution sid) toFlush) (Some (s_bus s)) = Ok eb"
      "bus_opt_ok eb"
    using publish_all_Ok [of "Some (s_bus s)"] ok(2) by (metis bus_opt_ok_def option.case(2))
  let ?b = "case eb of None \<Rightarrow> s_bus s | Some b \<Rightarrow> b"
  have "s' = s\<lparr>s_db := ?db, s_store := Some ?cs, s_bus := ?b\<rparr>"
    using assms(3) eb(1) by (simp add: flush_store_def flushSubstitutionCounts_def Let_def toFlush_def)
  moreover have "bus_ok ?b" using eb(2) ok(2) by (simp add: bus_opt_ok_def split: option.splits)
  moreover have "placeholders_of ?cs = placeholders_of cs" by (simp add: fun_eq_iff placeholders_of_def)
  moreover have "sess_id ` set (sessions ?db) = sess_id ` set (sessions (s_db s))"
    using foldl_increment_ids [of "s_db s" toFlush] by (metis list.set_map)
  ultimately show ?thesis
    using ok foldl_increment_ok [OF ok(1)] ok(4) [OF assms(2)] by (simp add: shared_ok_def backed_def)
qed

lemma SubstituteRequest_owns: "SubstituteRequest keys ho qo cs req = (cs', req', res) \<Longrightarrow> placeholders_of cs' = placeholders_of cs"
  by (auto simp: SubstituteRequest_def trackSubstitutions_def placeholders_of_def Let_def fun_eq_iff
           split: if_splits prod.splits)

lemma shared_step_ok:
  assumes "shared_step s s'" "shared_ok s"
  shows "shared_ok s'"
  using assms(1)
proof cases
  case (request e req)
  moreover have "fst (serve e s req) = fst (handle e s req)" by (simp add: serve_def split: prod.splits go.splits)
  ultimately show ?thesis using handle_keeps [OF assms(2)] by simp
next
  case (sweep cs now)
  with sweep_store_Ok [OF assms(2) sweep(1), of now] show ?thesis by (metis go.inject(1))
next
  case (flush cs order)
  with flush_store_Ok [OF assms(2)] show ?thesis by blast
next
  case (substitute cs keys ho qo req cs' req' res)
  with SubstituteRequest_owns [OF substitute(3)] assms(2) show ?thesis by (simp add: shared_ok_def backed_def)
next
  case (pending now c cid h p rh db' row isNew)
  then have "sessions db' = sessions (s_db s)"
    by (auto simp: CreateOrUpdatePending_def Let_def split: option.splits if_splits)
  moreover have "db_ok db'" using pending_steps_ok(1) [OF shared_okD(1) [OF assms(2)]] pending(2) by (metis fst_conv)
  ultimately show ?thesis unfolding pending(1) by (intro shared_ok_db [OF assms(2)]) simp_all
next
  case (log now input db' res)
  then have "sessions db' = sessions (s_db s)" by (auto simp: CreateLogEntry_def Let_def split: if_splits)
  moreover have "db_ok db'" using log_steps_ok(1) [OF shared_okD(1) [OF assms(2)]] log(2) by (metis fst_conv)
  ultimately show ?thesis unfolding log(1) by (intro shared_ok_db [OF assms(2)]) simp_all
next
  case (use_rule now i)
  have "db_ok (touch_rule now (s_db s) i)" using shared_okD(1) [OF assms(2)] by (rule touch_rule_db_ok)
  then show ?thesis unfolding use_rule by (intro shared_ok_db [OF assms(2)]) simp_all
qed

lemma shared_steps_ok: "shared_step\<^sup>*\<^sup>* s s' \<Longrightarrow> shared_ok s \<Longrightarrow> shared_ok s'"
  by (induction rule: rtranclp_induct) (auto intro: shared_step_ok)

text \<open>The store as it is loaded at start-up.\<close>

lemma NewCredentialStore_backed: "backed (NewCredentialStore open unmarshal before key db creds) db"
proof -
  have g: "placeholders_of (foldl (load_global open key) cs xs) = placeholders_of cs" for cs xs
    by (induction xs arbitrary: cs) (simp_all add: load_global_def split: go.splits)
  have "\<forall>sid. placeholders_of (foldl (load_session open unmarshal before key) cs xs) sid \<noteq> {} \<longrightarrow>
      placeholders_of cs sid \<noteq> {} \<or> sid \<in> sess_id ` set xs" for cs xs
  proof (induction xs arbitrary: cs)
    case (Cons x xs)
    have "placeholders_of (load_session open unmarshal before key cs x) sid \<noteq> {} \<Longrightarrow>
        placeholders_of cs sid \<noteq> {} \<or> sid = sess_id x" for sid
      by (auto simp: load_session_def put_mappings_owns split: if_splits go.splits)
    with Cons show ?case by fastforce
  qed simp
  moreover have "placeholders_of empty_store sid = {}" for sid by (simp add: placeholders_of_def empty_store_def)
  moreover have "set (LoadAllSessions db) = set (sessions db)" by (simp add: LoadAllSessions_def)
  ultimately show ?thesis unfolding backed_def NewCredentialStore_def loadFromDB_def g by metis
qed
end
