(* ===== verification/GoIO.thy ===== *)
theory GoIO
  imports GoBase
begin

text \<open>
  The \<^verbatim>\<open>io.Reader\<close> of the decoders. \<open>ReadAtLeast\<close>, \<open>ReadFull\<close> and \<open>ReadAll\<close> follow the loops of
  Go's \<^verbatim>\<open>io\<close> package over the chunks of a reader. \<open>decodes m bs a rest\<close> says that the reading
  program \<open>m\<close>, run on any reader whose remaining bytes are \<open>bs\<close> in whatever chunks, returns \<open>a\<close> and
  leaves \<open>rest\<close>. The locale \<open>stream_codec\<close> is the contract between an encoder and such a decoder;
  what every message format of the program gets from it (unique decoding, streams of messages) is
  proved once here.
\<close>

section \<open>Readers\<close>

record reader =
  rchunks :: "byte list list"
  rend :: go_error

type_synonym 'a rd = "reader \<Rightarrow> 'a go \<times> reader"

definition rstream :: "reader \<Rightarrow> byte list" where
  "rstream r = concat (rchunks r)"

text \<open>\<^verbatim>\<open>bytes.NewReader\<close>: the whole slice in one chunk, then \<^verbatim>\<open>io.EOF\<close>.\<close>

definition bytes_reader :: "byte list \<Rightarrow> reader" where
  "bytes_reader b = \<lparr>rchunks = [b], rend = EOF\<rparr>"

lemma rstream_bytes_reader [simp]: "rstream (bytes_reader b) = b" "rend (bytes_reader b) = EOF"
  by (simp_all add: rstream_def bytes_reader_def)

text \<open>
  The loop of \<^verbatim>\<open>io.ReadAtLeast(r, buf, min)\<close> with \<open>cap = len(buf)\<close>: \<^verbatim>\<open>Read\<close> until \<open>mn\<close> bytes are
  in the buffer. A \<^verbatim>\<open>Read\<close> fills at most what is left of the buffer; the rest of the chunk stays.
\<close>

fun fill :: "nat \<Rightarrow> nat \<Rightarrow> byte list \<Rightarrow> byte list list \<Rightarrow> byte list \<times> byte list list" where
  "fill cap mn acc [] = (acc, [])"
| "fill cap mn acc (c # cs) =
     (if mn \<le> length acc then (acc, c # cs)
      else if length c \<le> cap - length acc then fill cap mn (acc @ c) cs
      else (acc @ take (cap - length acc) c, drop (cap - length acc) c # cs))"

definition ReadAtLeast :: "nat \<Rightarrow> nat \<Rightarrow> byte list rd" where
  "ReadAtLeast cap mn r =
     (case fill cap mn [] (rchunks r) of (b, cs) \<Rightarrow>
        (if mn \<le> length b then Ok b
         else if b \<noteq> [] \<and> rend r = EOF then Fail ErrUnexpectedEOF else Fail (rend r),
         r\<lparr>rchunks := cs\<rparr>))"

definition ReadFull :: "nat \<Rightarrow> byte list rd" where
  "ReadFull n = ReadAtLeast n n"

text \<open>Reading to the end (\<^verbatim>\<open>io.Copy\<close> into a buffer): an error other than \<^verbatim>\<open>io.EOF\<close> is reported.\<close>

definition ReadAll :: "byte list rd" where
  "ReadAll r = (if rend r = EOF then Ok (rstream r) else Fail (rend r), r\<lparr>rchunks := []\<rparr>)"

definition rret :: "'a \<Rightarrow> 'a rd" where
  "rret a r = (Ok a, r)"

definition rfail :: "go_error \<Rightarrow> 'a rd" where
  "rfail e r = (Fail e, r)"

definition rbind :: "'a rd \<Rightarrow> ('a \<Rightarrow> 'b rd) \<Rightarrow> 'b rd" where
  "rbind m f r = (case m r of (Ok a, r') \<Rightarrow> f a r' | (Fail e, r') \<Rightarrow> (Fail e, r') | (Panic, r') \<Rightarrow> (Panic, r'))"

text \<open>A pure step inside a reading program: it consumes nothing.\<close>

definition rlift :: "'a go \<Rightarrow> 'a rd" where
  "rlift m r = (m, r)"

section \<open>What the read loop does\<close>

lemma take_drop_append [simp]: "take n xs @ drop n xs @ ys = xs @ ys"
  by (simp flip: append_assoc)

lemma fill_append:
  "fill cap mn acc cs = (b, cs') \<Longrightarrow> acc @ concat cs = b @ concat cs'"
proof (induction cap mn acc cs rule: fill.induct)
  case (2 cap mn acc c cs)
  show ?case
  proof (cases "mn \<le> length acc \<or> length c \<le> cap - length acc")
    case True
    with 2 show ?thesis by (auto split: if_splits)
  next
    case False
    with "2.prems" show ?thesis by auto
  qed
qed simp

lemma fill_cap: "fill cap mn acc cs = (b, cs') \<Longrightarrow> length acc \<le> cap \<Longrightarrow> length b \<le> cap"
  by (induction cap mn acc cs rule: fill.induct) (auto split: if_splits)

lemma fill_min:
  "fill cap mn acc cs = (b, cs') \<Longrightarrow> mn \<le> cap \<Longrightarrow> mn \<le> length acc + length (concat cs) \<Longrightarrow> mn \<le> length b"
  by (induction cap mn acc cs rule: fill.induct) (auto split: if_splits)

lemma fill_short:
  "fill cap mn acc cs = (b, cs') \<Longrightarrow> mn \<le> cap \<Longrightarrow> length acc + length (concat cs) < mn \<Longrightarrow>
   b = acc @ concat cs"
  by (induction cap mn acc cs rule: fill.induct) (auto split: if_splits)

lemma ReadFull_enough:
  assumes "n \<le> length (rstream r)"
  shows "\<exists>r'. ReadFull n r = (Ok (take n (rstream r)), r') \<and> rstream r' = drop n (rstream r) \<and> rend r' = rend r"
proof -
  obtain b cs where f: "fill n n [] (rchunks r) = (b, cs)" by fastforce
  from fill_append [OF f] have app: "rstream r = b @ concat cs" by (simp add: rstream_def)
  from fill_cap [OF f] fill_min [OF f] assms have "length b = n" by (auto simp: rstream_def)
  with f app show ?thesis by (auto simp: ReadFull_def ReadAtLeast_def rstream_def)
qed

lemma ReadFull_short:
  assumes "length (rstream r) < n"
  shows "fst (ReadFull n r) =
    Fail (if rstream r \<noteq> [] \<and> rend r = EOF then ErrUnexpectedEOF else rend r)"
proof -
  obtain b cs where f: "fill n n [] (rchunks r) = (b, cs)" by fastforce
  from fill_short [OF f] assms have "b = rstream r" by (simp add: rstream_def)
  with f assms show ?thesis by (auto simp: ReadFull_def ReadAtLeast_def rstream_def)
qed

text \<open>\<open>ReadAtLeast\<close> hands over a prefix of the stream whose length the chunking decides.\<close>

lemma ReadAtLeast_enough:
  assumes "mn \<le> cap" "mn \<le> length (rstream r)"
  obtains k r' where "mn \<le> k" "k \<le> cap" "k \<le> length (rstream r)"
    "ReadAtLeast cap mn r = (Ok (take k (rstream r)), r')"
    "rstream r' = drop k (rstream r)" "rend r' = rend r"
proof -
  obtain b cs where f: "fill cap mn [] (rchunks r) = (b, cs)" by fastforce
  from fill_append [OF f] have app: "rstream r = b @ concat cs" by (simp add: rstream_def)
  from fill_cap [OF f] have "length b \<le> cap" by simp
  moreover from fill_min [OF f] assms have "mn \<le> length b" by (simp add: rstream_def)
  ultimately show ?thesis
    by (intro that [of "length b" "r\<lparr>rchunks := cs\<rparr>"])
       (use f app in \<open>simp_all add: ReadAtLeast_def rstream_def\<close>)
qed

lemma ReadFull_Ok:
  assumes "ReadFull n r = (Ok b, r')"
  shows "b = take n (rstream r)" "rstream r' = drop n (rstream r)" "length b = n" "rend r' = rend r"
    "n \<le> length (rstream r)"
proof -
  have n: "n \<le> length (rstream r)"
    using assms ReadFull_short [of r n] by (cases "n \<le> length (rstream r)") auto
  from ReadFull_enough [OF n] assms
  show "b = take n (rstream r)" "rstream r' = drop n (rstream r)" "rend r' = rend r" by auto
  with n show "length b = n" "n \<le> length (rstream r)" by simp_all
qed

lemma rbind_Ok: "rbind m f r = (Ok b, r') \<longleftrightarrow> (\<exists>a r1. m r = (Ok a, r1) \<and> f a r1 = (Ok b, r'))"
  by (auto simp: rbind_def split: prod.splits go.splits)

section \<open>Decoding a byte string, whatever the chunks\<close>

definition decodes :: "'a rd \<Rightarrow> byte list \<Rightarrow> 'a \<Rightarrow> byte list \<Rightarrow> bool" where
  "decodes m bs a rest \<longleftrightarrow>
     (\<forall>r. rstream r = bs \<longrightarrow> (\<exists>r'. m r = (Ok a, r') \<and> rstream r' = rest \<and> rend r' = rend r))"

definition rejects :: "'a rd \<Rightarrow> byte list \<Rightarrow> go_error \<Rightarrow> bool" where
  "rejects m bs e \<longleftrightarrow> (\<forall>r. rstream r = bs \<longrightarrow> rend r = EOF \<longrightarrow> fst (m r) = Fail e)"

definition crashes :: "'a rd \<Rightarrow> byte list \<Rightarrow> bool" where
  "crashes m bs \<longleftrightarrow> (\<forall>r. rstream r = bs \<longrightarrow> fst (m r) = Panic)"

lemma decodes_rret [intro]: "decodes (rret a) bs a bs"
  by (simp add: decodes_def rret_def)

lemma decodes_rlift [intro]: "m = Ok a \<Longrightarrow> decodes (rlift m) bs a bs"
  by (simp add: decodes_def rlift_def)

lemma decodes_rbind:
  assumes "decodes m bs a mid" "decodes (f a) mid b rest"
  shows "decodes (rbind m f) bs b rest"
  unfolding decodes_def
proof (intro allI impI)
  fix r assume "rstream r = bs"
  with assms(1) obtain r1 where "m r = (Ok a, r1)" "rstream r1 = mid" "rend r1 = rend r"
    by (auto simp: decodes_def)
  with assms(2) show "\<exists>r'. rbind m f r = (Ok b, r') \<and> rstream r' = rest \<and> rend r' = rend r"
    by (fastforce simp: decodes_def rbind_def)
qed

lemma decodes_ReadFull:
  "n = length x \<Longrightarrow> decodes (ReadFull n) (x @ y) x y"
  unfolding decodes_def
proof (intro allI impI)
  fix r assume "n = length x" "rstream r = x @ y"
  with ReadFull_enough [of n r]
  show "\<exists>r'. ReadFull n r = (Ok x, r') \<and> rstream r' = y \<and> rend r' = rend r" by simp
qed

lemma decodes_ReadFull_all: "n = length x \<Longrightarrow> decodes (ReadFull n) x x []"
  using decodes_ReadFull [of n x "[]"] by simp

lemma rejects_rbind_first: "rejects m bs e \<Longrightarrow> rejects (rbind m f) bs e"
  unfolding rejects_def rbind_def by (auto split: prod.splits go.splits)

lemma rejects_rbind:
  assumes "decodes m bs a mid" "rejects (f a) mid e"
  shows "rejects (rbind m f) bs e"
  using assms unfolding rejects_def rbind_def decodes_def by fastforce

lemma crashes_rbind:
  assumes "decodes m bs a mid" "crashes (f a) mid"
  shows "crashes (rbind m f) bs"
  using assms unfolding crashes_def rbind_def decodes_def by fastforce

lemma rejects_rfail [intro]: "rejects (rfail e) bs e"
  by (simp add: rejects_def rfail_def)

lemma rejects_ReadFull:
  "length bs < n \<Longrightarrow> rejects (ReadFull n) bs (if bs = [] then EOF else ErrUnexpectedEOF)"
  using ReadFull_short by (auto simp: rejects_def)

lemma decodes_unique:
  assumes "decodes m bs a x" "decodes m bs b y"
  shows "a = b \<and> x = y"
proof -
  have "rstream (bytes_reader bs) = bs" by simp
  with assms show ?thesis unfolding decodes_def by (metis go.inject(1) prod.inject)
qed

lemma decodes_bytes_reader: "decodes m bs a rest \<Longrightarrow> fst (m (bytes_reader bs)) = Ok a"
  unfolding decodes_def using rstream_bytes_reader [of bs] by (metis fst_conv)

section \<open>The contract of an encoder and its stream decoder\<close>

fun read_many :: "'a rd \<Rightarrow> nat \<Rightarrow> 'a list rd" where
  "read_many m 0 = rret []"
| "read_many m (Suc n) = rbind m (\<lambda>a. rbind (read_many m n) (\<lambda>as. rret (a # as)))"

locale stream_codec =
  fixes enc :: "'a \<Rightarrow> byte list"
    and dec :: "'a rd"
    and valid :: "'a \<Rightarrow> bool"
  assumes dec_enc: "valid a \<Longrightarrow> decodes dec (enc a @ rest) a rest"
begin

lemma enc_inj: "valid a \<Longrightarrow> valid b \<Longrightarrow> enc a = enc b \<Longrightarrow> a = b"
  using dec_enc [of a "[]"] dec_enc [of b "[]"] by (auto dest: decodes_unique)

text \<open>No encoding is a proper prefix of another: the first message of a stream is determined.\<close>

lemma enc_prefix_free:
  assumes "valid a" "valid b" "enc a @ x = enc b @ y"
  shows "a = b \<and> x = y"
  using dec_enc [OF assms(1), of x] dec_enc [OF assms(2), of y]
  unfolding assms(3) by (rule decodes_unique)

lemma dec_enc_stream:
  "list_all valid as \<Longrightarrow> decodes (read_many dec (length as)) (concat (map enc as) @ rest) as rest"
proof (induction as)
  case Nil
  show ?case by (simp add: decodes_rret)
next
  case (Cons a as)
  then have "decodes dec (enc a @ concat (map enc as) @ rest) a (concat (map enc as) @ rest)"
    by (intro dec_enc) simp
  moreover from Cons have "decodes (read_many dec (length as)) (concat (map enc as) @ rest) as rest"
    by simp
  ultimately show ?case by (auto intro: decodes_rbind)
qed

end

end
