(* ===== verification/Socks5.thy ===== *)
theory Socks5
  imports GoIO GoNet
begin

text \<open>
  \<^verbatim>\<open>internal/gosocks5/socks5.go\<close>: the SOCKS5 messages. A \<^verbatim>\<open>Read\<close> function is a reading program over
  an \<^verbatim>\<open>io.Reader\<close>, a \<^verbatim>\<open>Write\<close> method gives the bytes it hands to the writer, or \<open>Panic\<close> where a slice of
  its fixed buffer would be out of range. The byte counts that some methods return besides are left out.
  Each format is an instance of \<open>stream_codec\<close>; requests and replies are read with \<^verbatim>\<open>ReadAtLeast\<close>, which
  may take more bytes than the message has, and what that means is stated separately.
\<close>

section \<open>Constants\<close>

definition Ver5 :: byte where "Ver5 = 5"
definition UserPassVer :: byte where "UserPassVer = 1"
definition AddrIPv4 :: byte where "AddrIPv4 = 1"
definition AddrDomain :: byte where "AddrDomain = 3"
definition AddrIPv6 :: byte where "AddrIPv6 = 4"

definition ErrBadVersion :: go_error where "ErrBadVersion = GoErr ''bad version''"
definition ErrBadAddrType :: go_error where "ErrBadAddrType = GoErr ''bad address type''"
definition ErrBadMethod :: go_error where "ErrBadMethod = GoErr ''bad method''"

lemmas socks_consts = Ver5_def UserPassVer_def AddrIPv4_def AddrDomain_def AddrIPv6_def

section \<open>Method selection\<close>

definition ReadMethods :: "byte list rd" where
  "ReadMethods =
     rbind (ReadFull 2) (\<lambda>b.
       if b ! 0 \<noteq> Ver5 then rfail ErrBadVersion
       else if b ! 1 = 0 then rfail ErrBadMethod
       else ReadFull (unat (b ! 1)))"

definition WriteMethod :: "byte \<Rightarrow> byte list" where
  "WriteMethod m = [Ver5, m]"

section \<open>User name and password\<close>

record UserPassRequest =
  up_Version :: byte
  Username :: string
  Password :: string

definition read_counted :: "nat \<Rightarrow> byte list rd" where
  "read_counted n = (if n > 0 then ReadFull n else rret [])"

definition ReadUserPassRequest :: "UserPassRequest rd" where
  "ReadUserPassRequest =
     rbind (ReadFull 2) (\<lambda>b.
       if b ! 0 \<noteq> UserPassVer then rfail ErrBadVersion
       else let ulen = unat (b ! 1) in
         rbind (read_counted ulen) (\<lambda>u.
         rbind (ReadFull 1) (\<lambda>pl.
           let plen = unat (pl ! 0) in
           rbind (read_counted plen) (\<lambda>p.
           rret \<lparr>up_Version = b ! 0, Username = string_of_bytes u, Password = string_of_bytes p\<rparr>))))"

definition UserPassRequest_bytes :: "UserPassRequest \<Rightarrow> byte list" where
  "UserPassRequest_bytes r =
     [up_Version r, of_nat (length (Username r))] @ bytes_of_string (Username r) @
     [of_nat (length (Password r))] @ bytes_of_string (Password r)"

text \<open>The buffer has 513 bytes; slicing or indexing it beyond its end panics.\<close>

definition UserPassRequest_Write :: "UserPassRequest \<Rightarrow> byte list go" where
  "UserPassRequest_Write r =
     (let len = 2 + length (Username r) in
      if len > 513 then Panic
      else if len \<ge> 513 then Panic
      else if len + 1 + length (Password r) > 513 then Panic
      else Ok (UserPassRequest_bytes r))"

record UserPassResponse =
  rs_Version :: byte
  rs_Status :: byte

definition ReadUserPassResponse :: "UserPassResponse rd" where
  "ReadUserPassResponse =
     rbind (ReadFull 2) (\<lambda>b.
       if b ! 0 \<noteq> UserPassVer then rfail ErrBadVersion
       else rret \<lparr>rs_Version = b ! 0, rs_Status = b ! 1\<rparr>)"

definition UserPassResponse_Write :: "UserPassResponse \<Rightarrow> byte list" where
  "UserPassResponse_Write r = [rs_Version r, rs_Status r]"

section \<open>Addresses\<close>

record Addr =
  addr_Type :: byte
  addr_Host :: string
  addr_Port :: u16

definition zeroAddr :: Addr where
  "zeroAddr = \<lparr>addr_Type = 0, addr_Host = [], addr_Port = 0\<rparr>"

definition checkType :: "Addr \<Rightarrow> Addr" where
  "checkType a =
     (if addr_Type a \<in> {AddrIPv4, AddrIPv6, AddrDomain} then a
      else if addr_Host a \<noteq> [] then
        a\<lparr>addr_Type := (case ParseIP (addr_Host a) of
                           None \<Rightarrow> AddrDomain
                         | Some i \<Rightarrow> if To4 i \<noteq> None then AddrIPv4 else AddrIPv6)\<rparr>
      else a\<lparr>addr_Type := AddrIPv4\<rparr>)"

definition ParseFrom :: "string \<Rightarrow> Addr go" where
  "ParseFrom saddr =
     (case SplitHostPort saddr of
        Fail e \<Rightarrow> Fail e
      | Panic \<Rightarrow> Panic
      | Ok (host, sport) \<Rightarrow>
          (case Atoi sport of
             (_, Some e) \<Rightarrow> Fail e
           | (port, None) \<Rightarrow> Ok (checkType \<lparr>addr_Type = 0, addr_Host = host, addr_Port = word_of_int port\<rparr>)))"

definition addr_body :: "Addr \<Rightarrow> byte list" where
  "addr_body a =
     (if addr_Type a = AddrIPv4 then
        (case Option.bind (ParseIP (addr_Host a)) To4 of Some i \<Rightarrow> i | None \<Rightarrow> [0, 0, 0, 0])
      else if addr_Type a = AddrIPv6 then
        (case Option.bind (ParseIP (addr_Host a)) To16 of Some i \<Rightarrow> i | None \<Rightarrow> IPv6zero)
      else of_nat (length (addr_Host a)) # bytes_of_string (addr_Host a))"

definition Addr_bytes :: "Addr \<Rightarrow> byte list" where
  "Addr_bytes a = (let b = checkType a in [addr_Type b] @ addr_body b @ be16 (addr_Port b))"

text \<open>
  \<^verbatim>\<open>Encode(b)\<close> into a buffer of \<open>cap\<close> bytes: \<^verbatim>\<open>copy\<close> truncates the address to the buffer and
  \<^verbatim>\<open>PutUint16\<close> panics when fewer than two bytes are left.
\<close>

definition Encode :: "nat \<Rightarrow> Addr \<Rightarrow> byte list go" where
  "Encode cap a =
     (if cap < 1 \<or> length (Addr_bytes a) > cap then Panic else Ok (Addr_bytes a))"

definition Addr_WriteTo :: "Addr \<Rightarrow> byte list go" where
  "Addr_WriteTo a = Encode 259 a"

definition ReadPort :: "u16 rd" where
  "ReadPort = rbind (ReadFull 2) (\<lambda>b. rret (uint16 (b ! 0) (b ! 1)))"

definition Addr_ReadFrom :: "Addr rd" where
  "Addr_ReadFrom =
     rbind (ReadFull 1) (\<lambda>t.
       let ty = t ! 0; finish = (\<lambda>host. rbind ReadPort (\<lambda>p.
             rret \<lparr>addr_Type = ty, addr_Host = host, addr_Port = p\<rparr>)) in
       if ty = AddrIPv4 then rbind (ReadFull 4) (\<lambda>b. finish (IP_String b))
       else if ty = AddrIPv6 then rbind (ReadFull 16) (\<lambda>b. finish (IP_String b))
       else if ty = AddrDomain then
         rbind (ReadFull 1) (\<lambda>l. rbind (ReadFull (unat (l ! 0))) (\<lambda>b. finish (string_of_bytes b)))
       else rfail ErrBadAddrType)"

definition Addr_Decode :: "byte list \<Rightarrow> Addr go" where
  "Addr_Decode b = fst (Addr_ReadFrom (bytes_reader b))"

definition Addr_Length :: "Addr \<Rightarrow> nat" where
  "Addr_Length a =
     (let b = checkType a in
      if addr_Type b = AddrIPv4 then 7
      else if addr_Type b = AddrIPv6 then 19
      else if addr_Type b = AddrDomain then 4 + length (addr_Host b)
      else 7)"

definition Addr_String :: "Addr \<Rightarrow> string" where
  "Addr_String a = JoinHostPort (addr_Host a) (Itoa (uint (addr_Port a)))"

section \<open>Requests and replies\<close>

record Request =
  Cmd :: byte
  rq_Addr :: "Addr option"

text \<open>
  \<^verbatim>\<open>ReadRequest\<close> and \<^verbatim>\<open>ReadReply\<close> are the same code for two types; \<open>read_message\<close> returns the second
  byte and the address. The buffer has 262 bytes and at least five are read at once.
\<close>

definition read_rest :: "byte list \<Rightarrow> nat \<Rightarrow> (byte \<times> Addr) rd" where
  "read_rest b len =
     rbind (if length b < len then ReadFull (len - length b) else rret []) (\<lambda>more.
       rbind (rlift (Addr_Decode (drop 3 (take len (b @ more))))) (\<lambda>a. rret (b ! 1, a)))"

definition read_message :: "(byte \<times> Addr) rd" where
  "read_message =
     rbind (ReadAtLeast 262 5) (\<lambda>b.
       if b ! 0 \<noteq> Ver5 then rfail ErrBadVersion
       else if b ! 3 = AddrIPv4 then read_rest b 10
       else if b ! 3 = AddrIPv6 then read_rest b 22
       else if b ! 3 = AddrDomain then read_rest b (7 + unat (b ! 4))
       else rfail ErrBadAddrType)"

definition ReadRequest :: "Request rd" where
  "ReadRequest = rbind read_message (\<lambda>(c, a). rret \<lparr>Cmd = c, rq_Addr = Some a\<rparr>)"

definition Request_Write :: "Request \<Rightarrow> byte list go" where
  "Request_Write r =
     (let a = (case rq_Addr r of None \<Rightarrow> zeroAddr | Some x \<Rightarrow> x)
      in gbind (Encode 259 a) (\<lambda>bs. Ok ([Ver5, Cmd r, 0] @ bs)))"

record Reply =
  Rep :: byte
  rp_Addr :: "Addr option"

definition ReadReply :: "Reply rd" where
  "ReadReply = rbind read_message (\<lambda>(c, a). rret \<lparr>Rep = c, rp_Addr = Some a\<rparr>)"

definition Reply_Write :: "Reply \<Rightarrow> byte list go" where
  "Reply_Write r =
     (case rp_Addr r of
        None \<Rightarrow> Ok [Ver5, Rep r, 0, AddrIPv4, 0, 0, 0, 0, 0, 0]
      | Some a \<Rightarrow> gbind (Encode 259 a) (\<lambda>bs. Ok ([Ver5, Rep r, 0] @ bs)))"

section \<open>UDP\<close>

record UDPHeader =
  Rsv :: u16
  Frag :: byte
  uh_Addr :: "Addr option"

definition UDPHeader_ReadFrom :: "UDPHeader rd" where
  "UDPHeader_ReadFrom =
     rbind (ReadFull 3) (\<lambda>b.
       rbind Addr_ReadFrom (\<lambda>a. rret \<lparr>Rsv = uint16 (b ! 0) (b ! 1), Frag = b ! 2, uh_Addr = Some a\<rparr>))"

definition UDPHeader_WriteTo :: "UDPHeader \<Rightarrow> byte list go" where
  "UDPHeader_WriteTo h =
     gbind (Addr_WriteTo (case uh_Addr h of None \<Rightarrow> zeroAddr | Some a \<Rightarrow> a))
       (\<lambda>bs. Ok (be16 (Rsv h) @ [Frag h] @ bs))"

record UDPDatagram =
  ud_Header :: "UDPHeader option"
  ud_Data :: "byte list"

definition UDPDatagram_ReadFrom :: "UDPDatagram rd" where
  "UDPDatagram_ReadFrom =
     rbind UDPHeader_ReadFrom (\<lambda>h.
       rbind (if Rsv h = 0 then ReadAll else ReadFull (unat (Rsv h))) (\<lambda>d.
         rret \<lparr>ud_Header = Some h, ud_Data = d\<rparr>))"

definition UDPDatagram_WriteTo :: "UDPDatagram \<Rightarrow> byte list go" where
  "UDPDatagram_WriteTo d =
     gbind (UDPHeader_WriteTo (case ud_Header d of None \<Rightarrow> \<lparr>Rsv = 0, Frag = 0, uh_Addr = None\<rparr> | Some h \<Rightarrow> h))
       (\<lambda>bs. Ok (bs @ ud_Data d))"

section \<open>Addresses round trip\<close>

text \<open>
  An address as the decoder produces it: an IP host in its canonical text form, or a domain of at most
  255 bytes.
\<close>

definition valid_addr :: "Addr \<Rightarrow> bool" where
  "valid_addr a \<longleftrightarrow>
     (addr_Type a = AddrIPv4 \<and>
       (case Option.bind (ParseIP (addr_Host a)) To4 of Some i \<Rightarrow> IP_String i = addr_Host a | None \<Rightarrow> False)) \<or>
     (addr_Type a = AddrIPv6 \<and>
       (case ParseIP (addr_Host a) of Some i \<Rightarrow> IP_String i = addr_Host a | None \<Rightarrow> False)) \<or>
     (addr_Type a = AddrDomain \<and> length (addr_Host a) \<le> 255)"

lemma type_neq [simp]:
  "AddrIPv4 \<noteq> AddrIPv6" "AddrIPv4 \<noteq> AddrDomain" "AddrIPv6 \<noteq> AddrIPv4" "AddrIPv6 \<noteq> AddrDomain"
  "AddrDomain \<noteq> AddrIPv4" "AddrDomain \<noteq> AddrIPv6"
  by (simp_all add: socks_consts)

lemma checkType_valid [simp]: "valid_addr a \<Longrightarrow> checkType a = a"
  by (auto simp: valid_addr_def checkType_def)

lemma To4_length: "To4 i = Some j \<Longrightarrow> length j = 4"
  by (auto simp: To4_def split: if_splits)

lemma unat_small: "n \<le> 255 \<Longrightarrow> unat (of_nat n :: byte) = n"
  by (simp add: unsigned_of_nat take_bit_nat_eq_self)

lemma decodes_port: "decodes ReadPort (be16 p @ rest) p rest"
  unfolding ReadPort_def
  by (rule decodes_rbind, rule decodes_ReadFull) (simp_all add: be16_def decodes_rret)

text \<open>A host read from the stream, then the port.\<close>

lemma decodes_finish:
  "decodes (rbind ReadPort (\<lambda>p. rret \<lparr>addr_Type = ty, addr_Host = h, addr_Port = p\<rparr>)) (be16 q @ rest)
     \<lparr>addr_Type = ty, addr_Host = h, addr_Port = q\<rparr> rest"
  by (rule decodes_rbind [OF decodes_port decodes_rret])

lemma decodes_read1: "decodes (ReadFull 1) (x # rest) [x] rest"
  using decodes_ReadFull [of 1 "[x]" rest] by simp

lemma decodes_addr_ip:
  assumes "length b = n" "n = (if ty = AddrIPv4 then 4 else 16)" "ty = AddrIPv4 \<or> ty = AddrIPv6"
  shows "decodes Addr_ReadFrom ([ty] @ b @ be16 q @ rest) \<lparr>addr_Type = ty, addr_Host = IP_String b, addr_Port = q\<rparr> rest"
proof -
  have "decodes (rbind (ReadFull n) (\<lambda>b. rbind ReadPort (\<lambda>p. rret \<lparr>addr_Type = ty, addr_Host = IP_String b, addr_Port = p\<rparr>)))
    (b @ be16 q @ rest) \<lparr>addr_Type = ty, addr_Host = IP_String b, addr_Port = q\<rparr> rest"
    using assms(1) by (intro decodes_rbind [OF decodes_ReadFull decodes_finish]) simp
  with assms(2,3) show ?thesis
    unfolding Addr_ReadFrom_def append.simps by (intro decodes_rbind [OF decodes_read1]) (auto simp: Let_def)
qed

lemma decodes_addr_domain:
  assumes "length h \<le> 255"
  shows "decodes Addr_ReadFrom ([AddrDomain] @ (of_nat (length h) # bytes_of_string h) @ be16 q @ rest)
    \<lparr>addr_Type = AddrDomain, addr_Host = h, addr_Port = q\<rparr> rest"
proof -
  let ?fin = "\<lambda>b. rbind ReadPort (\<lambda>p. rret \<lparr>addr_Type = AddrDomain, addr_Host = string_of_bytes b, addr_Port = p\<rparr>)"
  have "decodes (rbind (ReadFull (length h)) ?fin) (bytes_of_string h @ be16 q @ rest)
    \<lparr>addr_Type = AddrDomain, addr_Host = string_of_bytes (bytes_of_string h), addr_Port = q\<rparr> rest"
    by (intro decodes_rbind [OF decodes_ReadFull decodes_finish]) simp
  then have "decodes (rbind (ReadFull 1) (\<lambda>l. rbind (ReadFull (unat (l ! 0))) ?fin))
    (of_nat (length h) # bytes_of_string h @ be16 q @ rest)
    \<lparr>addr_Type = AddrDomain, addr_Host = h, addr_Port = q\<rparr> rest"
    using assms by (intro decodes_rbind [OF decodes_read1]) (simp add: unat_small)
  then show ?thesis
    unfolding Addr_ReadFrom_def append.simps by (intro decodes_rbind [OF decodes_read1]) (simp add: Let_def)
qed

lemma decodes_addr:
  assumes "valid_addr a"
  shows "decodes Addr_ReadFrom (Addr_bytes a @ rest) a rest"
proof -
  consider (v4) i where "addr_Type a = AddrIPv4" "Option.bind (ParseIP (addr_Host a)) To4 = Some i" "IP_String i = addr_Host a"
    | (v6) i where "addr_Type a = AddrIPv6" "ParseIP (addr_Host a) = Some i" "IP_String i = addr_Host a"
    | (dom) "addr_Type a = AddrDomain" "length (addr_Host a) \<le> 255"
    using assms by (auto simp: valid_addr_def split: option.splits)
  then show ?thesis
  proof cases
    case (v4 i)
    then have "length i = 4" by (auto simp: bind_eq_Some_conv dest: To4_length)
    from decodes_addr_ip [of i 4 AddrIPv4 "addr_Port a" rest] this v4 assms show ?thesis
      by (simp add: Addr_bytes_def Let_def addr_body_def)
         (metis (mono_tags, lifting) Addr.surjective old.unit.exhaust)
  next
    case (v6 i)
    then have len: "length i = 16" by (auto dest: ParseIP_length)
    then have "To16 i = Some i" by (simp add: To16_def)
    with decodes_addr_ip [of i 16 AddrIPv6 "addr_Port a" rest] len v6 assms show ?thesis
      by (simp add: Addr_bytes_def Let_def addr_body_def)
         (metis (mono_tags, lifting) Addr.surjective old.unit.exhaust)
  next
    case dom
    with decodes_addr_domain [of "addr_Host a" "addr_Port a" rest] assms show ?thesis
      by (simp add: Addr_bytes_def Let_def addr_body_def)
         (metis (mono_tags, lifting) Addr.surjective old.unit.exhaust)
  qed
qed

lemma checkType_types: "addr_Type (checkType a) \<in> {AddrIPv4, AddrIPv6, AddrDomain}"
  by (auto simp: checkType_def split: option.splits)

lemma addr_body_length:
  "addr_Type b = AddrIPv4 \<Longrightarrow> length (addr_body b) = 4"
  "addr_Type b = AddrIPv6 \<Longrightarrow> length (addr_body b) = 16"
  "addr_Type b = AddrDomain \<Longrightarrow> length (addr_body b) = 1 + length (addr_Host b)"
proof -
  show "length (addr_body b) = 4" if "addr_Type b = AddrIPv4"
    using that by (auto simp: addr_body_def bind_eq_Some_conv split: option.split dest: To4_length)
  show "length (addr_body b) = 16" if "addr_Type b = AddrIPv6"
    using that by (cases "ParseIP (addr_Host b)") (auto simp: addr_body_def IPv6zero_def To16_def dest: ParseIP_length)
  show "length (addr_body b) = 1 + length (addr_Host b)" if "addr_Type b = AddrDomain"
    using that by (simp add: addr_body_def)
qed

lemma Addr_bytes_length: "length (Addr_bytes a) = Addr_Length a"
  using checkType_types [of a] by (auto simp: Addr_bytes_def Addr_Length_def Let_def addr_body_length)

interpretation addr_codec: stream_codec Addr_bytes Addr_ReadFrom valid_addr
  by unfold_locales (rule decodes_addr)

lemma Addr_Decode_bytes: "valid_addr a \<Longrightarrow> Addr_Decode (Addr_bytes a) = Ok a"
  using decodes_bytes_reader [OF addr_codec.dec_enc [of a "[]"]] by (simp add: Addr_Decode_def)

section \<open>Requests and replies round trip\<close>

definition message_bytes :: "byte \<Rightarrow> Addr \<Rightarrow> byte list" where
  "message_bytes c a = [Ver5, c, 0] @ Addr_bytes a"

lemma message_length: "length (message_bytes c a) = 3 + Addr_Length a"
  by (simp add: message_bytes_def Addr_bytes_length)

lemma Addr_Length_bounds: "valid_addr a \<Longrightarrow> 4 \<le> Addr_Length a" "valid_addr a \<Longrightarrow> Addr_Length a \<le> 259"
  by (auto simp: Addr_Length_def Let_def valid_addr_def)

text \<open>The decoder computes the length of the message from its type byte and the byte after it.\<close>

lemma message_header:
  assumes "valid_addr a" "5 \<le> k"
    and b: "b = take k (message_bytes c a @ rest)"
  shows "b ! 0 = Ver5" "b ! 1 = c" "b ! 3 = addr_Type a"
    "addr_Type a = AddrDomain \<Longrightarrow> 7 + unat (b ! 4) = length (message_bytes c a)"
    "addr_Type a = AddrIPv4 \<Longrightarrow> length (message_bytes c a) = 10"
    "addr_Type a = AddrIPv6 \<Longrightarrow> length (message_bytes c a) = 22"
proof -
  have nth: "b ! i = (message_bytes c a @ rest) ! i" if "i < 5" for i using that assms(2) by (simp add: b del: take_append)
  have bytes: "message_bytes c a = [Ver5, c, 0, addr_Type a] @ addr_body a @ be16 (addr_Port a)"
    using assms(1) by (simp add: message_bytes_def Addr_bytes_def Let_def)
  show "b ! 0 = Ver5" "b ! 1 = c" "b ! 3 = addr_Type a" by (simp_all add: nth bytes)
  show "7 + unat (b ! 4) = length (message_bytes c a)" if "addr_Type a = AddrDomain"
    using that assms(1) by (simp add: nth bytes addr_body_def valid_addr_def unat_small)
  show "addr_Type a = AddrIPv4 \<Longrightarrow> length (message_bytes c a) = 10"
    "addr_Type a = AddrIPv6 \<Longrightarrow> length (message_bytes c a) = 22"
    by (simp_all add: bytes addr_body_length)
qed

lemma read_message_spec:
  assumes "valid_addr a" "rstream r = message_bytes c a @ rest"
  obtains r' n r1 where "read_message r = (Ok (c, a), r')" "rstream r' = drop (n - length (message_bytes c a)) rest"
    "rend r' = rend r" "n \<le> length (rstream r)" "ReadAtLeast 262 5 r = (Ok (take n (rstream r)), r1)"
proof -
  let ?L = "length (message_bytes c a)"
  have L: "5 \<le> ?L" using Addr_Length_bounds(1) [OF assms(1)] by (simp add: message_length)
  then have "5 \<le> length (rstream r)" by (simp add: assms(2))
  then obtain n r1 where n: "5 \<le> n" "n \<le> 262" "n \<le> length (rstream r)"
    and r1: "ReadAtLeast 262 5 r = (Ok (take n (rstream r)), r1)" "rstream r1 = drop n (rstream r)" "rend r1 = rend r"
    using ReadAtLeast_enough [of 5 262 r] by auto
  define b where "b = take n (message_bytes c a @ rest)"
  note hd = message_header [OF assms(1) n(1) b_def]
  have "read_message r = (if addr_Type a = AddrIPv4 then read_rest b 10 else if addr_Type a = AddrIPv6 then read_rest b 22
      else if addr_Type a = AddrDomain then read_rest b (7 + unat (b ! 4)) else rfail ErrBadAddrType) r1"
    using hd(1,3) r1(1) [unfolded assms(2), folded b_def] by (simp add: read_message_def rbind_def)
  then have rm: "read_message r = read_rest b ?L r1"
    using assms(1) hd(4-6) by (auto simp: valid_addr_def)
  have dec: "Addr_Decode (drop 3 (message_bytes c a)) = Ok a"
    using Addr_Decode_bytes [OF assms(1)] by (simp add: message_bytes_def)
  have lb: "length b = n" using n(3) by (simp add: assms(2) b_def)
  show ?thesis
  proof (cases "n < ?L")
    case True
    have "?L - n \<le> length (rstream r1)" by (simp add: r1(2) assms(2))
    then obtain r2 where r2: "ReadFull (?L - n) r1 = (Ok (take (?L - n) (rstream r1)), r2)"
      "rstream r2 = drop (?L - n) (rstream r1)" "rend r2 = rend r1" using ReadFull_enough by blast
    have all: "b @ take (?L - n) (rstream r1) = message_bytes c a"
      using True by (simp add: r1(2) assms(2) b_def)
    have "take ?L (b @ take (?L - n) (rstream r1)) = message_bytes c a" unfolding all by simp
    then have "read_rest b ?L r1 = (Ok (c, a), r2)"
      using True lb r2(1) dec hd(2) unfolding read_rest_def by (simp only: rbind_def rlift_def rret_def) simp
    with rm r2 r1 n True show ?thesis by (intro that [of r2 n r1]) (simp_all add: assms(2))
  next
    case False
    then have "take ?L (b @ []) = message_bytes c a" by (simp add: b_def min_def)
    then have "read_rest b ?L r1 = (Ok (c, a), r1)"
      using False lb dec hd(2) unfolding read_rest_def by (simp add: rbind_def rlift_def rret_def)
    with rm r1 n False show ?thesis by (intro that [of r1 n r1]) (simp_all add: assms(2))
  qed
qed

section \<open>The other messages\<close>

lemma decodes_read2: "decodes (ReadFull 2) (x # y # rest) [x, y] rest"
  using decodes_ReadFull [of 2 "[x, y]" rest] by simp

lemma decodes_counted: "n = length x \<Longrightarrow> decodes (read_counted n) (x @ rest) x rest"
  by (auto simp: read_counted_def intro: decodes_ReadFull decodes_rret)

definition valid_userpass :: "UserPassRequest \<Rightarrow> bool" where
  "valid_userpass r \<longleftrightarrow> up_Version r = UserPassVer \<and> length (Username r) \<le> 255 \<and> length (Password r) \<le> 255"

lemma decodes_userpass:
  assumes "valid_userpass r"
  shows "decodes ReadUserPassRequest (UserPassRequest_bytes r @ rest) r rest"
proof -
  let ?u = "bytes_of_string (Username r)" and ?p = "bytes_of_string (Password r)"
  let ?ul = "of_nat (length (Username r)) :: byte" and ?pl = "of_nat (length (Password r)) :: byte"
  have small: "unat ?ul = length ?u" "unat ?pl = length ?p"
    using assms by (simp_all add: valid_userpass_def unat_small)
  have ver: "up_Version r = UserPassVer" using assms by (simp add: valid_userpass_def)
  let ?ret = "\<lambda>u p. rret \<lparr>up_Version = up_Version r, Username = string_of_bytes u, Password = string_of_bytes p\<rparr>"
  have "decodes (rbind (read_counted (unat ([?pl] ! 0))) (?ret ?u)) (?p @ rest) r rest"
    by (rule decodes_rbind, rule decodes_counted) (use decodes_rret [of r rest] small in \<open>cases r; simp\<close>)+
  then have "decodes (rbind (ReadFull 1) (\<lambda>pl. rbind (read_counted (unat (pl ! 0))) (?ret ?u))) (?pl # ?p @ rest) r rest"
    by (rule decodes_rbind [OF decodes_read1])
  then have "decodes (rbind (read_counted (unat ?ul)) (\<lambda>u. rbind (ReadFull 1) (\<lambda>pl.
      rbind (read_counted (unat (pl ! 0))) (?ret u)))) (?u @ ?pl # ?p @ rest) r rest"
    by (rule decodes_rbind [OF decodes_counted [OF small(1)]])
  then show ?thesis
    unfolding ReadUserPassRequest_def UserPassRequest_bytes_def append.simps append_assoc Let_def
    by (intro decodes_rbind [OF decodes_read2]) (simp add: ver)
qed

definition valid_response :: "UserPassResponse \<Rightarrow> bool" where
  "valid_response r \<longleftrightarrow> rs_Version r = UserPassVer"

lemma decodes_response:
  "valid_response r \<Longrightarrow> decodes ReadUserPassResponse (UserPassResponse_Write r @ rest) r rest"
  unfolding ReadUserPassResponse_def UserPassResponse_Write_def append.simps
  using decodes_rret [of r rest]
  by (intro decodes_rbind [OF decodes_read2]) (cases r; simp add: valid_response_def)

text \<open>The client's method list: version, count, methods.\<close>

definition methods_bytes :: "byte list \<Rightarrow> byte list" where
  "methods_bytes ms = [Ver5, of_nat (length ms)] @ ms"

definition valid_methods :: "byte list \<Rightarrow> bool" where
  "valid_methods ms \<longleftrightarrow> 1 \<le> length ms \<and> length ms \<le> 255"

lemma decodes_methods: "valid_methods ms \<Longrightarrow> decodes ReadMethods (methods_bytes ms @ rest) ms rest"
proof -
  assume v: "valid_methods ms"
  then have small: "unat (of_nat (length ms) :: byte) = length ms" by (simp add: valid_methods_def unat_small)
  have nz: "(of_nat (length ms) :: byte) \<noteq> 0"
  proof
    assume "(of_nat (length ms) :: byte) = 0"
    with small v show False by (simp add: valid_methods_def)
  qed
  show ?thesis
    unfolding ReadMethods_def methods_bytes_def append.simps
    by (intro decodes_rbind [OF decodes_read2]) (simp add: small nz decodes_ReadFull)
qed

definition UDPHeader_bytes :: "UDPHeader \<Rightarrow> byte list" where
  "UDPHeader_bytes h =
     be16 (Rsv h) @ [Frag h] @ Addr_bytes (case uh_Addr h of None \<Rightarrow> zeroAddr | Some a \<Rightarrow> a)"

definition valid_header :: "UDPHeader \<Rightarrow> bool" where
  "valid_header h \<longleftrightarrow> (case uh_Addr h of None \<Rightarrow> False | Some a \<Rightarrow> valid_addr a)"

lemma UDPHeader_WriteTo_bytes: "valid_header h \<Longrightarrow> UDPHeader_WriteTo h = Ok (UDPHeader_bytes h)"
  using Addr_Length_bounds(2)
  by (auto simp: valid_header_def UDPHeader_WriteTo_def UDPHeader_bytes_def Addr_WriteTo_def Encode_def
                 Addr_bytes_length not_less split: option.splits)

lemma decodes_header: "valid_header h \<Longrightarrow> decodes UDPHeader_ReadFrom (UDPHeader_bytes h @ rest) h rest"
proof -
  assume "valid_header h"
  then obtain a where a: "uh_Addr h = Some a" "valid_addr a" by (auto simp: valid_header_def split: option.splits)
  define F where "F = (\<lambda>b. rbind Addr_ReadFrom (\<lambda>a. rret \<lparr>Rsv = uint16 (b ! 0) (b ! 1), Frag = b ! 2, uh_Addr = Some a\<rparr>))"
  let ?b = "be16 (Rsv h) @ [Frag h]"
  have "decodes (F ?b) (Addr_bytes a @ rest) \<lparr>Rsv = uint16 (?b ! 0) (?b ! 1), Frag = ?b ! 2, uh_Addr = Some a\<rparr> rest"
    unfolding F_def by (rule decodes_rbind [OF decodes_addr [OF a(2)] decodes_rret])
  moreover have "\<lparr>Rsv = uint16 (?b ! 0) (?b ! 1), Frag = ?b ! 2, uh_Addr = Some a\<rparr> = h"
    using a(1) by (cases h) (simp add: be16_def)
  ultimately have "decodes (F ?b) (Addr_bytes a @ rest) h rest" by simp
  moreover have "decodes (ReadFull 3) (?b @ Addr_bytes a @ rest) ?b (Addr_bytes a @ rest)" by (rule decodes_ReadFull) simp
  ultimately have "decodes (rbind (ReadFull 3) F) (?b @ Addr_bytes a @ rest) h rest" by (rule decodes_rbind [rotated])
  then show ?thesis by (simp add: UDPHeader_ReadFrom_def UDPHeader_bytes_def a(1) F_def)
qed

interpretation userpass_codec: stream_codec UserPassRequest_bytes ReadUserPassRequest valid_userpass
  by unfold_locales (rule decodes_userpass)

interpretation response_codec: stream_codec UserPassResponse_Write ReadUserPassResponse valid_response
  by unfold_locales (rule decodes_response)

interpretation methods_codec: stream_codec methods_bytes ReadMethods valid_methods
  by unfold_locales (rule decodes_methods)

interpretation header_codec: stream_codec UDPHeader_bytes UDPHeader_ReadFrom valid_header
  by unfold_locales (rule decodes_header)

section \<open>Properties\<close>

lemma Encode_valid: "valid_addr a \<Longrightarrow> Encode 259 a = Ok (Addr_bytes a)"
  using Addr_Length_bounds(2) [of a] by (simp add: Encode_def Addr_bytes_length)

text \<open>
  C27. A SOCKS5 request survives the wire: written by one side and read by the other, from any reader
  that delivers its bytes in whatever pieces, it is read back unchanged; and so is a reply.
\<close>

theorem socks5_request_roundtrip:
  assumes "valid_addr a" "Request_Write \<lparr>Cmd = c, rq_Addr = Some a\<rparr> = Ok bs" "rstream r = bs @ rest"
  shows "fst (ReadRequest r) = Ok \<lparr>Cmd = c, rq_Addr = Some a\<rparr> \<and>
    Reply_Write \<lparr>Rep = c, rp_Addr = Some a\<rparr> = Ok bs \<and> fst (ReadReply r) = Ok \<lparr>Rep = c, rp_Addr = Some a\<rparr>"
proof -
  have bs: "bs = message_bytes c a"
    using assms(2) by (simp add: Request_Write_def Let_def Encode_valid [OF assms(1)] message_bytes_def)
  obtain r' where "read_message r = (Ok (c, a), r')"
    using read_message_spec [OF assms(1), of r c rest] assms(3) bs by auto
  then show ?thesis
    by (simp add: ReadRequest_def ReadReply_def rbind_def rret_def Reply_Write_def Encode_valid [OF assms(1)] bs
                  message_bytes_def)
qed

text \<open>
  Reading a request may take bytes that belong to what follows it: when a request arrives in one piece
  with more data behind it, the decoder fills its buffer of 262 bytes, and the bytes after the request that
  were in the buffer are lost to whoever reads next.
\<close>

theorem socks5_request_overreads:
  assumes "valid_addr a"
  shows "\<exists>r'. ReadRequest (bytes_reader (message_bytes c a @ rest)) = (Ok \<lparr>Cmd = c, rq_Addr = Some a\<rparr>, r') \<and>
    rstream r' = drop (262 - length (message_bytes c a)) rest"
proof -
  let ?s = "message_bytes c a @ rest" and ?L = "length (message_bytes c a)"
  obtain r' n r1 where r': "read_message (bytes_reader ?s) = (Ok (c, a), r')" "rstream r' = drop (n - ?L) rest"
    and n: "n \<le> length ?s" "ReadAtLeast 262 5 (bytes_reader ?s) = (Ok (take n ?s), r1)"
    using read_message_spec [OF assms, of "bytes_reader ?s" c rest] by (metis rstream_bytes_reader(1))
  have "ReadAtLeast 262 5 (bytes_reader ?s) = (Ok (take 262 ?s), q)" if "q = snd (ReadAtLeast 262 5 (bytes_reader ?s))" for q
    using that Addr_Length_bounds(1) [OF assms]
    by (auto simp: ReadAtLeast_def bytes_reader_def message_length)
  then have "take n ?s = take 262 ?s" using n(2) by (metis go.inject(1) prod.inject)
  then have "length (take n ?s) = length (take 262 ?s)" by (rule arg_cong)
  then have "n = min (length ?s) 262" using n(1) by simp
  then have "drop (n - ?L) rest = drop (262 - ?L) rest" by (auto simp: min_def)
  with r' show ?thesis by (simp add: ReadRequest_def rbind_def rret_def)
qed

text \<open>
  Addresses round trip and are self-delimiting: any sequence of valid addresses written one after the
  other is read back as the same sequence, whatever follows; the text of an IPv4 address is valid; and the
  length announced for an address is the length of its encoding.
\<close>

theorem socks5_addresses_roundtrip:
  assumes "list_all valid_addr as"
  shows "decodes (read_many Addr_ReadFrom (length as)) (concat (map Addr_bytes as) @ rest) as rest \<and>
    length (Addr_bytes a) = Addr_Length a"
  using addr_codec.dec_enc_stream [OF assms] Addr_bytes_length by blast

text \<open>
  The user name and password message round trips for names and passwords of up to 255 bytes, and a
  sequence of method lists, credentials and answers cannot be confused: no encoding is a prefix of another.
\<close>

theorem userpass_roundtrip:
  assumes "valid_userpass r"
  shows "UserPassRequest_Write r = Ok (UserPassRequest_bytes r) \<and>
    decodes ReadUserPassRequest (UserPassRequest_bytes r @ rest) r rest \<and>
    (\<forall>q x y. valid_userpass q \<longrightarrow> UserPassRequest_bytes r @ x = UserPassRequest_bytes q @ y \<longrightarrow> r = q \<and> x = y)"
proof -
  have "UserPassRequest_Write r = Ok (UserPassRequest_bytes r)"
    using assms by (simp add: UserPassRequest_Write_def Let_def valid_userpass_def)
  then show ?thesis using userpass_codec.dec_enc [OF assms] userpass_codec.enc_prefix_free [OF assms] by blast
qed

text \<open>
  A domain name of more than 255 bytes is not silently truncated: encoding its address panics, because
  the port no longer fits the buffer, and up to 255 bytes it never does.
\<close>

theorem long_domain_panics:
  assumes "addr_Type a = AddrDomain"
  shows "Addr_WriteTo a = Panic \<longleftrightarrow> 255 < length (addr_Host a)"
proof -
  have "checkType a = a" using assms by (simp add: checkType_def)
  then have "length (Addr_bytes a) = 4 + length (addr_Host a)" using assms by (simp add: Addr_bytes_length Addr_Length_def)
  then show ?thesis by (auto simp: Addr_WriteTo_def Encode_def)
qed

text \<open>
  A UDP datagram with a zero reserved field carries everything after the header, and with a non-zero
  one exactly that many bytes: both forms that the relay sends are read back unchanged.
\<close>

theorem udp_datagram_roundtrip:
  assumes "valid_header h" "Rsv h = 0 \<or> unat (Rsv h) = length d"
  shows "UDPDatagram_WriteTo \<lparr>ud_Header = Some h, ud_Data = d\<rparr> = Ok (UDPHeader_bytes h @ d) \<and>
    (\<forall>r. rstream r = UDPHeader_bytes h @ d \<longrightarrow> rend r = EOF \<longrightarrow>
       fst (UDPDatagram_ReadFrom r) = Ok \<lparr>ud_Header = Some h, ud_Data = d\<rparr>)"
proof (intro conjI allI impI)
  show "UDPDatagram_WriteTo \<lparr>ud_Header = Some h, ud_Data = d\<rparr> = Ok (UDPHeader_bytes h @ d)"
    by (simp add: UDPDatagram_WriteTo_def UDPHeader_WriteTo_bytes [OF assms(1)])
  fix r assume r: "rstream r = UDPHeader_bytes h @ d" "rend r = EOF"
  then obtain r1 where r1: "UDPHeader_ReadFrom r = (Ok h, r1)" "rstream r1 = d" "rend r1 = EOF"
    using header_codec.dec_enc [OF assms(1), of d] by (auto simp: decodes_def)
  show "fst (UDPDatagram_ReadFrom r) = Ok \<lparr>ud_Header = Some h, ud_Data = d\<rparr>"
  proof (cases "Rsv h = 0")
    case True
    with r1 show ?thesis by (simp add: UDPDatagram_ReadFrom_def rbind_def ReadAll_def rret_def)
  next
    case False
    with assms(2) r1(2) have n: "unat (Rsv h) = length (rstream r1)" by simp
    with ReadFull_enough [of "unat (Rsv h)" r1] obtain r2 where "ReadFull (unat (Rsv h)) r1 = (Ok d, r2)"
      using r1(2) by auto
    with r1(1) False show ?thesis by (simp add: UDPDatagram_ReadFrom_def rbind_def rret_def)
  qed
qed

text \<open>
  No bytes from the network can crash the request decoder: on every reader, whatever it delivers, the
  answer is a request or an error.
\<close>

theorem socks5_request_never_panics:
  "fst (ReadRequest r) \<noteq> Panic"
proof -
  have rf: "fst (ReadAtLeast m n q) \<noteq> Panic" for m n q by (auto simp: ReadAtLeast_def split: prod.split)
  then have rff: "fst (ReadFull n q) \<noteq> Panic" for n q by (simp add: ReadFull_def)
  have bind: "fst (rbind m f q) \<noteq> Panic" if "fst (m q) \<noteq> Panic" "\<And>a q'. fst (f a q') \<noteq> Panic" for m f q
    using that by (auto simp: rbind_def split: prod.splits go.splits)
  have port: "fst (ReadPort q) \<noteq> Panic" for q
    unfolding ReadPort_def by (rule bind) (simp_all add: rff rret_def)
  have addr: "fst (Addr_ReadFrom q) \<noteq> Panic" for q
  proof -
    have host: "fst (rbind (ReadFull n) (\<lambda>b. rbind ReadPort (\<lambda>p. rret (g b p))) q) \<noteq> Panic" for n g q
      by (rule bind [OF rff], rule bind [OF port]) (simp add: rret_def)
    have dom: "fst (rbind (ReadFull m) (\<lambda>l. rbind (ReadFull (k l)) (\<lambda>b. rbind ReadPort (\<lambda>p. rret (g b p)))) q) \<noteq> Panic"
      for m k g q by (rule bind [OF rff]) (rule host)
    show ?thesis unfolding Addr_ReadFrom_def Let_def by (rule bind [OF rff]) (auto simp: host dom rfail_def)
  qed
  have rest: "fst (read_rest b n q) \<noteq> Panic" for b n q
    unfolding read_rest_def
    by (intro bind) (auto simp: rff rlift_def rret_def Addr_Decode_def addr)
  show ?thesis
    unfolding ReadRequest_def read_message_def
    by (intro bind rf) (auto simp: rest rret_def rfail_def)
qed

end
