(* ===== verification/Tls.thy ===== *)
theory Tls
  imports GoIO GoStrings
begin

text \<open>
  \<^verbatim>\<open>internal/tlsdissector\<close>: the TLS records and hello messages that the sniffer reads from a client or
  server before it decides what to do with a connection. The decoders index and slice byte arrays of
  lengths the peer announces; an index or slice out of range is a run-time panic, here the value
  \<open>Panic\<close>. The lemmas say that what the encoders write is read back, that the server name the proxy
  acts on is the one in the message, and which bytes make the decoders panic.
\<close>

section \<open>Constants and errors\<close>

definition Handshake :: byte where "Handshake = 0x16"
definition EncryptedAlert :: byte where "EncryptedAlert = 0x15"
definition ClientHello :: byte where "ClientHello = 1"
definition ServerHello :: byte where "ServerHello = 2"

definition ExtServerName :: u16 where "ExtServerName = 0x00"
definition ExtSupportedGroups :: u16 where "ExtSupportedGroups = 0x0a"
definition ExtECPointFormats :: u16 where "ExtECPointFormats = 0x0b"
definition ExtSignatureAlgorithms :: u16 where "ExtSignatureAlgorithms = 0x0d"
definition ExtALPN :: u16 where "ExtALPN = 0x10"
definition ExtEncryptThenMac :: u16 where "ExtEncryptThenMac = 0x16"
definition ExtExtendedMasterSecret :: u16 where "ExtExtendedMasterSecret = 0x17"
definition ExtSessionTicket :: u16 where "ExtSessionTicket = 0x23"
definition ExtSupportedVersions :: u16 where "ExtSupportedVersions = 0x2b"
definition ExtRenegotiationInfo :: u16 where "ExtRenegotiationInfo = 0xff01"

lemmas tls_consts = Handshake_def EncryptedAlert_def ClientHello_def ServerHello_def
lemmas ext_consts = ExtServerName_def ExtSupportedGroups_def ExtECPointFormats_def ExtSignatureAlgorithms_def
  ExtALPN_def ExtEncryptThenMac_def ExtExtendedMasterSecret_def ExtSessionTicket_def ExtSupportedVersions_def
  ExtRenegotiationInfo_def

definition ErrBadType :: go_error where "ErrBadType = GoErr ''bad type''"
definition ErrAlert :: "string \<Rightarrow> go_error" where "ErrAlert msg = GoErr (''alert: '' @ msg)"
definition ErrShortBuffer :: "string \<Rightarrow> go_error" where "ErrShortBuffer what = GoErr (what @ '': short buffer'')"

section \<open>Records\<close>

record Record =
  rec_Type :: byte
  rec_Version :: u16
  Opaque :: "byte list"

definition Record_ReadFrom :: "Record rd" where
  "Record_ReadFrom =
     rbind (ReadFull 5) (\<lambda>b.
       rbind (ReadFull (unat (uint16 (b ! 3) (b ! 4)))) (\<lambda>opaque.
         rret \<lparr>rec_Type = b ! 0, rec_Version = uint16 (b ! 1) (b ! 2), Opaque = opaque\<rparr>))"

definition ReadRecord :: "Record rd" where
  "ReadRecord = Record_ReadFrom"

definition Record_WriteTo :: "Record \<Rightarrow> byte list" where
  "Record_WriteTo r = [rec_Type r] @ be16 (rec_Version r) @ be16 (of_nat (length (Opaque r))) @ Opaque r"

section \<open>Extensions\<close>

datatype Extension =
    ServerNameExtension byte string
  | SupportedGroupsExtension "u16 list"
  | ECPointFormatsExtension "byte list"
  | SignatureAlgorithmsExtension "u16 list"
  | ALPNExtension "string list"
  | EncryptThenMacExtension "byte list"
  | ExtendedMasterSecretExtension "byte list"
  | SessionTicketExtension "byte list"
  | SupportedVersionsExtension "u16 list" bool
  | RenegotiationInfoExtension "byte list"
  | unknownExtension u16 "byte list"

fun ext_Type :: "Extension \<Rightarrow> u16" where
  "ext_Type (ServerNameExtension _ _) = ExtServerName"
| "ext_Type (SupportedGroupsExtension _) = ExtSupportedGroups"
| "ext_Type (ECPointFormatsExtension _) = ExtECPointFormats"
| "ext_Type (SignatureAlgorithmsExtension _) = ExtSignatureAlgorithms"
| "ext_Type (ALPNExtension _) = ExtALPN"
| "ext_Type (EncryptThenMacExtension _) = ExtEncryptThenMac"
| "ext_Type (ExtendedMasterSecretExtension _) = ExtExtendedMasterSecret"
| "ext_Type (SessionTicketExtension _) = ExtSessionTicket"
| "ext_Type (SupportedVersionsExtension _ _) = ExtSupportedVersions"
| "ext_Type (RenegotiationInfoExtension _) = ExtRenegotiationInfo"
| "ext_Type (unknownExtension t _) = t"

definition be16s :: "u16 list \<Rightarrow> byte list" where
  "be16s ws = concat (map be16 ws)"

definition alpn_bytes :: "string list \<Rightarrow> byte list" where
  "alpn_bytes protos =
     concat (map (\<lambda>p. of_nat (length p) # bytes_of_string p) (filter (\<lambda>p. p \<noteq> []) protos))"

definition encode_server_name :: "byte \<Rightarrow> string \<Rightarrow> byte list" where
  [simp]: "encode_server_name ty name =
     be16 (of_nat (1 + 2 + length name)) @ [ty] @ be16 (of_nat (length name)) @ bytes_of_string name"

definition encode_groups :: "u16 list \<Rightarrow> byte list" where
  [simp]: "encode_groups gs = be16 (of_nat (length gs * 2)) @ be16s gs"

definition encode_algorithms :: "u16 list \<Rightarrow> byte list" where
  [simp]: "encode_algorithms as = be16 (of_nat (length as * 2)) @ be16s as"

definition encode_formats :: "byte list \<Rightarrow> byte list" where
  [simp]: "encode_formats fs = of_nat (length fs) # fs"

definition encode_renegotiation :: "byte list \<Rightarrow> byte list" where
  [simp]: "encode_renegotiation d = of_nat (length d) # d"

definition encode_alpn :: "string list \<Rightarrow> byte list" where
  [simp]: "encode_alpn protos = be16 (of_nat (length (alpn_bytes protos))) @ alpn_bytes protos"

text \<open>The client form counts every version but leaves out those that are zero.\<close>

definition encode_versions :: "u16 list \<Rightarrow> bool \<Rightarrow> byte list" where
  [simp]: "encode_versions vs server =
     (if vs = [] then []
      else if server then be16 (hd vs)
      else of_nat (length vs * 2) # be16s (filter (\<lambda>v. v \<noteq> 0) vs))"

fun ext_Encode :: "Extension \<Rightarrow> byte list" where
  "ext_Encode (ServerNameExtension ty name) = encode_server_name ty name"
| "ext_Encode (SupportedGroupsExtension gs) = encode_groups gs"
| "ext_Encode (ECPointFormatsExtension fs) = encode_formats fs"
| "ext_Encode (SignatureAlgorithmsExtension as) = encode_algorithms as"
| "ext_Encode (ALPNExtension protos) = encode_alpn protos"
| "ext_Encode (EncryptThenMacExtension d) = d"
| "ext_Encode (ExtendedMasterSecretExtension d) = d"
| "ext_Encode (SessionTicketExtension d) = d"
| "ext_Encode (SupportedVersionsExtension vs server) = encode_versions vs server"
| "ext_Encode (RenegotiationInfoExtension d) = encode_renegotiation d"
| "ext_Encode (unknownExtension _ raw) = raw"

text \<open>
  \<^verbatim>\<open>for i := 0; i < n; i += 2\<close> over \<^verbatim>\<open>Uint16(b[2+i:])\<close>: the argument is the slice from the current
  position; reading two bytes where fewer are left panics.
\<close>

fun u16_loop :: "nat \<Rightarrow> byte list \<Rightarrow> u16 list go" where
  "u16_loop 0 b = Ok []"
| "u16_loop (Suc k) (x # y # b) = gbind (u16_loop k b) (\<lambda>ws. Ok (uint16 x y # ws))"
| "u16_loop (Suc k) b = Panic"

text \<open>The loop of the ALPN decoder; it reads the length byte before it looks whether one is there.\<close>

fun alpn_loop :: "byte list \<Rightarrow> string list go" where
  "alpn_loop [] = Panic"
| "alpn_loop (l # b) =
     (let n = unat l in
      if length b < n then Fail (ErrShortBuffer ''application_layer_protocol_negotiation'')
      else let proto = string_of_bytes (take n b); rest = drop n b;
               found = (if proto \<noteq> [] then [proto] else [])
           in if rest = [] then Ok found
              else gbind (alpn_loop rest) (\<lambda>ps. Ok (found @ ps)))"

text \<open>The loop over the versions: \<^verbatim>\<open>b[:2]\<close> and then \<^verbatim>\<open>b[2:]\<close> of a slice with fewer than two bytes panics.\<close>

fun versions_loop :: "byte list \<Rightarrow> u16 list go" where
  "versions_loop (x # y # b) =
     (if b = [] then Ok [uint16 x y] else gbind (versions_loop b) (\<lambda>vs. Ok (uint16 x y # vs)))"
| "versions_loop _ = Panic"

definition decode_server_name :: "byte list \<Rightarrow> Extension go" where
  "decode_server_name b =
     (if length b < 5 then Fail (ErrShortBuffer ''server_name'')
      else let n = unat (uint16 (b ! 3) (b ! 4)) in
        if length (drop 5 b) < n then Fail (ErrShortBuffer ''server_name'')
        else Ok (ServerNameExtension (b ! 2) (string_of_bytes (take n (drop 5 b)))))"

definition decode_formats :: "string \<Rightarrow> byte list \<Rightarrow> byte list go" where
  "decode_formats what b =
     (if length b < 1 then Fail (ErrShortBuffer what)
      else let n = unat (b ! 0) in
        if length (drop 1 b) < n then Fail (ErrShortBuffer what) else Ok (take n (drop 1 b)))"

definition decode_groups :: "byte list \<Rightarrow> Extension go" where
  "decode_groups b =
     (if length b < 2 then Fail (ErrShortBuffer ''supported_groups'')
      else let n = unat (uint16 (b ! 0) (b ! 1)) div 2 * 2 in
        if length (drop 2 b) < n then Fail (ErrShortBuffer ''supported_groups'')
        else gbind (u16_loop (n div 2) (drop 2 b)) (\<lambda>gs. Ok (SupportedGroupsExtension gs)))"

definition decode_algorithms :: "byte list \<Rightarrow> Extension go" where
  "decode_algorithms b =
     (if length b < 2 then Fail (ErrShortBuffer ''signature_algorithms'')
      else let n = unat (uint16 (b ! 0) (b ! 1)) in
        if length (drop 2 b) < n then Fail (ErrShortBuffer ''signature_algorithms'')
        else gbind (u16_loop ((n + 1) div 2) (drop 2 b)) (\<lambda>as. Ok (SignatureAlgorithmsExtension as)))"

definition decode_alpn :: "byte list \<Rightarrow> Extension go" where
  "decode_alpn b =
     (if length b < 2 then Fail (ErrShortBuffer ''application_layer_protocol_negotiation'')
      else let n = unat (uint16 (b ! 0) (b ! 1)); b' = drop 2 b in
        if length b' < n then Fail (ErrShortBuffer ''application_layer_protocol_negotiation'')
        else gbind (alpn_loop (take n b')) (\<lambda>ps. Ok (ALPNExtension ps)))"

definition decode_versions :: "byte list \<Rightarrow> Extension go" where
  "decode_versions b =
     (if length b < 2 then Fail (ErrShortBuffer ''supported_versions'')
      else if length b = 2 then Ok (SupportedVersionsExtension [uint16 (b ! 0) (b ! 1)] True)
      else let n = unat (b ! 0); b' = drop 1 b in
        if length b' < n then Fail (ErrShortBuffer ''supported_versions'')
        else gbind (versions_loop (take n b')) (\<lambda>vs. Ok (SupportedVersionsExtension vs False)))"

text \<open>\<^verbatim>\<open>NewExtension\<close>: empty data is not decoded, the extension keeps its zero value.\<close>

definition NewExtension :: "u16 \<Rightarrow> byte list \<Rightarrow> Extension go" where
  "NewExtension t d =
     (if t = ExtServerName then if d = [] then Ok (ServerNameExtension 0 []) else decode_server_name d
      else if t = ExtSupportedGroups then if d = [] then Ok (SupportedGroupsExtension []) else decode_groups d
      else if t = ExtECPointFormats then if d = [] then Ok (ECPointFormatsExtension [])
        else gbind (decode_formats ''ec_point_formats'' d) (\<lambda>f. Ok (ECPointFormatsExtension f))
      else if t = ExtSignatureAlgorithms then if d = [] then Ok (SignatureAlgorithmsExtension []) else decode_algorithms d
      else if t = ExtALPN then if d = [] then Ok (ALPNExtension []) else decode_alpn d
      else if t = ExtEncryptThenMac then Ok (EncryptThenMacExtension d)
      else if t = ExtExtendedMasterSecret then Ok (ExtendedMasterSecretExtension d)
      else if t = ExtSessionTicket then Ok (SessionTicketExtension d)
      else if t = ExtSupportedVersions then if d = [] then Ok (SupportedVersionsExtension [] False) else decode_versions d
      else if t = ExtRenegotiationInfo then if d = [] then Ok (RenegotiationInfoExtension [])
        else gbind (decode_formats ''renegotiation_info'' d) (\<lambda>x. Ok (RenegotiationInfoExtension x))
      else Ok (unknownExtension t d))"

definition ReadExtension :: "Extension rd" where
  "ReadExtension =
     rbind (ReadFull 4) (\<lambda>b.
       rbind (ReadFull (unat (uint16 (b ! 2) (b ! 3)))) (\<lambda>bb.
         rlift (NewExtension (uint16 (b ! 0) (b ! 1)) bb)))"

text \<open>A successful read takes at least the header, so the loop over the extensions ends.\<close>

lemma ReadExtension_consumes:
  assumes "ReadExtension r = (Ok e, r')"
  shows "length (rstream r') < length (rstream r)"
proof -
  from assms obtain b bb r1 where 1: "ReadFull 4 r = (Ok b, r1)"
    and 2: "ReadFull (unat (uint16 (b ! 2) (b ! 3))) r1 = (Ok bb, r')"
    by (auto simp: ReadExtension_def rbind_Ok rlift_def)
  from ReadFull_Ok(2,5) [OF 1] ReadFull_Ok(2) [OF 2] show ?thesis by simp
qed

function readExtensions :: "byte list \<Rightarrow> Extension list go" where
  "readExtensions b =
     (if b = [] then Ok []
      else case ReadExtension (bytes_reader b) of
             (Ok e, r) \<Rightarrow> gbind (readExtensions (rstream r)) (\<lambda>es. Ok (e # es))
           | (Fail e, _) \<Rightarrow> Fail e
           | (Panic, _) \<Rightarrow> Panic)"
  by pat_completeness auto
termination
  by (relation "measure length") (auto dest: ReadExtension_consumes [OF sym])

declare readExtensions.simps [simp del]

section \<open>Hello messages\<close>

record Random =
  Time :: u32
  rnd_Opaque :: "byte list"

record ClientHelloMsg =
  ch_Version :: u16
  ch_Random :: Random
  ch_SessionID :: "byte list"
  ch_CipherSuites :: "u16 list"
  ch_CompressionMethods :: "byte list"
  ch_Extensions :: "Extension list"

record ServerHelloMsg =
  sh_Version :: u16
  sh_Random :: Random
  sh_SessionID :: "byte list"
  sh_CipherSuite :: u16
  sh_CompressionMethod :: byte
  sh_Extensions :: "Extension list"

definition bad_length :: "string \<Rightarrow> go_error" where "bad_length what = GoErr (''bad length: '' @ what)"

text \<open>
  The four readers of the parts of a hello: how many bytes they took, and the value. \<open>readSession\<close>
  reports a short array as an error; \<open>readCipherSuites\<close> and \<open>readCompressionMethods\<close> note the error
  and then run their loops over the missing bytes all the same.
\<close>

definition readSession :: "byte list \<Rightarrow> (nat \<times> byte list) go" where
  "readSession b =
     (if length b = 0 then Fail (bad_length ''data too short for session'')
      else let nlen = unat (b ! 0) in
        if length b < 1 + nlen then Fail (bad_length ''malformed data for session'')
        else Ok (1 + nlen, take nlen (drop 1 b)))"

definition readCipherSuites :: "byte list \<Rightarrow> (nat \<times> u16 list) go" where
  "readCipherSuites b =
     (if length b < 2 then Fail (bad_length ''data too short for cipher suites'')
      else let nlen = unat (uint16 (b ! 0) (b ! 1)) in
        gbind (u16_loop (nlen div 2) (drop 2 b)) (\<lambda>cs.
          if length b < 2 + nlen then Fail (bad_length ''malformed data for cipher suites'')
          else Ok (2 + 2 * (nlen div 2), cs)))"

definition readCompressionMethods :: "byte list \<Rightarrow> (nat \<times> byte list) go" where
  "readCompressionMethods b =
     (if length b = 0 then Fail (bad_length ''data too short for compression methods'')
      else let nlen = unat (b ! 0) in
        if length b < 1 + nlen then Panic else Ok (1 + nlen, take nlen (drop 1 b)))"

definition hello_readExtensions :: "byte list \<Rightarrow> Extension list go" where
  "hello_readExtensions b =
     (if length b < 2 then Fail (bad_length ''data too short for extensions'')
      else let nlen = unat (uint16 (b ! 0) (b ! 1)) in
        if length b < 2 + nlen then Fail (bad_length ''malformed data for extensions'')
        else readExtensions (take nlen (drop 2 b)))"

definition uint24 :: "byte \<Rightarrow> byte \<Rightarrow> byte \<Rightarrow> nat" where
  "uint24 a b c = unat a * 2 ^ 16 + unat b * 2 ^ 8 + unat c"

definition be24 :: "nat \<Rightarrow> byte list" where
  "be24 n = [of_nat (n div 2 ^ 16), of_nat (n div 2 ^ 8), of_nat n]"

definition VersionTLS10 :: u16 where "VersionTLS10 = 0x0301"
definition VersionTLS12 :: u16 where "VersionTLS12 = 0x0303"
definition VersionTLS13 :: u16 where "VersionTLS13 = 0x0304"

definition bad_version :: go_error where "bad_version = GoErr ''bad version''"
definition too_short :: go_error where "too_short = GoErr ''bad length, need at least 34 bytes''"

definition random_of :: "byte list \<Rightarrow> Random" where
  "random_of b = \<lparr>Time = uint32 (b ! 2) (b ! 3) (b ! 4) (b ! 5), rnd_Opaque = take 28 (drop 6 b)\<rparr>"

definition client_body :: "byte list \<Rightarrow> ClientHelloMsg go" where
  "client_body b =
     (let v = uint16 (b ! 0) (b ! 1) in
      if v < VersionTLS10 \<or> v > VersionTLS13 then Fail bad_version
      else gbind (readSession (drop 34 b)) (\<lambda>(n1, sid).
           gbind (readCipherSuites (drop (34 + n1) b)) (\<lambda>(n2, cs).
           gbind (readCompressionMethods (drop (34 + n1 + n2) b)) (\<lambda>(n3, cm).
           gbind (hello_readExtensions (drop (34 + n1 + n2 + n3) b)) (\<lambda>es.
             Ok \<lparr>ch_Version = v, ch_Random = random_of b, ch_SessionID = sid, ch_CipherSuites = cs,
                 ch_CompressionMethods = cm, ch_Extensions = es\<rparr>)))))"

definition server_body :: "byte list \<Rightarrow> ServerHelloMsg go" where
  "server_body b =
     (let v = uint16 (b ! 0) (b ! 1) in
      if v < VersionTLS10 \<or> v > VersionTLS13 then Fail bad_version
      else gbind (readSession (drop 34 b)) (\<lambda>(n1, sid).
           let pos = 34 + n1 in
           if length b < pos + 3 then Panic
           else gbind (hello_readExtensions (drop (pos + 3) b)) (\<lambda>es.
             Ok \<lparr>sh_Version = v, sh_Random = random_of b, sh_SessionID = sid,
                 sh_CipherSuite = uint16 (b ! pos) (b ! (pos + 1)), sh_CompressionMethod = b ! (pos + 2),
                 sh_Extensions = es\<rparr>)))"

text \<open>Both \<^verbatim>\<open>ReadFrom\<close> methods read the handshake header and the body it announces.\<close>

definition read_handshake :: "byte \<Rightarrow> (byte list \<Rightarrow> 'a go) \<Rightarrow> 'a rd" where
  "read_handshake ty body =
     rbind (ReadFull 4) (\<lambda>h.
       if h ! 0 \<noteq> ty then rfail ErrBadType
       else let len = uint24 (h ! 1) (h ! 2) (h ! 3) in
         if len < 34 then rfail too_short
         else rbind (ReadFull len) (\<lambda>b. rlift (body b)))"

definition ClientHello_ReadFrom :: "ClientHelloMsg rd" where
  "ClientHello_ReadFrom = read_handshake ClientHello client_body"

definition ServerHello_ReadFrom :: "ServerHelloMsg rd" where
  "ServerHello_ReadFrom = read_handshake ServerHello server_body"

definition ClientHello_Decode :: "byte list \<Rightarrow> ClientHelloMsg go" where
  "ClientHello_Decode b = fst (ClientHello_ReadFrom (bytes_reader b))"

definition ServerHello_Decode :: "byte list \<Rightarrow> ServerHelloMsg go" where
  "ServerHello_Decode b = fst (ServerHello_ReadFrom (bytes_reader b))"

definition ext_bytes :: "Extension \<Rightarrow> byte list" where
  "ext_bytes e = be16 (ext_Type e) @ be16 (of_nat (length (ext_Encode e))) @ ext_Encode e"

definition exts_bytes :: "Extension list \<Rightarrow> byte list" where
  "exts_bytes es = concat (map ext_bytes es)"

definition random_bytes :: "Random \<Rightarrow> byte list" where
  "random_bytes r = be32 (Time r) @ rnd_Opaque r"

definition client_payload :: "ClientHelloMsg \<Rightarrow> byte list" where
  "client_payload m =
     be16 (ch_Version m) @ random_bytes (ch_Random m) @
     [of_nat (length (ch_SessionID m))] @ ch_SessionID m @
     be16 (of_nat (length (ch_CipherSuites m) * 2)) @ be16s (ch_CipherSuites m) @
     [of_nat (length (ch_CompressionMethods m))] @ ch_CompressionMethods m @
     be16 (of_nat (length (exts_bytes (ch_Extensions m)))) @ exts_bytes (ch_Extensions m)"

definition server_payload :: "ServerHelloMsg \<Rightarrow> byte list" where
  "server_payload m =
     be16 (sh_Version m) @ random_bytes (sh_Random m) @
     [of_nat (length (sh_SessionID m))] @ sh_SessionID m @
     be16 (sh_CipherSuite m) @ [sh_CompressionMethod m] @
     be16 (of_nat (length (exts_bytes (sh_Extensions m)))) @ exts_bytes (sh_Extensions m)"

definition ClientHello_WriteTo :: "ClientHelloMsg \<Rightarrow> byte list" where
  "ClientHello_WriteTo m = [ClientHello] @ be24 (length (client_payload m)) @ client_payload m"

definition ServerHello_WriteTo :: "ServerHelloMsg \<Rightarrow> byte list" where
  "ServerHello_WriteTo m = [ServerHello] @ be24 (length (server_payload m)) @ server_payload m"

section \<open>Alerts\<close>

record AlertMsg =
  Level :: byte
  Description :: byte

definition AlertMsg_Encode :: "AlertMsg \<Rightarrow> byte list" where
  "AlertMsg_Encode m = [Level m, Description m]"

definition AlertMsg_Decode :: "byte list \<Rightarrow> AlertMsg go" where
  "AlertMsg_Decode d =
     (if length d < 2 then Fail (ErrShortBuffer ''alert'') else Ok \<lparr>Level = d ! 0, Description = d ! 1\<rparr>)"

definition AlertLevel_String :: "byte \<Rightarrow> string" where
  "AlertLevel_String l =
     (if l = 1 then ''warning'' else if l = 2 then ''fatal'' else ''unknown level: '' @ Itoa (uint l))"

definition alert_names :: "(int \<times> string) list" where
  "alert_names =
     [(0, ''close notify''), (10, ''unexpected message''), (20, ''bad record mac''),
      (21, ''decryption failed RESERVED''), (22, ''record overflow''), (30, ''decompression failure''),
      (40, ''handshake failure''), (41, ''no certificate RESERVED''), (42, ''bad certificate''),
      (43, ''unsupported certificate''), (44, ''certificate revoked''), (45, ''certificate expired''),
      (46, ''certificate unknown''), (47, ''illegal parameter''), (48, ''unknown ca''), (49, ''access denied''),
      (50, ''decode error''), (51, ''decrypt error''), (60, ''export restriction RESERVED''),
      (70, ''protocol version''), (71, ''insufficient security''), (80, ''internal error''),
      (86, ''inappropriate fallback''), (90, ''user canceled''), (100, ''no renegotiation''),
      (110, ''unsupported extension''), (111, ''certificate unobtainable''), (112, ''unrecognized name''),
      (113, ''bad certificate status response''), (114, ''bad certificate hash value''),
      (115, ''unknown PSK identity''), (116, ''certificate required''), (120, ''no application protocol'')]"

definition AlertDescription_String :: "byte \<Rightarrow> string" where
  "AlertDescription_String d =
     (case map_of alert_names (uint d) of Some s \<Rightarrow> s | None \<Rightarrow> ''unknown desc: '' @ Itoa (uint d))"

definition AlertMsg_String :: "AlertMsg \<Rightarrow> string" where
  "AlertMsg_String m = AlertLevel_String (Level m) @ '': '' @ AlertDescription_String (Description m)"

section \<open>What the sniffer learns\<close>

record ClientHelloInfo =
  ci_SessionID :: "byte list"
  ci_CipherSuites :: "u16 list"
  ci_CompressionMethods :: "byte list"
  SupportedProtos :: "string list"
  SupportedVersions :: "u16 list"
  ServerName :: string

fun client_ext :: "ClientHelloInfo \<Rightarrow> Extension \<Rightarrow> ClientHelloInfo" where
  "client_ext info (ServerNameExtension _ name) = info\<lparr>ServerName := name\<rparr>"
| "client_ext info (SupportedVersionsExtension vs _) = info\<lparr>SupportedVersions := vs\<rparr>"
| "client_ext info (ALPNExtension ps) = info\<lparr>SupportedProtos := ps\<rparr>"
| "client_ext info _ = info"

definition client_info :: "ClientHelloMsg \<Rightarrow> ClientHelloInfo" where
  "client_info m =
     foldl client_ext
       \<lparr>ci_SessionID = ch_SessionID m, ci_CipherSuites = ch_CipherSuites m,
        ci_CompressionMethods = ch_CompressionMethods m, SupportedProtos = [], SupportedVersions = [],
        ServerName = []\<rparr> (ch_Extensions m)"

definition ParseClientHello :: "ClientHelloInfo rd" where
  "ParseClientHello =
     rbind ReadRecord (\<lambda>record.
       if rec_Type record \<noteq> Handshake then rfail ErrBadType
       else rbind (rlift (ClientHello_Decode (Opaque record))) (\<lambda>m. rret (client_info m)))"

record ServerHelloInfo =
  si_SessionID :: "byte list"
  si_CipherSuite :: u16
  si_CompressionMethod :: byte
  Proto :: string
  si_Version :: u16

fun server_ext :: "ServerHelloInfo \<Rightarrow> Extension \<Rightarrow> ServerHelloInfo" where
  "server_ext info (SupportedVersionsExtension vs _) = (if 0 < length vs then info\<lparr>si_Version := hd vs\<rparr> else info)"
| "server_ext info (ALPNExtension ps) = (if 0 < length ps then info\<lparr>Proto := hd ps\<rparr> else info)"
| "server_ext info _ = info"

definition server_info :: "ServerHelloMsg \<Rightarrow> ServerHelloInfo" where
  "server_info m =
     foldl server_ext
       \<lparr>si_SessionID = sh_SessionID m, si_CipherSuite = sh_CipherSuite m,
        si_CompressionMethod = sh_CompressionMethod m, Proto = [], si_Version = VersionTLS12\<rparr> (sh_Extensions m)"

definition ParseServerHello :: "ServerHelloInfo rd" where
  "ParseServerHello =
     rbind ReadRecord (\<lambda>record.
       if rec_Type record = Handshake then
         rbind (rlift (ServerHello_Decode (Opaque record))) (\<lambda>m. rret (server_info m))
       else if rec_Type record = EncryptedAlert then
         rbind (rlift (AlertMsg_Decode (Opaque record))) (\<lambda>m. rfail (ErrAlert (AlertMsg_String m)))
       else rfail ErrBadType)"


section \<open>Extensions round trip\<close>

lemma length_be16s [simp]: "length (be16s ws) = 2 * length ws"
  by (induction ws) (simp_all add: be16s_def)

lemma be16s_Cons [simp]: "be16s (w # ws) = be16 w @ be16s ws" and be16s_Nil [simp]: "be16s [] = []"
  by (simp_all add: be16s_def)

lemma u16_loop_be16s [simp]: "u16_loop (length ws) (be16s ws @ rest) = Ok ws"
  by (induction ws) (simp_all add: be16_def)

lemma u16_loop_exact [simp]: "n = length ws \<Longrightarrow> u16_loop n (be16s ws) = Ok ws"
  using u16_loop_be16s [of ws "[]"] by simp

text \<open>The two length fields that an encoder writes and a decoder reads.\<close>

lemma be16_nth [simp]: "uint16 (be16 w ! 0) (be16 w ! Suc 0) = w"
  by (simp add: be16_def)

lemma unat16 [simp]: "n \<le> 65535 \<Longrightarrow> unat (of_nat n :: u16) = n"
  by (simp add: unsigned_of_nat take_bit_nat_eq_self)

lemma unat8 [simp]: "n \<le> 255 \<Longrightarrow> unat (of_nat n :: byte) = n"
  by (simp add: unsigned_of_nat take_bit_nat_eq_self)

lemma unat_double [simp]:
  "n \<le> 32767 \<Longrightarrow> unat (of_nat n * 2 :: u16) = n * 2" "n \<le> 127 \<Longrightarrow> unat (of_nat n * 2 :: byte) = n * 2"
  using unat16 [of "n * 2"] unat8 [of "n * 2"] by (simp_all del: unat16 unat8)

lemma be16_append_nth:
  "(be16 w @ x) ! 0 = be16 w ! 0" "(be16 w @ x) ! Suc 0 = be16 w ! Suc 0" "drop 2 (be16 w @ x) = x"
  by (simp_all add: be16_def)

fun valid_ext :: "Extension \<Rightarrow> bool" where
  "valid_ext (ServerNameExtension _ name) = (length name \<le> 65530)"
| "valid_ext (SupportedGroupsExtension gs) = (length gs \<le> 32766)"
| "valid_ext (ECPointFormatsExtension fs) = (length fs \<le> 255)"
| "valid_ext (SignatureAlgorithmsExtension as) = (length as \<le> 32766)"
| "valid_ext (ALPNExtension ps) =
     (ps \<noteq> [] \<and> list_all (\<lambda>p. p \<noteq> [] \<and> length p \<le> 255) ps \<and> length (alpn_bytes ps) \<le> 65533)"
| "valid_ext (EncryptThenMacExtension d) = (length d \<le> 65535)"
| "valid_ext (ExtendedMasterSecretExtension d) = (length d \<le> 65535)"
| "valid_ext (SessionTicketExtension d) = (length d \<le> 65535)"
| "valid_ext (SupportedVersionsExtension vs server) =
     (if server then length vs = 1 else length vs \<le> 127 \<and> 0 \<notin> set vs)"
| "valid_ext (RenegotiationInfoExtension d) = (length d \<le> 255)"
| "valid_ext (unknownExtension t raw) =
     (length raw \<le> 65535 \<and>
      t \<notin> {ExtServerName, ExtSupportedGroups, ExtECPointFormats, ExtSignatureAlgorithms, ExtALPN, ExtEncryptThenMac,
           ExtExtendedMasterSecret, ExtSessionTicket, ExtSupportedVersions, ExtRenegotiationInfo})"

lemma alpn_bytes_Cons: "p \<noteq> [] \<Longrightarrow> alpn_bytes (p # ps) = of_nat (length p) # bytes_of_string p @ alpn_bytes ps"
  by (simp add: alpn_bytes_def)

lemma alpn_bytes_Nil [simp]: "alpn_bytes [] = []"
  by (simp add: alpn_bytes_def)

lemma alpn_bytes_eq_Nil: "list_all (\<lambda>p. p \<noteq> []) ps \<Longrightarrow> alpn_bytes ps = [] \<longleftrightarrow> ps = []"
  by (cases ps) (auto simp: alpn_bytes_Cons)

lemma alpn_loop_bytes:
  "ps \<noteq> [] \<Longrightarrow> list_all (\<lambda>p. p \<noteq> [] \<and> length p \<le> 255) ps \<Longrightarrow> alpn_loop (alpn_bytes ps) = Ok ps"
proof (induction ps)
  case (Cons p ps)
  then have p: "p \<noteq> []" "length p \<le> 255" and nil: "alpn_bytes ps = [] \<longleftrightarrow> ps = []"
    by (auto intro!: alpn_bytes_eq_Nil simp: list_all_iff)
  with Cons show ?case by (cases "ps = []") (simp_all add: alpn_bytes_Cons Let_def)
qed simp

lemma versions_loop_be16s: "vs \<noteq> [] \<Longrightarrow> versions_loop (be16s vs) = Ok vs"
proof (induction vs)
  case (Cons v vs)
  show ?case
  proof (cases "vs = []")
    case False
    then have "be16s vs \<noteq> []" by (metis length_be16s length_0_conv mult_is_0 zero_neq_numeral)
    with Cons False show ?thesis by (simp add: be16_def)
  qed (simp add: be16_def)
qed simp

lemma decode_server_name_encode:
  "length name \<le> 65530 \<Longrightarrow> decode_server_name (ext_Encode (ServerNameExtension ty name)) = Ok (ServerNameExtension ty name)"
  by (simp add: decode_server_name_def be16_def)

lemma decode_lists_encode:
  "length gs \<le> 32766 \<Longrightarrow> decode_groups (ext_Encode (SupportedGroupsExtension gs)) = Ok (SupportedGroupsExtension gs)"
  "length as \<le> 32766 \<Longrightarrow> decode_algorithms (ext_Encode (SignatureAlgorithmsExtension as)) = Ok (SignatureAlgorithmsExtension as)"
  "length fs \<le> 255 \<Longrightarrow> decode_formats w (of_nat (length fs) # fs) = Ok fs"
  by (simp_all add: decode_groups_def decode_algorithms_def decode_formats_def be16_append_nth Let_def)

lemma decode_alpn_encode:
  "valid_ext (ALPNExtension ps) \<Longrightarrow> decode_alpn (ext_Encode (ALPNExtension ps)) = Ok (ALPNExtension ps)"
  by (simp add: decode_alpn_def be16_append_nth Let_def alpn_loop_bytes)

lemma decode_versions_encode:
  assumes "valid_ext (SupportedVersionsExtension vs s)" "vs \<noteq> []"
  shows "decode_versions (ext_Encode (SupportedVersionsExtension vs s)) = Ok (SupportedVersionsExtension vs s)"
proof (cases s)
  case True
  with assms obtain v where "vs = [v]" by (cases vs) auto
  with True show ?thesis by (simp add: decode_versions_def be16_def)
next
  case False
  with assms have "filter (\<lambda>v. v \<noteq> 0) vs = vs" "length vs * 2 \<le> 255" by (auto simp: filter_id_conv)
  with False assms show ?thesis by (simp add: decode_versions_def versions_loop_be16s)
qed

lemma NewExtension_eqs:
  "NewExtension ExtServerName d = (if d = [] then Ok (ServerNameExtension 0 []) else decode_server_name d)"
  "NewExtension ExtSupportedGroups d = (if d = [] then Ok (SupportedGroupsExtension []) else decode_groups d)"
  "NewExtension ExtECPointFormats d = (if d = [] then Ok (ECPointFormatsExtension [])
     else gbind (decode_formats ''ec_point_formats'' d) (\<lambda>f. Ok (ECPointFormatsExtension f)))"
  "NewExtension ExtSignatureAlgorithms d = (if d = [] then Ok (SignatureAlgorithmsExtension []) else decode_algorithms d)"
  "NewExtension ExtALPN d = (if d = [] then Ok (ALPNExtension []) else decode_alpn d)"
  "NewExtension ExtEncryptThenMac d = Ok (EncryptThenMacExtension d)"
  "NewExtension ExtExtendedMasterSecret d = Ok (ExtendedMasterSecretExtension d)"
  "NewExtension ExtSessionTicket d = Ok (SessionTicketExtension d)"
  "NewExtension ExtSupportedVersions d = (if d = [] then Ok (SupportedVersionsExtension [] False) else decode_versions d)"
  "NewExtension ExtRenegotiationInfo d = (if d = [] then Ok (RenegotiationInfoExtension [])
     else gbind (decode_formats ''renegotiation_info'' d) (\<lambda>x. Ok (RenegotiationInfoExtension x)))"
  by (simp_all add: NewExtension_def ext_consts)

lemma be16_ne [simp]: "be16 w \<noteq> []"
  by (simp add: be16_def)

lemma NewExtension_encode:
  assumes "valid_ext e"
  shows "NewExtension (ext_Type e) (ext_Encode e) = Ok e"
proof (cases e)
  case (ServerNameExtension ty name)
  with assms decode_server_name_encode [of name ty] show ?thesis by (simp add: NewExtension_eqs)
next
  case (SupportedGroupsExtension gs)
  with assms decode_lists_encode(1) [of gs] show ?thesis by (simp add: NewExtension_eqs)
next
  case (SignatureAlgorithmsExtension as)
  with assms decode_lists_encode(2) [of as] show ?thesis by (simp add: NewExtension_eqs)
next
  case (ALPNExtension ps)
  with assms decode_alpn_encode [of ps] show ?thesis by (simp add: NewExtension_eqs)
next
  case (SupportedVersionsExtension vs s)
  with assms decode_versions_encode [of vs s] show ?thesis
    by (cases "vs = []") (auto simp: NewExtension_eqs split: if_splits)
next
  case (unknownExtension t raw)
  with assms show ?thesis by (simp add: NewExtension_def)
qed (use assms in \<open>simp_all add: NewExtension_eqs decode_lists_encode\<close>)

lemma ext_Encode_length: "valid_ext e \<Longrightarrow> length (ext_Encode e) \<le> 65535"
  by (cases e) (auto split: if_splits intro!: order_trans [OF length_filter_le])


lemma decodes_header4: "decodes (ReadFull 4) (x # y # z # w # rest) [x, y, z, w] rest"
  using decodes_ReadFull [of 4 "[x, y, z, w]" rest] by simp

lemma decodes_extension:
  assumes "valid_ext e"
  shows "decodes ReadExtension (ext_bytes e @ rest) e rest"
proof -
  have n: "unat (of_nat (length (ext_Encode e)) :: u16) = length (ext_Encode e)"
    using ext_Encode_length [OF assms] by simp
  have "decodes (rbind (ReadFull (length (ext_Encode e))) (\<lambda>bb. rlift (NewExtension (ext_Type e) bb)))
    (ext_Encode e @ rest) e rest"
    by (intro decodes_rbind [OF decodes_ReadFull]) (simp_all add: NewExtension_encode [OF assms] decodes_rlift)
  with n show ?thesis
    unfolding ReadExtension_def ext_bytes_def be16_def append.simps append_assoc
    by (intro decodes_rbind [OF decodes_header4]) simp
qed

interpretation ext_codec: stream_codec ext_bytes ReadExtension valid_ext
  by unfold_locales (rule decodes_extension)

lemma ext_bytes_ne [simp]: "ext_bytes e \<noteq> []"
  by (simp add: ext_bytes_def)

lemma readExtensions_bytes: "list_all valid_ext es \<Longrightarrow> readExtensions (exts_bytes es) = Ok es"
proof (induction es)
  case (Cons e es)
  then have "decodes ReadExtension (ext_bytes e @ exts_bytes es) e (exts_bytes es)" by (intro decodes_extension) simp
  then obtain r where r: "ReadExtension (bytes_reader (ext_bytes e @ exts_bytes es)) = (Ok e, r)" "rstream r = exts_bytes es"
    unfolding decodes_def using rstream_bytes_reader by metis
  with Cons show ?case by (subst readExtensions.simps) (simp add: exts_bytes_def)
qed (simp add: exts_bytes_def readExtensions.simps)

section \<open>Hello messages round trip\<close>

definition valid_client :: "ClientHelloMsg \<Rightarrow> bool" where
  "valid_client m \<longleftrightarrow>
     VersionTLS10 \<le> ch_Version m \<and> ch_Version m \<le> VersionTLS13 \<and> length (rnd_Opaque (ch_Random m)) = 28 \<and>
     length (ch_SessionID m) \<le> 255 \<and> length (ch_CipherSuites m) \<le> 32767 \<and> length (ch_CompressionMethods m) \<le> 255 \<and>
     list_all valid_ext (ch_Extensions m) \<and> length (exts_bytes (ch_Extensions m)) \<le> 65535"

definition valid_server :: "ServerHelloMsg \<Rightarrow> bool" where
  "valid_server m \<longleftrightarrow>
     VersionTLS10 \<le> sh_Version m \<and> sh_Version m \<le> VersionTLS13 \<and> length (rnd_Opaque (sh_Random m)) = 28 \<and>
     length (sh_SessionID m) \<le> 255 \<and>
     list_all valid_ext (sh_Extensions m) \<and> length (exts_bytes (sh_Extensions m)) \<le> 65535"

lemma readSession_bytes:
  "length sid \<le> 255 \<Longrightarrow> readSession (of_nat (length sid) # sid @ rest) = Ok (1 + length sid, sid)"
  by (simp add: readSession_def)

lemma readCipherSuites_bytes:
  "length cs \<le> 32767 \<Longrightarrow> readCipherSuites (be16 (of_nat (length cs * 2)) @ be16s cs @ rest) = Ok (2 + 2 * length cs, cs)"
  by (simp add: readCipherSuites_def be16_append_nth Let_def)

lemma readCompressionMethods_bytes:
  "length cm \<le> 255 \<Longrightarrow> readCompressionMethods (of_nat (length cm) # cm @ rest) = Ok (1 + length cm, cm)"
  by (simp add: readCompressionMethods_def)

lemma hello_readExtensions_bytes:
  "list_all valid_ext es \<Longrightarrow> length (exts_bytes es) \<le> 65535 \<Longrightarrow>
   hello_readExtensions (be16 (of_nat (length (exts_bytes es))) @ exts_bytes es) = Ok es"
  by (simp add: hello_readExtensions_def be16_append_nth Let_def readExtensions_bytes)

text \<open>The fixed part of both messages: version and random, 34 bytes.\<close>

lemma hello_prefix:
  assumes "length (rnd_Opaque rnd) = 28" "b = be16 v @ random_bytes rnd @ rest"
  shows "uint16 (b ! 0) (b ! 1) = v" "random_of b = rnd" "drop 34 b = rest" "length b = 34 + length rest"
    "b ! (34 + n) = rest ! n"
proof -
  show "uint16 (b ! 0) (b ! 1) = v" by (simp add: assms(2) be16_def)
  have "take 28 (drop 6 b) = rnd_Opaque rnd" using assms(1) by (simp add: assms(2) be16_def random_bytes_def be32_def)
  then show "random_of b = rnd" by (simp add: random_of_def assms(2) be16_def random_bytes_def be32_def)
  have len: "length (be16 v @ random_bytes rnd) = 34" using assms(1) by (simp add: random_bytes_def)
  have b: "b = (be16 v @ random_bytes rnd) @ rest" by (simp add: assms(2))
  show "length b = 34 + length rest" using len by (simp add: b)
  show d: "drop 34 b = rest" unfolding b using len by (metis append_eq_conv_conj)
  show "b ! (34 + n) = rest ! n" unfolding b using len by (metis nth_append_length_plus)
qed

lemma drop_part: "drop p b = x @ rest \<Longrightarrow> n = length x \<Longrightarrow> drop (p + n) b = rest"
  by (metis add.commute append_eq_conv_conj drop_drop)

lemma client_body_payload:
  assumes "valid_client m"
  shows "client_body (client_payload m) = Ok m"
proof -
  note v = assms [unfolded valid_client_def]
  let ?b = "client_payload m"
  let ?n1 = "1 + length (ch_SessionID m)" and ?n2 = "2 + 2 * length (ch_CipherSuites m)"
    and ?n3 = "1 + length (ch_CompressionMethods m)"
  define t4 where "t4 = be16 (of_nat (length (exts_bytes (ch_Extensions m)))) @ exts_bytes (ch_Extensions m)"
  define t3 where "t3 = (of_nat (length (ch_CompressionMethods m)) # ch_CompressionMethods m) @ t4"
  define t2 where "t2 = (be16 (of_nat (length (ch_CipherSuites m) * 2)) @ be16s (ch_CipherSuites m)) @ t3"
  define t1 where "t1 = (of_nat (length (ch_SessionID m)) # ch_SessionID m) @ t2"
  have b: "?b = be16 (ch_Version m) @ random_bytes (ch_Random m) @ t1"
    by (simp add: client_payload_def t1_def t2_def t3_def t4_def)
  have len: "length (rnd_Opaque (ch_Random m)) = 28" using v by simp
  note h = hello_prefix [OF len b]
  have d1: "drop (34 + ?n1) ?b = t2" by (rule drop_part [OF h(3) [unfolded t1_def]]) simp
  have d2: "drop (34 + ?n1 + ?n2) ?b = t3" by (rule drop_part [OF d1 [unfolded t2_def]]) simp
  have d3: "drop (34 + ?n1 + ?n2 + ?n3) ?b = t4" by (rule drop_part [OF d2 [unfolded t3_def]]) simp
  have r1: "readSession (drop 34 ?b) = Ok (?n1, ch_SessionID m)"
    unfolding h(3) t1_def using v by (simp add: readSession_bytes)
  have r2: "readCipherSuites (drop (34 + ?n1) ?b) = Ok (?n2, ch_CipherSuites m)"
    unfolding d1 t2_def append_assoc using v by (intro readCipherSuites_bytes) simp
  have r3: "readCompressionMethods (drop (34 + ?n1 + ?n2) ?b) = Ok (?n3, ch_CompressionMethods m)"
    unfolding d2 t3_def using v by (simp add: readCompressionMethods_bytes)
  have r4: "hello_readExtensions (drop (34 + ?n1 + ?n2 + ?n3) ?b) = Ok (ch_Extensions m)"
    unfolding d3 t4_def using v by (intro hello_readExtensions_bytes) simp_all
  show ?thesis
    unfolding client_body_def h(1) r1 r2 r3 r4 gbind_simps case_prod_conv Let_def h(2) using v by auto
qed

lemma server_body_payload:
  assumes "valid_server m"
  shows "server_body (server_payload m) = Ok m"
proof -
  note v = assms [unfolded valid_server_def]
  let ?b = "server_payload m" and ?n1 = "1 + length (sh_SessionID m)"
  define t4 where "t4 = be16 (of_nat (length (exts_bytes (sh_Extensions m)))) @ exts_bytes (sh_Extensions m)"
  define t2 where "t2 = (be16 (sh_CipherSuite m) @ [sh_CompressionMethod m]) @ t4"
  define t1 where "t1 = (of_nat (length (sh_SessionID m)) # sh_SessionID m) @ t2"
  have b: "?b = be16 (sh_Version m) @ random_bytes (sh_Random m) @ t1"
    by (simp add: server_payload_def t1_def t2_def t4_def)
  have len: "length (rnd_Opaque (sh_Random m)) = 28" using v by simp
  note h = hello_prefix [OF len b]
  have d1: "drop (34 + ?n1) ?b = t2" by (rule drop_part [OF h(3) [unfolded t1_def]]) simp
  have d2: "drop (34 + ?n1 + 3) ?b = t4" by (rule drop_part [OF d1 [unfolded t2_def]]) simp
  have r1: "readSession (drop 34 ?b) = Ok (?n1, sh_SessionID m)"
    unfolding h(3) t1_def using v by (simp add: readSession_bytes)
  have r4: "hello_readExtensions (drop (34 + ?n1 + 3) ?b) = Ok (sh_Extensions m)"
    unfolding d2 t4_def using v by (intro hello_readExtensions_bytes) simp_all
  have long: "\<not> length ?b < 34 + ?n1 + 3" unfolding h(4) by (simp add: t1_def t2_def)
  have "?b ! (34 + ?n1 + i) = t2 ! i" if "i < 3" for i
    using that d1 long by (metis nth_drop less_imp_le_nat not_less add_leD1 add_lessD1)
  from this [of 0] this [of 1] this [of 2]
  have f: "?b ! (34 + ?n1) = be16 (sh_CipherSuite m) ! 0" "?b ! (34 + ?n1 + 1) = be16 (sh_CipherSuite m) ! 1"
    "?b ! (34 + ?n1 + 2) = sh_CompressionMethod m"
    by (simp_all add: t2_def be16_def)
  show ?thesis
    unfolding server_body_def h(1) r1 r4 gbind_simps case_prod_conv Let_def h(2) f using v long by auto
qed

text \<open>The length of the payload fits the three bytes of the handshake header.\<close>

lemma uint24_be24:
  assumes "n < 2 ^ 24"
  shows "uint24 (be24 n ! 0) (be24 n ! 1) (be24 n ! 2) = n"
proof -
  have u: "unat (of_nat k :: byte) = k mod 256" for k
    by (simp add: unsigned_of_nat take_bit_eq_mod)
  have "n div 65536 < 256" using assms by (simp add: less_mult_imp_div_less)
  have "n div 65536 = n div 256 div 256" by (simp flip: div_mult2_eq)
  then have "n div 256 = 256 * (n div 65536) + (n div 256) mod 256" by (simp only: mult_div_mod_eq)
  moreover have "n = 256 * (n div 256) + n mod 256" by simp
  ultimately have "n div 65536 * 65536 + n div 256 mod 256 * 256 + n mod 256 = n" by linarith
  with \<open>n div 65536 < 256\<close> show ?thesis by (simp add: uint24_def be24_def u)
qed

lemma length_be24 [simp]: "length (be24 n) = 3"
  by (simp add: be24_def)

lemma client_payload_length: "valid_client m \<Longrightarrow> 34 \<le> length (client_payload m) \<and> length (client_payload m) < 2 ^ 24"
  by (simp add: valid_client_def client_payload_def random_bytes_def)

lemma server_payload_length: "valid_server m \<Longrightarrow> 34 \<le> length (server_payload m) \<and> length (server_payload m) < 2 ^ 24"
  by (simp add: valid_server_def server_payload_def random_bytes_def)

lemma handshake_bytes: "be24 n = [be24 n ! 0, be24 n ! 1, be24 n ! 2]"
  by (simp add: be24_def)

lemma read_handshake_step:
  assumes "34 \<le> length payload" "length payload < 2 ^ 24"
  shows "decodes (ReadFull 4) (([ty] @ be24 (length payload) @ payload) @ rest)
      [ty, be24 (length payload) ! 0, be24 (length payload) ! 1, be24 (length payload) ! 2] (payload @ rest)"
    "uint24 (be24 (length payload) ! 0) (be24 (length payload) ! 1) (be24 (length payload) ! 2) = length payload"
proof -
  show "decodes (ReadFull 4) (([ty] @ be24 (length payload) @ payload) @ rest)
      [ty, be24 (length payload) ! 0, be24 (length payload) ! 1, be24 (length payload) ! 2] (payload @ rest)"
    using decodes_header4 [of ty "be24 (length payload) ! 0" "be24 (length payload) ! 1" "be24 (length payload) ! 2" "payload @ rest"]
      handshake_bytes [of "length payload"] by (metis append.assoc append_Cons append_Nil)
qed (rule uint24_be24 [OF assms(2)])

lemma decodes_handshake:
  assumes "34 \<le> length payload" "length payload < 2 ^ 24" "body payload = Ok m"
  shows "decodes (read_handshake ty body) (([ty] @ be24 (length payload) @ payload) @ rest) m rest"
  unfolding read_handshake_def
proof (rule decodes_rbind [OF read_handshake_step(1) [OF assms(1,2)]])
  have "decodes (rbind (ReadFull (length payload)) (\<lambda>b. rlift (body b))) (payload @ rest) m rest"
    by (intro decodes_rbind [OF decodes_ReadFull]) (simp_all add: assms(3) decodes_rlift)
  with read_handshake_step(2) [OF assms(1,2)] assms(1)
  show "decodes (if [ty, be24 (length payload) ! 0, be24 (length payload) ! 1, be24 (length payload) ! 2] ! 0 \<noteq> ty
      then rfail ErrBadType
      else let len = uint24 ([ty, be24 (length payload) ! 0, be24 (length payload) ! 1, be24 (length payload) ! 2] ! 1)
             ([ty, be24 (length payload) ! 0, be24 (length payload) ! 1, be24 (length payload) ! 2] ! 2)
             ([ty, be24 (length payload) ! 0, be24 (length payload) ! 1, be24 (length payload) ! 2] ! 3)
           in if len < 34 then rfail too_short else rbind (ReadFull len) (\<lambda>b. rlift (body b))) (payload @ rest) m rest"
    by (simp add: Let_def numeral_2_eq_2 numeral_3_eq_3)
qed

interpretation client_codec: stream_codec ClientHello_WriteTo ClientHello_ReadFrom valid_client
proof unfold_locales
  fix m rest assume v: "valid_client m"
  note len = client_payload_length [OF v]
  show "decodes ClientHello_ReadFrom (ClientHello_WriteTo m @ rest) m rest"
    unfolding ClientHello_ReadFrom_def ClientHello_WriteTo_def
    by (rule decodes_handshake [of _ client_body, OF conjunct1 [OF len] conjunct2 [OF len] client_body_payload [OF v]])
qed

interpretation server_codec: stream_codec ServerHello_WriteTo ServerHello_ReadFrom valid_server
proof unfold_locales
  fix m rest assume v: "valid_server m"
  note len = server_payload_length [OF v]
  show "decodes ServerHello_ReadFrom (ServerHello_WriteTo m @ rest) m rest"
    unfolding ServerHello_ReadFrom_def ServerHello_WriteTo_def
    by (rule decodes_handshake [of _ server_body, OF conjunct1 [OF len] conjunct2 [OF len] server_body_payload [OF v]])
qed

definition valid_record :: "Record \<Rightarrow> bool" where
  "valid_record r \<longleftrightarrow> length (Opaque r) \<le> 65535"

lemma decodes_record:
  assumes "valid_record r"
  shows "decodes Record_ReadFrom (Record_WriteTo r @ rest) r rest"
proof -
  let ?b = "rec_Type r # be16 (rec_Version r) @ be16 (of_nat (length (Opaque r)))"
  have 5: "decodes (ReadFull 5) (?b @ Opaque r @ rest) ?b (Opaque r @ rest)"
    by (rule decodes_ReadFull) simp
  have b: "uint16 (?b ! 3) (?b ! 4) = of_nat (length (Opaque r))" "uint16 (?b ! 1) (?b ! 2) = rec_Version r"
    by (simp_all add: be16_def)
  have r: "\<lparr>rec_Type = ?b ! 0, rec_Version = rec_Version r, Opaque = Opaque r\<rparr> = r" by (cases r) simp
  have "decodes (rbind (ReadFull (unat (uint16 (?b ! 3) (?b ! 4))))
      (\<lambda>opaque. rret \<lparr>rec_Type = ?b ! 0, rec_Version = uint16 (?b ! 1) (?b ! 2), Opaque = opaque\<rparr>)) (Opaque r @ rest) r rest"
    unfolding b using assms
    by (intro decodes_rbind [OF decodes_ReadFull], simp add: valid_record_def) (subst r, rule decodes_rret)
  with 5 show ?thesis unfolding Record_ReadFrom_def Record_WriteTo_def by (auto intro: decodes_rbind)
qed

interpretation record_codec: stream_codec Record_WriteTo ReadRecord valid_record
  unfolding ReadRecord_def by unfold_locales (rule decodes_record)

section \<open>When the decoders panic\<close>

lemma u16_loop_Panic: "u16_loop k b = Panic \<longleftrightarrow> length b < 2 * k"
  and u16_loop_not_Fail: "u16_loop k b \<noteq> Fail e"
  by (induction k b rule: u16_loop.induct) (auto simp: gbind_def split: go.splits)

lemma alpn_loop_Panic: "alpn_loop b = Panic \<longleftrightarrow> b = []"
  by (induction b rule: alpn_loop.induct) (auto simp: Let_def gbind_eq_Panic)

lemma versions_loop_Panic: "versions_loop b = Panic \<longleftrightarrow> b = [] \<or> odd (length b)"
  by (induction b rule: versions_loop.induct) (auto simp: gbind_eq_Panic)

lemma decode_formats_safe: "decode_formats w b \<noteq> Panic"
  by (simp add: decode_formats_def Let_def)

lemma decode_server_name_safe: "decode_server_name b \<noteq> Panic"
  by (simp add: decode_server_name_def Let_def)

lemma decode_groups_safe: "decode_groups b \<noteq> Panic"
  by (auto simp: decode_groups_def Let_def gbind_eq_Panic u16_loop_Panic)

lemma decode_algorithms_Panic:
  "decode_algorithms b = Panic \<longleftrightarrow>
     2 \<le> length b \<and> odd (unat (uint16 (b ! 0) (b ! 1))) \<and> length b = 2 + unat (uint16 (b ! 0) (b ! 1))"
proof -
  have "length b - 2 < 2 * (Suc n div 2) \<longleftrightarrow> odd n \<and> length b = 2 + n" if "2 \<le> length b" "n \<le> length b - 2" for n
    using that by (cases "even n") (auto elim!: evenE oddE)
  then show ?thesis
    by (auto simp: decode_algorithms_def Let_def gbind_eq_Panic u16_loop_Panic not_less)
qed

lemma decode_alpn_Panic: "decode_alpn b = Panic \<longleftrightarrow> 2 \<le> length b \<and> uint16 (b ! 0) (b ! 1) = 0"
  by (auto simp: decode_alpn_def Let_def gbind_eq_Panic alpn_loop_Panic unat_eq_zero)

lemma decode_versions_Panic:
  "decode_versions b = Panic \<longleftrightarrow>
     3 \<le> length b \<and> unat (b ! 0) < length b \<and> (b ! 0 = 0 \<or> odd (unat (b ! 0)))"
  by (auto simp: decode_versions_def Let_def gbind_eq_Panic versions_loop_Panic unat_eq_zero min_def)


lemma NewExtension_other:
  "t \<notin> {ExtSignatureAlgorithms, ExtALPN, ExtSupportedVersions} \<Longrightarrow> NewExtension t d \<noteq> Panic"
  by (simp add: NewExtension_def gbind_eq_Panic decode_formats_safe decode_server_name_safe decode_groups_safe)

lemma readCipherSuites_Panic:
  "length rest < 2 * (unat n div 2) \<Longrightarrow> readCipherSuites (be16 n @ rest) = Panic"
  by (simp add: readCipherSuites_def be16_append_nth Let_def gbind_eq_Panic u16_loop_Panic)

lemma crashes_handshake:
  assumes "34 \<le> length payload" "length payload < 2 ^ 24" "body payload = Panic"
  shows "crashes (read_handshake ty body) (([ty] @ be24 (length payload) @ payload) @ rest)"
  unfolding read_handshake_def
proof (rule crashes_rbind [OF read_handshake_step(1) [OF assms(1,2)]])
  have "crashes (rbind (ReadFull (length payload)) (\<lambda>b. rlift (body b))) (payload @ rest)"
    by (rule crashes_rbind [OF decodes_ReadFull [OF refl]]) (simp add: assms(3) crashes_def rlift_def)
  with read_handshake_step(2) [OF assms(1,2)] assms(1)
  show "crashes (if [ty, be24 (length payload) ! 0, be24 (length payload) ! 1, be24 (length payload) ! 2] ! 0 \<noteq> ty
      then rfail ErrBadType
      else let len = uint24 ([ty, be24 (length payload) ! 0, be24 (length payload) ! 1, be24 (length payload) ! 2] ! 1)
             ([ty, be24 (length payload) ! 0, be24 (length payload) ! 1, be24 (length payload) ! 2] ! 2)
             ([ty, be24 (length payload) ! 0, be24 (length payload) ! 1, be24 (length payload) ! 2] ! 3)
           in if len < 34 then rfail too_short else rbind (ReadFull len) (\<lambda>b. rlift (body b))) (payload @ rest)"
    by (simp add: Let_def numeral_2_eq_2 numeral_3_eq_3)
qed

section \<open>Properties\<close>

text \<open>The host names a client hello carries, in order.\<close>

definition server_names :: "ClientHelloMsg \<Rightarrow> string list" where
  "server_names m = concat (map (\<lambda>e. case e of ServerNameExtension _ n \<Rightarrow> [n] | _ \<Rightarrow> []) (ch_Extensions m))"

lemma client_ext_ServerName:
  "ServerName (foldl client_ext info es) =
     (let ns = concat (map (\<lambda>e. case e of ServerNameExtension _ n \<Rightarrow> [n] | _ \<Rightarrow> []) es)
      in if ns = [] then ServerName info else last ns)"
proof (induction es arbitrary: info)
  case (Cons e es)
  then show ?case by (cases e) (auto simp: Let_def)
qed simp

lemma client_ext_frame:
  "ci_SessionID (foldl client_ext info es) = ci_SessionID info \<and> ci_CipherSuites (foldl client_ext info es) = ci_CipherSuites info"
proof (induction es arbitrary: info)
  case (Cons e es)
  then show ?case by (cases e) simp_all
qed simp

lemma server_ext_frame:
  "si_SessionID (foldl server_ext info es) = si_SessionID info \<and> si_CipherSuite (foldl server_ext info es) = si_CipherSuite info"
proof (induction es arbitrary: info)
  case (Cons e es)
  then show ?case by (cases e) simp_all
qed simp

text \<open>
  C28. The proxy acts on the host the client asked for: a client hello in a handshake record, delivered in
  whatever pieces, is parsed without loss; the server name that is reported is that of the last server name
  extension and empty if there is none; and the bytes after the record are left for the next reader.
\<close>

theorem client_hello_is_understood:
  assumes "valid_client m" "length (ClientHello_WriteTo m) \<le> 65535"
  shows "decodes ParseClientHello
      (Record_WriteTo \<lparr>rec_Type = Handshake, rec_Version = v, Opaque = ClientHello_WriteTo m\<rparr> @ rest) (client_info m) rest \<and>
    ServerName (client_info m) = (if server_names m = [] then [] else last (server_names m)) \<and>
    ci_SessionID (client_info m) = ch_SessionID m \<and> ci_CipherSuites (client_info m) = ch_CipherSuites m"
proof -
  let ?r = "\<lparr>rec_Type = Handshake, rec_Version = v, Opaque = ClientHello_WriteTo m\<rparr>"
  have "ClientHello_Decode (ClientHello_WriteTo m) = Ok m"
    using decodes_bytes_reader [OF client_codec.dec_enc [OF assms(1), of "[]"]] by (simp add: ClientHello_Decode_def)
  then have "decodes (rbind (rlift (ClientHello_Decode (Opaque ?r))) (\<lambda>m. rret (client_info m))) rest (client_info m) rest"
    by (intro decodes_rbind [OF decodes_rlift decodes_rret]) simp
  moreover have "decodes ReadRecord (Record_WriteTo ?r @ rest) ?r rest"
    using assms(2) by (intro record_codec.dec_enc) (simp add: valid_record_def)
  ultimately show ?thesis
    unfolding ParseClientHello_def using client_ext_frame client_ext_ServerName
    by (auto simp: client_info_def server_names_def Let_def intro!: decodes_rbind)
qed

text \<open>
  The answer of the server is understood in the same way; a record with an alert, whole or cut short,
  is an error and never a hello.
\<close>

theorem server_hello_is_understood:
  assumes "valid_server m" "length (ServerHello_WriteTo m) \<le> 65535" "length alert \<le> 65535"
  shows "decodes ParseServerHello
      (Record_WriteTo \<lparr>rec_Type = Handshake, rec_Version = v, Opaque = ServerHello_WriteTo m\<rparr> @ rest) (server_info m) rest \<and>
    si_SessionID (server_info m) = sh_SessionID m \<and> si_CipherSuite (server_info m) = sh_CipherSuite m \<and>
    rejects ParseServerHello (Record_WriteTo \<lparr>rec_Type = EncryptedAlert, rec_Version = v, Opaque = alert\<rparr> @ rest)
      (if length alert < 2 then ErrShortBuffer ''alert''
       else ErrAlert (AlertMsg_String \<lparr>Level = alert ! 0, Description = alert ! 1\<rparr>))"
proof -
  let ?r = "\<lparr>rec_Type = Handshake, rec_Version = v, Opaque = ServerHello_WriteTo m\<rparr>"
  let ?a = "\<lparr>rec_Type = EncryptedAlert, rec_Version = v, Opaque = alert\<rparr>"
  have "ServerHello_Decode (ServerHello_WriteTo m) = Ok m"
    using decodes_bytes_reader [OF server_codec.dec_enc [OF assms(1), of "[]"]] by (simp add: ServerHello_Decode_def)
  then have "decodes (rbind (rlift (ServerHello_Decode (Opaque ?r))) (\<lambda>m. rret (server_info m))) rest (server_info m) rest"
    by (intro decodes_rbind [OF decodes_rlift decodes_rret]) simp
  moreover have "decodes ReadRecord (Record_WriteTo ?r @ rest) ?r rest"
    using assms(2) by (intro record_codec.dec_enc) (simp add: valid_record_def)
  ultimately have hello: "decodes ParseServerHello (Record_WriteTo ?r @ rest) (server_info m) rest"
    unfolding ParseServerHello_def by (auto intro!: decodes_rbind)
  have "decodes ReadRecord (Record_WriteTo ?a @ rest) ?a rest"
    using assms(3) by (intro record_codec.dec_enc) (simp add: valid_record_def)
  then have "rejects ParseServerHello (Record_WriteTo ?a @ rest) (if length alert < 2 then ErrShortBuffer ''alert''
       else ErrAlert (AlertMsg_String \<lparr>Level = alert ! 0, Description = alert ! 1\<rparr>))"
    unfolding ParseServerHello_def
    by (rule rejects_rbind) (simp add: rejects_def rbind_def rlift_def rfail_def AlertMsg_Decode_def tls_consts)
  with hello server_ext_frame show ?thesis by (simp add: server_info_def)
qed

text \<open>
  Which extensions crash the process: decoding an extension panics exactly for an ALPN extension with an
  empty protocol list, a supported versions extension of three bytes or more whose list is empty or has an
  odd length, and a signature algorithms extension whose list has an odd length and ends the data.
\<close>

theorem extension_panics_exactly:
  "NewExtension t d = Panic \<longleftrightarrow>
     t = ExtALPN \<and> 2 \<le> length d \<and> uint16 (d ! 0) (d ! 1) = 0 \<or>
     t = ExtSupportedVersions \<and> 3 \<le> length d \<and> unat (d ! 0) < length d \<and> (d ! 0 = 0 \<or> odd (unat (d ! 0))) \<or>
     t = ExtSignatureAlgorithms \<and> 2 \<le> length d \<and> odd (unat (uint16 (d ! 0) (d ! 1))) \<and>
       length d = 2 + unat (uint16 (d ! 0) (d ! 1))"
proof -
  have ne: "ExtALPN \<noteq> ExtSupportedVersions" "ExtALPN \<noteq> ExtSignatureAlgorithms" "ExtSupportedVersions \<noteq> ExtSignatureAlgorithms"
    by (simp_all add: ext_consts)
  consider "t = ExtALPN" | "t = ExtSupportedVersions" | "t = ExtSignatureAlgorithms"
    | "t \<notin> {ExtSignatureAlgorithms, ExtALPN, ExtSupportedVersions}" by blast
  then show ?thesis
    using ne NewExtension_other [of t d]
    by cases (auto simp: NewExtension_eqs decode_alpn_Panic decode_versions_Panic decode_algorithms_Panic)
qed

text \<open>
  A single record from any client crashes the process: when the cipher suite list of a client hello
  announces more suites than the message has bytes left, the length error is noted but the loop still slices
  the missing bytes, and parsing panics, whatever follows and in whatever pieces it arrives.
\<close>

theorem truncated_cipher_suites_panic:
  assumes "VersionTLS10 \<le> cv" "cv \<le> VersionTLS13" "length (rnd_Opaque rnd) = 28" "length sid \<le> 255"
    and "length left < 2 * (unat n div 2)"
    and "payload = be16 cv @ random_bytes rnd @ (of_nat (length sid) # sid) @ be16 n @ left" "length payload \<le> 65531"
  shows "crashes ParseClientHello
    (Record_WriteTo \<lparr>rec_Type = Handshake, rec_Version = v, Opaque = [ClientHello] @ be24 (length payload) @ payload\<rparr> @ rest)"
proof -
  let ?hello = "[ClientHello] @ be24 (length payload) @ payload"
  let ?r = "\<lparr>rec_Type = Handshake, rec_Version = v, Opaque = ?hello\<rparr>"
  note h = hello_prefix [OF assms(3,6)]
  have "drop (34 + (1 + length sid)) payload = be16 n @ left" by (rule drop_part [OF h(3)]) simp
  then have "readCipherSuites (drop (34 + (1 + length sid)) payload) = Panic"
    using readCipherSuites_Panic [OF assms(5)] by simp
  moreover have "readSession (drop 34 payload) = Ok (1 + length sid, sid)"
    using readSession_bytes [OF assms(4)] by (simp add: h(3))
  ultimately have "client_body payload = Panic"
    using assms(1,2) unfolding client_body_def h(1) Let_def by (simp add: not_less)
  moreover have "34 \<le> length payload" "length payload < 2 ^ 24" using h(4) assms(7) by simp_all
  ultimately have "crashes ClientHello_ReadFrom (?hello @ [])"
    unfolding ClientHello_ReadFrom_def by (intro crashes_handshake)
  then have "ClientHello_Decode ?hello = Panic" by (simp add: crashes_def ClientHello_Decode_def)
  moreover have "decodes ReadRecord (Record_WriteTo ?r @ rest) ?r rest"
    using assms(7) by (intro record_codec.dec_enc) (simp add: valid_record_def)
  ultimately show ?thesis
    unfolding ParseClientHello_def by (elim crashes_rbind) (simp add: crashes_def rbind_def rlift_def)
qed

end
