(* ===== verification/Redaction.thy ===== *)
theory Redaction
  imports GoStrings
begin

text \<open>
  \<^verbatim>\<open>internal/greyproxy/redact.go\<close>: sensitive header values are replaced before a transaction is stored.
  A header map is an association list with distinct names. The lemmas say that every header that one of
  the patterns matches is redacted and no other, and that nothing the operator configures can switch the
  built-in patterns off.
\<close>

definition RedactedValue :: string where "RedactedValue = ''[REDACTED]''"

definition DefaultRedactedHeaders :: "string list" where
  "DefaultRedactedHeaders =
     [''Authorization'', ''Proxy-Authorization'', ''Cookie'', ''Set-Cookie'', ''*api-key*'', ''*token*'', ''*secret*'']"

text \<open>\<^verbatim>\<open>strings.Trim(p, "*")\<close>.\<close>

definition trim_stars :: "string \<Rightarrow> string" where
  "trim_stars p = rev (dropWhile (\<lambda>c. c = CHR ''*'') (rev (dropWhile (\<lambda>c. c = CHR ''*'') p)))"

definition matchPattern :: "string \<Rightarrow> string \<Rightarrow> bool" where
  "matchPattern p name =
     (let starPrefix = HasPrefix p ''*''; starSuffix = HasSuffix p ''*''; core = trim_stars p in
      if core = [] then starPrefix \<or> starSuffix
      else if starPrefix \<and> starSuffix then Contains name core
      else if starPrefix then HasSuffix name core
      else if starSuffix then HasPrefix name core
      else name = core)"

text \<open>The patterns of a redactor: lower case, each once, in order of appearance.\<close>

definition add_pattern :: "string list \<Rightarrow> string \<Rightarrow> string list" where
  "add_pattern ps low = (if low \<in> set ps then ps else ps @ [low])"

definition NewHeaderRedactor :: "string list \<Rightarrow> string list" where
  "NewHeaderRedactor extraPatterns =
     (let defaults = foldl (\<lambda>ps p. add_pattern ps (ToLower p)) [] DefaultRedactedHeaders
      in foldl (\<lambda>ps p. let low = ToLower (TrimSpace p) in if low = [] then ps else add_pattern ps low)
           defaults extraPatterns)"

definition isSensitive :: "string list \<Rightarrow> string \<Rightarrow> bool" where
  "isSensitive patterns name = list_ex (\<lambda>p. matchPattern p (ToLower name)) patterns"

type_synonym header = "(string \<times> string list) list"

definition Redact :: "string list \<Rightarrow> header option \<Rightarrow> header option" where
  "Redact patterns h =
     map_option (map (\<lambda>(key, vals). if isSensitive patterns key then (key, [RedactedValue]) else (key, vals))) h"

section \<open>The patterns of a redactor\<close>

lemma set_add_pattern [simp]: "set (add_pattern ps low) = insert low (set ps)"
  by (auto simp: add_pattern_def)

lemma set_defaults:
  "set (foldl (\<lambda>ps p. add_pattern ps (f p)) acc xs) = set acc \<union> f ` set xs"
  by (induction xs arbitrary: acc) auto

lemma set_extras:
  "set (foldl (\<lambda>ps p. let low = ToLower (TrimSpace p) in if low = [] then ps else add_pattern ps low) acc xs) =
   set acc \<union> {low \<in> (\<lambda>p. ToLower (TrimSpace p)) ` set xs. low \<noteq> []}"
  by (induction xs arbitrary: acc) (auto simp: Let_def)

lemma redactor_patterns:
  "set (NewHeaderRedactor extra) =
   ToLower ` set DefaultRedactedHeaders \<union> {low \<in> (\<lambda>p. ToLower (TrimSpace p)) ` set extra. low \<noteq> []}"
  unfolding NewHeaderRedactor_def Let_def using set_extras [unfolded Let_def] set_defaults [of ToLower "[]"] by simp

lemma isSensitive_iff: "isSensitive ps name \<longleftrightarrow> (\<exists>p \<in> set ps. matchPattern p (ToLower name))"
  by (simp add: isSensitive_def list_ex_iff)

lemma redactor_mono:
  "isSensitive (NewHeaderRedactor []) name \<Longrightarrow> isSensitive (NewHeaderRedactor extra) name"
  unfolding isSensitive_iff redactor_patterns by auto

lemma default_patterns:
  "isSensitive (NewHeaderRedactor []) name \<longleftrightarrow>
     ToLower name \<in> {''authorization'', ''proxy-authorization'', ''cookie'', ''set-cookie''} \<or>
     Contains (ToLower name) ''api-key'' \<or> Contains (ToLower name) ''token'' \<or> Contains (ToLower name) ''secret''"
proof -
  have "NewHeaderRedactor [] =
    [''authorization'', ''proxy-authorization'', ''cookie'', ''set-cookie'', ''*api-key*'', ''*token*'', ''*secret*'']"
    by code_simp
  moreover have "matchPattern ''authorization'' n \<longleftrightarrow> n = ''authorization''" "matchPattern ''cookie'' n \<longleftrightarrow> n = ''cookie''"
    "matchPattern ''proxy-authorization'' n \<longleftrightarrow> n = ''proxy-authorization''"
    "matchPattern ''set-cookie'' n \<longleftrightarrow> n = ''set-cookie''"
    "matchPattern ''*api-key*'' n \<longleftrightarrow> Contains n ''api-key''" "matchPattern ''*token*'' n \<longleftrightarrow> Contains n ''token''"
    "matchPattern ''*secret*'' n \<longleftrightarrow> Contains n ''secret''" for n
    by (simp_all add: matchPattern_def HasPrefix_def HasSuffix_def trim_stars_def)
  ultimately show ?thesis by (auto simp: isSensitive_def)
qed

section \<open>Properties\<close>

text \<open>
  C29. Secrets do not reach the archive: whatever extra patterns are configured, the authorization and
  cookie headers in any spelling, and every header whose name contains api-key, token or secret, are stored
  with the replacement value only; a header that no pattern matches keeps its values; and the names and
  their order stay as they were.
\<close>

theorem secrets_are_redacted:
  assumes "(key, vals) \<in> set h"
  shows "\<exists>out. Redact (NewHeaderRedactor extra) (Some h) = Some out \<and> map fst out = map fst h \<and>
    (ToLower key \<in> {''authorization'', ''proxy-authorization'', ''cookie'', ''set-cookie''} \<or>
       Contains (ToLower key) ''api-key'' \<or> Contains (ToLower key) ''token'' \<or> Contains (ToLower key) ''secret'' \<longrightarrow>
       (key, [RedactedValue]) \<in> set out \<and> (\<forall>v. (key, v) \<in> set out \<longrightarrow> v = [RedactedValue])) \<and>
    (\<not> isSensitive (NewHeaderRedactor extra) key \<longrightarrow> (key, vals) \<in> set out)"
proof -
  let ?f = "\<lambda>(k, v). if isSensitive (NewHeaderRedactor extra) k then (k, [RedactedValue]) else (k, v)"
  have names: "map fst (map ?f h) = map fst h" by (induction h) auto
  have sens: "isSensitive (NewHeaderRedactor extra) key"
    if "ToLower key \<in> {''authorization'', ''proxy-authorization'', ''cookie'', ''set-cookie''} \<or>
       Contains (ToLower key) ''api-key'' \<or> Contains (ToLower key) ''token'' \<or> Contains (ToLower key) ''secret''"
    using that default_patterns redactor_mono by blast
  have in_out: "?f (key, vals) \<in> set (map ?f h)" using assms by (simp only: set_map imageI)
  have "v = [RedactedValue]" if "isSensitive (NewHeaderRedactor extra) key" "(key, v) \<in> set (map ?f h)" for v
    using that by (auto split: if_splits)
  with names sens in_out show ?thesis by (intro exI [of _ "map ?f h"]) (auto simp: Redact_def split: if_splits)
qed

end
