(* ===== verification/Middleware.thy ===== *)
theory Middleware
  imports Patterns
begin

text \<open>
  Middlewares: \<^verbatim>\<open>internal/greyproxy/middleware\<close> (filters, cascade helpers, pending events, the outcome of a
  \<^verbatim>\<open>Send\<close>) and the two cascades of \<^verbatim>\<open>cmd/greyproxy/program.go\<close>. A header map is the list of its entries
  with distinct canonical names. Regular expressions and what a middleware answers are parameters. The
  lemmas say that no decision of a middleware changes an identity or hop-by-hop header, that a
  middleware that cannot answer fails closed unless configured otherwise, and that version negotiation
  finds the highest common version.
\<close>

section \<open>Filters\<close>

record HookFilter =
  hf_Host :: "string list"
  hf_Path :: "string list"
  hf_Method :: "string list"
  hf_ContentType :: "string list"
  hf_Container :: "string list"
  hf_TLS :: "bool option"
  hf_LLM :: "bool option"

text \<open>\<^verbatim>\<open>regexp.Compile\<close> and \<^verbatim>\<open>MatchString\<close>: a pattern that does not compile gives \<open>None\<close>.\<close>

type_synonym regexp_compile = "string \<Rightarrow> (string \<Rightarrow> bool) option"

definition compiledPaths :: "regexp_compile \<Rightarrow> HookFilter \<Rightarrow> (string \<Rightarrow> bool) list" where
  "compiledPaths compile f = List.map_filter compile (hf_Path f)"

definition matchAnyGlob :: "string list \<Rightarrow> string \<Rightarrow> bool" where
  "matchAnyGlob patterns v =
     list_ex (\<lambda>p. HasPrefix p ''*.'' \<and> HasSuffix v (tl p) \<or> glob_match p v = Some True) patterns"

definition matchAnyRegex :: "(string \<Rightarrow> bool) list \<Rightarrow> string \<Rightarrow> bool" where
  "matchAnyRegex regexes v = list_ex (\<lambda>re. re v) regexes"

text \<open>\<^verbatim>\<open>strings.EqualFold\<close> on ASCII.\<close>

definition matchAnyExactCI :: "string list \<Rightarrow> string \<Rightarrow> bool" where
  "matchAnyExactCI patterns v = list_ex (\<lambda>p. ToLower p = ToLower v) patterns"

definition media_type :: "string \<Rightarrow> string" where
  "media_type ct = (if CHR '';'' \<in> set ct then TrimSpace (takeWhile (\<lambda>c. c \<noteq> CHR '';'') ct) else ct)"

definition MatchesFilter ::
  "regexp_compile \<Rightarrow> HookFilter option \<Rightarrow> string \<Rightarrow> string \<Rightarrow> string \<Rightarrow> string \<Rightarrow> string \<Rightarrow> bool \<Rightarrow> bool \<Rightarrow> bool" where
  "MatchesFilter compile filters host path meth contentType container tls isLLM =
     (case filters of
        None \<Rightarrow> True
      | Some f \<Rightarrow>
          if hf_TLS f \<noteq> None \<and> hf_TLS f \<noteq> Some tls then False
          else if hf_LLM f \<noteq> None \<and> hf_LLM f \<noteq> Some isLLM then False
          else if hf_Host f \<noteq> [] \<and> \<not> matchAnyGlob (hf_Host f) host then False
          else if hf_Path f \<noteq> [] \<and> \<not> matchAnyRegex (compiledPaths compile f) path then False
          else if hf_Method f \<noteq> [] \<and> \<not> matchAnyExactCI (hf_Method f) meth then False
          else if hf_ContentType f \<noteq> [] \<and> \<not> matchAnyGlob (hf_ContentType f) (media_type contentType) then False
          else if hf_Container f \<noteq> [] \<and> \<not> matchAnyGlob (hf_Container f) container then False
          else True)"

section \<open>Version negotiation\<close>

definition ProtocolVersion :: int where "ProtocolVersion = 1"

definition negotiateVersion :: "int \<Rightarrow> int \<Rightarrow> int \<Rightarrow> int go" where
  "negotiateVersion proxyVersion mwMin0 mwMax0 =
     (let (mwMin, mwMax) = (if mwMin0 = 0 \<and> mwMax0 = 0 then (1, 1) else (mwMin0, mwMax0)) in
      if mwMin < 1 \<or> mwMax < mwMin then Fail (GoErr ''middleware declared invalid version range'')
      else if mwMin > proxyVersion then Fail (GoErr ''middleware requires a newer protocol'')
      else if mwMax < 1 then Fail (GoErr ''middleware max_version'')
      else Ok (if mwMax < proxyVersion then mwMax else proxyVersion))"

section \<open>Headers\<close>

text \<open>
  \<^verbatim>\<open>http.CanonicalHeaderKey\<close>: a name of token characters gets a capital at the start and after each
  hyphen and small letters elsewhere; any other name is left as it is.
\<close>

definition is_token_char :: "char \<Rightarrow> bool" where
  "is_token_char c = (let n = (of_char c :: nat) in
     48 \<le> n \<and> n \<le> 57 \<or> 65 \<le> n \<and> n \<le> 90 \<or> 97 \<le> n \<and> n \<le> 122 \<or>
     c \<in> {CHR ''!'', CHR ''#'', CHR ''$'', CHR ''%'', CHR ''&'', CHR 0x27, CHR ''*'', CHR ''+'', CHR ''-'', CHR ''.'', CHR ''^'',
          CHR ''_'', CHR 0x60, CHR ''|'', CHR ''~''})"

definition upper_char :: "char \<Rightarrow> char" where
  "upper_char c = (if 97 \<le> (of_char c :: nat) \<and> (of_char c :: nat) \<le> 122 then char_of (of_char c - 32 :: nat) else c)"

fun canon :: "bool \<Rightarrow> string \<Rightarrow> string" where
  "canon up [] = []"
| "canon up (c # s) = (if up then upper_char c else lower_char c) # canon (c = CHR ''-'') s"

definition CanonicalHeaderKey :: "string \<Rightarrow> string" where
  "CanonicalHeaderKey s = (if list_all is_token_char s then canon True s else s)"

type_synonym http_header = "(string \<times> string list) list"

definition hdr_put :: "string \<Rightarrow> string list \<Rightarrow> http_header \<Rightarrow> http_header" where
  "hdr_put k v h = (if k \<in> fst ` set h then map (\<lambda>(k', v'). (k', if k' = k then v else v')) h else h @ [(k, v)])"

definition hdr_Del :: "string \<Rightarrow> http_header \<Rightarrow> http_header" where
  "hdr_Del k h = filter (\<lambda>(k', _). k' \<noteq> CanonicalHeaderKey k) h"

definition hdr_Get :: "string \<Rightarrow> http_header \<Rightarrow> string" where
  "hdr_Get k h = (case map_of h (CanonicalHeaderKey k) of Some (v # _) \<Rightarrow> v | _ \<Rightarrow> [])"

definition forbiddenRewriteHeaders :: "string set" where
  "forbiddenRewriteHeaders =
     {''Connection'', ''Keep-Alive'', ''Proxy-Authenticate'', ''Proxy-Authorization'', ''Te'', ''Trailer'',
      ''Transfer-Encoding'', ''Upgrade'', ''Authorization'', ''Cookie'', ''Set-Cookie'', ''Host''}"

text \<open>The entries of \<open>src\<close> are in the order in which the range loop visits them.\<close>

definition merge_one ::
  "http_header \<times> string list \<times> string list \<Rightarrow> string \<times> string list \<Rightarrow> http_header \<times> string list \<times> string list" where
  "merge_one = (\<lambda>(dst, applied, rejected) (k, v).
     if CanonicalHeaderKey k \<in> forbiddenRewriteHeaders then (dst, applied, rejected @ [CanonicalHeaderKey k])
     else (hdr_put (CanonicalHeaderKey k) v dst, applied @ [CanonicalHeaderKey k], rejected))"

definition MergeRewriteHeaders :: "http_header \<Rightarrow> http_header \<Rightarrow> http_header \<times> string list \<times> string list" where
  "MergeRewriteHeaders dst src = foldl merge_one (dst, [], []) src"

text \<open>The names in which two header maps differ; Go gives them in an arbitrary order.\<close>

definition DiffHeaderNames :: "http_header \<Rightarrow> http_header \<Rightarrow> string list" where
  "DiffHeaderNames before after =
     filter (\<lambda>k. map_of before k \<noteq> map_of after k) (map fst after) @
     filter (\<lambda>k. map_of after k = None) (map fst before)"

text \<open>A nil body is \<open>None\<close>.\<close>

definition BodyChanged :: "byte list \<Rightarrow> byte list option \<Rightarrow> bool" where
  "BodyChanged oldBody newBody = (case newBody of None \<Rightarrow> False | Some b \<Rightarrow> oldBody \<noteq> b)"

section \<open>Decisions\<close>

record Decision =
  d_ID :: string
  d_Action :: string
  d_StatusCode :: int
  d_Body :: "byte list option"
  d_Headers :: http_header
  d_Tags :: "(string \<times> string) list"
  d_Fallback :: string

definition ActionForTimeoutKind :: "string \<Rightarrow> bool \<Rightarrow> string" where
  "ActionForTimeoutKind onTimeout isResponse =
     (if onTimeout = ''allow'' then (if isResponse then ''passthrough'' else ''allow'')
      else (if isResponse then ''block'' else ''deny''))"

definition IsKnownAction :: "string \<Rightarrow> bool" where
  "IsKnownAction action \<longleftrightarrow> action \<in> {''allow'', ''deny'', ''rewrite'', ''passthrough'', ''block''}"

text \<open>The client of one middleware: its policy, whether its transport is up, and the sends that wait.\<close>

record Client =
  onTimeout :: string
  timeoutMs :: int
  transport_up :: bool
  cl_pending :: "string \<rightharpoonup> bool"

record Config =
  cfg_TimeoutMs :: int
  cfg_OnDisconnect :: string

definition New :: "Config \<Rightarrow> Client" where
  "New cfg = \<lparr>onTimeout = (if cfg_OnDisconnect cfg = [] then ''deny'' else cfg_OnDisconnect cfg),
     timeoutMs = (if cfg_TimeoutMs cfg \<le> 0 then 10000 else cfg_TimeoutMs cfg), transport_up = False, cl_pending = Map.empty\<rparr>"

definition fallback :: "Client \<Rightarrow> string \<Rightarrow> bool \<Rightarrow> string \<Rightarrow> Decision" where
  "fallback c i isResponse reason =
     (let d = \<lparr>d_ID = i, d_Action = [], d_StatusCode = 0, d_Body = None, d_Headers = [], d_Tags = [], d_Fallback = reason\<rparr> in
      if onTimeout c = ''allow''
      then (if isResponse then d\<lparr>d_Action := ''passthrough''\<rparr> else d\<lparr>d_Action := ''allow''\<rparr>)
      else (if isResponse then d\<lparr>d_Action := ''block'', d_StatusCode := 502\<rparr>
            else d\<lparr>d_Action := ''deny'', d_StatusCode := 403\<rparr>))"

text \<open>How the exchange goes, once the message has an id and is registered.\<close>

datatype exchange = MarshalError | WriteError | Replied Decision | TimedOut | ContextCancelled

definition Send :: "Client \<Rightarrow> string \<Rightarrow> bool \<Rightarrow> exchange \<Rightarrow> Client \<times> Decision" where
  "Send c i isResponse x =
     (let registered = c\<lparr>cl_pending := (cl_pending c)(i \<mapsto> isResponse)\<rparr>;
          cleaned = registered\<lparr>cl_pending := (cl_pending registered)(i := None)\<rparr> in
      if \<not> transport_up c then (cleaned, fallback c i isResponse ''disconnected'')
      else case x of
             MarshalError \<Rightarrow> (cleaned, fallback c i isResponse ''marshal_error'')
           | WriteError \<Rightarrow> (cleaned, fallback c i isResponse ''write_error'')
           | Replied d \<Rightarrow> (cleaned, d)
           | TimedOut \<Rightarrow> (cleaned, fallback c i isResponse ''timeout'')
           | ContextCancelled \<Rightarrow> (cleaned, fallback c i isResponse ''context_cancelled''))"

text \<open>The fallback each waiting send receives when the connection drops; afterwards none waits.\<close>

definition drainPending :: "Client \<Rightarrow> Client \<times> (string \<rightharpoonup> Decision)" where
  "drainPending c =
     (c\<lparr>cl_pending := Map.empty\<rparr>, (\<lambda>i. map_option (\<lambda>isResponse. fallback c i isResponse ''disconnected'') (cl_pending c i)))"

section \<open>Pending events\<close>

text \<open>Durations and creation times of events are not kept.\<close>

record PendingEvent =
  Sequence :: nat
  MiddlewareName :: string
  MiddlewareURL :: string
  pe_Hook :: string
  pe_Action :: string
  pe_StatusCode :: int
  HeadersChanged :: "string list"
  BodyRewritten :: bool
  pe_Tags :: "(string \<times> string) list"

record pendingBucket =
  pb_events :: "PendingEvent list"
  pb_expires :: int

definition pendingTTL :: int where "pendingTTL = 60 * 10 ^ 9"

definition StashEvent :: "int \<Rightarrow> string \<Rightarrow> PendingEvent \<Rightarrow> (string \<rightharpoonup> pendingBucket) \<Rightarrow> (string \<rightharpoonup> pendingBucket)" where
  "StashEvent now requestID ev pending =
     (if requestID = [] then pending
      else let b = (case pending requestID of None \<Rightarrow> \<lparr>pb_events = [], pb_expires = now + pendingTTL\<rparr> | Some b \<Rightarrow> b)
           in pending(requestID \<mapsto> b\<lparr>pb_events := pb_events b @ [ev]\<rparr>))"

definition DrainEvents :: "string \<Rightarrow> (string \<rightharpoonup> pendingBucket) \<Rightarrow> (string \<rightharpoonup> pendingBucket) \<times> PendingEvent list" where
  "DrainEvents requestID pending =
     (if requestID = [] then (pending, [])
      else case pending requestID of
             None \<Rightarrow> (pending, [])
           | Some b \<Rightarrow> (pending(requestID := None), pb_events b))"

definition pending_sweep :: "int \<Rightarrow> (string \<rightharpoonup> pendingBucket) \<Rightarrow> (string \<rightharpoonup> pendingBucket)" where
  "pending_sweep now pending = (\<lambda>i. case pending i of Some b \<Rightarrow> if now > pb_expires b then None else Some b | None \<Rightarrow> None)"

section \<open>The request cascade\<close>

record mw_request =
  mr_Host :: string
  mr_Path :: string
  mr_Method :: string
  mr_Header :: http_header
  mr_Body :: "byte list"

text \<open>
  A hook with the answer of its client: \<open>ask\<close> gives the decision \<^verbatim>\<open>Send\<close> returns for a message; a message
  is the request as it is at that point, with its body truncated.
\<close>

record CascadeHook =
  ch_Name :: string
  ch_URL :: string
  ch_Filters :: "HookFilter option"
  ask :: "mw_request \<Rightarrow> Decision"

record requestCascadeResult =
  Denied :: bool
  DenyStatus :: int
  DenyBody :: "byte list option"

record cascade_env =
  ce_compile :: regexp_compile
  ce_container :: string
  ce_tls :: bool
  ce_label :: string
  ce_isLLM :: bool
  ce_truncate :: "byte list \<Rightarrow> byte list"

definition hook_event :: "cascade_env \<Rightarrow> nat \<Rightarrow> CascadeHook \<Rightarrow> string \<Rightarrow> Decision \<Rightarrow> PendingEvent" where
  "hook_event e n h action d =
     \<lparr>Sequence = n, MiddlewareName = ch_Name h, MiddlewareURL = ch_URL h, pe_Hook = ce_label e, pe_Action = action,
      pe_StatusCode = d_StatusCode d, HeadersChanged = [], BodyRewritten = False, pe_Tags = d_Tags d\<rparr>"

text \<open>The event of an allow, a passthrough or an unknown action: only when tags were emitted.\<close>

definition tagged_events :: "cascade_env \<Rightarrow> nat \<Rightarrow> CascadeHook \<Rightarrow> Decision \<Rightarrow> PendingEvent list" where
  "tagged_events e n h d =
     (if d_Tags d = [] then []
      else [(hook_event e n h (if d_Action d = ''passthrough'' then ''tagged-passthrough'' else ''tagged-allow'') d)
              \<lparr>pe_StatusCode := 0\<rparr>])"

definition rewrite_request :: "Decision \<Rightarrow> mw_request \<Rightarrow> mw_request" where
  "rewrite_request d req =
     req\<lparr>mr_Body := (case d_Body d of None \<Rightarrow> mr_Body req | Some b \<Rightarrow> b),
         mr_Header := fst (MergeRewriteHeaders (mr_Header req) (d_Headers d))\<rparr>"

fun runRequestCascade ::
  "cascade_env \<Rightarrow> CascadeHook list \<Rightarrow> nat \<Rightarrow> mw_request \<Rightarrow> requestCascadeResult \<times> mw_request \<times> PendingEvent list" where
  "runRequestCascade e [] n req = (\<lparr>Denied = False, DenyStatus = 0, DenyBody = None\<rparr>, req, [])"
| "runRequestCascade e (h # hs) n req =
     (if \<not> MatchesFilter (ce_compile e) (ch_Filters h) (mr_Host req) (mr_Path req) (mr_Method req)
             (hdr_Get ''Content-Type'' (mr_Header req)) (ce_container e) (ce_tls e) (ce_isLLM e)
      then runRequestCascade e hs n req
      else
        let d = ask h (req\<lparr>mr_Body := ce_truncate e (mr_Body req)\<rparr>) in
        if d_Action d = ''deny''
        then (\<lparr>Denied = True, DenyStatus = d_StatusCode d, DenyBody = d_Body d\<rparr>, req, [hook_event e n h ''deny'' d])
        else if d_Action d = ''rewrite'' then
          let req' = rewrite_request d req;
              ev = (hook_event e n h ''rewrite'' d)
                \<lparr>HeadersChanged := DiffHeaderNames (mr_Header req) (mr_Header req'),
                 BodyRewritten := BodyChanged (mr_Body req) (d_Body d)\<rparr>
          in (case runRequestCascade e hs (n + 1) req' of (r, req2, evs) \<Rightarrow> (r, req2, ev # evs))
        else (case runRequestCascade e hs (n + 1) req of (r, req2, evs) \<Rightarrow> (r, req2, tagged_events e n h d @ evs)))"

section \<open>The response cascade\<close>

record mw_response =
  ms_Host :: string
  ms_URI :: string
  ms_Method :: string
  ms_Status :: int
  ms_Headers :: http_header
  ms_Body :: "byte list"

record responseCascadeResult =
  Blocked :: bool
  BlockStatus :: int
  BlockBody :: "byte list option"
  Rewritten :: bool
  rs_final :: "mw_response option"

text \<open>\<open>respond\<close> is the decision of a response hook on the response as it is at that point.\<close>

record ResponseHook =
  rh_hook :: CascadeHook
  respond :: "mw_response \<Rightarrow> Decision"

definition rewrite_response :: "Decision \<Rightarrow> mw_response \<Rightarrow> mw_response" where
  "rewrite_response d r =
     (let status = (if d_StatusCode d \<noteq> 0 then d_StatusCode d else ms_Status r);
          h1 = (case d_Body d of None \<Rightarrow> ms_Headers r | Some _ \<Rightarrow> hdr_Del ''Content-Encoding'' (ms_Headers r))
      in r\<lparr>ms_Status := status, ms_Body := (case d_Body d of None \<Rightarrow> ms_Body r | Some b \<Rightarrow> b),
           ms_Headers := fst (MergeRewriteHeaders h1 (d_Headers d))\<rparr>)"

fun runResponseCascade ::
  "cascade_env \<Rightarrow> (byte list \<Rightarrow> string \<Rightarrow> byte list) \<Rightarrow> ResponseHook list \<Rightarrow> nat \<Rightarrow> bool \<Rightarrow> mw_response \<Rightarrow>
   responseCascadeResult \<times> PendingEvent list" where
  "runResponseCascade e decompress [] n rewritten r =
     (\<lparr>Blocked = False, BlockStatus = 0, BlockBody = None, Rewritten = rewritten, rs_final = Some r\<rparr>, [])"
| "runResponseCascade e decompress (rh # rhs) n rewritten r =
     (let h = rh_hook rh in
      if \<not> MatchesFilter (ce_compile e) (ch_Filters h) (ms_Host r) (ms_URI r) (ms_Method r)
             (hdr_Get ''Content-Type'' (ms_Headers r)) (ce_container e) (ce_tls e) (ce_isLLM e)
      then runResponseCascade e decompress rhs n rewritten r
      else
        let d = respond rh (r\<lparr>ms_Body := decompress (ce_truncate e (ms_Body r)) (hdr_Get ''Content-Encoding'' (ms_Headers r))\<rparr>) in
        if d_Action d = ''block''
        then (\<lparr>Blocked = True, BlockStatus = d_StatusCode d, BlockBody = d_Body d, Rewritten = False, rs_final = None\<rparr>,
              [hook_event e n h ''block'' d])
        else if d_Action d = ''rewrite'' then
          let r' = rewrite_response d r;
              ev = (hook_event e n h ''rewrite'' d)
                \<lparr>HeadersChanged := DiffHeaderNames (ms_Headers r) (ms_Headers r'),
                 BodyRewritten := BodyChanged (ms_Body r) (d_Body d)\<rparr>
          in (case runResponseCascade e decompress rhs (n + 1) True r' of (res, evs) \<Rightarrow> (res, ev # evs))
        else (case runResponseCascade e decompress rhs (n + 1) rewritten r of (res, evs) \<Rightarrow> (res, tagged_events e n h d @ evs)))"

section \<open>Canonical names\<close>

lemma upper_char_idem [simp]: "upper_char (upper_char c) = upper_char c"
proof (cases "97 \<le> (of_char c :: nat) \<and> (of_char c :: nat) \<le> 122")
  case True
  then have "of_char c - 32 < (256 :: nat)" by linarith
  then have "(of_char (char_of (of_char c - 32 :: nat) :: char) :: nat) = of_char c - 32" by (simp add: take_bit_nat_eq_self)
  with True show ?thesis by (auto simp: upper_char_def)
qed (auto simp: upper_char_def)

lemma case_dash [simp]: "upper_char c = CHR ''-'' \<longleftrightarrow> c = CHR ''-''" "lower_char c = CHR ''-'' \<longleftrightarrow> c = CHR ''-''"
  by (auto simp: upper_char_def lower_char_def char_of_eq_iff take_bit_nat_eq_self split: if_splits)

lemma canon_idem: "canon up (canon up s) = canon up s"
  by (induction s arbitrary: up) auto

lemma case_token [simp]: "is_token_char (upper_char c) = is_token_char c" "is_token_char (lower_char c) = is_token_char c"
proof -
  have u: "is_token_char (char_of n)" if "65 \<le> n" "n \<le> 90" for n :: nat
    using that by (auto simp: is_token_char_def Let_def take_bit_nat_eq_self)
  have l: "is_token_char (char_of n)" if "97 \<le> n" "n \<le> 122" for n :: nat
    using that by (auto simp: is_token_char_def Let_def take_bit_nat_eq_self)
  have c: "is_token_char c" if "65 \<le> (of_char c :: nat) \<and> (of_char c :: nat) \<le> 90 \<or> 97 \<le> (of_char c :: nat) \<and> (of_char c :: nat) \<le> 122"
    using that by (auto simp: is_token_char_def Let_def)
  show "is_token_char (upper_char c) = is_token_char c" using u [of "of_char c - 32"] c by (auto simp: upper_char_def)
  show "is_token_char (lower_char c) = is_token_char c" using l [of "of_char c + 32"] c by (auto simp: lower_char_def)
qed

lemma canon_token: "list_all is_token_char (canon up s) = list_all is_token_char s"
  by (induction s arbitrary: up) auto

lemma CanonicalHeaderKey_idem [simp]: "CanonicalHeaderKey (CanonicalHeaderKey k) = CanonicalHeaderKey k"
  by (simp add: CanonicalHeaderKey_def canon_token canon_idem)

section \<open>Merging headers\<close>

lemma map_of_hdr_put: "map_of (hdr_put k v h) = (map_of h)(k \<mapsto> v)"
proof
  fix x
  show "map_of (hdr_put k v h) x = ((map_of h)(k \<mapsto> v)) x"
  proof (cases "k \<in> fst ` set h")
    case True
    have "map_of (map (\<lambda>(k', v'). (k', if k' = k then v else v')) h) x =
        (if x = k then map_option (\<lambda>_. v) (map_of h x) else map_of h x)" by (induction h) auto
    moreover have "map_of h k \<noteq> None" using True by (auto simp: map_of_eq_None_iff)
    ultimately show ?thesis using True by (auto simp: hdr_put_def)
  next
    case False
    then have "map_of h k = None" by (simp add: map_of_eq_None_iff)
    then show ?thesis using False by (auto simp: hdr_put_def map_add_def split: option.splits)
  qed
qed

lemma merge_keeps:
  assumes "CanonicalHeaderKey x \<in> forbiddenRewriteHeaders"
  shows "map_of (fst (foldl merge_one st src)) x = map_of (fst st) x"
proof (induction src arbitrary: st)
  case (Cons kv src)
  obtain k v where kv: "kv = (k, v)" by fastforce
  obtain dst a r where st: "st = (dst, a, r)" by (metis prod_cases3)
  have "x \<noteq> CanonicalHeaderKey k" if "CanonicalHeaderKey k \<notin> forbiddenRewriteHeaders" using assms that by auto
  then have "map_of (fst (merge_one st kv)) x = map_of (fst st) x"
    by (auto simp: merge_one_def kv st map_of_hdr_put)
  with Cons show ?case by simp
qed simp

lemma MergeRewriteHeaders_keeps:
  "CanonicalHeaderKey x \<in> forbiddenRewriteHeaders \<Longrightarrow> map_of (fst (MergeRewriteHeaders dst src)) x = map_of dst x"
  by (simp add: MergeRewriteHeaders_def merge_keeps)

lemma request_cascade_keeps:
  assumes "CanonicalHeaderKey x \<in> forbiddenRewriteHeaders"
  shows "map_of (mr_Header (fst (snd (runRequestCascade e hs n req)))) x = map_of (mr_Header req) x"
    "mr_Host (fst (snd (runRequestCascade e hs n req))) = mr_Host req"
    "mr_Path (fst (snd (runRequestCascade e hs n req))) = mr_Path req"
    "mr_Method (fst (snd (runRequestCascade e hs n req))) = mr_Method req"
  by (induction hs arbitrary: n req)
    (simp_all add: Let_def split_beta rewrite_request_def MergeRewriteHeaders_keeps [OF assms])

lemma hdr_Del_keeps: "x \<noteq> CanonicalHeaderKey k \<Longrightarrow> map_of (hdr_Del k h) x = map_of h x"
  by (induction h) (auto simp: hdr_Del_def)

lemma rewrite_response_keeps:
  assumes "CanonicalHeaderKey x \<in> forbiddenRewriteHeaders"
  shows "map_of (ms_Headers (rewrite_response d r)) x = map_of (ms_Headers r) x"
proof -
  have "CanonicalHeaderKey (CanonicalHeaderKey ''Content-Encoding'') \<notin> forbiddenRewriteHeaders" by code_simp
  then have "x \<noteq> CanonicalHeaderKey ''Content-Encoding''" using assms by auto
  then show ?thesis
    by (simp add: rewrite_response_def Let_def MergeRewriteHeaders_keeps [OF assms] hdr_Del_keeps split: option.splits)
qed

lemma response_cascade_keeps:
  assumes "CanonicalHeaderKey x \<in> forbiddenRewriteHeaders"
  shows "rs_final (fst (runResponseCascade e dec rhs n rw r)) = Some r' \<Longrightarrow> map_of (ms_Headers r') x = map_of (ms_Headers r) x"
  by (induction rhs arbitrary: n rw r)
    (auto simp: Let_def split_beta rewrite_response_keeps [OF assms] split: if_splits)

section \<open>Unreachable middlewares\<close>

text \<open>The client gets no decision: it is disconnected, or the exchange fails in one of the ways it can.\<close>

definition unanswered :: "Client \<Rightarrow> exchange \<Rightarrow> bool" where
  "unanswered c x \<longleftrightarrow> \<not> transport_up c \<or> (\<forall>d. x \<noteq> Replied d)"

lemma Send_unanswered:
  assumes "unanswered c x"
  shows "\<exists>reason. snd (Send c i isResponse x) = fallback c i isResponse reason"
  using assms by (cases x) (auto simp: Send_def unanswered_def Let_def)

lemma fallback_action: "d_Action (fallback c i isResponse reason) = ActionForTimeoutKind (onTimeout c) isResponse"
  by (simp add: fallback_def ActionForTimeoutKind_def Let_def)

lemma request_cascade_denied:
  assumes "ch_Filters h = None" "\<And>m. d_Action (ask h m) = ''deny''"
  shows "Denied (fst (runRequestCascade e (hs1 @ h # hs2) n req))"
  by (induction hs1 arbitrary: n req) (simp_all add: assms MatchesFilter_def Let_def split_beta)

lemma response_cascade_blocked:
  assumes "ch_Filters (rh_hook rh) = None" "\<And>m. d_Action (respond rh m) = ''block''"
  shows "Blocked (fst (runResponseCascade e dec (rhs1 @ rh # rhs2) n rw r))"
  by (induction rhs1 arbitrary: n rw r) (simp_all add: assms MatchesFilter_def Let_def split_beta)

lemma request_cascade_seq:
  "fst (runRequestCascade e hs n req) = fst (runRequestCascade e hs k req) \<and>
   fst (snd (runRequestCascade e hs n req)) = fst (snd (runRequestCascade e hs k req))"
proof (induction hs arbitrary: n k req)
  case (Cons h hs)
  from Cons.IH [of "n + 1" "rewrite_request (ask h (req\<lparr>mr_Body := ce_truncate e (mr_Body req)\<rparr>)) req" "k + 1"]
    Cons.IH [of "n + 1" req "k + 1"] Cons.IH [of n req k]
  show ?case by (simp add: Let_def split_beta)
qed simp

lemma request_cascade_skip:
  assumes "\<And>m. d_Action (ask h m) = ''allow''"
  shows "fst (runRequestCascade e (hs1 @ h # hs2) n req) = fst (runRequestCascade e (hs1 @ hs2) k req) \<and>
    fst (snd (runRequestCascade e (hs1 @ h # hs2) n req)) = fst (snd (runRequestCascade e (hs1 @ hs2) k req))"
proof (induction hs1 arbitrary: n k req)
  case Nil
  show ?case using request_cascade_seq [of e hs2] by (simp add: assms Let_def split_beta)
next
  case (Cons h' hs1)
  then show ?case by (simp add: Let_def split_beta)
qed

section \<open>Properties\<close>

text \<open>
  C12. No middleware can forge identity: whatever the hooks answer, neither cascade adds, changes or removes a
  header that is one of the identity, credential or hop-by-hop headers in any spelling, and the host, the
  path and the method of a request stay as they were.
\<close>

theorem middleware_cannot_forge_identity:
  assumes "CanonicalHeaderKey x \<in> forbiddenRewriteHeaders"
  shows "map_of (mr_Header (fst (snd (runRequestCascade e hs n req)))) x = map_of (mr_Header req) x \<and>
    mr_Host (fst (snd (runRequestCascade e hs n req))) = mr_Host req \<and>
    mr_Path (fst (snd (runRequestCascade e hs n req))) = mr_Path req \<and>
    mr_Method (fst (snd (runRequestCascade e hs n req))) = mr_Method req \<and>
    (\<forall>r'. rs_final (fst (runResponseCascade e dec rhs n rw r)) = Some r' \<longrightarrow> map_of (ms_Headers r') x = map_of (ms_Headers r) x)"
  by (simp add: request_cascade_keeps [OF assms] response_cascade_keeps [OF assms])


text \<open>
  C30. Version negotiation agrees on the highest version that both sides speak: for a valid range, missing
  bounds meaning version one, the result is the greatest common version and an error exactly when there is
  none; a range that starts below one or is empty is refused.
\<close>

theorem negotiation_finds_highest_common_version:
  assumes "1 \<le> pv" "(lo, hi) = (if mn = 0 \<and> mx = 0 then (1, 1) else (mn, mx))"
  shows "if lo < 1 \<or> {1..pv} \<inter> {lo..hi} = {} then \<exists>err. negotiateVersion pv mn mx = Fail err
    else negotiateVersion pv mn mx = Ok (Max ({1..pv} \<inter> {lo..hi}))"
proof (cases "lo < 1 \<or> hi < lo \<or> pv < lo")
  case True
  then show ?thesis using assms by (auto simp: negotiateVersion_def Let_def split: if_splits)
next
  case False
  then have "Max ({1..pv} \<inter> {lo..hi}) = min hi pv" using assms(1) by (intro Max_eqI) auto
  moreover have "{1..pv} \<inter> {lo..hi} \<noteq> {}" using False assms(1) by auto
  moreover have "negotiateVersion pv mn mx = Ok (min hi pv)"
    using False assms by (auto simp: negotiateVersion_def Let_def split: if_splits)
  ultimately show ?thesis using False by simp
qed

text \<open>
  A request hook that answers block, one of the known actions, lets the request pass without a warning and
  without an event: the request cascade only stops at deny.
\<close>

lemma request_block_passes:
  assumes "d_Action (ask h (req\<lparr>mr_Body := ce_truncate e (mr_Body req)\<rparr>)) = ''block''"
    "d_Tags (ask h (req\<lparr>mr_Body := ce_truncate e (mr_Body req)\<rparr>)) = []"
  shows "runRequestCascade e [h] n req = (\<lparr>Denied = False, DenyStatus = 0, DenyBody = None\<rparr>, req, [])"
  using assms by (simp add: tagged_events_def Let_def)

text \<open>What is stashed for a request is drained once, in order.\<close>

lemma stash_drain:
  "i \<noteq> [] \<Longrightarrow> snd (DrainEvents i (StashEvent now i ev p)) = snd (DrainEvents i p) @ [ev]"
  "i \<noteq> j \<Longrightarrow> snd (DrainEvents i (StashEvent now j ev p)) = snd (DrainEvents i p)"
  "snd (DrainEvents i (fst (DrainEvents i p))) = []"
  by (simp_all add: DrainEvents_def StashEvent_def Let_def split: option.splits)

end
