(* ===== verification/Scenarios.thy ===== *)
theory Scenarios
  imports ControlPlane Socks5 Tls Redaction Middleware
begin

text \<open>
  Concrete runs. A small database with a global rule, a session with its rule, a pending request and a
  log, a clock, an event bus and byte strings; each theorem about the program that has hypotheses is
  applied here to such data, where the hypotheses hold by evaluation.
\<close>

section \<open>A small installation\<close>

definition ex_clock :: clock where
  "ex_clock = \<lparr>sql_now = ''2026-01-01 12:00:00'',
    sql_after = (\<lambda>n. if 0 < n then ''2026-01-01 12:15:00'' else ''2026-01-01 12:00:00''),
    go_after = (\<lambda>d. if 10 ^ 9 \<le> d then ''2026-01-01 12:00:30'' else ''2026-01-01 11:00:00'')\<rparr>"

definition ex_global :: Rule where
  "ex_global = \<lparr>ID = 1, ContainerPattern = ''web'', DestinationPattern = ''api.example.com'', PortPattern = ''443'',
    RuleType = ''permanent'', Action = ''allow'', CreatedAt = ''2026-01-01 11:00:00'', ExpiresAt = None,
    LastUsedAt = None, CreatedBy = ''admin'', Notes = None, SessionID = None\<rparr>"

definition ex_session_rule :: Rule where
  "ex_session_rule = \<lparr>ID = 2, ContainerPattern = ''web'', DestinationPattern = ''*'', PortPattern = ''443'',
    RuleType = ''temporary'', Action = ''deny'', CreatedAt = ''2026-01-01 11:30:00'',
    ExpiresAt = Some ''2026-01-01 12:30:00'', LastUsedAt = None, CreatedBy = ''session:s1'', Notes = Some [],
    SessionID = Some ''s1''\<rparr>"

definition ex_session :: Session where
  "ex_session = \<lparr>sess_id = ''s1'', sess_container = ''web'', MappingsEnc = [], LabelsJSON = ''null'',
    MetadataJSON = ''{}'', TTLSeconds = 900, sess_created = ''2026-01-01 11:30:00'',
    sess_expires = ''2026-01-01 12:30:00'', LastHeartbeat = ''2026-01-01 11:30:00'', SubstitutionCount = 0,
    AllowAll = False\<rparr>"

definition ex_pending :: PendingRequest where
  "ex_pending = \<lparr>pend_id = 1, pend_container = ''web'', pend_container_id = [], pend_host = ''db.example.com'',
    pend_port = 5432, pend_resolved = None, FirstSeen = ''2026-01-01 11:59:00'', LastSeen = ''2026-01-01 11:59:30'',
    AttemptCount = 2\<rparr>"

definition ex_db :: DB where
  "ex_db = \<lparr>rules = [ex_global, ex_session_rule], next_rule = 3, sessions = [ex_session], pendings = [ex_pending],
    next_pending = 2, logs = [], next_log = 1, foreign_keys = True\<rparr>"

lemmas ex_defs = ex_clock_def ex_global_def ex_session_rule_def ex_session_def ex_pending_def ex_db_def

lemma ex_clock_ok: "clock_ok ex_clock"
  by (simp add: clock_ok_def ex_clock_def)

lemma ex_db_ok: "db_ok ex_db" "rules_ok ex_db" "store_ok ex_db" "pendings_ok ex_db"
proof -
  show r: "rules_ok ex_db" by (simp add: rules_ok_def ex_defs rule_key_def rule_check_def)
  then show s: "store_ok ex_db" by (simp add: store_ok_def sessions_ok_def session_refs_ok_def ex_defs)
  show p: "pendings_ok ex_db" by (simp add: pendings_ok_def ex_defs pend_key_def)
  have "logs_ok ex_db" by (simp add: logs_ok_def ex_defs)
  with s p show "db_ok ex_db" by (simp add: db_ok_def)
qed

lemma ex_matches:
  "applicable (sql_now ex_clock) ex_db ''web'' ex_global"
  "rule_matches ''web'' ''api.example.com'' 443 [] ex_global"
  by (code_simp, code_simp)

lemma ex_find: "FindMatchingRule insertion_sort (sql_now ex_clock) ex_db ''web'' ''api.example.com'' 443 [] = Some ex_global"
  by code_simp
lemma ex_find2: "FindMatchingRule insertion_sort (sql_now ex_clock) ex_db ''web'' ''db.example.com'' 443 [] = Some ex_session_rule"
  by code_simp

section \<open>Sessions and rules\<close>

definition ex_input :: SessionCreateInput where
  "ex_input = \<lparr>si_session_id = ''s2'', si_container = ''web'', si_mappings = None, si_labels = None, si_metadata = None,
    si_ttl = 0, si_network_rules = [\<lparr>nr_destination = ''npm.example.com'', nr_port = [], nr_action = [], nr_notes = []\<rparr>],
    si_allow_all = False\<rparr>"

theorem create_session_effect_witness:
  "\<exists>db' s. CreateOrUpdateSession (\<lambda>_. ''null'') (\<lambda>_. Ok [1]) ex_clock ex_db ex_input = (db', Ok (Some s)) \<and>
     sess_container s = ''web'' \<and> (''web'', ''npm.example.com'', ''*'', ''allow'') \<in> rule_key ` set (rules db')"
proof -
  obtain db' res where c: "CreateOrUpdateSession (\<lambda>_. ''null'') (\<lambda>_. Ok [1]) ex_clock ex_db ex_input = (db', res)"
    by (metis surj_pair)
  from create_session_effect [OF ex_db_ok(3) ex_clock_ok _ c] c show ?thesis
    by (auto simp: ex_input_def or_default_def)
qed

theorem expired_sessions_leave_no_rules_witness:
  "sessions (fst (DeleteExpiredSessions ''2026-01-01 13:00:00'' ex_db)) = [] \<and>
   {r \<in> set (rules (fst (DeleteExpiredSessions ''2026-01-01 13:00:00'' ex_db))). SessionID r \<noteq> None} = {}"
  using expired_sessions_leave_no_rules [OF ex_db_ok(3), of "''2026-01-01 13:00:00''"]
  by (auto simp: ex_db_def ex_session_def sess_active_def)

theorem heartbeat_renews_or_refuses_witness:
  "\<exists>db' s'. HeartbeatSession ex_clock ex_db ''s1'' = (db', Some s') \<and> sess_expires s' = ''2026-01-01 12:15:00'' \<and>
     {r \<in> set (rules db'). SessionID r = Some ''s1'' \<and> ExpiresAt r \<noteq> Some (sess_expires s')} = {}"
proof -
  have "\<forall>s \<in> set (sessions ex_db). 0 < TTLSeconds s" by (simp add: ex_db_def ex_session_def)
  from heartbeat_renews_or_refuses [OF ex_db_ok(3) ex_clock_ok this, of "''s1''"] show ?thesis
    by (auto simp: GetSession_def getSessionLocked_def ex_defs sess_active_def)
qed

theorem find_rule_implements_decision_witness:
  "rule_decision (matching_rules (sql_now ex_clock) ex_db ''web'' ''api.example.com'' 443 []) = Some ''allow''"
  using find_rule_implements_decision
    [OF go_sort.slice_sort_axioms ex_db_ok(2), of "sql_now ex_clock" "''web''" "''api.example.com''" 443 "[]"]
  by (simp add: ex_find ex_global_def)

lemma ex_matching_global:
  "ex_global \<in> matching_rules (sql_now ex_clock) ex_db ''web'' ''api.example.com'' 443 []"
proof -
  have "applicable (sql_now ex_clock) ex_db ''web'' ex_global" by code_simp
  moreover have "rule_matches ''web'' ''api.example.com'' 443 [] ex_global" by code_simp
  ultimately show ?thesis by (simp add: matching_rules_def ex_db_def)
qed

theorem global_rules_win_witness:
  "map_option RuleSource (FindMatchingRule insertion_sort (sql_now ex_clock) ex_db ''web'' ''api.example.com'' 443 []) =
   Some ''global''"
proof -
  have "RuleSource ex_global = ''global''" by (simp add: RuleSource_def ex_global_def)
  with global_rules_win [OF go_sort.slice_sort_axioms ex_find ex_matching_global] ex_find show ?thesis by simp
qed

theorem session_rules_are_current_witness:
  "\<exists>s \<in> set (sessions ex_db). sess_id s = ''s1'' \<and> sess_container s = ''web'' \<and> sess_active (sql_now ex_clock) s"
  using session_rules_are_current [OF go_sort.slice_sort_axioms ex_find2, of "''s1''"]
  by (auto simp: ex_session_rule_def)

theorem background_touch_is_invisible_witness:
  "map_option rule_rank (FindMatchingRule insertion_sort (sql_now ex_clock)
     (find_background (Some ex_global) (sql_now ex_clock) ex_db) ''web'' ''api.example.com'' 443 []) =
   Some (rule_rank ex_global)"
  using background_touch_is_invisible [OF go_sort.slice_sort_axioms] ex_find by simp

section \<open>The pending queue\<close>

theorem pending_attempt_recorded_witness:
  "\<exists>db' q. CreateOrUpdatePending (sql_now ex_clock) ex_db ''web'' [] ''db.example.com'' 5432 [] = (db', Some q, False) \<and>
     AttemptCount q = 3"
proof -
  obtain db' res n where c:
    "CreateOrUpdatePending (sql_now ex_clock) ex_db ''web'' [] ''db.example.com'' 5432 [] = (db', res, n)"
    by (metis prod_cases3)
  from pending_attempt_recorded [OF ex_db_ok(4) c] c show ?thesis
    by (auto simp: ex_db_def ex_pending_def)
qed

definition ex_filter :: PendingFilter where
  "ex_filter = \<lparr>pf_container = [], pf_destination = [], pf_limit = 10, pf_offset = 0\<rparr>"

theorem pending_list_consolidates_witness:
  "\<exists>items. GetPendingRequests ex_db ex_filter = Ok (items, 1) \<and> (\<Sum>p \<leftarrow> items. AttemptCount p) = 2"
  using pending_list_consolidates [of ex_filter "pendings ex_db" ex_db]
  by (auto simp: ex_filter_def ex_db_def ex_pending_def pending_filter_matches_def)

theorem pending_list_negative_offset_panics_witness:
  "GetPendingRequests ex_db (ex_filter\<lparr>pf_offset := - 1\<rparr>) = Panic"
  by (rule pending_list_negative_offset_panics) simp

theorem pending_count_matches_list_witness:
  "GetPendingCount ex_db = card (group_key ` set (pendings ex_db))"
  using pending_count_matches_list [OF ex_db_ok(4)] by (simp add: ex_db_def ex_pending_def)

theorem subdomain_scope_matches_witness:
  "MatchesDestination ''www.example.com'' (''*.'' @ extractBaseDomain ''www.example.com'') \<and>
   \<not> MatchesDestination ''example.com'' (''*.'' @ extractBaseDomain ''example.com'')"
proof -
  have "2 < length (Split (CHR ''.'') ''www.example.com'')" "\<not> 2 < length (Split (CHR ''.'') ''example.com'')"
    by (code_simp, code_simp)
  then show ?thesis
    using subdomain_scope_matches [of "''www.example.com''"] subdomain_scope_matches [of "''example.com''"] by simp
qed

lemma ex_patterns: "buildPatterns ex_pending ''exact'' = (''web'', ''db.example.com'', ''5432'')"
proof -
  have "Itoa 5432 = ''5432''" by (simp add: Itoa_def show_nat.simps) code_simp
  then show ?thesis by (simp add: buildPatterns_def ex_pending_def pending_host_def Let_def)
qed


definition ex_stale_rule :: Rule where
  "ex_stale_rule = \<lparr>ID = 3, ContainerPattern = ''web'', DestinationPattern = ''db.example.com'', PortPattern = ''5432'',
    RuleType = ''temporary'', Action = ''allow'', CreatedAt = ''2026-01-01 11:10:00'',
    ExpiresAt = Some ''2026-01-01 12:30:00'', LastUsedAt = None, CreatedBy = ''session:s0'', Notes = Some [],
    SessionID = Some ''s0''\<rparr>"

definition ex_stale_db :: DB where
  "ex_stale_db = ex_db\<lparr>rules := rules ex_db @ [ex_stale_rule], next_rule := 4,
     sessions := [ex_session\<lparr>sess_id := ''s0'', sess_created := ''2026-01-01 11:10:00''\<rparr>, ex_session]\<rparr>"

theorem approval_absorbed_by_other_session_witness:
  "\<exists>db'. AllowPending ex_clock ex_stale_db 1 ''exact'' ''1h'' None = (db', Ok (Some ex_stale_rule)) \<and>
     rules db' = rules ex_stale_db \<and>
     FindMatchingRule insertion_sort (sql_now ex_clock) db' ''web'' ''db.example.com'' 5432 [] = None"
proof -
  have g: "GetPending ex_stale_db 1 = Some ex_pending" by code_simp
  have f: "findExistingRule ex_stale_db (sql_now ex_clock) ''web'' ''db.example.com'' ''5432'' ''allow'' = Some ex_stale_rule"
    by code_simp
  have c: "current_session (sql_now ex_clock) ex_stale_db (pend_container ex_pending) \<noteq> Some ''s0''" by code_simp
  have n: "FindMatchingRule insertion_sort (sql_now ex_clock) ex_stale_db (pend_container ex_pending) ''db.example.com'' 5432 [] = None"
    by code_simp
  have s: "SessionID ex_stale_rule = Some ''s0''" by (simp add: ex_stale_rule_def)
  from approval_absorbed_by_other_session [OF g ex_patterns f s c, of "''1h''" None "''db.example.com''" 5432 "[]" insertion_sort] n
  show ?thesis by (auto simp: ex_pending_def)
qed

section \<open>Events, silent mode, connections\<close>

definition ex_bus :: EventBus where "ex_bus = fst (Subscribe 1 NewEventBus)"
definition ex_event :: Event where "ex_event = status_event True ''allow'' None None"

lemma ex_bus_ok: "bus_ok ex_bus"
  by (auto simp: bus_ok_def ex_bus_def Subscribe_def NewEventBus_def Let_def lookup_update')

theorem publish_delivers_witness:
  "\<exists>eb' c. Publish ex_event ex_bus = Ok eb' \<and> Mapping.lookup (heap eb') 0 = Some c \<and> ch_buf c = [ex_event]"
proof -
  have "Mapping.lookup (heap ex_bus) 0 = Some \<lparr>ch_cap = 1, ch_buf = [], ch_closed = False\<rparr>" "0 \<in> set (subscribers ex_bus)"
    by (simp_all add: ex_bus_def Subscribe_def NewEventBus_def Let_def lookup_update')
  with publish_delivers [OF ex_bus_ok, of ex_event] show ?thesis by fastforce
qed

theorem unsubscribe_once_witness: "\<exists>eb'. Unsubscribe 0 ex_bus = Ok eb' \<and> subscribers eb' = [] \<and> Unsubscribe 0 eb' = Panic"
proof -
  have "0 \<in> set (subscribers ex_bus)" "set (subscribers ex_bus) = {0}"
    by (simp_all add: ex_bus_def Subscribe_def NewEventBus_def Let_def)
  with unsubscribe_once [OF ex_bus_ok, of 0] show ?thesis by auto
qed

theorem silent_mode_ends_on_time_witness:
  "IsActive (fst (Enable 5 0 ''deny'' NewAllowAllManager)) \<and> Mode (fst (Enable 5 0 ''deny'' NewAllowAllManager)) = ''deny'' \<and>
   (\<nexists>t later m1. aa_step (fst (Enable 5 0 ''deny'' NewAllowAllManager)) (FireOp t later) m1)"
  using silent_mode_ends_on_time [OF prompt_ok_new, of 5 0 "''deny''"] by simp

theorem late_callback_undoes_enable_witness:
  "\<exists>m'. aa_run (NewAllowAllManager\<lparr>active := True, next_timer := 1, firing := [0]\<rparr>)
          [EnableOp 5 0 ''allow'', CallbackOp 0] m' \<and> \<not> IsActive m'"
  by (rule late_callback_undoes_enable) simp

theorem registered_addresses_resolve_witness:
  "GetCached 3600 (fst (RegisterIPs 0 (NewDNSCache 0 None) ''example.com'' [''1.2.3.4''])) ''1.2.3.4'' = ''example.com''"
  using registered_addresses_resolve [of "''1.2.3.4''" "[''1.2.3.4'']" "''example.com''" 3600 0 "NewDNSCache 0 None"]
  by (simp add: NewDNSCache_def defaultDNSCacheTTL_def)

theorem resolve_is_cached_witness:
  "\<exists>c'. cache_ResolveIP (\<lambda>_. Some [''example.com.'']) 0 [] (NewDNSCache 0 None) ''1.2.3.4'' = (c', ''example.com'', []) \<and>
        cache_ResolveIP (\<lambda>_. None) 3600 [] c' ''1.2.3.4'' = (c', ''example.com'', [])"
proof -
  have e: "GetCached 0 (NewDNSCache 0 None) ''1.2.3.4'' = []" by (simp add: GetCached_def NewDNSCache_def)
  obtain c' h w where c: "cache_ResolveIP (\<lambda>_. Some [''example.com.'']) 0 [] (NewDNSCache 0 None) ''1.2.3.4'' = (c', h, w)"
    by (metis prod_cases3)
  with e have h: "h = ''example.com''" "w = []"
    by (auto simp: cache_ResolveIP_def getFromDB_def NewDNSCache_def trim_dot_def Let_def)
  from resolve_is_cached [OF c e, of 3600 "\<lambda>_. None" "[]"] c h show ?thesis
    by (simp add: NewDNSCache_def defaultDNSCacheTTL_def)
qed

section \<open>The decision point\<close>

definition ex_world :: World where
  "ex_world = \<lparr>w_db = ex_db, w_cache = NewDNSCache 0 None, w_dns_table = [], w_bus = NewEventBus,
    w_waiters = NewWaiterTracker, w_silent = None\<rparr>"

definition ex_out :: outside where
  "ex_out = \<lparr>o_clock = ex_clock, o_time = 0, o_elapsed = 0, o_docker = None, o_lookupAddr = (\<lambda>_. None),
    o_lookupHost = (\<lambda>_. None), o_sort = insertion_sort\<rparr>"

definition ex_req :: "string \<Rightarrow> request" where
  "ex_req addr = \<lparr>req_addr = addr, req_client = ''10.0.0.2|web'', req_src = Some ''10.0.0.2:5000'', req_service = ''http''\<rparr>"

definition ex_known :: request where "ex_known = ex_req ''api.example.com:443''"
definition ex_unknown :: request where "ex_unknown = ex_req ''db.example.com:5432''"

lemma ex_world_ok: "world_ok ex_world"
proof -
  have "bus_ok NewEventBus" by (simp add: bus_ok_def NewEventBus_def)
  moreover have "waiters_ok NewWaiterTracker" by (simp add: waiters_ok_def NewWaiterTracker_def wt_get_def waiting_def)
  ultimately show ?thesis by (simp add: world_ok_def ex_world_def ex_db_ok)
qed

lemma ex_fields:
  "w_db ex_world = ex_db" "w_silent ex_world = None" "o_clock ex_out = ex_clock" "o_sort ex_out = insertion_sort"
  by (simp_all add: ex_world_def ex_out_def)

lemma ex_fair: "fair (\<lambda>w. w)"
  by (simp add: fair_def)

lemma ex_request:
  "identity ex_out ex_known = (''web'', [])" "target ex_known = (''api.example.com'', 443)" "resolved ex_out ex_world ex_known = []"
  "identity ex_out ex_unknown = (''web'', [])" "target ex_unknown = (''db.example.com'', 5432)" "resolved ex_out ex_world ex_unknown = []"
  "\<not> exempt ex_out ex_world ex_known" "\<not> exempt ex_out ex_world ex_unknown"
  by (code_simp, code_simp, code_simp, code_simp, code_simp, code_simp, code_simp, code_simp)

lemma ex_decided:
  "decided ex_out ex_world ex_known = Some ex_global" "decided ex_out ex_world ex_unknown = None"
  by (code_simp, code_simp)


theorem nothing_passes_without_reason_witness:
  "\<exists>r. decided ex_out ex_world ex_known = Some r \<and> Action r = ''allow''"
proof -
  obtain w' v where b: "BypassContains ex_out (\<lambda>w. w) [] ex_world ex_known = Ok (w', v)" "\<not> blocked v"
  proof -
    have "map_option (\<lambda>p. blocked (snd p)) (case BypassContains ex_out (\<lambda>w. w) [] ex_world ex_known of Ok p \<Rightarrow> Some p | _ \<Rightarrow> None) = Some False"
      by code_simp
    then show ?thesis using that by (auto split: go.splits)
  qed
  have "\<not> IsContainerAllowAll (sql_now ex_clock) ex_db ''web''" by code_simp
  with nothing_passes_without_reason [OF b] show ?thesis
    by (simp add: ex_request ex_fields)
qed



theorem log_matches_verdict_witness:
  "\<exists>w' v. BypassContains ex_out (\<lambda>w. w) [] ex_world ex_known = Ok (w', v) \<and>
     li_result (log_task v) = (if blocked v then ''blocked'' else ''allowed'')"
proof -
  have "(case BypassContains ex_out (\<lambda>w. w) [] ex_world ex_known of Ok _ \<Rightarrow> True | _ \<Rightarrow> False)" by code_simp
  then obtain w' v where "BypassContains ex_out (\<lambda>w. w) [] ex_world ex_known = Ok (w', v)"
    by (auto split: go.splits)
  with log_matches_verdict [OF this] show ?thesis by blast
qed

theorem user_name_is_container_name_witness:
  "identity ex_out \<lparr>req_addr = ''a:1'', req_client = fst (Authenticate (Some ''10.0.0.2:5000'') ''web'' ''pw''),
     req_src = Some ''10.0.0.2:5000'', req_service = ''http''\<rparr> = (''web'', [])"
proof -
  have "CHR ''|'' \<notin> set (extractClientIP (Some ''10.0.0.2:5000''))" by code_simp
  then show ?thesis using user_name_is_container_name [of "''web''" "Some ''10.0.0.2:5000''" ex_out] by (simp add: ex_out_def)
qed

section \<open>SOCKS5\<close>

definition ex_addr :: Addr where
  "ex_addr = \<lparr>addr_Type = AddrDomain, addr_Host = ''example.com'', addr_Port = 443\<rparr>"

lemma ex_addr_valid: "valid_addr ex_addr"
  by (simp add: valid_addr_def ex_addr_def)

theorem socks5_request_roundtrip_witness:
  "fst (ReadRequest (bytes_reader (message_bytes 1 ex_addr))) = Ok \<lparr>Cmd = 1, rq_Addr = Some ex_addr\<rparr>"
proof -
  have "Request_Write \<lparr>Cmd = 1, rq_Addr = Some ex_addr\<rparr> = Ok (message_bytes 1 ex_addr)"
    using Addr_Length_bounds(2) [OF ex_addr_valid]
    by (simp add: Request_Write_def Encode_def Addr_bytes_length message_bytes_def)
  from socks5_request_roundtrip [OF ex_addr_valid this, of "bytes_reader (message_bytes 1 ex_addr)" "[]"]
  show ?thesis by simp
qed

theorem socks5_request_overreads_witness:
  "\<exists>r'. ReadRequest (bytes_reader (message_bytes 1 ex_addr @ [7, 8])) = (Ok \<lparr>Cmd = 1, rq_Addr = Some ex_addr\<rparr>, r') \<and>
     rstream r' = []"
  using socks5_request_overreads [OF ex_addr_valid, of 1 "[7, 8]"]
  by (simp add: message_length Addr_Length_def checkType_def ex_addr_def)

theorem socks5_addresses_roundtrip_witness:
  "decodes (read_many Addr_ReadFrom 2) (Addr_bytes ex_addr @ Addr_bytes ex_addr) [ex_addr, ex_addr] []"
  using socks5_addresses_roundtrip [of "[ex_addr, ex_addr]" "[]"] by (simp add: ex_addr_valid numeral_2_eq_2)

theorem userpass_roundtrip_witness:
  "UserPassRequest_Write \<lparr>up_Version = UserPassVer, Username = ''web'', Password = ''pw''\<rparr> =
   Ok (UserPassRequest_bytes \<lparr>up_Version = UserPassVer, Username = ''web'', Password = ''pw''\<rparr>)"
  using userpass_roundtrip [of "\<lparr>up_Version = UserPassVer, Username = ''web'', Password = ''pw''\<rparr>"]
  by (simp add: valid_userpass_def)

theorem long_domain_panics_witness:
  "Addr_WriteTo \<lparr>addr_Type = AddrDomain, addr_Host = replicate 256 (CHR ''a''), addr_Port = 443\<rparr> = Panic \<and>
   Addr_WriteTo ex_addr \<noteq> Panic"
  using long_domain_panics [of ex_addr]
    long_domain_panics [of "\<lparr>addr_Type = AddrDomain, addr_Host = replicate 256 (CHR ''a''), addr_Port = 443\<rparr>"]
  by (simp add: ex_addr_def)

theorem udp_datagram_roundtrip_witness:
  "\<exists>bs. UDPDatagram_WriteTo \<lparr>ud_Header = Some \<lparr>Rsv = 0, Frag = 0, uh_Addr = Some ex_addr\<rparr>, ud_Data = [1, 2]\<rparr> = Ok bs \<and>
     fst (UDPDatagram_ReadFrom (bytes_reader bs)) =
       Ok \<lparr>ud_Header = Some \<lparr>Rsv = 0, Frag = 0, uh_Addr = Some ex_addr\<rparr>, ud_Data = [1, 2]\<rparr>"
proof -
  have "valid_header \<lparr>Rsv = 0, Frag = 0, uh_Addr = Some ex_addr\<rparr>" by (simp add: valid_header_def ex_addr_valid)
  from udp_datagram_roundtrip [OF this, of "[1, 2]"] show ?thesis by simp
qed

section \<open>Patterns\<close>

theorem destination_wildcards_witness:
  "MatchesDestination ''www.Example.com'' ''*.example.com'' \<and> \<not> MatchesDestination ''example.com'' ''*.example.com'' \<and>
   MatchesDestination ''example.com'' ''**.example.com''"
proof -
  have "CHR ''/'' \<notin> set ''example.com''" by simp
  note w = destination_wildcards [OF this]
  have "ToLower ''www.Example.com'' = ''www'' @ ''.'' @ ToLower ''example.com''" by code_simp
  with w [of "''www.Example.com''"] w [of "''example.com''"] show ?thesis by auto
qed

theorem blocks_and_ports_witness:
  "MatchesDestination (dotted [10, 1, 2, 3]) (dotted [10, 0, 0, 0] @ ''/'' @ show_nat 8) \<and>
   matchSinglePort 443 (Itoa 80 @ ''-'' @ Itoa 8080) \<and> \<not> matchSinglePort 9000 (Itoa 80 @ ''-'' @ Itoa 8080)"
proof -
  have "\<forall>i<8. addr_bit [10, 1, 2, 3] i = addr_bit [10, 0, 0, 0] i"
    by (simp add: addr_bit_def)
  with blocks_and_ports [of 8 80 8080 10 1 2 3 10 0 0 0 443] blocks_and_ports [of 8 80 8080 10 1 2 3 10 0 0 0 9000]
  show ?thesis by (simp add: maxInt_def)
qed

section \<open>TLS\<close>

definition ex_random :: Random where
  "ex_random = \<lparr>Time = 0, rnd_Opaque = replicate 28 0\<rparr>"

definition ex_hello :: ClientHelloMsg where
  "ex_hello = \<lparr>ch_Version = VersionTLS12, ch_Random = ex_random, ch_SessionID = [1, 2], ch_CipherSuites = [4865],
     ch_CompressionMethods = [0], ch_Extensions = [ServerNameExtension 0 ''example.com'', ALPNExtension [''h2'']]\<rparr>"

lemmas ex_hello_defs = VersionTLS10_def VersionTLS12_def VersionTLS13_def ex_random_def random_bytes_def exts_bytes_def
  ext_bytes_def alpn_bytes_def be24_def

theorem client_hello_is_understood_witness:
  "fst (ParseClientHello (bytes_reader (Record_WriteTo \<lparr>rec_Type = Handshake, rec_Version = VersionTLS10,
       Opaque = ClientHello_WriteTo ex_hello\<rparr> @ []))) = Ok (client_info ex_hello) \<and>
     ServerName (client_info ex_hello) = ''example.com''"
proof -
  have v: "valid_client ex_hello" "length (ClientHello_WriteTo ex_hello) \<le> 65535"
    by (simp_all add: valid_client_def ClientHello_WriteTo_def client_payload_def ex_hello_def ex_hello_defs)
  have n: "server_names ex_hello = [''example.com'']" by (simp add: server_names_def ex_hello_def)
  note u = client_hello_is_understood [OF v, of VersionTLS10 "[]"]
  have "ServerName (client_info ex_hello) = ''example.com''"
    using u [THEN conjunct2, THEN conjunct1] unfolding n by simp
  with decodes_bytes_reader [OF u [THEN conjunct1]] show ?thesis by (rule conjI)
qed

definition ex_answer :: ServerHelloMsg where
  "ex_answer = \<lparr>sh_Version = VersionTLS12, sh_Random = ex_random, sh_SessionID = [1, 2], sh_CipherSuite = 4865,
     sh_CompressionMethod = 0, sh_Extensions = [SupportedVersionsExtension [VersionTLS13] True]\<rparr>"

theorem server_hello_is_understood_witness:
  "fst (ParseServerHello (bytes_reader (Record_WriteTo \<lparr>rec_Type = Handshake, rec_Version = VersionTLS10,
       Opaque = ServerHello_WriteTo ex_answer\<rparr> @ []))) = Ok (server_info ex_answer) \<and>
     si_SessionID (server_info ex_answer) = sh_SessionID ex_answer"
proof -
  have v: "valid_server ex_answer" "length (ServerHello_WriteTo ex_answer) \<le> 65535" "length ([2, 40] :: byte list) \<le> 65535"
    by (simp_all add: valid_server_def ServerHello_WriteTo_def server_payload_def ex_answer_def ex_hello_defs)
  note u = server_hello_is_understood [OF v, of VersionTLS10 "[]"]
  show ?thesis by (rule conjI [OF decodes_bytes_reader [OF u [THEN conjunct1]] u [THEN conjunct2, THEN conjunct1]])
qed

theorem extension_panics_exactly_witness: "NewExtension ExtALPN [0, 0] = Panic"
  using extension_panics_exactly [of ExtALPN "[0, 0]"] by (simp add: uint16_def)

theorem truncated_cipher_suites_panic_witness:
  "\<exists>bs r. length bs = 46 \<and> ParseClientHello (bytes_reader bs) = (Panic, r)"
proof -
  let ?payload = "be16 VersionTLS12 @ random_bytes ex_random @ (of_nat (length ([] :: byte list)) # []) @ be16 2 @ []"
  have c: "VersionTLS10 \<le> VersionTLS12" "VersionTLS12 \<le> VersionTLS13" "length (rnd_Opaque ex_random) = 28"
    "length ([] :: byte list) \<le> 255" "length ([] :: byte list) < 2 * (unat (2 :: u16) div 2)" "length ?payload \<le> 65531"
    by (simp_all add: ex_hello_defs)
  let ?bs = "Record_WriteTo \<lparr>rec_Type = Handshake, rec_Version = VersionTLS10,
    Opaque = [ClientHello] @ be24 (length ?payload) @ ?payload\<rparr> @ []"
  have "length ?bs = 46" by (simp add: Record_WriteTo_def ex_hello_defs)
  moreover have "crashes ParseClientHello ?bs"
    by (rule truncated_cipher_suites_panic [OF c(1-5) refl c(6)])
  then have "fst (ParseClientHello (bytes_reader ?bs)) = Panic" by (simp add: crashes_def)
  ultimately show ?thesis by (metis prod.collapse)
qed

section \<open>Redaction\<close>

theorem secrets_are_redacted_witness:
  "\<exists>out. Redact (NewHeaderRedactor [''x-trace'']) (Some [(''X-Api-Key'', [''k1'']), (''Accept'', [''text''])]) = Some out \<and>
     (''X-Api-Key'', [RedactedValue]) \<in> set out \<and> (''Accept'', [''text'']) \<in> set out"
proof -
  let ?h = "[(''X-Api-Key'', [''k1'']), (''Accept'', [''text''])]"
  have "Contains (ToLower ''X-Api-Key'') ''api-key''" "\<not> isSensitive (NewHeaderRedactor [''x-trace'']) ''Accept''"
    by (code_simp, code_simp)
  moreover obtain out where o: "Redact (NewHeaderRedactor [''x-trace'']) (Some ?h) = Some out"
    by (simp add: Redact_def)
  ultimately show ?thesis
    using secrets_are_redacted [of "''X-Api-Key''" "[''k1'']" ?h "[''x-trace'']"]
      secrets_are_redacted [of "''Accept''" "[''text'']" ?h "[''x-trace'']"]
    by (intro exI [of _ out]) (simp add: o)
qed

section \<open>Credentials\<close>

definition ex_placeholder :: string where "ex_placeholder = ''greyproxy:credential:v1:s1:ab''"

definition ex_store :: CredentialStore where
  "ex_store = put_mappings ''s1'' [ex_placeholder \<mapsto> ''API_KEY''] [ex_placeholder \<mapsto> ''sk-1''] empty_store"

definition ex_http :: http_request where
  "ex_http = \<lparr>hr_Header = [(''Authorization'', [''Bearer '' @ ex_placeholder])], RawQuery = ''page=2''\<rparr>"

lemma ex_one: "one_placeholder ex_store (''Bearer '' @ ex_placeholder) ''Bearer sk-1''"
proof -
  have "cs_lookup ex_store = [ex_placeholder \<mapsto> ''sk-1'']" by (simp add: ex_store_def put_mappings_def empty_store_def)
  moreover have "Contains ex_placeholder PlaceholderPrefix" "\<not> Contains (''Bearer '' @ butlast ex_placeholder) ex_placeholder"
    "\<not> Contains (tl (ex_placeholder @ [])) ex_placeholder" by (code_simp, code_simp, code_simp)
  ultimately show ?thesis
    unfolding one_placeholder_def by (intro exI [of _ ex_placeholder] exI [of _ "''sk-1''"] exI [of _ "''Bearer ''"] exI [of _ "[]"]) simp
qed


definition ex_entropy :: entropy where
  "ex_entropy = \<lparr>e_id = Some [1], e_placeholder = Some [2], e_nonce = Some (replicate 12 3)\<rparr>"

definition ex_key :: "byte list" where "ex_key = replicate 32 7"

theorem global_credential_survives_restart_witness:
  "\<exists>creds' c. CreateGlobalCredential (\<lambda>_ _ p. p) ex_entropy ''2026-01-01 12:00:00'' ex_key [] \<lparr>gci_label = ''KEY'', gci_value = ''secret''\<rparr> =
      (creds', Ok c) \<and>
    cs_lookup (NewCredentialStore (\<lambda>_ _ c. Some c) (\<lambda>_. Fail EOF) (\<lambda>_. False) ex_key ex_db creds') (gc_placeholder c) = Some ''secret''"
proof -
  let ?create = "CreateGlobalCredential (\<lambda>_ _ p. p) ex_entropy ''2026-01-01 12:00:00'' ex_key [] \<lparr>gci_label = ''KEY'', gci_value = ''secret''\<rparr>"
  obtain creds' c where c: "?create = (creds', Ok c)"
    by (simp add: CreateGlobalCredential_def ex_entropy_def ex_key_def generateCredentialID_def GeneratePlaceholder_def
        Encrypt_def key_size_ok_def insert_global_def GetGlobalCredential_def)
  have "aead_ok (\<lambda>_ _ p. p) (\<lambda>_ _ c. Some c)" "globals_ok []" by (simp_all add: aead_ok_def globals_ok_def)
  from global_credential_survives_restart [OF this c, of "replicate 12 3" "\<lambda>_. Fail EOF" "\<lambda>_. False" ex_db] c show ?thesis
    by (simp add: ex_entropy_def gcm_nonce_size_def)
qed

section \<open>The REST interface\<close>

definition ex_env :: api_env where
  "ex_env = \<lparr>a_clock = ex_clock, a_time = 0, a_sort = insertion_sort, a_marshal = (\<lambda>_. ''null''), a_unmarshal = (\<lambda>_. Fail EOF),
     a_seal = (\<lambda>_ _ p. p), a_entropy = ex_entropy, a_key = ex_key, a_ParseDuration = (\<lambda>_. Fail EOF)\<rparr>"

definition ex_shared :: Shared where
  "ex_shared = \<lparr>s_db = ex_db, s_creds = [], s_bus = ex_bus, s_conns = None, s_cancelled = {},
     s_store = Some (NewCredentialStore (\<lambda>_ _ c. Some c) (\<lambda>_. Fail EOF) (\<lambda>_. False) ex_key ex_db []), s_silent = NewAllowAllManager\<rparr>"

lemma ex_shared_ok: "shared_ok ex_shared"
  using ex_db_ok ex_bus_ok NewCredentialStore_backed by (simp add: shared_ok_def ex_shared_def globals_ok_def)

theorem api_answers_every_request_witness:
  "\<exists>s' r. handle ex_env ex_shared (AllowPendingReq ''1'' (Inl EOF)) = (s', Ok r) \<and> shared_ok (fst (serve ex_env ex_shared (DeletePendingReq ''1'')))"
  using api_answers_every_request [OF ex_shared_ok, of ex_env "AllowPendingReq ''1'' (Inl EOF)"]
    api_answers_every_request [OF ex_shared_ok, of ex_env "DeletePendingReq ''1''"] by auto

section \<open>Middlewares\<close>

definition ex_mw_request :: mw_request where
  "ex_mw_request = \<lparr>mr_Host = ''api.example.com'', mr_Path = ''/v1'', mr_Method = ''POST'',
     mr_Header = [(''Authorization'', [''Bearer x'']), (''Accept'', [''text''])], mr_Body = [1, 2]\<rparr>"

definition ex_cascade :: cascade_env where
  "ex_cascade = \<lparr>ce_compile = (\<lambda>_. None), ce_container = ''web'', ce_tls = True, ce_label = ''http-request'', ce_isLLM = False,
     ce_truncate = (\<lambda>b. b)\<rparr>"

definition ex_forger :: CascadeHook where
  "ex_forger = \<lparr>ch_Name = ''m'', ch_URL = ''ws://m'', ch_Filters = None, ask = (\<lambda>m. \<lparr>d_ID = ''1'', d_Action = ''rewrite'', d_StatusCode = 0,
     d_Body = None, d_Headers = [(''authorization'', [''Bearer y'']), (''x-tag'', [''1''])], d_Tags = [], d_Fallback = []\<rparr>)\<rparr>"

theorem middleware_cannot_forge_identity_witness:
  "map_of (mr_Header (fst (snd (runRequestCascade ex_cascade [ex_forger] 0 ex_mw_request)))) ''Authorization'' = Some [''Bearer x''] \<and>
   map_of (mr_Header (fst (snd (runRequestCascade ex_cascade [ex_forger] 0 ex_mw_request)))) ''X-Tag'' = Some [''1'']"
proof -
  have "CanonicalHeaderKey ''Authorization'' \<in> forbiddenRewriteHeaders" by code_simp
  from middleware_cannot_forge_identity [OF this, of ex_cascade "[ex_forger]" 0 ex_mw_request]
  have "map_of (mr_Header (fst (snd (runRequestCascade ex_cascade [ex_forger] 0 ex_mw_request)))) ''Authorization'' =
    map_of (mr_Header ex_mw_request) ''Authorization''" by blast
  moreover have "map_of (mr_Header (fst (snd (runRequestCascade ex_cascade [ex_forger] 0 ex_mw_request)))) ''X-Tag'' = Some [''1'']"
    by code_simp
  ultimately show ?thesis by (simp add: ex_mw_request_def)
qed


theorem negotiation_finds_highest_common_version_witness:
  "negotiateVersion 3 2 5 = Ok (Max ({1..3} \<inter> {2..5})) \<and> (\<exists>err. negotiateVersion 1 2 5 = Fail err)"
  using negotiation_finds_highest_common_version [of 3 2 5 2 5] negotiation_finds_highest_common_version [of 1 2 5 2 5] by simp

end
