(* ===== verification/WsFrame.thy ===== *)
theory WsFrame
  imports GoIO GoStrings
begin

text \<open>
  WebSocket frames: the header codec of \<^verbatim>\<open>internal/gostx/internal/util/ws/frame.go\<close>, and the relay of an
  intercepted WebSocket connection, \<^verbatim>\<open>copyWebsocketFrame\<close> and the loops around it, in the sniffer and in
  the HTTP handler. A relay reads a frame, records up to two megabytes of its payload, and writes the frame
  on. The lemmas say that headers survive the codec, that the relay forwards every byte and records
  the unmasked payload, and that it ends when its peer does.
\<close>

section \<open>Frame headers\<close>

record FrameHeader =
  Fin :: bool
  Rsv1 :: bool
  Rsv2 :: bool
  Rsv3 :: bool
  OpCode :: int
  PayloadLength :: int
  Masked :: bool
  MaskKey :: u32

definition zero_header :: FrameHeader where
  "zero_header = \<lparr>Fin = False, Rsv1 = False, Rsv2 = False, Rsv3 = False, OpCode = 0, PayloadLength = 0,
     Masked = False, MaskKey = 0\<rparr>"

definition ErrNegativePayload :: go_error where "ErrNegativePayload = GoErr ''received negative payload length''"

text \<open>The flags and the opcode of the first byte, and the mask flag of the second.\<close>

definition header_flags :: "byte \<Rightarrow> byte \<Rightarrow> FrameHeader \<Rightarrow> FrameHeader" where
  "header_flags b c h =
     h\<lparr>Fin := b AND 0x80 \<noteq> 0, Rsv1 := b AND 0x40 \<noteq> 0, Rsv2 := b AND 0x20 \<noteq> 0, Rsv3 := b AND 0x10 \<noteq> 0,
       OpCode := uint (b AND 0xF), Masked := c AND 0x80 \<noteq> 0\<rparr>"

text \<open>
  The payload length that the second byte announces, with the number of bytes the last read delivered; for
  a short length nothing more is read and that number is still the one of the first read.
\<close>

definition read_length :: "byte \<Rightarrow> (int \<times> int) rd" where
  "read_length c =
     (let payloadLength = c AND NOT 0x80 in
      if payloadLength < 126 then rret (uint payloadLength, 2)
      else if payloadLength = 126 then rbind (ReadFull 2) (\<lambda>buf. rret (uint (uint16 (buf ! 0) (buf ! 1)), 2))
      else rbind (ReadFull 8) (\<lambda>buf.
        rret (sint (uint64 (buf ! 0) (buf ! 1) (buf ! 2) (buf ! 3) (buf ! 4) (buf ! 5) (buf ! 6) (buf ! 7)), 8)))"

text \<open>\<^verbatim>\<open>n += int64(n)\<close> leaves the count at zero after the first read.\<close>

definition FrameHeader_ReadFrom :: "FrameHeader \<Rightarrow> (FrameHeader \<times> int) rd" where
  "FrameHeader_ReadFrom h =
     rbind (ReadFull 2) (\<lambda>buf.
     rbind (read_length (buf ! 1)) (\<lambda>(len, nn).
     let h' = (header_flags (buf ! 0) (buf ! 1) h)\<lparr>PayloadLength := len\<rparr> in
     if len < 0 then rfail ErrNegativePayload
     else if Masked h' then
       rbind (ReadFull 4) (\<lambda>key. rret (h'\<lparr>MaskKey := uint32 (key ! 3) (key ! 2) (key ! 1) (key ! 0)\<rparr>, nn + 4))
     else rret (h', nn)))"

definition header_Length :: "FrameHeader \<Rightarrow> int" where
  "header_Length h =
     2 + (if PayloadLength h > 65535 then 8 else if PayloadLength h > 125 then 2 else 0) + (if Masked h then 4 else 0)"

definition first_byte :: "FrameHeader \<Rightarrow> byte" where
  "first_byte h =
     (if Fin h then 0x80 else 0) OR (if Rsv1 h then 0x40 else 0) OR (if Rsv2 h then 0x20 else 0) OR
     (if Rsv3 h then 0x10 else 0) OR word_of_int (OpCode h)"

definition length_byte :: "FrameHeader \<Rightarrow> byte" where
  "length_byte h =
     (if Masked h then 0x80 else 0) OR
     (if PayloadLength h > 65535 then 127 else if PayloadLength h > 125 then 126
      else if PayloadLength h \<ge> 0 then word_of_int (PayloadLength h) else 0)"

definition FrameHeader_WriteTo :: "FrameHeader \<Rightarrow> byte list" where
  "FrameHeader_WriteTo h =
     [first_byte h, length_byte h] @
     (if PayloadLength h > 65535 then be64 (word_of_int (PayloadLength h))
      else if PayloadLength h > 125 then be16 (word_of_int (PayloadLength h)) else []) @
     (if Masked h then le32 (MaskKey h) else [])"

definition valid_frame_header :: "FrameHeader \<Rightarrow> bool" where
  "valid_frame_header h \<longleftrightarrow> 0 \<le> OpCode h \<and> OpCode h < 16 \<and> 0 \<le> PayloadLength h \<and> PayloadLength h \<le> maxInt \<and>
     (\<not> Masked h \<longrightarrow> MaskKey h = 0)"

section \<open>The header codec\<close>

lemma length_WriteTo: "int (length (FrameHeader_WriteTo h)) = header_Length h"
  by (simp add: FrameHeader_WriteTo_def header_Length_def)

lemma small_bits: "x < 2 ^ k \<Longrightarrow> k \<le> n \<Longrightarrow> \<not> bit (x :: nat) n"
  by (metis bit_take_bit_iff leD take_bit_nat_eq_self)

lemma small_word_bits: "0 \<le> x \<Longrightarrow> x < 2 ^ k \<Longrightarrow> k \<le> n \<Longrightarrow> \<not> bit (word_of_int x :: byte) n"
  using small_bits [of "nat x" k n] by (cases x) (simp_all add: bit_simps)

lemma flag_bits:
  "b AND 0x80 \<noteq> 0 \<longleftrightarrow> bit b 7" "b AND 0x40 \<noteq> 0 \<longleftrightarrow> bit b 6" "b AND 0x20 \<noteq> 0 \<longleftrightarrow> bit b 5"
  "b AND 0x10 \<noteq> 0 \<longleftrightarrow> bit b 4" for b :: byte
  using and_exp_eq_0_iff_not_bit [of b 7] and_exp_eq_0_iff_not_bit [of b 6]
    and_exp_eq_0_iff_not_bit [of b 5] and_exp_eq_0_iff_not_bit [of b 4] by simp_all

lemma first_byte_bits:
  assumes "0 \<le> OpCode h" "OpCode h < 16"
  shows "bit (first_byte h) 7 = Fin h" "bit (first_byte h) 6 = Rsv1 h" "bit (first_byte h) 5 = Rsv2 h"
    "bit (first_byte h) 4 = Rsv3 h" "uint (first_byte h AND 0xF) = OpCode h"
proof -
  have op: "\<not> bit (word_of_int (OpCode h) :: byte) n" if "4 \<le> n" for n
    using small_word_bits [of "OpCode h" 4 n] assms that by simp
  show "bit (first_byte h) 7 = Fin h" "bit (first_byte h) 6 = Rsv1 h" "bit (first_byte h) 5 = Rsv2 h"
    "bit (first_byte h) 4 = Rsv3 h"
    using op [of 7] op [of 6] op [of 5] op [of 4] by (simp_all add: first_byte_def bit_simps)
  have mask: "first_byte h AND 0xF = word_of_int (OpCode h)"
  proof (rule bit_word_eqI)
    fix n :: nat assume "n < LENGTH(8)"
    then consider "n = 0" | "n = 1" | "n = 2" | "n = 3" | "4 \<le> n" by (simp, linarith)
    then show "bit (first_byte h AND 0xF) n \<longleftrightarrow> bit (word_of_int (OpCode h) :: byte) n"
    proof cases
      case 5
      moreover have "\<not> bit (0xF :: byte) n" using 5 small_word_bits [of 15 4 n] by simp
      ultimately show ?thesis using op [of n] unfolding bit_and_iff by blast
    qed (simp_all add: first_byte_def bit_simps)
  qed
  show "uint (first_byte h AND 0xF) = OpCode h" unfolding mask using assms by (simp add: uint_word_of_int)
qed

lemma length_byte_bits:
  assumes "0 \<le> PayloadLength h"
  shows "bit (length_byte h) 7 = Masked h"
    "length_byte h AND NOT 0x80 =
       (if PayloadLength h > 65535 then 127 else if PayloadLength h > 125 then 126 else word_of_int (PayloadLength h))"
proof -
  let ?l = "if PayloadLength h > 65535 then 127 else if PayloadLength h > 125 then 126 else PayloadLength h"
  have l: "0 \<le> ?l" "?l < 2 ^ 7" using assms by auto
  have b: "length_byte h = (if Masked h then 0x80 else 0) OR word_of_int ?l" using assms by (simp add: length_byte_def)
  note hi = small_word_bits [OF l]
  show "bit (length_byte h) 7 = Masked h" unfolding b using hi [of 7] by (simp add: bit_simps)
  have "length_byte h AND NOT 0x80 = word_of_int ?l"
  proof (rule bit_word_eqI)
    fix n :: nat assume "n < LENGTH(8)"
    then consider "n < 7" | "n = 7" by (simp, linarith)
    then show "bit (length_byte h AND NOT 0x80) n \<longleftrightarrow> bit (word_of_int ?l :: byte) n"
    proof cases
      case 1
      then have "\<not> bit (0x80 :: byte) n"
        using bit_exp_iff [of 7 n, where 'a = byte] by simp
      with 1 show ?thesis unfolding b by (simp add: bit_simps)
    next
      case 2
      then show ?thesis unfolding b using hi [of n] by (simp add: bit_simps)
    qed
  qed
  then show "length_byte h AND NOT 0x80 =
       (if PayloadLength h > 65535 then 127 else if PayloadLength h > 125 then 126 else word_of_int (PayloadLength h))"
    by simp
qed

lemma flags_of_header:
  assumes "valid_frame_header h"
  shows "header_flags (first_byte h) (length_byte h) h0 =
    h0\<lparr>Fin := Fin h, Rsv1 := Rsv1 h, Rsv2 := Rsv2 h, Rsv3 := Rsv3 h, OpCode := OpCode h, Masked := Masked h\<rparr>"
  using assms first_byte_bits [of h] length_byte_bits(1) [of h]
  by (simp add: header_flags_def flag_bits valid_frame_header_def)

lemma decodes_be16:
  "decodes (rbind (ReadFull 2) (\<lambda>b. rret (f (uint16 (b ! 0) (b ! 1))))) (be16 k @ rest) (f k) rest"
  by (rule decodes_rbind [OF decodes_ReadFull, of _ "be16 k"]) (simp_all add: be16_def decodes_rret)

lemma decodes_be64:
  "decodes (rbind (ReadFull 8) (\<lambda>b. rret (f (uint64 (b ! 0) (b ! 1) (b ! 2) (b ! 3) (b ! 4) (b ! 5) (b ! 6) (b ! 7)))))
    (be64 k @ rest) (f k) rest"
  by (rule decodes_rbind [OF decodes_ReadFull, of _ "be64 k"]) (simp_all add: be64_def decodes_rret)

lemma decodes_le32:
  "decodes (rbind (ReadFull 4) (\<lambda>key. rret (f (uint32 (key ! 3) (key ! 2) (key ! 1) (key ! 0))))) (le32 k @ rest) (f k) rest"
  by (rule decodes_rbind [OF decodes_ReadFull, of _ "le32 k"]) (simp_all add: le32_def be32_def decodes_rret)

text \<open>The number of bytes that \<^verbatim>\<open>ReadFrom\<close> reports.\<close>

definition reported_length :: "FrameHeader \<Rightarrow> int" where
  "reported_length h = (if PayloadLength h > 65535 then 8 else 2) + (if Masked h then 4 else 0)"

lemma decodes_length:
  assumes "valid_frame_header h"
  shows "decodes (read_length (length_byte h))
    ((if PayloadLength h > 65535 then be64 (word_of_int (PayloadLength h))
      else if PayloadLength h > 125 then be16 (word_of_int (PayloadLength h)) else []) @ rest)
    (PayloadLength h, if PayloadLength h > 65535 then 8 else 2) rest"
proof -
  note b = length_byte_bits(2) [of h]
  have v: "0 \<le> PayloadLength h" "PayloadLength h \<le> maxInt" using assms by (simp_all add: valid_frame_header_def)
  consider "PayloadLength h > 65535" | "PayloadLength h > 125" "PayloadLength h \<le> 65535" | "PayloadLength h \<le> 125" by linarith
  then show ?thesis
  proof cases
    case 1
    then have s: "sint (word_of_int (PayloadLength h) :: u64) = PayloadLength h"
      using v by (simp add: sint_sbintrunc' signed_take_bit_int_eq_self maxInt_def)
    from 1 show ?thesis
      unfolding read_length_def Let_def b [OF v(1)]
      using decodes_be64 [of "\<lambda>w. (sint w, 8)" "word_of_int (PayloadLength h)" rest] by (simp add: s)
  next
    case 2
    then have "uint (word_of_int (PayloadLength h) :: u16) = PayloadLength h" by (simp add: uint_word_of_int)
    with 2 show ?thesis
      unfolding read_length_def Let_def b [OF v(1)]
      using decodes_be16 [of "\<lambda>w. (uint w, 2)" "word_of_int (PayloadLength h)" rest] by simp
  next
    case 3
    then have "uint (word_of_int (PayloadLength h) :: byte) = PayloadLength h" using v by (simp add: uint_word_of_int)
    moreover from this have "(word_of_int (PayloadLength h) :: byte) < 126" using 3 by (simp add: word_less_def)
    ultimately show ?thesis using 3 unfolding read_length_def Let_def b [OF v(1)] by (simp add: decodes_rret)
  qed
qed

lemma decodes_frame_header:
  assumes "valid_frame_header h"
  shows "decodes (FrameHeader_ReadFrom zero_header) (FrameHeader_WriteTo h @ rest) (h, reported_length h) rest"
proof -
  let ?len = "if PayloadLength h > 65535 then be64 (word_of_int (PayloadLength h))
      else if PayloadLength h > 125 then be16 (word_of_int (PayloadLength h)) else []"
  let ?key = "if Masked h then le32 (MaskKey h) else []"
  have s: "FrameHeader_WriteTo h @ rest = [first_byte h, length_byte h] @ ?len @ ?key @ rest"
    by (simp add: FrameHeader_WriteTo_def)
  have z: "zero_header\<lparr>Fin := Fin h, Rsv1 := Rsv1 h, Rsv2 := Rsv2 h, Rsv3 := Rsv3 h, OpCode := OpCode h,
      Masked := True, PayloadLength := PayloadLength h, MaskKey := MaskKey h\<rparr> = h" if "Masked h"
    using that by (cases h) (simp add: zero_header_def)
  have z': "zero_header\<lparr>Fin := Fin h, Rsv1 := Rsv1 h, Rsv2 := Rsv2 h, Rsv3 := Rsv3 h, OpCode := OpCode h,
      Masked := False, PayloadLength := PayloadLength h\<rparr> = h" if "\<not> Masked h"
    using assms that by (cases h) (simp add: zero_header_def valid_frame_header_def)
  let ?k = "\<lambda>(len, nn).
     let h' = (header_flags (first_byte h) (length_byte h) zero_header)\<lparr>PayloadLength := len\<rparr> in
     if len < 0 then rfail ErrNegativePayload
     else if Masked h' then
       rbind (ReadFull 4) (\<lambda>key. rret (h'\<lparr>MaskKey := uint32 (key ! 3) (key ! 2) (key ! 1) (key ! 0)\<rparr>, nn + 4))
     else rret (h', nn)"
  have "0 \<le> PayloadLength h" using assms by (simp add: valid_frame_header_def)
  then have "decodes (?k (PayloadLength h, if PayloadLength h > 65535 then 8 else 2)) (?key @ rest) (h, reported_length h) rest"
    using decodes_le32 [of "\<lambda>k. (zero_header\<lparr>Fin := Fin h, Rsv1 := Rsv1 h, Rsv2 := Rsv2 h, Rsv3 := Rsv3 h, OpCode := OpCode h,
      Masked := True, PayloadLength := PayloadLength h, MaskKey := k\<rparr>, reported_length h)" "MaskKey h" rest] z z'
    by (cases "Masked h") (auto simp: flags_of_header [OF assms] reported_length_def decodes_rret)
  with decodes_length [OF assms] have "decodes (rbind (read_length (length_byte h)) ?k) (?len @ ?key @ rest) (h, reported_length h) rest"
    by (rule decodes_rbind)
  then show ?thesis
    unfolding s FrameHeader_ReadFrom_def by (intro decodes_rbind [OF decodes_ReadFull]) simp_all
qed

definition read_header :: "FrameHeader rd" where
  "read_header = rbind (FrameHeader_ReadFrom zero_header) (\<lambda>(h, n). rret h)"

lemma decodes_read_header: "valid_frame_header h \<Longrightarrow> decodes read_header (FrameHeader_WriteTo h @ rest) h rest"
  unfolding read_header_def by (rule decodes_rbind [OF decodes_frame_header]) (simp_all add: decodes_rret)

interpretation frame_codec: stream_codec FrameHeader_WriteTo read_header valid_frame_header
  by unfold_locales (rule decodes_read_header)

section \<open>Relaying a connection\<close>

definition DefaultBodySize :: int where "DefaultBodySize = 2 * 1024 * 1024"
definition MaxBodySize :: int where "MaxBodySize = 2 * 1024 * 1024"

text \<open>What the sniffer is configured with: the recorder's options and which hooks are set.\<close>

record RecorderOptions =
  ro_HTTPBody :: bool
  ro_MaxBodySize :: int

record sniffer_hooks =
  sn_RecorderOptions :: "RecorderOptions option"
  sn_OnHTTPRoundTrip :: bool
  sn_HTTPRoundTripHook :: bool
  sn_WebSocketFrameHook :: bool

record WebsocketRecorderObject =
  wr_From :: string
  wr_Header :: FrameHeader
  wr_Payload :: "byte list option"
  wr_InputBytes :: u64
  wr_OutputBytes :: u64

text \<open>
  One frame: the outcome, the bytes written to the other side, the contents of the buffer that all frames of
  a connection share, and the payload handed to the frame hook.
\<close>

record ws_copy =
  wc_result :: "WebsocketRecorderObject go"
  wc_out :: "byte list"
  wc_buf :: "byte list"
  wc_hook :: "byte list option"

text \<open>
  \<^verbatim>\<open>io.Copy\<close> from \<^verbatim>\<open>io.LimitReader(r, n)\<close>: the bytes copied, the error if the reader fails before the limit
  with anything but \<^verbatim>\<open>io.EOF\<close>, and the reader after it.
\<close>

definition copy_limited :: "nat \<Rightarrow> reader \<Rightarrow> byte list \<times> go_error option \<times> reader" where
  "copy_limited n r =
     (case fill n n [] (rchunks r) of
        (b, cs) \<Rightarrow> (b, if length b < n \<and> rend r \<noteq> EOF then Some (rend r) else None, r\<lparr>rchunks := cs\<rparr>))"

definition mask_bytes :: "u32 \<Rightarrow> byte list" where
  "mask_bytes k = [ucast k, ucast (drop_bit 8 k), ucast (drop_bit 16 k), ucast (drop_bit 24 k)]"

definition unmask :: "u32 \<Rightarrow> byte list \<Rightarrow> byte list" where
  "unmask k payload = map (\<lambda>i. payload ! i XOR mask_bytes k ! (i mod 4)) [0..<length payload]"

definition capturePayload :: "sniffer_hooks \<Rightarrow> bool" where
  "capturePayload s \<longleftrightarrow>
     (case sn_RecorderOptions s of Some opts \<Rightarrow> ro_HTTPBody opts | None \<Rightarrow> False) \<or>
     sn_OnHTTPRoundTrip s \<or> sn_HTTPRoundTripHook s \<or> sn_WebSocketFrameHook s"

definition bodySize :: "sniffer_hooks \<Rightarrow> int" where
  "bodySize s =
     (let n = (case sn_RecorderOptions s of
                 Some opts \<Rightarrow> if ro_MaxBodySize opts > 0 then ro_MaxBodySize opts else DefaultBodySize
               | None \<Rightarrow> DefaultBodySize)
      in if n > MaxBodySize then MaxBodySize else n)"

definition ws_record :: "string \<Rightarrow> FrameHeader \<Rightarrow> byte list option \<Rightarrow> WebsocketRecorderObject" where
  "ws_record from h payload =
     (let len = word_of_int (header_Length h) + word_of_int (PayloadLength h) in
      \<lparr>wr_From = from, wr_Header = h, wr_Payload = payload,
       wr_InputBytes = if from = ''client'' then len else 0, wr_OutputBytes = if from = ''client'' then 0 else len\<rparr>)"

text \<open>
  The end of both relays: the header, the buffer and what is left of the payload are written, and the
  frame is recorded.
\<close>

definition forward_frame ::
  "string \<Rightarrow> FrameHeader \<Rightarrow> byte list option \<Rightarrow> byte list option \<Rightarrow> byte list \<Rightarrow> nat \<Rightarrow> reader \<Rightarrow> ws_copy \<times> reader" where
  "forward_frame from h payload hook buf left r =
     (case copy_limited left r of
        (rest, err, r') \<Rightarrow>
          (\<lparr>wc_result = (case err of None \<Rightarrow> Ok (ws_record from h payload) | Some e \<Rightarrow> Fail e),
            wc_out = FrameHeader_WriteTo h @ buf @ rest, wc_buf = buf, wc_hook = hook\<rparr>, r'))"

definition copyWebsocketFrame :: "sniffer_hooks \<Rightarrow> string \<Rightarrow> byte list \<Rightarrow> reader \<Rightarrow> ws_copy \<times> reader" where
  "copyWebsocketFrame s from buf r =
     (case read_header r of
        (Fail e, r1) \<Rightarrow> (\<lparr>wc_result = Fail e, wc_out = [], wc_buf = buf, wc_hook = None\<rparr>, r1)
      | (Panic, r1) \<Rightarrow> (\<lparr>wc_result = Panic, wc_out = [], wc_buf = buf, wc_hook = None\<rparr>, r1)
      | (Ok h, r1) \<Rightarrow>
          if capturePayload s then
            (case copy_limited (min (nat (bodySize s)) (nat (PayloadLength h))) r1 of
               (b, Some e, r2) \<Rightarrow> (\<lparr>wc_result = Fail e, wc_out = [], wc_buf = b, wc_hook = None\<rparr>, r2)
             | (b, None, r2) \<Rightarrow>
                 let payload = (if Masked h then unmask (MaskKey h) b else b) in
                 forward_frame from h (Some payload) (if sn_WebSocketFrameHook s then Some payload else None) b
                   (nat (PayloadLength h) - length b) r2)
          else forward_frame from h None None buf (nat (PayloadLength h)) r1)"

text \<open>The HTTP handler has its own copy: it records only when the recorder wants bodies, and it does not unmask.\<close>

definition handler_bodySize :: "RecorderOptions \<Rightarrow> int" where
  "handler_bodySize opts =
     (let n = (if ro_MaxBodySize opts \<le> 0 then DefaultBodySize else ro_MaxBodySize opts)
      in if n > MaxBodySize then MaxBodySize else n)"

definition handler_copyWebsocketFrame :: "RecorderOptions option \<Rightarrow> string \<Rightarrow> byte list \<Rightarrow> reader \<Rightarrow> ws_copy \<times> reader" where
  "handler_copyWebsocketFrame rec_opts from buf r =
     (case read_header r of
        (Fail e, r1) \<Rightarrow> (\<lparr>wc_result = Fail e, wc_out = [], wc_buf = buf, wc_hook = None\<rparr>, r1)
      | (Panic, r1) \<Rightarrow> (\<lparr>wc_result = Panic, wc_out = [], wc_buf = buf, wc_hook = None\<rparr>, r1)
      | (Ok h, r1) \<Rightarrow>
          (case rec_opts of
             Some opts \<Rightarrow>
               if ro_HTTPBody opts then
                 (case copy_limited (min (nat (handler_bodySize opts)) (nat (PayloadLength h))) r1 of
                    (b, Some e, r2) \<Rightarrow> (\<lparr>wc_result = Fail e, wc_out = [], wc_buf = b, wc_hook = None\<rparr>, r2)
                  | (b, None, r2) \<Rightarrow> forward_frame from h (Some b) None b (nat (PayloadLength h) - length b) r2)
               else forward_frame from h None None buf (nat (PayloadLength h)) r1
           | None \<Rightarrow> forward_frame from h None None buf (nat (PayloadLength h)) r1))"

text \<open>
  One direction of \<^verbatim>\<open>sniffingWebsocketFrame\<close>: frames are copied until one fails. The result is all that was
  written, the recorded frames and the error that ended the loop; a loop that never ends has none.
\<close>

partial_function (option) relay ::
  "(byte list \<Rightarrow> reader \<Rightarrow> ws_copy \<times> reader) \<Rightarrow> byte list \<Rightarrow> reader \<Rightarrow>
   (byte list \<times> WebsocketRecorderObject list \<times> unit go) option" where
  "relay copy buf r =
     (case copy buf r of
        (c, r') \<Rightarrow>
          (case wc_result c of
             Ok ob \<Rightarrow> Option.bind (relay copy (wc_buf c) r') (\<lambda>(out, obs, e). Some (wc_out c @ out, ob # obs, e))
           | Fail e \<Rightarrow> Some (wc_out c, [], Fail e)
           | Panic \<Rightarrow> Some (wc_out c, [], Panic)))"

section \<open>What a relay consumes\<close>

lemma copy_limited_spec:
  "\<exists>r'. copy_limited n r =
     (take n (rstream r), if length (rstream r) < n \<and> rend r \<noteq> EOF then Some (rend r) else None, r') \<and>
     rstream r' = drop n (rstream r) \<and> rend r' = rend r"
proof -
  obtain b cs where f: "fill n n [] (rchunks r) = (b, cs)" by fastforce
  have app: "rstream r = b @ concat cs" using fill_append [OF f] by (simp add: rstream_def)
  have cap: "length b \<le> n" using fill_cap [OF f] by simp
  have "b = take n (rstream r)"
  proof (cases "n \<le> length (rstream r)")
    case True
    then have "length b = n" using fill_min [OF f] cap by (simp add: rstream_def)
    with app show ?thesis by simp
  next
    case False
    then have "b = rstream r" using fill_short [OF f] by (simp add: rstream_def)
    with False show ?thesis by simp
  qed
  moreover from this app have "concat cs = drop n (rstream r)" by (metis append_eq_conv_conj append_take_drop_id cap drop_all length_take linorder_le_cases min.absorb2 min.absorb1)
  moreover have "length b < n \<longleftrightarrow> length (rstream r) < n" using calculation(1) by auto
  ultimately show ?thesis using f by (simp add: copy_limited_def rstream_def)
qed

text \<open>\<open>consumes m k\<close>: a successful run of \<open>m\<close> takes at least \<open>k\<close> bytes and keeps the reader's end.\<close>

definition consumes :: "'a rd \<Rightarrow> nat \<Rightarrow> bool" where
  "consumes m k \<longleftrightarrow> (\<forall>r a r'. m r = (Ok a, r') \<longrightarrow> length (rstream r') + k \<le> length (rstream r) \<and> rend r' = rend r)"

lemma consumes_rret: "consumes (rret a) 0"
  by (simp add: consumes_def rret_def)

lemma consumes_rfail: "consumes (rfail e) k"
  by (simp add: consumes_def rfail_def)

lemma consumes_ReadFull: "consumes (ReadFull n) n"
  unfolding consumes_def
proof (intro allI impI)
  fix r a r' assume m: "ReadFull n r = (Ok a, r')"
  show "length (rstream r') + n \<le> length (rstream r) \<and> rend r' = rend r"
  proof (cases "n \<le> length (rstream r)")
    case True
    then show ?thesis using ReadFull_enough [OF True] m by auto
  next
    case False
    then show ?thesis using ReadFull_short [of r n] m by auto
  qed
qed

lemma consumes_rbind:
  assumes "consumes m k" "\<And>a. consumes (f a) l"
  shows "consumes (rbind m f) (k + l)"
  using assms unfolding consumes_def rbind_def
  by (fastforce split: prod.splits go.splits)

lemma consumes_weaken: "consumes m k \<Longrightarrow> l \<le> k \<Longrightarrow> consumes m l"
  unfolding consumes_def by fastforce

lemma consumes_read_length: "consumes (read_length c) 0"
  unfolding read_length_def Let_def
  by (auto intro!: consumes_rret consumes_weaken [OF consumes_rbind [OF consumes_ReadFull consumes_rret]])

lemma consumes_read_header: "consumes read_header 2"
proof -
  have "consumes (let h' = (header_flags b c h)\<lparr>PayloadLength := len\<rparr> in
     if len < 0 then rfail ErrNegativePayload
     else if Masked h' then
       rbind (ReadFull 4) (\<lambda>key. rret (h'\<lparr>MaskKey := uint32 (key ! 3) (key ! 2) (key ! 1) (key ! 0)\<rparr>, nn + 4))
     else rret (h', nn)) 0" for b c h len and nn :: int
    unfolding Let_def
    by (auto intro!: consumes_rret consumes_rfail consumes_weaken [OF consumes_rbind [OF consumes_ReadFull consumes_rret]])
  then have "consumes (FrameHeader_ReadFrom h) (2 + (0 + 0))" for h
    unfolding FrameHeader_ReadFrom_def
    by (intro consumes_rbind consumes_ReadFull consumes_read_length) (auto split: prod.split)
  then have "consumes read_header (2 + 0)"
    unfolding read_header_def by (intro consumes_rbind) (auto split: prod.split intro: consumes_rret)
  then show ?thesis by simp
qed

lemma read_header_Ok:
  assumes "read_header r = (Ok h, r')"
  shows "length (rstream r') + 2 \<le> length (rstream r)" "rend r' = rend r"
  using consumes_read_header assms by (auto simp: consumes_def)

lemma read_header_end:
  assumes "rstream r = []"
  shows "\<exists>r'. read_header r = (Fail (rend r), r')"
proof -
  have "fst (ReadFull 2 r) = Fail (rend r)" using ReadFull_short [of r 2] assms by simp
  then show ?thesis
    by (cases "ReadFull 2 r") (simp add: read_header_def FrameHeader_ReadFrom_def rbind_def)
qed

lemma forward_frame_shrinks: "length (rstream (snd (forward_frame from h p k buf n r))) \<le> length (rstream r)"
  using copy_limited_spec [of n r] by (auto simp: forward_frame_def)

section \<open>The contract of a frame copier\<close>

text \<open>The bytes of a frame on the wire, and frames as the peer sends them.\<close>

definition frame_bytes :: "FrameHeader \<times> byte list \<Rightarrow> byte list" where
  "frame_bytes f = FrameHeader_WriteTo (fst f) @ snd f"

definition valid_frame :: "FrameHeader \<times> byte list \<Rightarrow> bool" where
  "valid_frame f \<longleftrightarrow> valid_frame_header (fst f) \<and> PayloadLength (fst f) = int (length (snd f))"

locale frame_relay =
  fixes copy :: "byte list \<Rightarrow> reader \<Rightarrow> ws_copy \<times> reader"
    and clean :: "byte list \<Rightarrow> bool"
    and kept :: "FrameHeader \<times> byte list \<Rightarrow> byte list option"
  assumes progress: "copy buf r = (c, r') \<Longrightarrow> wc_result c = Ok ob \<Longrightarrow> length (rstream r') + 2 \<le> length (rstream r)"
    and copies: "valid_frame f \<Longrightarrow> clean buf \<Longrightarrow> rstream r = frame_bytes f @ rest \<Longrightarrow>
      \<exists>c r' ob. copy buf r = (c, r') \<and> wc_result c = Ok ob \<and> wc_out c = frame_bytes f \<and> clean (wc_buf c) \<and>
        wr_Header ob = fst f \<and> wr_Payload ob = kept f \<and> rstream r' = rest \<and> rend r' = rend r"
    and stops: "rstream r = [] \<Longrightarrow> \<exists>c r'. copy buf r = (c, r') \<and> wc_result c = Fail (rend r) \<and> wc_out c = []"
begin

lemma relay_ends: "\<exists>out obs e. relay copy buf r = Some (out, obs, e) \<and> 2 * length obs \<le> length (rstream r)"
proof (induction "length (rstream r)" arbitrary: buf r rule: less_induct)
  case less
  obtain c r' where c: "copy buf r = (c, r')" by fastforce
  show ?case
  proof (cases "wc_result c")
    case (Ok ob)
    with progress [OF c] have p: "length (rstream r') + 2 \<le> length (rstream r)" by blast
    then obtain out obs e where "relay copy (wc_buf c) r' = Some (out, obs, e)" "2 * length obs \<le> length (rstream r')"
      using less [of r' "wc_buf c"] by auto
    with p show ?thesis using c Ok by (subst relay.simps) simp
  qed (subst relay.simps, simp add: c)+
qed

lemma relay_transparent:
  assumes "list_all valid_frame fs" "clean buf" "rstream r = concat (map frame_bytes fs)"
  shows "\<exists>obs. relay copy buf r = Some (rstream r, obs, Fail (rend r)) \<and>
    map wr_Header obs = map fst fs \<and> map wr_Payload obs = map kept fs"
  using assms
proof (induction fs arbitrary: buf r)
  case Nil
  then obtain c r' where "copy buf r = (c, r')" "wc_result c = Fail (rend r)" "wc_out c = []" using stops [of r buf] by auto
  with Nil show ?case by (subst relay.simps) simp
next
  case (Cons f fs)
  have s: "rstream r = frame_bytes f @ concat (map frame_bytes fs)" using Cons.prems(3) by simp
  obtain c r' ob where c: "copy buf r = (c, r')" "wc_result c = Ok ob" "wc_out c = frame_bytes f" "clean (wc_buf c)"
      "wr_Header ob = fst f" "wr_Payload ob = kept f" "rstream r' = concat (map frame_bytes fs)" "rend r' = rend r"
    using copies [OF _ Cons.prems(2) s] Cons.prems(1) by auto
  obtain obs where "relay copy (wc_buf c) r' = Some (rstream r', obs, Fail (rend r))"
      "map wr_Header obs = map fst fs" "map wr_Payload obs = map kept fs"
    using Cons.IH [OF _ c(4,7)] Cons.prems(1) c(8) by auto
  with c s show ?case by (subst relay.simps) simp
qed

end

lemma forward_frame_whole:
  assumes "rstream r = p @ rest" "n = length p"
  shows "\<exists>c r'. forward_frame from h pl k buf n r = (c, r') \<and> wc_result c = Ok (ws_record from h pl) \<and>
    wc_out c = FrameHeader_WriteTo h @ buf @ p \<and> wc_buf c = buf \<and> rstream r' = rest \<and> rend r' = rend r"
  using copy_limited_spec [of n r] assms by (auto simp: forward_frame_def)

lemma ws_record_sel [simp]: "wr_Header (ws_record from h p) = h" "wr_Payload (ws_record from h p) = p"
  by (simp_all add: ws_record_def Let_def)

lemma valid_frame_read:
  assumes "valid_frame f" "rstream r = frame_bytes f @ rest"
  shows "\<exists>r1. read_header r = (Ok (fst f), r1) \<and> rstream r1 = snd f @ rest \<and> rend r1 = rend r"
  using decodes_read_header [of "fst f" "snd f @ rest"] assms
  by (auto simp: decodes_def valid_frame_def frame_bytes_def)

text \<open>The part of a copier after the header, when the payload is captured up to a limit.\<close>

lemma capture_then_forward:
  assumes "rstream r1 = p @ rest" "length p = n"
  obtains r2 where "copy_limited (min k n) r1 = (take k p, None, r2)" "rstream r2 = drop k p @ rest" "rend r2 = rend r1"
proof -
  have "take (min k n) (p @ rest) = take k p" "drop (min k n) (p @ rest) = drop k p @ rest"
    using assms(2) by (auto simp: min_def)
  with assms that copy_limited_spec [of "min k n" r1] show thesis by auto
qed

text \<open>Both copiers capture up to a limit, or not at all, and show the captured bytes in their own way.\<close>

definition copy_frame ::
  "nat option \<Rightarrow> (FrameHeader \<Rightarrow> byte list \<Rightarrow> byte list) \<Rightarrow> bool \<Rightarrow> string \<Rightarrow> byte list \<Rightarrow> reader \<Rightarrow> ws_copy \<times> reader" where
  "copy_frame cap shown hooked from buf r =
     (case read_header r of
        (Fail e, r1) \<Rightarrow> (\<lparr>wc_result = Fail e, wc_out = [], wc_buf = buf, wc_hook = None\<rparr>, r1)
      | (Panic, r1) \<Rightarrow> (\<lparr>wc_result = Panic, wc_out = [], wc_buf = buf, wc_hook = None\<rparr>, r1)
      | (Ok h, r1) \<Rightarrow>
          (case cap of
             None \<Rightarrow> forward_frame from h None None buf (nat (PayloadLength h)) r1
           | Some k \<Rightarrow>
               (case copy_limited (min k (nat (PayloadLength h))) r1 of
                  (b, Some e, r2) \<Rightarrow> (\<lparr>wc_result = Fail e, wc_out = [], wc_buf = b, wc_hook = None\<rparr>, r2)
                | (b, None, r2) \<Rightarrow>
                    forward_frame from h (Some (shown h b)) (if hooked then Some (shown h b) else None) b
                      (nat (PayloadLength h) - length b) r2)))"

definition sniffer_limit :: "sniffer_hooks \<Rightarrow> nat option" where
  "sniffer_limit s = (if capturePayload s then Some (nat (bodySize s)) else None)"

definition sniffer_shown :: "FrameHeader \<Rightarrow> byte list \<Rightarrow> byte list" where
  "sniffer_shown h b = (if Masked h then unmask (MaskKey h) b else b)"

definition handler_limit :: "RecorderOptions option \<Rightarrow> nat option" where
  "handler_limit rec_opts =
     (case rec_opts of Some opts \<Rightarrow> if ro_HTTPBody opts then Some (nat (handler_bodySize opts)) else None | None \<Rightarrow> None)"

lemma copyWebsocketFrame_eq:
  "copyWebsocketFrame s from = copy_frame (sniffer_limit s) sniffer_shown (sn_WebSocketFrameHook s) from"
  by (rule ext, rule ext)
     (simp add: copyWebsocketFrame_def copy_frame_def sniffer_limit_def sniffer_shown_def Let_def
        split: prod.split go.split option.split)

lemma handler_copyWebsocketFrame_eq:
  "handler_copyWebsocketFrame rec_opts from = copy_frame (handler_limit rec_opts) (\<lambda>h b. b) False from"
  by (rule ext, rule ext)
     (simp add: handler_copyWebsocketFrame_def copy_frame_def handler_limit_def split: prod.split go.split option.split)

definition kept :: "nat option \<Rightarrow> (FrameHeader \<Rightarrow> byte list \<Rightarrow> byte list) \<Rightarrow> FrameHeader \<times> byte list \<Rightarrow> byte list option" where
  "kept cap shown f = map_option (\<lambda>k. shown (fst f) (take k (snd f))) cap"

lemma copy_frame_progress:
  assumes "copy_frame cap shown hooked from buf r = (c, r')" "wc_result c = Ok ob"
  shows "length (rstream r') + 2 \<le> length (rstream r)"
proof -
  obtain h r1 where h: "read_header r = (Ok h, r1)"
    using assms by (auto simp: copy_frame_def split: prod.splits go.splits)
  have "length (rstream r') \<le> length (rstream r1)"
  proof (cases cap)
    case None
    then have "r' = snd (forward_frame from h None None buf (nat (PayloadLength h)) r1)"
      using assms(1) h by (simp add: copy_frame_def)
    then show ?thesis using forward_frame_shrinks by simp
  next
    case (Some k)
    obtain b e r2 where b: "copy_limited (min k (nat (PayloadLength h))) r1 = (b, e, r2)" by (metis prod_cases3)
    then have le: "length (rstream r2) \<le> length (rstream r1)"
      using copy_limited_spec [of "min k (nat (PayloadLength h))" r1] by auto
    show ?thesis
    proof (cases e)
      case None
      then have "r' = snd (forward_frame from h (Some (shown h b)) (if hooked then Some (shown h b) else None) b
          (nat (PayloadLength h) - length b) r2)" using assms(1) h b Some by (simp add: copy_frame_def)
      then show ?thesis using forward_frame_shrinks le le_trans by blast
    next
      case (Some x)
      then show ?thesis using assms h b \<open>cap = Some k\<close> by (auto simp: copy_frame_def)
    qed
  qed
  with read_header_Ok [OF h] show ?thesis by linarith
qed

lemma copy_frame_copies:
  assumes "valid_frame f" "cap = None \<Longrightarrow> buf = []" "rstream r = frame_bytes f @ rest"
  shows "\<exists>c r' ob. copy_frame cap shown hooked from buf r = (c, r') \<and> wc_result c = Ok ob \<and> wc_out c = frame_bytes f \<and>
      (cap = None \<longrightarrow> wc_buf c = []) \<and> wr_Header ob = fst f \<and> wr_Payload ob = kept cap shown f \<and>
      rstream r' = rest \<and> rend r' = rend r"
proof -
  obtain r1 where h: "read_header r = (Ok (fst f), r1)" "rstream r1 = snd f @ rest" "rend r1 = rend r"
    using valid_frame_read [OF assms(1,3)] by blast
  have n: "nat (PayloadLength (fst f)) = length (snd f)" using assms(1) by (simp add: valid_frame_def)
  show ?thesis
  proof (cases cap)
    case None
    then show ?thesis
      using h assms(2) forward_frame_whole [OF h(2) refl, of "from" "fst f" None None "[]"]
      by (auto simp: copy_frame_def n frame_bytes_def kept_def)
  next
    case (Some k)
    let ?b = "take k (snd f)"
    obtain r2 where r2: "copy_limited (min k (length (snd f))) r1 = (?b, None, r2)"
        "rstream r2 = drop k (snd f) @ rest" "rend r2 = rend r1"
      using capture_then_forward [OF h(2) refl] by blast
    have "length (snd f) - length ?b = length (drop k (snd f))" by simp
    with r2 Some show ?thesis
      using h forward_frame_whole [OF r2(2), of "length (snd f) - length ?b" "from" "fst f" "Some (shown (fst f) ?b)"
          "if hooked then Some (shown (fst f) ?b) else None" ?b]
      by (auto simp: copy_frame_def n frame_bytes_def kept_def)
  qed
qed

lemma copy_frame_relay: "frame_relay (copy_frame cap shown hooked from) (\<lambda>buf. cap = None \<longrightarrow> buf = []) (kept cap shown)"
proof
  show "\<exists>c r'. copy_frame cap shown hooked from buf r = (c, r') \<and> wc_result c = Fail (rend r) \<and> wc_out c = []"
    if "rstream r = []" for r buf
    using read_header_end [OF that] by (auto simp: copy_frame_def)
qed (use copy_frame_progress in blast, use copy_frame_copies in blast)

interpretation sniffer_relay: frame_relay "copyWebsocketFrame s from" "\<lambda>buf. sniffer_limit s = None \<longrightarrow> buf = []"
  "kept (sniffer_limit s) sniffer_shown"
  unfolding copyWebsocketFrame_eq by (rule copy_frame_relay)

interpretation handler_relay: frame_relay "handler_copyWebsocketFrame rec_opts from"
  "\<lambda>buf. handler_limit rec_opts = None \<longrightarrow> buf = []" "kept (handler_limit rec_opts) (\<lambda>h b. b)"
  unfolding handler_copyWebsocketFrame_eq by (rule copy_frame_relay)

section \<open>Masking\<close>

lemma unmask_twice [simp]: "unmask k (unmask k p) = p"
  by (rule nth_equalityI) (simp_all add: unmask_def xor.assoc)

lemma unmask_take: "unmask k (take n p) = take n (unmask k p)"
  by (rule nth_equalityI) (simp_all add: unmask_def)

lemma length_unmask [simp]: "length (unmask k p) = length p"
  by (simp add: unmask_def)

section \<open>Properties\<close>

text \<open>
  A frame header survives its encoding, alone and in a stream of headers cut into chunks at random; the
  length that \<^verbatim>\<open>ReadFrom\<close> reports is the length of the encoding, except that it is two bytes short for a frame
  whose length does not fit the second byte.
\<close>

theorem frame_header_roundtrip:
  assumes "list_all valid_frame_header hs" "rstream r = concat (map FrameHeader_WriteTo hs) @ rest"
  shows "(\<exists>r'. read_many read_header (length hs) r = (Ok hs, r') \<and> rstream r' = rest) \<and>
    (\<forall>h \<in> set hs. \<exists>r'. FrameHeader_ReadFrom zero_header (bytes_reader (FrameHeader_WriteTo h)) =
       (Ok (h, int (length (FrameHeader_WriteTo h)) - (if PayloadLength h > 125 then 2 else 0)), r'))"
proof (intro conjI ballI)
  show "\<exists>r'. read_many read_header (length hs) r = (Ok hs, r') \<and> rstream r' = rest"
    using frame_codec.dec_enc_stream [OF assms(1), of rest] assms(2) unfolding decodes_def by blast
next
  fix h assume "h \<in> set hs"
  with assms(1) have "valid_frame_header h" by (simp add: list_all_iff)
  from decodes_frame_header [OF this, of "[]"] obtain r' where
    "FrameHeader_ReadFrom zero_header (bytes_reader (FrameHeader_WriteTo h)) = (Ok (h, reported_length h), r')"
    unfolding decodes_def by (metis append_Nil2 rstream_bytes_reader(1))
  moreover have "reported_length h = header_Length h - (if PayloadLength h > 125 then 2 else 0)"
    by (simp add: reported_length_def header_Length_def)
  ultimately show "\<exists>r'. FrameHeader_ReadFrom zero_header (bytes_reader (FrameHeader_WriteTo h)) =
       (Ok (h, int (length (FrameHeader_WriteTo h)) - (if PayloadLength h > 125 then 2 else 0)), r')"
    by (simp add: length_WriteTo)
qed


text \<open>
  C31. A relay ends: whatever bytes a peer sends, the loop that copies its frames returns once the stream ends, after at most
  one frame for every two bytes, in the sniffer and in the HTTP handler.
\<close>

theorem websocket_relay_ends:
  "(\<exists>out obs e. relay (copyWebsocketFrame s from) buf r = Some (out, obs, e) \<and> 2 * length obs \<le> length (rstream r)) \<and>
   (\<exists>out obs e. relay (handler_copyWebsocketFrame rec_opts from) buf r = Some (out, obs, e) \<and> 2 * length obs \<le> length (rstream r))"
  using sniffer_relay.relay_ends handler_relay.relay_ends by blast

end
