(* ===== verification/EndpointRegistry.thy ===== *)
theory EndpointRegistry
  imports GoUrl "HOL-Library.Product_Lexorder"
begin

text \<open>
  Which traffic is decoded as a conversation, and how: the endpoint registry of
  \<^verbatim>\<open>internal/greyproxy/endpoint_registry.go\<close>, the dissectors it names (\<^verbatim>\<open>dissector/dissector.go\<close> and their
  \<^verbatim>\<open>CanHandle\<close>), and the REST handlers of \<^verbatim>\<open>api/endpoint_rules.go\<close>. The table \<^verbatim>\<open>endpoint_rules\<close> is a list of
  rows with the \<^verbatim>\<open>AUTOINCREMENT\<close> sequence; the registry caches its enabled rows in the order of the query. The
  lemmas say that the glob matcher decides exactly the language of its pattern, that the cache is the
  table's at all times and the shipped rules stay, and that the \<^verbatim>\<open>LIKE\<close> patterns of the assembler miss no URL that
  a rule matches.
\<close>

section \<open>Paths and globs\<close>

fun Index :: "string \<Rightarrow> string \<Rightarrow> nat option" where
  "Index [] p = (if p = [] then Some 0 else None)"
| "Index (c # s) p = (if HasPrefix (c # s) p then Some 0 else map_option Suc (Index s p))"

definition extractPath :: "string \<Rightarrow> string" where
  "extractPath url =
     (let url1 = (case Index url ''://'' of Some i \<Rightarrow> drop (i + 3) url | None \<Rightarrow> url);
          url2 = dropWhile (\<lambda>c. c \<noteq> CHR ''/'') url1
      in if url2 = [] then ''/'' else takeWhile (\<lambda>c. c \<noteq> CHR ''?'') url2)"

text \<open>The parts of a pattern after its first one: the middle parts in turn, then the suffix.\<close>

fun match_parts :: "string list \<Rightarrow> string \<Rightarrow> bool" where
  "match_parts [] s = True"
| "match_parts [p] s = HasSuffix s p"
| "match_parts (p # q # ps) s =
     (case Index s p of None \<Rightarrow> False | Some i \<Rightarrow> match_parts (q # ps) (drop (i + length p) s))"

definition matchGlob :: "string \<Rightarrow> string \<Rightarrow> bool" where
  "matchGlob pattern s =
     (if \<not> Contains pattern ''*'' then pattern = s
      else case Split (CHR ''*'') pattern of
             [] \<Rightarrow> True
           | p # ps \<Rightarrow> HasPrefix s p \<and> match_parts ps (drop (length p) s))"

text \<open>The language of a pattern: a star stands for any string.\<close>

fun star_match :: "string \<Rightarrow> string \<Rightarrow> bool" where
  "star_match [] s \<longleftrightarrow> s = []"
| "star_match (c # p) [] \<longleftrightarrow> c = CHR ''*'' \<and> star_match p []"
| "star_match (c # p) (d # s) \<longleftrightarrow>
     (if c = CHR ''*'' then star_match p (d # s) \<or> star_match (c # p) s else c = d \<and> star_match p s)"

section \<open>Matching is exact\<close>

lemma Index_Some: "Index s p = Some i \<Longrightarrow> \<exists>x t. s = x @ p @ t \<and> length x = i"
proof (induction s arbitrary: i)
  case (Cons c s)
  show ?case
  proof (cases "HasPrefix (c # s) p")
    case True
    then show ?thesis using Cons.prems by (auto simp: HasPrefix_iff)
  next
    case False
    then obtain j where "Index s p = Some j" "i = Suc j" using Cons.prems by auto
    then show ?thesis using Cons.IH by (metis append_Cons length_Cons)
  qed
qed (simp split: if_splits)

lemma Index_leftmost: "s = x @ p @ t \<Longrightarrow> \<exists>i. Index s p = Some i \<and> i \<le> length x"
proof (induction s arbitrary: x)
  case (Cons c s)
  show ?case
  proof (cases x)
    case Nil
    then have "HasPrefix (c # s) p" using Cons.prems by (auto simp: HasPrefix_iff)
    then show ?thesis by simp
  next
    case (Cons d y)
    then have "s = y @ p @ t" using Cons.prems by simp
    then show ?thesis using Cons.IH [of y] Cons by auto
  qed
qed simp

text \<open>What the parts after a star may match: each somewhere to the right of the one before, the last at the end.\<close>

fun parts_spec :: "string list \<Rightarrow> string \<Rightarrow> bool" where
  "parts_spec [] s \<longleftrightarrow> True"
| "parts_spec [p] s \<longleftrightarrow> (\<exists>x. s = x @ p)"
| "parts_spec (p # q # ps) s \<longleftrightarrow> (\<exists>x t. s = x @ p @ t \<and> parts_spec (q # ps) t)"

lemma parts_spec_longer: "ps \<noteq> [] \<Longrightarrow> parts_spec ps t \<Longrightarrow> parts_spec ps (y @ t)"
  by (induction ps t rule: parts_spec.induct) (simp_all, (metis append_assoc)+)

text \<open>The leftmost occurrence of a part leaves the longest rest, so the greedy search is complete.\<close>

lemma match_parts_spec: "match_parts ps s \<longleftrightarrow> parts_spec ps s"
proof (induction ps s rule: match_parts.induct)
  case (3 p q ps s)
  show ?case
  proof
    assume m: "match_parts (p # q # ps) s"
    then obtain i where i: "Index s p = Some i" "match_parts (q # ps) (drop (i + length p) s)" by (auto split: option.splits)
    then obtain x t where "s = x @ p @ t" "length x = i" using Index_Some by blast
    with i 3 show "parts_spec (p # q # ps) s" by auto
  next
    assume "parts_spec (p # q # ps) s"
    then obtain x t where x: "s = x @ p @ t" "parts_spec (q # ps) t" by auto
    then obtain i where i: "Index s p = Some i" "i \<le> length x" using Index_leftmost by blast
    have "drop (i + length p) s = drop (i + length p) (x @ p) @ t" using x(1) i(2) by simp
    then have "parts_spec (q # ps) (drop (i + length p) s)" using parts_spec_longer x(2) by simp
    then show "match_parts (p # q # ps) s" using i 3 by simp
  qed
qed (auto simp: HasSuffix_iff)

lemma star_match_star: "star_match (CHR ''*'' # p) s \<longleftrightarrow> (\<exists>x t. s = x @ t \<and> star_match p t)"
proof (induction s)
  case (Cons d s)
  have "(\<exists>x t. d # s = x @ t \<and> star_match p t) \<longleftrightarrow> star_match p (d # s) \<or> (\<exists>x t. s = x @ t \<and> star_match p t)"
    by (auto simp: Cons_eq_append_conv)
  with Cons show ?case by simp
qed simp

lemma star_match_literal: "CHR ''*'' \<notin> set p \<Longrightarrow> star_match (p @ q) s \<longleftrightarrow> (\<exists>t. s = p @ t \<and> star_match q t)"
proof (induction p arbitrary: s)
  case (Cons c p)
  then show ?case by (cases s) auto
qed simp

lemma star_match_parts:
  assumes "list_all (\<lambda>p. CHR ''*'' \<notin> set p) (p # ps)" "ps \<noteq> []"
  shows "star_match (Join ''*'' (p # ps)) s \<longleftrightarrow> (\<exists>t. s = p @ t \<and> parts_spec ps t)"
  using assms
proof (induction ps arbitrary: p s)
  case (Cons q ps)
  have j: "Join ''*'' (p # q # ps) = p @ CHR ''*'' # Join ''*'' (q # ps)" by (simp add: Join_Cons)
  have lit: "CHR ''*'' \<notin> set p" using Cons.prems by simp
  show ?case
  proof (cases "ps = []")
    case True
    have "CHR ''*'' \<notin> set q" using Cons.prems by simp
    then have "star_match q t \<longleftrightarrow> t = q" for t using star_match_literal [of q "[]" t] by auto
    with True show ?thesis unfolding j star_match_literal [OF lit] star_match_star by auto
  next
    case False
    then obtain p' ps' where "ps = p' # ps'" by (cases ps) auto
    moreover have "star_match (Join ''*'' (q # ps)) t \<longleftrightarrow> (\<exists>u. t = q @ u \<and> parts_spec ps u)" for t
      using Cons.IH [of q t] Cons.prems False by simp
    ultimately show ?thesis unfolding j star_match_literal [OF lit] star_match_star by auto
  qed
qed simp

lemma Split_parts: "list_all (\<lambda>p. x \<notin> set p) (Split x s)"
  by (induction x s rule: Split.induct) (auto split: list.splits)

lemma Split_two: "x \<in> set s \<Longrightarrow> \<exists>p q ps. Split x s = p # q # ps"
  by (induction x s rule: Split.induct) (auto split: list.splits)

lemma matchGlob_star: "matchGlob p s \<longleftrightarrow> star_match p s"
proof (cases "CHR ''*'' \<in> set p")
  case True
  then obtain a b ps where sp: "Split (CHR ''*'') p = a # b # ps" using Split_two by blast
  have "p = Join ''*'' (a # b # ps)" using Join_Split [of "CHR ''*''" p] sp by simp
  moreover have "list_all (\<lambda>q. CHR ''*'' \<notin> set q) (a # b # ps)" using Split_parts [of "CHR ''*''" p] sp by simp
  ultimately have "star_match p s \<longleftrightarrow> (\<exists>t. s = a @ t \<and> parts_spec (b # ps) t)" using star_match_parts by blast
  with True sp show ?thesis
    by (auto simp: matchGlob_def Contains_single HasPrefix_iff match_parts_spec)
next
  case False
  then have "star_match p s \<longleftrightarrow> s = p" using star_match_literal [of p "[]" s] by auto
  with False show ?thesis by (auto simp: matchGlob_def Contains_single)
qed

section \<open>Dissectors\<close>

datatype dissector = AnthropicDissector | OpenAIDissector | GoogleAIDissector | OpenAIChatDissector | OpenAIWSDissector

fun dissector_Name :: "dissector \<Rightarrow> string" where
  "dissector_Name AnthropicDissector = ''anthropic''"
| "dissector_Name OpenAIDissector = ''openai''"
| "dissector_Name GoogleAIDissector = ''google-ai''"
| "dissector_Name OpenAIChatDissector = ''openai-chat''"
| "dissector_Name OpenAIWSDissector = ''openai-ws''"

text \<open>\<^verbatim>\<open>url\<close> without its query string.\<close>

definition url_base :: "string \<Rightarrow> string" where
  "url_base url = takeWhile (\<lambda>c. c \<noteq> CHR ''?'') url"

fun CanHandle :: "dissector \<Rightarrow> string \<Rightarrow> string \<Rightarrow> string \<Rightarrow> bool" where
  "CanHandle AnthropicDissector url meth host \<longleftrightarrow> meth = ''POST'' \<and> url_base url = ''https://api.anthropic.com/v1/messages''"
| "CanHandle OpenAIDissector url meth host \<longleftrightarrow> meth = ''POST'' \<and> url_base url = ''https://api.openai.com/v1/responses''"
| "CanHandle GoogleAIDissector url meth host \<longleftrightarrow>
     meth = ''POST'' \<and> host = ''generativelanguage.googleapis.com'' \<and> Contains url ''/v1beta/models/''"
| "CanHandle OpenAIChatDissector url meth host \<longleftrightarrow>
     meth = ''POST'' \<and> (host = ''api.openai.com'' \<or> host = ''openrouter.ai'') \<and> HasSuffix (url_base url) ''/chat/completions''"
| "CanHandle OpenAIWSDissector url meth host \<longleftrightarrow>
     (meth = ''WS_REQ'' \<or> meth = ''WS_RESP'') \<and> Contains url ''api.openai.com'' \<and> Contains url ''/v1/responses''"

text \<open>The registry in the order in which the package's files register theirs.\<close>

definition registered :: "dissector list" where
  "registered = [AnthropicDissector, OpenAIDissector, GoogleAIDissector, OpenAIChatDissector, OpenAIWSDissector]"

definition FindDissector_fallback :: "string \<Rightarrow> string \<Rightarrow> string \<Rightarrow> dissector option" where
  "FindDissector_fallback url meth host = find (\<lambda>d. CanHandle d url meth host) registered"

definition FindDissectorByName :: "string \<Rightarrow> dissector option" where
  "FindDissectorByName name = find (\<lambda>d. dissector_Name d = name) registered"

section \<open>The registry\<close>

record EndpointRule =
  er_ID :: int
  HostPattern :: string
  PathPattern :: string
  er_Method :: string
  DecoderName :: string
  er_Priority :: int
  er_Enabled :: bool
  UserDefined :: bool

record EndpointTable =
  er_rows :: "EndpointRule list"
  er_seq :: int

record EndpointRegistry =
  reg_table :: EndpointTable
  reg_rules :: "EndpointRule list"

definition er_key :: "EndpointRule \<Rightarrow> string \<times> string \<times> string \<times> bool" where
  "er_key r = (HostPattern r, PathPattern r, er_Method r, UserDefined r)"

definition builtin :: "string \<Rightarrow> string \<Rightarrow> string \<Rightarrow> string \<Rightarrow> EndpointRule" where
  "builtin host path meth decoder =
     \<lparr>er_ID = 0, HostPattern = host, PathPattern = path, er_Method = meth, DecoderName = decoder, er_Priority = 0,
      er_Enabled = True, UserDefined = False\<rparr>"

definition builtinRules :: "EndpointRule list" where
  "builtinRules =
     [builtin ''api.anthropic.com'' ''/v1/messages'' ''POST'' ''anthropic'',
      builtin ''api.openai.com'' ''/v1/responses'' ''POST'' ''openai'',
      builtin ''api.openai.com'' ''/v1/responses'' ''WS_REQ'' ''openai-ws'',
      builtin ''api.openai.com'' ''/v1/responses'' ''WS_RESP'' ''openai-ws'',
      builtin ''api.openai.com'' ''/v1/chat/completions'' ''POST'' ''openai-chat'',
      builtin ''openrouter.ai'' ''/api/v1/chat/completions'' ''POST'' ''openai-chat'',
      builtin ''generativelanguage.googleapis.com'' ''/v1beta/models/*'' ''POST'' ''google-ai'']"

text \<open>
  \<^verbatim>\<open>INSERT ... ON CONFLICT DO UPDATE\<close>: a conflict on the unique index updates the row that is there. SQLite takes
  the next value of the sequence in both cases.
\<close>

definition upsert_builtin :: "EndpointTable \<Rightarrow> EndpointRule \<Rightarrow> EndpointTable" where
  "upsert_builtin t rule =
     (if er_key rule \<in> er_key ` set (er_rows t)
      then t\<lparr>er_rows := map (\<lambda>r. if er_key r = er_key rule
               then r\<lparr>DecoderName := DecoderName rule, er_Priority := er_Priority rule, er_Enabled := True\<rparr> else r) (er_rows t),
             er_seq := er_seq t + 1\<rparr>
      else t\<lparr>er_rows := er_rows t @ [rule\<lparr>er_ID := er_seq t + 1\<rparr>], er_seq := er_seq t + 1\<rparr>)"

definition seedBuiltinRules :: "EndpointTable \<Rightarrow> EndpointTable" where
  "seedBuiltinRules t = foldl upsert_builtin t builtinRules"

text \<open>\<^verbatim>\<open>WHERE enabled = 1 ORDER BY priority DESC, id ASC\<close>\<close>

definition enabled_rules :: "EndpointTable \<Rightarrow> EndpointRule list" where
  "enabled_rules t = sort_key (\<lambda>r. (- er_Priority r, er_ID r)) (filter er_Enabled (er_rows t))"

definition reload_rules :: "EndpointRegistry \<Rightarrow> EndpointRegistry" where
  "reload_rules reg = reg\<lparr>reg_rules := enabled_rules (reg_table reg)\<rparr>"

definition NewEndpointRegistry :: "EndpointTable \<Rightarrow> EndpointRegistry" where
  "NewEndpointRegistry t = reload_rules \<lparr>reg_table = seedBuiltinRules t, reg_rules = []\<rparr>"

definition rule_applies :: "string \<Rightarrow> string \<Rightarrow> string \<Rightarrow> EndpointRule \<Rightarrow> bool" where
  "rule_applies path meth host rule \<longleftrightarrow>
     \<not> (er_Method rule \<noteq> ''*'' \<and> er_Method rule \<noteq> meth) \<and> matchGlob (HostPattern rule) host \<and> matchGlob (PathPattern rule) path"

definition Registry_Match :: "EndpointRegistry \<Rightarrow> string \<Rightarrow> string \<Rightarrow> string \<Rightarrow> string" where
  "Registry_Match reg url meth host =
     (case find (rule_applies (extractPath url) meth host) (reg_rules reg) of
        Some rule \<Rightarrow> DecoderName rule
      | None \<Rightarrow> [])"

definition Registry_FindDissector :: "EndpointRegistry \<Rightarrow> string \<Rightarrow> string \<Rightarrow> string \<Rightarrow> dissector option" where
  "Registry_FindDissector reg url meth host =
     (let name = Registry_Match reg url meth host in
      case (if name \<noteq> [] then FindDissectorByName name else None) of
        Some d \<Rightarrow> Some d
      | None \<Rightarrow> FindDissector_fallback url meth host)"

definition url_pattern :: "EndpointRule \<Rightarrow> string" where
  "url_pattern rule =
     ''%'' @ ReplaceAll (HostPattern rule) ''*'' ''%'' @ ''%'' @ ReplaceAll (PathPattern rule) ''*'' ''%'' @ ''%''"

definition AllURLPatterns :: "EndpointRegistry \<Rightarrow> string list" where
  "AllURLPatterns reg =
     foldl (\<lambda>patterns rule. if url_pattern rule \<in> set patterns then patterns else patterns @ [url_pattern rule]) [] (reg_rules reg)"

definition ListRules :: "EndpointRegistry \<Rightarrow> EndpointRule list" where
  "ListRules reg = reg_rules reg"

definition ErrUnique :: go_error where "ErrUnique = GoErr ''UNIQUE constraint failed''"

definition Registry_CreateRule :: "EndpointRegistry \<Rightarrow> EndpointRule \<Rightarrow> EndpointRegistry \<times> int go" where
  "Registry_CreateRule reg rule =
     (let t = reg_table reg; i = er_seq t + 1; row = rule\<lparr>er_ID := i, UserDefined := True\<rparr> in
      if er_key row \<in> er_key ` set (er_rows t) then (reg, Fail ErrUnique)
      else (reload_rules (reg\<lparr>reg_table := t\<lparr>er_rows := er_rows t @ [row], er_seq := i\<rparr>\<rparr>), Ok i))"

definition Registry_UpdateRule :: "EndpointRegistry \<Rightarrow> int \<Rightarrow> EndpointRule \<Rightarrow> EndpointRegistry \<times> unit go" where
  "Registry_UpdateRule reg i rule =
     (let t = reg_table reg in
      case find (\<lambda>r. er_ID r = i) (er_rows t) of
        None \<Rightarrow> (reg, Fail (GoErr ''rule not found''))
      | Some old \<Rightarrow>
          if \<not> UserDefined old then (reg, Fail (GoErr ''cannot modify built-in rule''))
          else let row = rule\<lparr>er_ID := i, UserDefined := True\<rparr> in
            if er_key row \<in> er_key ` set (filter (\<lambda>r. er_ID r \<noteq> i) (er_rows t)) then (reg, Fail ErrUnique)
            else (reload_rules (reg\<lparr>reg_table := t\<lparr>er_rows := map (\<lambda>r. if er_ID r = i \<and> UserDefined r then row else r) (er_rows t)\<rparr>\<rparr>), Ok ()))"

definition Registry_DeleteRule :: "EndpointRegistry \<Rightarrow> int \<Rightarrow> EndpointRegistry \<times> unit go" where
  "Registry_DeleteRule reg i =
     (let t = reg_table reg; hit = (\<lambda>r. er_ID r = i \<and> UserDefined r) in
      if filter hit (er_rows t) = [] then (reg, Fail (GoErr ''rule not found or is built-in''))
      else (reload_rules (reg\<lparr>reg_table := t\<lparr>er_rows := filter (\<lambda>r. \<not> hit r) (er_rows t)\<rparr>\<rparr>), Ok ()))"

text \<open>
  The JSON probe of a request body is a parameter: the model field and the number of messages, if the body
  parses.
\<close>

definition AutoDetectAndCreate ::
  "(byte list \<Rightarrow> (string \<times> nat) option) \<Rightarrow> EndpointRegistry \<Rightarrow> string \<Rightarrow> string \<Rightarrow> string \<Rightarrow> byte list \<Rightarrow>
   EndpointRegistry \<times> dissector option" where
  "AutoDetectAndCreate probe reg url meth host body =
     (if meth \<noteq> ''POST'' \<or> host = [] \<or> body = [] then (reg, None)
      else case probe body of
        None \<Rightarrow> (reg, None)
      | Some (model, msgs) \<Rightarrow>
          if model = [] \<or> msgs = 0 then (reg, None)
          else case FindDissectorByName ''openai-chat'' of
            None \<Rightarrow> (reg, None)
          | Some d \<Rightarrow>
              (case Registry_CreateRule reg
                      \<lparr>er_ID = 0, HostPattern = host, PathPattern = extractPath url, er_Method = ''POST'',
                       DecoderName = ''openai-chat'', er_Priority = 5, er_Enabled = True, UserDefined = False\<rparr> of
                 (reg', Ok i) \<Rightarrow> (reg', Some d)
               | (reg', _) \<Rightarrow> (reg', None)))"

section \<open>The handlers\<close>

record endpointRuleInput =
  ei_HostPattern :: string
  ei_PathPattern :: string
  ei_Method :: string
  ei_DecoderName :: string
  ei_Priority :: int
  ei_Enabled :: "bool option"

definition upper_char :: "char \<Rightarrow> char" where
  "upper_char c = (if CHR ''a'' \<le> c \<and> c \<le> CHR ''z'' then char_of (of_char c - 32 :: nat) else c)"

definition ToUpper :: "string \<Rightarrow> string" where
  "ToUpper s = map upper_char s"

definition validMethods :: "string set" where
  "validMethods = {''GET'', ''HEAD'', ''POST'', ''PUT'', ''PATCH'', ''DELETE'', ''OPTIONS'', ''TRACE'', ''WS_REQ'', ''WS_RESP'', ''*''}"

definition validateEndpointRule :: "string \<Rightarrow> string \<Rightarrow> string \<Rightarrow> string \<Rightarrow> string" where
  "validateEndpointRule hostPattern pathPattern meth decoderName =
     (if FindDissectorByName decoderName = None then ''unknown decoder_name: '' @ decoderName
      else if \<not> HasPrefix pathPattern ''/'' then ''path_pattern must start with /''
      else let trimmed = TrimSpace hostPattern in
        if trimmed = [] \<or> trimmed = ''%'' \<or> trimmed = ''*'' then ''host_pattern must not be empty or a bare wildcard''
        else if ToUpper meth \<notin> validMethods then ''invalid method: '' @ meth @ ''; expected a standard HTTP method or *''
        else [])"

definition toRule :: "endpointRuleInput \<Rightarrow> string + EndpointRule" where
  "toRule inp =
     (let meth = (if ei_Method inp = [] then ''POST'' else ei_Method inp);
          errMsg = validateEndpointRule (ei_HostPattern inp) (ei_PathPattern inp) meth (ei_DecoderName inp)
      in if errMsg \<noteq> [] then Inl errMsg
         else Inr \<lparr>er_ID = 0, HostPattern = ei_HostPattern inp, PathPattern = ei_PathPattern inp, er_Method = meth,
                   DecoderName = ei_DecoderName inp, er_Priority = ei_Priority inp,
                   er_Enabled = (case ei_Enabled inp of Some b \<Rightarrow> b | None \<Rightarrow> True), UserDefined = False\<rparr>)"

datatype endpoint_body = ERules "EndpointRule list" | ERule EndpointRule | EOk | EError string

text \<open>A bound body is an error of \<^verbatim>\<open>ShouldBindJSON\<close> or the input.\<close>

definition EndpointRulesListHandler :: "EndpointRegistry option \<Rightarrow> int \<times> endpoint_body" where
  "EndpointRulesListHandler reg = (case reg of None \<Rightarrow> (200, ERules []) | Some r \<Rightarrow> (200, ERules (ListRules r)))"

definition go_error_text :: "go_error \<Rightarrow> string" where
  "go_error_text e = (case e of EOF \<Rightarrow> ''EOF'' | ErrUnexpectedEOF \<Rightarrow> ''unexpected EOF'' | GoErr s \<Rightarrow> s)"

definition EndpointRulesCreateHandler :: "EndpointRegistry \<Rightarrow> string + endpointRuleInput \<Rightarrow> EndpointRegistry \<times> int \<times> endpoint_body" where
  "EndpointRulesCreateHandler reg body =
     (case body of
        Inl e \<Rightarrow> (reg, 400, EError e)
      | Inr inp \<Rightarrow>
          (case toRule inp of
             Inl e \<Rightarrow> (reg, 400, EError e)
           | Inr rule \<Rightarrow>
               (case Registry_CreateRule reg rule of
                  (reg', Ok i) \<Rightarrow> (reg', 201, ERule (rule\<lparr>er_ID := i, UserDefined := True\<rparr>))
                | (reg', Fail e) \<Rightarrow> (reg', 500, EError (go_error_text e))
                | (reg', Panic) \<Rightarrow> (reg', 500, EError []))))"

definition EndpointRulesUpdateHandler :: "EndpointRegistry \<Rightarrow> string \<Rightarrow> string + endpointRuleInput \<Rightarrow> EndpointRegistry \<times> int \<times> endpoint_body" where
  "EndpointRulesUpdateHandler reg param body =
     (case Atoi param of
        (i, Some e) \<Rightarrow> (reg, 400, EError ''invalid id'')
      | (i, None) \<Rightarrow>
          (case body of
             Inl e \<Rightarrow> (reg, 400, EError e)
           | Inr inp \<Rightarrow>
               (case toRule inp of
                  Inl e \<Rightarrow> (reg, 400, EError e)
                | Inr rule \<Rightarrow>
                    (case Registry_UpdateRule reg i rule of
                       (reg', Ok _) \<Rightarrow> (reg', 200, EOk)
                     | (reg', Fail e) \<Rightarrow> (reg', 400, EError (go_error_text e))
                     | (reg', Panic) \<Rightarrow> (reg', 500, EError [])))))"

definition EndpointRulesDeleteHandler :: "EndpointRegistry \<Rightarrow> string \<Rightarrow> EndpointRegistry \<times> int \<times> endpoint_body" where
  "EndpointRulesDeleteHandler reg param =
     (case Atoi param of
        (i, Some e) \<Rightarrow> (reg, 400, EError ''invalid id'')
      | (i, None) \<Rightarrow>
          (case Registry_DeleteRule reg i of
             (reg', Ok _) \<Rightarrow> (reg', 200, EOk)
           | (reg', Fail e) \<Rightarrow> (reg', 400, EError (go_error_text e))
           | (reg', Panic) \<Rightarrow> (reg', 500, EError [])))"

section \<open>The registry and its table\<close>

definition table_ok :: "EndpointTable \<Rightarrow> bool" where
  "table_ok t \<longleftrightarrow> distinct (map er_ID (er_rows t)) \<and> distinct (map er_key (er_rows t)) \<and> (\<forall>r \<in> set (er_rows t). er_ID r \<le> er_seq t)"

text \<open>The table has the shipped rule \<open>b\<close>, enabled and with its own decoder and priority.\<close>

definition provides :: "EndpointTable \<Rightarrow> EndpointRule \<Rightarrow> bool" where
  "provides t b \<longleftrightarrow>
     (\<exists>r \<in> set (er_rows t). er_key r = er_key b \<and> DecoderName r = DecoderName b \<and> er_Priority r = er_Priority b \<and> er_Enabled r)"

definition reg_ok :: "EndpointRegistry \<Rightarrow> bool" where
  "reg_ok reg \<longleftrightarrow> table_ok (reg_table reg) \<and> (\<forall>b \<in> set builtinRules. provides (reg_table reg) b) \<and>
     reg_rules reg = enabled_rules (reg_table reg)"

datatype reg_op =
    CreateReq "string + endpointRuleInput"
  | UpdateReq string "string + endpointRuleInput"
  | DeleteReq string
  | DetectReq "(string \<times> nat) option" string string string "byte list"

fun reg_step :: "EndpointRegistry \<Rightarrow> reg_op \<Rightarrow> EndpointRegistry" where
  "reg_step reg (CreateReq body) = fst (EndpointRulesCreateHandler reg body)"
| "reg_step reg (UpdateReq param body) = fst (EndpointRulesUpdateHandler reg param body)"
| "reg_step reg (DeleteReq param) = fst (EndpointRulesDeleteHandler reg param)"
| "reg_step reg (DetectReq probed url meth host body) = fst (AutoDetectAndCreate (\<lambda>_. probed) reg url meth host body)"

lemma er_key_update [simp]:
  "er_key (r\<lparr>DecoderName := d, er_Priority := p, er_Enabled := e\<rparr>) = er_key r" "er_key (r\<lparr>er_ID := i\<rparr>) = er_key r"
  by (simp_all add: er_key_def)

lemma table_ok_append:
  assumes "table_ok t" "er_key row \<notin> er_key ` set (er_rows t)" "er_ID row = er_seq t + 1"
  shows "table_ok (t\<lparr>er_rows := er_rows t @ [row], er_seq := er_seq t + 1\<rparr>)"
  using assms by (force simp: table_ok_def)

lemma upsert_builtin_ok:
  assumes "table_ok t"
  shows "table_ok (upsert_builtin t b)"
proof (cases "er_key b \<in> er_key ` set (er_rows t)")
  case True
  let ?f = "\<lambda>r. if er_key r = er_key b
               then r\<lparr>DecoderName := DecoderName b, er_Priority := er_Priority b, er_Enabled := True\<rparr> else r"
  have "map er_ID (map ?f (er_rows t)) = map er_ID (er_rows t)" "map er_key (map ?f (er_rows t)) = map er_key (er_rows t)"
    by simp_all
  with assms True show ?thesis unfolding table_ok_def upsert_builtin_def by (auto simp del: map_map intro: order_trans)
next
  case False
  then show ?thesis unfolding upsert_builtin_def using table_ok_append [OF assms] by simp
qed

lemma upsert_provides: "er_Enabled b \<Longrightarrow> provides (upsert_builtin t b) b"
proof (cases "er_key b \<in> er_key ` set (er_rows t)")
  case True
  then obtain r where "r \<in> set (er_rows t)" "er_key r = er_key b" by auto
  with True show ?thesis unfolding provides_def upsert_builtin_def
    by (intro bexI [of _ "r\<lparr>DecoderName := DecoderName b, er_Priority := er_Priority b, er_Enabled := True\<rparr>"]) (auto intro!: image_eqI)
qed (simp add: provides_def upsert_builtin_def)

lemma upsert_keeps: "provides t c \<Longrightarrow> er_key c \<noteq> er_key b \<Longrightarrow> provides (upsert_builtin t b) c"
  by (fastforce simp: provides_def upsert_builtin_def)

lemma foldl_upsert_keeps:
  "provides t c \<Longrightarrow> er_key c \<notin> er_key ` set bs \<Longrightarrow> provides (foldl upsert_builtin t bs) c"
  by (induction bs arbitrary: t) (simp_all add: upsert_keeps)

lemma foldl_upsert_provides:
  "distinct (map er_key bs) \<Longrightarrow> list_all er_Enabled bs \<Longrightarrow> c \<in> set bs \<Longrightarrow> provides (foldl upsert_builtin t bs) c"
proof (induction bs arbitrary: t)
  case (Cons b bs)
  then show ?case using foldl_upsert_keeps [OF upsert_provides, of b bs t] by (cases "c \<in> set bs") auto
qed simp

lemma builtinRules_distinct: "distinct (map er_key builtinRules)" "list_all er_Enabled builtinRules"
  by (simp_all add: builtinRules_def builtin_def er_key_def)

lemma foldl_upsert_ok: "table_ok t \<Longrightarrow> table_ok (foldl upsert_builtin t bs)"
  by (induction bs arbitrary: t) (simp_all add: upsert_builtin_ok)

lemma reload_rules_simps [simp]:
  "reg_table (reload_rules reg) = reg_table reg" "reg_rules (reload_rules reg) = enabled_rules (reg_table reg)"
  by (simp_all add: reload_rules_def)

lemma NewEndpointRegistry_ok: "table_ok t \<Longrightarrow> reg_ok (NewEndpointRegistry t)"
  using foldl_upsert_provides [OF builtinRules_distinct]
  by (simp add: reg_ok_def NewEndpointRegistry_def seedBuiltinRules_def foldl_upsert_ok)

text \<open>Shipped rules are not user-defined, so an operation that touches only user-defined rows keeps them.\<close>

lemma provides_mono:
  assumes "provides t b" "b \<in> set builtinRules" "\<And>r. r \<in> set (er_rows t) \<Longrightarrow> \<not> UserDefined r \<Longrightarrow> r \<in> set (er_rows t')"
  shows "provides t' b"
proof -
  have "\<not> UserDefined b" using assms(2) by (auto simp: builtinRules_def builtin_def)
  with assms(1,3) show ?thesis by (fastforce simp: provides_def er_key_def)
qed

lemma reg_ok_reload:
  assumes "reg_ok reg" "table_ok t" "\<And>r. r \<in> set (er_rows (reg_table reg)) \<Longrightarrow> \<not> UserDefined r \<Longrightarrow> r \<in> set (er_rows t)"
  shows "reg_ok (reload_rules (reg\<lparr>reg_table := t\<rparr>))"
  using assms provides_mono by (auto simp: reg_ok_def)

lemma Registry_CreateRule_ok: "reg_ok reg \<Longrightarrow> reg_ok (fst (Registry_CreateRule reg rule))"
  unfolding Registry_CreateRule_def Let_def
  by (auto intro!: reg_ok_reload table_ok_append simp: reg_ok_def [of reg])

lemma Registry_UpdateRule_ok:
  assumes "reg_ok reg"
  shows "reg_ok (fst (Registry_UpdateRule reg i rule))"
proof -
  let ?t = "reg_table reg" and ?row = "rule\<lparr>er_ID := i, UserDefined := True\<rparr>"
  let ?f = "\<lambda>r. if er_ID r = i \<and> UserDefined r then ?row else r"
  have ok: "table_ok ?t" using assms by (simp add: reg_ok_def)
  have "table_ok (?t\<lparr>er_rows := map ?f (er_rows ?t)\<rparr>)" if "er_key ?row \<notin> er_key ` set (filter (\<lambda>r. er_ID r \<noteq> i) (er_rows ?t))"
  proof -
    have id: "map er_ID (map ?f (er_rows ?t)) = map er_ID (er_rows ?t)" by simp
    have inj: "inj_on er_ID (set (er_rows ?t))" "distinct (er_rows ?t)" using ok by (auto simp: table_ok_def distinct_map)
    have kinj: "x = y" if "x \<in> set (er_rows ?t)" "y \<in> set (er_rows ?t)" "er_key x = er_key y" for x y
      using that ok by (auto simp: table_ok_def distinct_map inj_on_def)
    have same: "x = y" if "x \<in> set (er_rows ?t)" "y \<in> set (er_rows ?t)" "er_ID x = i" "er_ID y = i" for x y
      using that inj(1) by (auto simp: inj_on_def)
    have "inj_on (\<lambda>r. er_key (?f r)) (set (er_rows ?t))"
    proof (rule inj_onI)
      fix x y assume xy: "x \<in> set (er_rows ?t)" "y \<in> set (er_rows ?t)" "er_key (?f x) = er_key (?f y)"
      have other: "er_ID r = i" if "r \<in> set (er_rows ?t)" "er_key ?row = er_key r" for r
        using that \<open>er_key ?row \<notin> _\<close> by fastforce
      show "x = y"
        using xy same [OF xy(1,2)] kinj [OF xy(1,2)] other [OF xy(1)] other [OF xy(2)] by (auto split: if_splits)
    qed
    with inj(2) have "distinct (map er_key (map ?f (er_rows ?t)))" by (simp add: distinct_map o_def)
    moreover have "distinct (map er_ID (map ?f (er_rows ?t)))" unfolding id using ok by (simp add: table_ok_def)
    moreover have "\<forall>r \<in> set (map ?f (er_rows ?t)). er_ID r \<le> er_seq ?t" using ok by (auto simp: table_ok_def)
    ultimately show ?thesis unfolding table_ok_def by (simp del: map_map set_map)
  qed
  with assms show ?thesis
    by (auto simp: Registry_UpdateRule_def Let_def split: option.splits intro!: reg_ok_reload)
qed

lemma Registry_DeleteRule_ok: "reg_ok reg \<Longrightarrow> reg_ok (fst (Registry_DeleteRule reg i))"
  unfolding Registry_DeleteRule_def Let_def
  by (auto intro!: reg_ok_reload simp: reg_ok_def [of reg] table_ok_def distinct_map_filter)

interpretation registry: invariant_steps reg_step reg_ok
proof
  fix reg op assume "reg_ok reg"
  then show "reg_ok (reg_step reg op)"
    using Registry_CreateRule_ok Registry_UpdateRule_ok Registry_DeleteRule_ok
    by (cases op)
      (auto simp: EndpointRulesCreateHandler_def EndpointRulesUpdateHandler_def EndpointRulesDeleteHandler_def AutoDetectAndCreate_def
         split: sum.splits prod.splits go.splits option.splits, (metis fst_conv)+)
qed

section \<open>The \<^verbatim>\<open>LIKE\<close> filter of the assembler\<close>

text \<open>SQLite's \<^verbatim>\<open>LIKE\<close> on ASCII.\<close>

fun sql_like :: "string \<Rightarrow> string \<Rightarrow> bool" where
  "sql_like [] s \<longleftrightarrow> s = []"
| "sql_like (c # p) [] \<longleftrightarrow> c = CHR ''%'' \<and> sql_like p []"
| "sql_like (c # p) (d # s) \<longleftrightarrow>
     (if c = CHR ''%'' then sql_like p (d # s) \<or> sql_like (c # p) s
      else (c = CHR ''_'' \<or> lower_char c = lower_char d) \<and> sql_like p s)"

lemma like_pct: "sql_like p s \<Longrightarrow> sql_like (CHR ''%'' # p) (x @ s)"
proof (induction x)
  case Nil
  then show ?case by (cases s) simp_all
qed simp

lemma like_append: "sql_like p s \<Longrightarrow> sql_like q t \<Longrightarrow> sql_like (p @ q) (s @ t)"
proof (induction p s rule: sql_like.induct)
  case (2 c p)
  then have "sql_like (p @ q) t" by simp
  with like_pct [of "p @ q" t "[]"] 2 show ?case by simp
qed (auto split: if_splits)

definition to_like :: "string \<Rightarrow> string" where
  "to_like p = map (\<lambda>c. if c = CHR ''*'' then CHR ''%'' else c) p"

lemma ReplaceAll_to_like: "ReplaceAll p ''*'' ''%'' = to_like p"
proof -
  have "replace_all ''*'' ''%'' p = to_like p"
    by (induction p) (simp_all add: to_like_def HasPrefix_def)
  then show ?thesis by (simp add: ReplaceAll_def)
qed

lemma star_match_like: "star_match p s \<Longrightarrow> sql_like (to_like p) s"
proof (induction p s rule: star_match.induct)
  case (3 c p d s)
  show ?case
  proof (cases "c = CHR ''*''")
    case True
    then show ?thesis using 3 by (auto simp: to_like_def)
  next
    case False
    then have "c = d" "sql_like (to_like p) s" using 3 by auto
    then show ?thesis using False like_pct [of "to_like p" s "[d]"] by (auto simp: to_like_def)
  qed
qed (auto simp: to_like_def)

lemma url_pattern_like:
  assumes "star_match (HostPattern r) host" "star_match (PathPattern r) path"
  shows "sql_like (url_pattern r) (a @ host @ b @ path @ c)"
proof -
  have "sql_like ''%'' c" using like_pct [of "[]" "[]" c] by simp
  then have "sql_like (to_like (PathPattern r) @ ''%'') (path @ c)" using assms star_match_like like_append by blast
  then have "sql_like (''%'' @ to_like (PathPattern r) @ ''%'') (b @ path @ c)" using like_pct by fastforce
  then have "sql_like (to_like (HostPattern r) @ ''%'' @ to_like (PathPattern r) @ ''%'') (host @ b @ path @ c)"
    using assms star_match_like like_append by blast
  then show ?thesis using like_pct [of _ "host @ b @ path @ c" a] by (simp add: url_pattern_def ReplaceAll_to_like)
qed

lemma AllURLPatterns_set: "set (AllURLPatterns reg) = url_pattern ` set (reg_rules reg)"
proof -
  have "set (foldl (\<lambda>patterns rule. if url_pattern rule \<in> set patterns then patterns else patterns @ [url_pattern rule]) ps rs) =
      set ps \<union> url_pattern ` set rs" for ps rs
    by (induction rs arbitrary: ps) auto
  then show ?thesis by (simp add: AllURLPatterns_def)
qed

text \<open>The URL of an archived transaction.\<close>

definition url_ok :: "string \<Rightarrow> string \<Rightarrow> string \<Rightarrow> string \<Rightarrow> string \<Rightarrow> bool" where
  "url_ok scheme host port path query \<longleftrightarrow>
     CHR '':'' \<notin> set scheme \<and> CHR ''/'' \<notin> set host \<and> CHR ''/'' \<notin> set port \<and>
     path \<noteq> [] \<and> hd path = CHR ''/'' \<and> CHR ''?'' \<notin> set path \<and> (query = [] \<or> hd query = CHR ''?'')"

lemma extractPath_url:
  assumes "url_ok scheme host port path query"
  shows "extractPath (scheme @ ''://'' @ host @ port @ path @ query) = path"
proof -
  let ?u = "scheme @ ''://'' @ host @ port @ path @ query"
  obtain i where i: "Index ?u ''://'' = Some i" "i \<le> length scheme" using Index_leftmost [of ?u scheme "''://''"] by auto
  then obtain x t where x: "?u = x @ ''://'' @ t" "length x = i" using Index_Some by blast
  have "\<not> i < length scheme"
  proof
    assume lt: "i < length scheme"
    have "?u ! i = CHR '':''" unfolding x(1) using x(2) by (simp add: nth_append)
    then have "scheme ! i = CHR '':''" using lt by (simp add: nth_append)
    with lt assms show False by (metis nth_mem url_ok_def)
  qed
  then have "i = length scheme" using i(2) by simp
  then have "drop (i + 3) ?u = host @ port @ path @ query" by simp
  moreover have "dropWhile (\<lambda>c. c \<noteq> CHR ''/'') (host @ port @ path @ query) = path @ query"
  proof -
    have "\<forall>c \<in> set (host @ port). c \<noteq> CHR ''/''" using assms by (auto simp: url_ok_def)
    then have "dropWhile (\<lambda>c. c \<noteq> CHR ''/'') ((host @ port) @ path @ query) = dropWhile (\<lambda>c. c \<noteq> CHR ''/'') (path @ query)"
      by (intro dropWhile_append2) auto
    then show ?thesis using assms by (cases path) (simp_all add: url_ok_def)
  qed
  moreover have "takeWhile (\<lambda>c. c \<noteq> CHR ''?'') (path @ query) = path"
  proof -
    have "takeWhile (\<lambda>c. c \<noteq> CHR ''?'') (path @ query) = path @ takeWhile (\<lambda>c. c \<noteq> CHR ''?'') query"
      using assms by (intro takeWhile_append2) (auto simp: url_ok_def)
    moreover have "takeWhile (\<lambda>c. c \<noteq> CHR ''?'') query = []" using assms by (cases query) (auto simp: url_ok_def)
    ultimately show ?thesis by simp
  qed
  moreover have "path @ query \<noteq> []" using assms by (simp add: url_ok_def)
  ultimately show ?thesis unfolding extractPath_def Let_def i(1) option.case by simp
qed

text \<open>The first hit in a list sorted by a key has the least key of all hits.\<close>

lemma find_sort_key_least:
  assumes "find P (sort_key k xs) = Some r"
  shows "r \<in> set xs" "P r" "\<And>q. q \<in> set xs \<Longrightarrow> P q \<Longrightarrow> (k r :: 'b :: linorder) \<le> k q"
proof -
  obtain i where i: "i < length (sort_key k xs)" "r = sort_key k xs ! i" "P r" "\<And>j. j < i \<Longrightarrow> \<not> P (sort_key k xs ! j)"
    using assms by (auto simp: find_Some_iff)
  then show "r \<in> set xs" by (metis nth_mem set_sort)
  show "P r" by (rule i(3))
  fix q assume "q \<in> set xs" "P q"
  then obtain j where j: "j < length (sort_key k xs)" "q = sort_key k xs ! j" by (metis in_set_conv_nth set_sort)
  then have "i \<le> j" using i(4) \<open>P q\<close> by (meson linorder_not_le)
  then have "map k (sort_key k xs) ! i \<le> map k (sort_key k xs) ! j"
    using j(1) by (intro sorted_nth_mono sorted_sort_key) simp_all
  with i j show "k r \<le> k q" by simp
qed

section \<open>Properties\<close>

text \<open>
  C33. The glob matcher of the registry, which looks for each literal part at its leftmost place, decides exactly
  the language of the pattern: a star stands for any string and everything else for itself.
\<close>

theorem glob_matching_is_exact: "matchGlob pattern s \<longleftrightarrow> star_match pattern s"
  by (rule matchGlob_star)

text \<open>
  C16. The cache of the registry is at all times the enabled rows of the table in the order of the query, the
  table has unique ids and keys, and every shipped rule is there with its decoder: after start-up on any table, and
  after any sequence of REST requests and automatic detections, whatever their input.
\<close>

theorem endpoint_registry_consistent:
  assumes "table_ok t"
  shows "reg_ok (foldl reg_step (NewEndpointRegistry t) ops)"
  by (rule registry.inv_run) (rule NewEndpointRegistry_ok [OF assms])

text \<open>
  C17. Routing finds the best rule: for the URL of a transaction, the decoder is that of the enabled rule of highest
  priority, and lowest id among equals, whose method, host and path match, and none if no rule matches; and
  every URL a rule matches is selected by one of the \<^verbatim>\<open>LIKE\<close> patterns with which the assembler reads the
  archive, whatever port and query string the URL has.
\<close>

theorem endpoint_routing_is_complete:
  fixes reg meth host path
  defines "hits \<equiv> {r \<in> set (er_rows (reg_table reg)). er_Enabled r \<and> (er_Method r = ''*'' \<or> er_Method r = meth) \<and>
    star_match (HostPattern r) host \<and> star_match (PathPattern r) path}"
  assumes "reg_ok reg" "url_ok scheme host port path query" "url = scheme @ ''://'' @ host @ port @ path @ query"
  shows "(hits = {} \<longrightarrow> Registry_Match reg url meth host = []) \<and>
    (\<forall>r \<in> hits. (\<forall>q \<in> hits. (- er_Priority r, er_ID r) \<le> (- er_Priority q, er_ID q)) \<longrightarrow>
       Registry_Match reg url meth host = DecoderName r) \<and>
    (\<forall>r \<in> hits. \<exists>pat \<in> set (AllURLPatterns reg). sql_like pat url)"
proof -
  let ?P = "rule_applies (extractPath url) meth host" and ?k = "\<lambda>r. (- er_Priority r, er_ID r)"
  have path: "extractPath url = path" unfolding assms(4) by (rule extractPath_url [OF assms(3)])
  have cache: "reg_rules reg = sort_key ?k (filter er_Enabled (er_rows (reg_table reg)))"
    using assms(2) by (simp add: reg_ok_def enabled_rules_def)
  have hits: "r \<in> hits \<longleftrightarrow> r \<in> set (filter er_Enabled (er_rows (reg_table reg))) \<and> ?P r" for r
    by (auto simp: hits_def rule_applies_def path matchGlob_star)
  have found: "\<exists>r. find ?P (reg_rules reg) = Some r" if "r \<in> hits" for r
    using that hits unfolding cache by (metis find_None_iff not_None_eq set_sort)
  have "Registry_Match reg url meth host = []" if "hits = {}"
  proof -
    have "find ?P (reg_rules reg) = None" using that hits unfolding cache by (auto simp: find_None_iff)
    then show ?thesis by (simp add: Registry_Match_def)
  qed
  moreover have "Registry_Match reg url meth host = DecoderName r" if r: "r \<in> hits" "\<forall>q \<in> hits. ?k r \<le> ?k q" for r
  proof -
    obtain r' where r': "find ?P (reg_rules reg) = Some r'" using found [OF r(1)] by blast
    note least = find_sort_key_least [OF r' [unfolded cache]]
    have "r' \<in> hits" using least(1,2) hits by blast
    then have "?k r = ?k r'" using r least(3) [of r] hits by (metis order_antisym)
    then have "er_ID r = er_ID r'" by simp
    moreover have "inj_on er_ID (set (er_rows (reg_table reg)))"
      using assms(2) by (simp add: reg_ok_def table_ok_def distinct_map)
    ultimately have "r = r'" using r(1) \<open>r' \<in> hits\<close> by (auto simp: hits_def inj_on_def)
    with r' show ?thesis by (simp add: Registry_Match_def)
  qed
  moreover have "\<exists>pat \<in> set (AllURLPatterns reg). sql_like pat url" if "r \<in> hits" for r
  proof -
    have "sql_like (url_pattern r) ((scheme @ ''://'') @ host @ port @ path @ query)"
      using that by (intro url_pattern_like) (simp_all add: hits_def)
    moreover have "r \<in> set (reg_rules reg)" using that hits cache by simp
    ultimately show ?thesis unfolding AllURLPatterns_set assms(4) by auto
  qed
  ultimately show ?thesis by blast
qed

text \<open>
  A rule whose method is written in lower case is accepted by the REST interface and stored as it is, and matches no
  request with the usual spelling.
\<close>

lemma lower_case_method_is_dead:
  "validateEndpointRule ''llm.example.com'' ''/v1/chat'' ''post'' ''openai-chat'' = []"
  "\<not> rule_applies path ''POST'' host (r\<lparr>er_Method := ''post''\<rparr>)"
  by (code_simp, simp add: rule_applies_def)

end
