(* ===== verification/Resolver.thy ===== *)
theory Resolver
  imports Connections
begin

text \<open>
  \<^verbatim>\<open>internal/greyproxy/plugins/resolver.go\<close> and \<^verbatim>\<open>dns_cache_handler.go\<close>: names are resolved through the system's DNS server
  with a forward cache that honours the records' lifetime within bounds, and every address learned, by the
  resolver or from a DNS answer that passes through the proxy, is named in the reverse cache of
  \<^verbatim>\<open>dns_cache.go\<close>. The DNS library and the resolver of the operating system are parameters. Times are in seconds. The lemmas say how long an
  address may be served from the cache and where it came from.
\<close>

section \<open>Records\<close>

datatype rr_data = RR_A ip | RR_AAAA ip | RR_other

record dns_rr =
  rr_ttl :: u32
  rr_data :: rr_data

definition TypeA :: u16 where "TypeA = 1"
definition TypeAAAA :: u16 where "TypeAAAA = 28"

definition minForwardCacheTTL :: int where "minForwardCacheTTL = 10"
definition maxForwardCacheTTL :: int where "maxForwardCacheTTL = 300"
definition fallbackForwardCacheTTL :: int where "fallbackForwardCacheTTL = 30"

text \<open>
  \<open>exchange\<close>: the answer section of a successful response to a question, for a server; \<open>None\<close> for an error, no
  response or a failure code. \<open>osLookup\<close>: \<^verbatim>\<open>net.DefaultResolver.LookupIP\<close>.
\<close>

record dns_world =
  exchange :: "string \<Rightarrow> string \<Rightarrow> u16 \<Rightarrow> dns_rr list option"
  osLookup :: "string \<Rightarrow> string \<Rightarrow> ip list go"

definition dnsQTypes :: "string \<Rightarrow> u16 list" where
  "dnsQTypes network =
     (if network = ''ip4'' then [TypeA] else if network = ''ip6'' then [TypeAAAA] else [TypeA, TypeAAAA])"

definition networkToIPVersion :: "string \<Rightarrow> string" where
  "networkToIPVersion network =
     (if network = ''ip4'' then ''ip4'' else if network = ''ip6'' then ''ip6'' else ''ip'')"

text \<open>The loop over the answers: the addresses so far and the smallest lifetime.\<close>

definition add_record :: "ip list \<times> u32 \<Rightarrow> dns_rr \<Rightarrow> ip list \<times> u32" where
  "add_record = (\<lambda>(ips, minTTL) rr.
     let minTTL' = (if length ips = 0 \<or> rr_ttl rr < minTTL then rr_ttl rr else minTTL) in
     case rr_data rr of
       RR_A a \<Rightarrow> (ips @ [a], minTTL')
     | RR_AAAA a \<Rightarrow> (ips @ [a], minTTL')
     | RR_other \<Rightarrow> (ips, minTTL'))"

definition answers :: "dns_world \<Rightarrow> string \<Rightarrow> string \<Rightarrow> string \<Rightarrow> dns_rr list" where
  "answers w server host network =
     concat (map (\<lambda>qt. case exchange w server host qt of None \<Rightarrow> [] | Some rrs \<Rightarrow> rrs) (dnsQTypes network))"

definition clamp_ttl :: "int \<Rightarrow> int" where
  "clamp_ttl t =
     (let t1 = (if t < minForwardCacheTTL then minForwardCacheTTL else t)
      in if t1 > maxForwardCacheTTL then maxForwardCacheTTL else t1)"

definition rawDNSLookup :: "dns_world \<Rightarrow> string \<Rightarrow> string \<Rightarrow> string \<Rightarrow> (ip list \<times> int) go" where
  "rawDNSLookup w server host network =
     (case foldl add_record ([], 0) (answers w server host network) of
        (ips, minTTL) \<Rightarrow>
          if length ips = 0 then Fail (GoErr ''no records'')
          else Ok (ips, clamp_ttl (uint minTTL)))"

section \<open>The resolver\<close>

record forwardCacheEntry =
  fc_ips :: "ip list"
  fc_expiry :: int

record Resolver =
  rv_cache :: DNSCache
  dnsServer :: string
  fwdMap :: "string \<rightharpoonup> forwardCacheEntry"

definition NewResolver :: "DNSCache \<Rightarrow> string \<Rightarrow> Resolver" where
  "NewResolver cache server = \<lparr>rv_cache = cache, dnsServer = server, fwdMap = Map.empty\<rparr>"

definition resolver_lookup :: "dns_world \<Rightarrow> Resolver \<Rightarrow> string \<Rightarrow> string \<Rightarrow> (ip list \<times> int) go" where
  "resolver_lookup w r network host =
     (case (if dnsServer r \<noteq> [] then rawDNSLookup w (dnsServer r) host network else Fail (GoErr [])) of
        Ok (ips, t) \<Rightarrow> Ok (ips, t)
      | _ \<Rightarrow> gbind (osLookup w (networkToIPVersion network) host) (\<lambda>ips. Ok (ips, fallbackForwardCacheTTL)))"

definition fwd_key :: "string \<Rightarrow> string \<Rightarrow> string" where
  "fwd_key network host = network @ '':'' @ host"

text \<open>\<open>now\<close> is the time of the cache check and \<open>now'\<close> the time after the lookup. Third result: rows for the persisting goroutine.\<close>

definition Resolve ::
  "dns_world \<Rightarrow> int \<Rightarrow> int \<Rightarrow> Resolver \<Rightarrow> string \<Rightarrow> string \<Rightarrow> Resolver \<times> ip list go \<times> dns_row list" where
  "Resolve w now now' r network host =
     (let key = fwd_key network host;
          hit = (case fwdMap r key of Some e \<Rightarrow> if now < fc_expiry e then Some (fc_ips e) else None | None \<Rightarrow> None)
      in case hit of
           Some ips \<Rightarrow> (r, Ok ips, [])
         | None \<Rightarrow>
             (case resolver_lookup w r network host of
                Fail e \<Rightarrow> (r, Fail e, [])
              | Panic \<Rightarrow> (r, Panic, [])
              | Ok (ips, t) \<Rightarrow>
                  if length ips = 0 then (r, Fail (GoErr ''no results''), [])
                  else let r1 = r\<lparr>fwdMap := (fwdMap r)(key \<mapsto> \<lparr>fc_ips = ips, fc_expiry = now' + t\<rparr>)\<rparr> in
                    if ParseIP host = None then
                      (case RegisterIPs now' (rv_cache r) host (map IP_String ips) of
                         (c, rows) \<Rightarrow> (r1\<lparr>rv_cache := c\<rparr>, Ok ips, rows))
                    else (r1, Ok ips, [])))"

section \<open>Answers that pass through the proxy\<close>

text \<open>
  \<open>unpack\<close> is the message parser of the DNS library: the names of the questions and the answers. A capture
  remembers the last query it read.
\<close>

definition populateCache ::
  "(byte list \<Rightarrow> (string list \<times> dns_rr list) option) \<Rightarrow> int \<Rightarrow> DNSCache \<Rightarrow> byte list \<Rightarrow> DNSCache \<times> dns_row list" where
  "populateCache unpack now c response =
     (case unpack response of
        None \<Rightarrow> (c, [])
      | Some ([], rrs) \<Rightarrow> (c, [])
      | Some (q # qs, rrs) \<Rightarrow>
          let hostname = trim_dot q;
              ips = concat (map (\<lambda>rr. case rr_data rr of RR_A a \<Rightarrow> [IP_String a] | RR_AAAA a \<Rightarrow> [IP_String a] | RR_other \<Rightarrow> []) rrs)
          in if hostname = [] then (c, [])
             else if 0 < length ips then RegisterIPs now c hostname ips else (c, []))"

record dnsResponseCapture =
  dc_cache :: DNSCache
  dc_query :: "byte list option"

text \<open>A \<^verbatim>\<open>Read\<close> that delivered \<open>b\<close>, with or without an error.\<close>

definition capture_Read :: "byte list \<Rightarrow> go_error option \<Rightarrow> dnsResponseCapture \<Rightarrow> dnsResponseCapture" where
  "capture_Read b err c = (if err = None \<and> 0 < length b then c\<lparr>dc_query := Some b\<rparr> else c)"

definition capture_Write ::
  "(byte list \<Rightarrow> (string list \<times> dns_rr list) option) \<Rightarrow> int \<Rightarrow> byte list \<Rightarrow> dnsResponseCapture \<Rightarrow> dnsResponseCapture \<times> dns_row list" where
  "capture_Write unpack now b c =
     (if dc_query c \<noteq> None \<and> 0 < length b
      then case populateCache unpack now (dc_cache c) b of (c', rows) \<Rightarrow> (c\<lparr>dc_cache := c'\<rparr>, rows)
      else (c, []))"

section \<open>The smallest lifetime\<close>

definition is_address :: "dns_rr \<Rightarrow> bool" where
  "is_address rr \<longleftrightarrow> rr_data rr \<noteq> RR_other"

definition address_of :: "dns_rr \<Rightarrow> ip list" where
  "address_of rr = (case rr_data rr of RR_A a \<Rightarrow> [a] | RR_AAAA a \<Rightarrow> [a] | RR_other \<Rightarrow> [])"

lemma address_of_Nil [simp]: "address_of rr = [] \<longleftrightarrow> \<not> is_address rr"
  by (simp add: address_of_def is_address_def split: rr_data.split)

lemma add_record_alt:
  "add_record (ips, m) rr = (ips @ address_of rr, if ips = [] \<or> rr_ttl rr < m then rr_ttl rr else m)"
  by (simp add: add_record_def address_of_def Let_def split: rr_data.split)

lemma add_record_later:
  "ips \<noteq> [] \<Longrightarrow> foldl add_record (ips, m) rrs = (ips @ concat (map address_of rrs), Min (insert m (rr_ttl ` set rrs)))"
proof (induction rrs arbitrary: ips m)
  case (Cons rr rrs)
  have "foldl add_record (ips, m) (rr # rrs) = foldl add_record (ips @ address_of rr, min m (rr_ttl rr)) rrs"
    using Cons.prems by (auto simp: add_record_alt min_def)
  also have "\<dots> = (ips @ concat (map address_of (rr # rrs)), Min (insert (min m (rr_ttl rr)) (rr_ttl ` set rrs)))"
    using Cons by simp
  also have "Min (insert (min m (rr_ttl rr)) (rr_ttl ` set rrs)) = Min (insert m (rr_ttl ` set (rr # rrs)))"
    by (cases "rrs = []") (simp_all add: min.assoc)
  finally show ?case .
qed simp

lemma add_record_before:
  "list_all (\<lambda>rr. \<not> is_address rr) rrs \<Longrightarrow> \<exists>m'. foldl add_record ([], m) rrs = ([], m')"
  by (induction rrs arbitrary: m) (auto simp: add_record_alt address_of_Nil [THEN iffD2])

text \<open>The lifetime is the least of the first address record and of all the records after it.\<close>

lemma add_records:
  assumes "rrs = pre @ rr # post" "list_all (\<lambda>x. \<not> is_address x) pre" "is_address rr"
  shows "foldl add_record ([], 0) rrs = (concat (map address_of rrs), Min (rr_ttl ` set (rr # post)))"
proof -
  obtain m where m: "foldl add_record ([], 0) pre = ([], m)" using add_record_before [OF assms(2)] by blast
  have "concat (map address_of pre) = []" using assms(2) by (auto simp: list_all_iff)
  moreover have "address_of rr \<noteq> []" using assms(3) by simp
  ultimately show ?thesis unfolding assms(1) by (simp add: m add_record_alt add_record_later)
qed

lemma no_address: "list_all (\<lambda>rr. \<not> is_address rr) rrs \<Longrightarrow> fst (foldl add_record ([], m) rrs) = []"
  using add_record_before by (metis fst_conv)

lemma clamp_ttl_bounds: "10 \<le> clamp_ttl t" "clamp_ttl t \<le> 300" "10 \<le> t \<Longrightarrow> t \<le> 300 \<Longrightarrow> clamp_ttl t = t"
  by (simp_all add: clamp_ttl_def minForwardCacheTTL_def maxForwardCacheTTL_def Let_def)

section \<open>Histories\<close>

text \<open>A call of the resolver: the outside world, the two times, the network and the host.\<close>

record resolve_call =
  rc_world :: dns_world
  rc_now :: int
  rc_done :: int
  rc_network :: string
  rc_host :: string

definition do_resolve :: "Resolver \<Rightarrow> resolve_call \<Rightarrow> Resolver" where
  "do_resolve r c = fst (Resolve (rc_world c) (rc_now c) (rc_done c) r (rc_network c) (rc_host c))"

text \<open>The entry \<open>e\<close> under \<open>key\<close> is what one of the calls obtained by a lookup, kept for a bounded time after it.\<close>

definition obtained :: "string \<Rightarrow> resolve_call list \<Rightarrow> string \<Rightarrow> forwardCacheEntry \<Rightarrow> bool" where
  "obtained server cs key e \<longleftrightarrow>
     (\<exists>c \<in> set cs. \<exists>r t. key = fwd_key (rc_network c) (rc_host c) \<and> dnsServer r = server \<and>
        resolver_lookup (rc_world c) r (rc_network c) (rc_host c) = Ok (fc_ips e, t) \<and>
        10 \<le> t \<and> t \<le> 300 \<and> fc_expiry e = rc_done c + t)"

lemma rawDNSLookup_bounds: "rawDNSLookup w s h n = Ok (ips, t) \<Longrightarrow> 10 \<le> t \<and> t \<le> 300"
  by (auto simp: rawDNSLookup_def clamp_ttl_bounds split: prod.splits if_splits)

lemma resolver_lookup_bounds: "resolver_lookup w r n h = Ok (ips, t) \<Longrightarrow> 10 \<le> t \<and> t \<le> 300"
  using rawDNSLookup_bounds
  by (auto simp: resolver_lookup_def gbind_eq_Ok fallbackForwardCacheTTL_def split: go.splits if_splits prod.splits)

lemma resolver_lookup_cong: "dnsServer r = dnsServer r' \<Longrightarrow> resolver_lookup w r n h = resolver_lookup w r' n h"
  by (simp add: resolver_lookup_def)

lemma Resolve_server [simp]: "dnsServer (fst (Resolve w now now' r n h)) = dnsServer r"
  by (simp add: Resolve_def Let_def RegisterIPs_def split: option.split go.split prod.split)

lemma foldl_server [simp]: "dnsServer (foldl do_resolve r cs) = dnsServer r"
  by (induction cs arbitrary: r) (simp_all add: do_resolve_def)

lemma Resolve_entries:
  "fwdMap (fst (Resolve w now now' r n h)) key = Some e \<Longrightarrow>
   fwdMap r key = Some e \<or> key = fwd_key n h \<and> (\<exists>t. resolver_lookup w r n h = Ok (fc_ips e, t) \<and> fc_expiry e = now' + t)"
  by (auto simp: Resolve_def Let_def RegisterIPs_def split: option.splits go.splits prod.splits if_splits)

lemma entries_obtained:
  "fwdMap (foldl do_resolve (NewResolver cache server) cs) key = Some e \<Longrightarrow> obtained server cs key e"
proof (induction cs rule: rev_induct)
  case Nil
  then show ?case by (simp add: NewResolver_def)
next
  case (snoc c cs)
  let ?r = "foldl do_resolve (NewResolver cache server) cs"
  have srv: "dnsServer ?r = server" by (simp add: NewResolver_def)
  have "fwdMap (fst (Resolve (rc_world c) (rc_now c) (rc_done c) ?r (rc_network c) (rc_host c))) key = Some e"
    using snoc.prems by (simp add: do_resolve_def [of _ c])
  then consider "fwdMap ?r key = Some e"
    | t where "key = fwd_key (rc_network c) (rc_host c)"
        "resolver_lookup (rc_world c) ?r (rc_network c) (rc_host c) = Ok (fc_ips e, t)" "fc_expiry e = rc_done c + t"
    by (auto dest: Resolve_entries)
  then show ?case
  proof cases
    case 1
    then show ?thesis using snoc.IH unfolding obtained_def by auto
  next
    case 2
    then show ?thesis using srv resolver_lookup_bounds [OF 2(2)] unfolding obtained_def by auto
  qed
qed

section \<open>Properties\<close>

text \<open>
  C32. The resolver serves no stale address: after any calls on a new resolver, an answer that comes from the forward cache was
  obtained for the same name by one of those calls, less than five minutes ago, and within ten seconds after a
  lookup its answer is served again without another one. The lifetime of a lookup at the DNS server is that of the
  shortest-lived record, clamped to ten seconds and five minutes, where records before the first address are
  not counted.
\<close>

theorem resolver_serves_fresh_addresses:
  assumes "fwdMap (foldl do_resolve (NewResolver cache server) cs) (fwd_key network host) = Some e" "now < fc_expiry e"
    and "answers w s h n = pre @ rr # post" "list_all (\<lambda>x. \<not> is_address x) pre" "is_address rr"
  shows "Resolve w now now' (foldl do_resolve (NewResolver cache server) cs) network host =
      (foldl do_resolve (NewResolver cache server) cs, Ok (fc_ips e), []) \<and>
    (\<exists>c \<in> set cs. fwd_key (rc_network c) (rc_host c) = fwd_key network host \<and> now < rc_done c + 300 \<and> rc_done c + 10 \<le> fc_expiry e \<and>
       (\<exists>r t. dnsServer r = server \<and> resolver_lookup (rc_world c) r (rc_network c) (rc_host c) = Ok (fc_ips e, t))) \<and>
    rawDNSLookup w s h n = Ok (concat (map address_of (answers w s h n)), clamp_ttl (uint (Min (rr_ttl ` set (rr # post)))))"
proof (intro conjI)
  show "Resolve w now now' (foldl do_resolve (NewResolver cache server) cs) network host =
      (foldl do_resolve (NewResolver cache server) cs, Ok (fc_ips e), [])"
    using assms(1,2) by (simp add: Resolve_def Let_def)
  show "\<exists>c \<in> set cs. fwd_key (rc_network c) (rc_host c) = fwd_key network host \<and> now < rc_done c + 300 \<and> rc_done c + 10 \<le> fc_expiry e \<and>
       (\<exists>r t. dnsServer r = server \<and> resolver_lookup (rc_world c) r (rc_network c) (rc_host c) = Ok (fc_ips e, t))"
    using entries_obtained [OF assms(1)] assms(2) unfolding obtained_def by fastforce
  have "concat (map address_of (answers w s h n)) \<noteq> []" using assms(3,5) by auto
  then show "rawDNSLookup w s h n = Ok (concat (map address_of (answers w s h n)), clamp_ttl (uint (Min (rr_ttl ` set (rr # post)))))"
    using add_records [OF assms(3-5)] by (simp add: rawDNSLookup_def del: set_simps)
qed

text \<open>
  Every address that the resolver returns for a name, and every address in an answer that passes through
  the proxy, resolves back to that name for the lifetime of the reverse cache.
\<close>

theorem resolved_addresses_are_named:
  assumes "Resolve w now now' r network host = (r', Ok ips, rows)" "fwdMap r (fwd_key network host) = None"
    "ParseIP host = None" "host \<noteq> []" "a \<in> set ips" "later \<le> now' + ttl (rv_cache r)"
    and "unpack response = Some (q # qs, rrs)" "trim_dot q \<noteq> []" "rr \<in> set rrs" "b \<in> set (address_of rr)"
      "dc_query c \<noteq> None" "response \<noteq> []" "later \<le> now' + ttl (dc_cache c)"
  shows "GetCached later (rv_cache r') (IP_String a) = host \<and>
    GetCached later (dc_cache (fst (capture_Write unpack now' response c))) (IP_String b) = trim_dot q"
proof
  have "rv_cache r' = fst (RegisterIPs now' (rv_cache r) host (map IP_String ips))"
    using assms(1-3) by (auto simp: Resolve_def Let_def split: go.splits prod.splits if_splits)
  moreover have "IP_String a \<in> set (map IP_String ips)" using assms(5) by simp
  ultimately show "GetCached later (rv_cache r') (IP_String a) = host"
    using assms(6) by (simp add: RegisterIPs_def GetCached_def foldl_put_entry del: set_map)
  let ?ips = "concat (map (\<lambda>rr. case rr_data rr of RR_A a \<Rightarrow> [IP_String a] | RR_AAAA a \<Rightarrow> [IP_String a] | RR_other \<Rightarrow> []) rrs)"
  have "(case rr_data x of RR_A a \<Rightarrow> [IP_String a] | RR_AAAA a \<Rightarrow> [IP_String a] | RR_other \<Rightarrow> []) = map IP_String (address_of x)" for x
    by (simp add: address_of_def split: rr_data.split)
  then have b: "IP_String b \<in> set ?ips" using assms(9,10) by auto
  then have "?ips \<noteq> []" by (metis empty_iff empty_set)
  then have "populateCache unpack now' (dc_cache c) response = RegisterIPs now' (dc_cache c) (trim_dot q) ?ips"
    using assms(7,8) by (simp add: populateCache_def Let_def)
  then show "GetCached later (dc_cache (fst (capture_Write unpack now' response c))) (IP_String b) = trim_dot q"
    using assms(11-13) b by (simp add: capture_Write_def RegisterIPs_def GetCached_def foldl_put_entry del: set_concat)
qed

end
