(* ===== verification/Settings.thy ===== *)
theory Settings
  imports Redaction
begin

text \<open>
  \<^verbatim>\<open>internal/greyproxy/settings.go\<close>: the settings a user has changed, on top of the defaults, with the file they
  are kept in and the header redactor built from them. JSON is a parameter; decoding into a structure may
  fill some of its fields and still report an error, as \<^verbatim>\<open>json.Unmarshal\<close> does. The lemmas say that the
  built-in patterns are always applied, that what is shown is what is applied, that settings survive a
  restart, and what a failed load or save leaves behind.
\<close>

section \<open>The manager\<close>

record UserSettings =
  u_Theme :: "string option"
  u_NotificationsEnabled :: "bool option"
  u_MitmEnabled :: "bool option"
  u_ConversationsEnabled :: "bool option"
  u_RedactedHeaders :: "string list option"

definition empty_settings :: UserSettings where
  "empty_settings = \<lparr>u_Theme = None, u_NotificationsEnabled = None, u_MitmEnabled = None, u_ConversationsEnabled = None,
     u_RedactedHeaders = None\<rparr>"

record ResolvedSettings =
  rs_Theme :: string
  rs_NotificationsEnabled :: bool
  rs_MitmEnabled :: bool
  rs_ConversationsEnabled :: bool
  rs_RedactedHeaders :: "string list"

record SettingsManager =
  sm_user :: UserSettings
  sm_defaultNotificationsEnabled :: bool
  sm_onNotificationsChanged :: bool
  sm_onMitmChanged :: bool
  sm_onConversationsChanged :: bool
  sm_redactor :: "string list"

definition NewSettingsManager :: "bool \<Rightarrow> SettingsManager" where
  "NewSettingsManager notif =
     \<lparr>sm_user = empty_settings, sm_defaultNotificationsEnabled = notif, sm_onNotificationsChanged = False,
      sm_onMitmChanged = False, sm_onConversationsChanged = False, sm_redactor = NewHeaderRedactor []\<rparr>"

text \<open>A nil slice and an empty one have the same elements.\<close>

definition headers_of :: "UserSettings \<Rightarrow> string list" where
  "headers_of u = (case u_RedactedHeaders u of Some hs \<Rightarrow> hs | None \<Rightarrow> [])"

definition rebuildRedactor :: "SettingsManager \<Rightarrow> SettingsManager" where
  "rebuildRedactor m = m\<lparr>sm_redactor := NewHeaderRedactor (headers_of (sm_user m))\<rparr>"

definition or_else :: "'a option \<Rightarrow> 'a \<Rightarrow> 'a" where
  "or_else x d = (case x of Some v \<Rightarrow> v | None \<Rightarrow> d)"

definition resolve :: "SettingsManager \<Rightarrow> ResolvedSettings" where
  "resolve m =
     \<lparr>rs_Theme = or_else (u_Theme (sm_user m)) ''system'',
      rs_NotificationsEnabled = or_else (u_NotificationsEnabled (sm_user m)) (sm_defaultNotificationsEnabled m),
      rs_MitmEnabled = or_else (u_MitmEnabled (sm_user m)) True,
      rs_ConversationsEnabled = or_else (u_ConversationsEnabled (sm_user m)) True,
      rs_RedactedHeaders = (case u_RedactedHeaders (sm_user m) of
         Some hs \<Rightarrow> DefaultRedactedHeaders @ hs | None \<Rightarrow> DefaultRedactedHeaders)\<rparr>"

datatype settings_file = Missing | Unreadable go_error | Contents "byte list"

text \<open>\<open>unmarshal u data\<close> decodes \<open>data\<close> into \<open>u\<close>.\<close>

type_synonym settings_decoder = "UserSettings \<Rightarrow> byte list \<Rightarrow> UserSettings \<times> go_error option"

definition Load :: "settings_decoder \<Rightarrow> settings_file \<Rightarrow> SettingsManager \<Rightarrow> SettingsManager \<times> go_error option" where
  "Load unmarshal f m =
     (case f of
        Missing \<Rightarrow> (m, None)
      | Unreadable e \<Rightarrow> (m, Some e)
      | Contents data \<Rightarrow>
          (case unmarshal (sm_user m) data of
             (u, Some e) \<Rightarrow> (m\<lparr>sm_user := u\<rparr>, Some e)
           | (u, None) \<Rightarrow> (rebuildRedactor (m\<lparr>sm_user := u\<rparr>), None)))"

text \<open>\<open>write\<close> is the outcome of creating the directory and writing the file: the file afterwards and the error, if any.\<close>

definition save ::
  "(UserSettings \<Rightarrow> byte list) \<Rightarrow> (settings_file \<Rightarrow> byte list \<Rightarrow> settings_file \<times> go_error option) \<Rightarrow> settings_file \<Rightarrow> SettingsManager \<Rightarrow>
   settings_file \<times> go_error option" where
  "save marshal write f m = (if sm_user m = empty_settings then (f, None) else write f (marshal (sm_user m)))"

datatype settings_callback = NotificationsChanged bool | MitmChanged bool | ConversationsChanged bool

text \<open>
  The patch field by field: the manager afterwards, and whether the resolved values of the three switches
  changed.
\<close>

definition apply_patch :: "SettingsManager \<Rightarrow> UserSettings \<Rightarrow> SettingsManager \<times> bool \<times> bool \<times> bool" where
  "apply_patch m patch =
     (let m1 = (case u_Theme patch of None \<Rightarrow> m | Some t \<Rightarrow> m\<lparr>sm_user := (sm_user m)\<lparr>u_Theme := Some t\<rparr>\<rparr>);
          (m2, notifChanged) = (case u_NotificationsEnabled patch of
             None \<Rightarrow> (m1, False)
           | Some b \<Rightarrow> (m1\<lparr>sm_user := (sm_user m1)\<lparr>u_NotificationsEnabled := Some b\<rparr>\<rparr>, rs_NotificationsEnabled (resolve m1) \<noteq> b));
          (m3, mitmChanged) = (case u_MitmEnabled patch of
             None \<Rightarrow> (m2, False)
           | Some b \<Rightarrow> (m2\<lparr>sm_user := (sm_user m2)\<lparr>u_MitmEnabled := Some b\<rparr>\<rparr>, rs_MitmEnabled (resolve m2) \<noteq> b));
          (m4, convChanged) = (case u_ConversationsEnabled patch of
             None \<Rightarrow> (m3, False)
           | Some b \<Rightarrow> (m3\<lparr>sm_user := (sm_user m3)\<lparr>u_ConversationsEnabled := Some b\<rparr>\<rparr>, rs_ConversationsEnabled (resolve m3) \<noteq> b));
          m5 = (case u_RedactedHeaders patch of
             None \<Rightarrow> m4
           | Some hs \<Rightarrow> rebuildRedactor (m4\<lparr>sm_user := (sm_user m4)\<lparr>u_RedactedHeaders := Some hs\<rparr>\<rparr>))
      in (m5, notifChanged, mitmChanged, convChanged))"

definition Update ::
  "(UserSettings \<Rightarrow> byte list) \<Rightarrow> (settings_file \<Rightarrow> byte list \<Rightarrow> settings_file \<times> go_error option) \<Rightarrow> settings_file \<Rightarrow> SettingsManager \<Rightarrow>
   UserSettings \<Rightarrow> (settings_file \<times> SettingsManager) \<times> ResolvedSettings go \<times> settings_callback list" where
  "Update marshal write f m patch =
     (case apply_patch m patch of
        (m', notifChanged, mitmChanged, convChanged) \<Rightarrow>
          (case save marshal write f m' of
             (f', Some e) \<Rightarrow> ((f', m'), Fail e, [])
           | (f', None) \<Rightarrow>
               let resolved = resolve m' in
               ((f', m'), Ok resolved,
                (if notifChanged \<and> sm_onNotificationsChanged m' then [NotificationsChanged (rs_NotificationsEnabled resolved)] else []) @
                (if mitmChanged \<and> sm_onMitmChanged m' then [MitmChanged (rs_MitmEnabled resolved)] else []) @
                (if convChanged \<and> sm_onConversationsChanged m' then [ConversationsChanged (rs_ConversationsEnabled resolved)] else []))))"

section \<open>What an update does\<close>

definition overlay :: "UserSettings \<Rightarrow> UserSettings \<Rightarrow> UserSettings" where
  "overlay u p =
     \<lparr>u_Theme = (if u_Theme p = None then u_Theme u else u_Theme p),
      u_NotificationsEnabled = (if u_NotificationsEnabled p = None then u_NotificationsEnabled u else u_NotificationsEnabled p),
      u_MitmEnabled = (if u_MitmEnabled p = None then u_MitmEnabled u else u_MitmEnabled p),
      u_ConversationsEnabled = (if u_ConversationsEnabled p = None then u_ConversationsEnabled u else u_ConversationsEnabled p),
      u_RedactedHeaders = (if u_RedactedHeaders p = None then u_RedactedHeaders u else u_RedactedHeaders p)\<rparr>"

definition updated :: "SettingsManager \<Rightarrow> UserSettings \<Rightarrow> SettingsManager" where
  "updated m p =
     m\<lparr>sm_user := overlay (sm_user m) p,
       sm_redactor := (case u_RedactedHeaders p of None \<Rightarrow> sm_redactor m | Some hs \<Rightarrow> NewHeaderRedactor hs)\<rparr>"

definition changes :: "SettingsManager \<Rightarrow> SettingsManager \<Rightarrow> settings_callback list" where
  "changes m m' =
     (if rs_NotificationsEnabled (resolve m) \<noteq> rs_NotificationsEnabled (resolve m') \<and> sm_onNotificationsChanged m
      then [NotificationsChanged (rs_NotificationsEnabled (resolve m'))] else []) @
     (if rs_MitmEnabled (resolve m) \<noteq> rs_MitmEnabled (resolve m') \<and> sm_onMitmChanged m
      then [MitmChanged (rs_MitmEnabled (resolve m'))] else []) @
     (if rs_ConversationsEnabled (resolve m) \<noteq> rs_ConversationsEnabled (resolve m') \<and> sm_onConversationsChanged m
      then [ConversationsChanged (rs_ConversationsEnabled (resolve m'))] else [])"

text \<open>The stages of an update are one overlay, and a callback runs exactly for a resolved value that changed.\<close>

lemma apply_patch_spec:
  "apply_patch m p =
     (updated m p,
      rs_NotificationsEnabled (resolve m) \<noteq> rs_NotificationsEnabled (resolve (updated m p)),
      rs_MitmEnabled (resolve m) \<noteq> rs_MitmEnabled (resolve (updated m p)),
      rs_ConversationsEnabled (resolve m) \<noteq> rs_ConversationsEnabled (resolve (updated m p)))"
proof -
  have split: "apply_patch m \<lparr>u_Theme = a, u_NotificationsEnabled = b, u_MitmEnabled = c, u_ConversationsEnabled = d, u_RedactedHeaders = e\<rparr> =
     (let m' = updated m \<lparr>u_Theme = a, u_NotificationsEnabled = b, u_MitmEnabled = c, u_ConversationsEnabled = d, u_RedactedHeaders = e\<rparr> in
      (m', rs_NotificationsEnabled (resolve m) \<noteq> rs_NotificationsEnabled (resolve m'),
       rs_MitmEnabled (resolve m) \<noteq> rs_MitmEnabled (resolve m'),
       rs_ConversationsEnabled (resolve m) \<noteq> rs_ConversationsEnabled (resolve m')))" for a b c d e
    unfolding apply_patch_def updated_def overlay_def resolve_def or_else_def rebuildRedactor_def headers_of_def Let_def
    by (cases a; cases b; cases c; cases d; cases e) (simp_all split: option.split)
  then show ?thesis by (cases p) (simp add: Let_def)
qed

lemma Update_spec:
  "Update marshal write f m patch =
     (case save marshal write f (updated m patch) of
        (f', Some e) \<Rightarrow> ((f', updated m patch), Fail e, [])
      | (f', None) \<Rightarrow> ((f', updated m patch), Ok (resolve (updated m patch)), changes m (updated m patch)))"
  by (simp add: Update_def apply_patch_spec changes_def updated_def Let_def split: prod.split option.split)

section \<open>The handler\<close>

record settings_request =
  sq_Theme :: "string option"
  sq_Notifications :: "bool option option"
  sq_Mitm :: "bool option option"
  sq_Conversations :: "bool option option"
  sq_RedactedHeaders :: "string list option"

definition inner :: "'a option option \<Rightarrow> 'a option" where
  "inner x = (case x of Some y \<Rightarrow> y | None \<Rightarrow> None)"

definition settings_patch :: "settings_request \<Rightarrow> string + UserSettings" where
  "settings_patch body =
     (case sq_Theme body of
        Some t \<Rightarrow> if t \<noteq> ''system'' \<and> t \<noteq> ''light'' \<and> t \<noteq> ''dark'' then Inl ''theme must be system, light, or dark''
                  else Inr \<lparr>u_Theme = Some t, u_NotificationsEnabled = inner (sq_Notifications body), u_MitmEnabled = inner (sq_Mitm body),
                            u_ConversationsEnabled = inner (sq_Conversations body), u_RedactedHeaders = sq_RedactedHeaders body\<rparr>
      | None \<Rightarrow> Inr \<lparr>u_Theme = None, u_NotificationsEnabled = inner (sq_Notifications body), u_MitmEnabled = inner (sq_Mitm body),
                     u_ConversationsEnabled = inner (sq_Conversations body), u_RedactedHeaders = sq_RedactedHeaders body\<rparr>)"

text \<open>The status code and, on success, the settings of the response.\<close>

definition SettingsUpdateHandler ::
  "(UserSettings \<Rightarrow> byte list) \<Rightarrow> (settings_file \<Rightarrow> byte list \<Rightarrow> settings_file \<times> go_error option) \<Rightarrow> settings_file \<times> SettingsManager \<Rightarrow>
   go_error + settings_request \<Rightarrow> (settings_file \<times> SettingsManager) \<times> int \<times> ResolvedSettings option" where
  "SettingsUpdateHandler marshal write st bound =
     (case bound of
        Inl e \<Rightarrow> (st, 400, None)
      | Inr body \<Rightarrow>
          (case settings_patch body of
             Inl msg \<Rightarrow> (st, 400, None)
           | Inr patch \<Rightarrow>
               (case Update marshal write (fst st) (snd st) patch of
                  (st', Ok _, _) \<Rightarrow> (st', 200, Some (resolve (snd st')))
                | (st', _, _) \<Rightarrow> (st', 500, None))))"

section \<open>Runs\<close>

inductive settings_step :: "settings_file \<times> SettingsManager \<Rightarrow> settings_file \<times> SettingsManager \<Rightarrow> bool" where
  update: "settings_step (f, m) (fst (Update marshal write f m patch))"
| request: "settings_step st (fst (SettingsUpdateHandler marshal write st bound))"
| load: "Load unmarshal f m = (m', None) \<Longrightarrow> settings_step (f, m) (f, m')"

inductive_cases settings_stepE: "settings_step st st'"

definition in_step :: "SettingsManager \<Rightarrow> bool" where
  "in_step m \<longleftrightarrow> sm_redactor m = NewHeaderRedactor (headers_of (sm_user m))"

lemma updated_in_step: "in_step m \<Longrightarrow> in_step (updated m p)"
  by (simp add: in_step_def updated_def overlay_def headers_of_def split: option.split)

lemma Update_state: "snd (fst (Update marshal write f m p)) = updated m p"
  by (simp add: Update_spec split: prod.split option.split)

lemma handler_state:
  "snd (fst (SettingsUpdateHandler marshal write st bound)) = snd st \<or>
   (\<exists>p. snd (fst (SettingsUpdateHandler marshal write st bound)) = updated (snd st) p)"
proof (cases bound)
  case (Inr body)
  show ?thesis
  proof (cases "settings_patch body")
    case (Inr patch)
    have "fst (SettingsUpdateHandler marshal write st bound) = fst (Update marshal write (fst st) (snd st) patch)"
      using \<open>bound = Inr body\<close> Inr by (simp add: SettingsUpdateHandler_def split: prod.split go.split)
    then show ?thesis using Update_state by metis
  qed (simp add: SettingsUpdateHandler_def \<open>bound = Inr body\<close>)
qed (simp add: SettingsUpdateHandler_def)

lemma settings_step_in_step: "settings_step st st' \<Longrightarrow> in_step (snd st) \<Longrightarrow> in_step (snd st')"
proof (induction rule: settings_step.induct)
  case (update f m marshal "write" patch)
  then show ?case by (simp add: Update_state updated_in_step)
next
  case (request st marshal "write" bound)
  then show ?case using handler_state [of marshal "write" st bound] updated_in_step by auto
next
  case (load unmarshal f m m')
  then show ?case
    by (auto simp: Load_def in_step_def rebuildRedactor_def split: settings_file.splits prod.splits option.splits)
qed

lemma settings_steps_in_step: "settings_step\<^sup>*\<^sup>* st st' \<Longrightarrow> in_step (snd st) \<Longrightarrow> in_step (snd st')"
  by (induction rule: rtranclp_induct) (auto intro: settings_step_in_step)

lemma NewSettingsManager_in_step: "in_step (NewSettingsManager b)"
  by (simp add: in_step_def NewSettingsManager_def empty_settings_def headers_of_def)

section \<open>JSON\<close>

text \<open>\<^verbatim>\<open>omitempty\<close> leaves out an empty list of headers.\<close>

definition stored :: "UserSettings \<Rightarrow> UserSettings" where
  "stored u = (if u_RedactedHeaders u = Some [] then u\<lparr>u_RedactedHeaders := None\<rparr> else u)"

definition json_ok :: "(UserSettings \<Rightarrow> byte list) \<Rightarrow> settings_decoder \<Rightarrow> UserSettings \<Rightarrow> bool" where
  "json_ok marshal unmarshal u \<longleftrightarrow> unmarshal empty_settings (marshal u) = (stored u, None)"

definition write_file :: "settings_file \<Rightarrow> byte list \<Rightarrow> settings_file \<times> go_error option" where
  "write_file f data = (Contents data, None)"

definition saved :: "(UserSettings \<Rightarrow> byte list) \<Rightarrow> settings_file \<times> SettingsManager \<Rightarrow> bool" where
  "saved marshal st \<longleftrightarrow>
     (if sm_user (snd st) = empty_settings then fst st = Missing else fst st = Contents (marshal (sm_user (snd st))))"

lemma overlay_empty: "overlay u p = empty_settings \<Longrightarrow> u = empty_settings"
  by (cases u) (simp add: overlay_def empty_settings_def split: if_splits)

lemma Update_saved:
  assumes "saved marshal (f, m)"
  shows "saved marshal (fst (Update marshal write_file f m p))"
proof -
  have "sm_user m = empty_settings" if "sm_user (updated m p) = empty_settings"
    using that overlay_empty by (simp add: updated_def)
  with assms show ?thesis
    by (auto simp: Update_spec save_def write_file_def saved_def split: if_splits)
qed

lemma updates_saved:
  "saved marshal st \<Longrightarrow> saved marshal (foldl (\<lambda>(f, m) p. fst (Update marshal write_file f m p)) st ps)"
  by (induction ps arbitrary: st) (simp_all add: Update_saved split_beta)

lemma updates_default:
  "sm_defaultNotificationsEnabled (snd (foldl (\<lambda>(f, m) p. fst (Update marshal write_file f m p)) st ps)) =
   sm_defaultNotificationsEnabled (snd st)"
  by (induction ps arbitrary: st) (simp_all add: Update_state updated_def split_beta)

section \<open>Properties\<close>

text \<open>
  What the settings show is what is redacted: after any updates, requests and loads that succeed, from a new
  manager on and whether or not the file could be written, a header is sensitive exactly when one of the
  patterns in the resolved settings, trimmed and in lower case, matches its name; in particular the built-in patterns always apply.
\<close>

theorem settings_shown_are_applied:
  assumes "settings_step\<^sup>*\<^sup>* (f0, NewSettingsManager b) (f, m)"
  shows "(isSensitive (sm_redactor m) name \<longleftrightarrow>
      (\<exists>p \<in> set (rs_RedactedHeaders (resolve m)). matchPattern (ToLower (TrimSpace p)) (ToLower name))) \<and>
    (isSensitive (NewHeaderRedactor []) name \<longrightarrow> isSensitive (sm_redactor m) name)"
proof -
  have r: "sm_redactor m = NewHeaderRedactor (headers_of (sm_user m))"
    using settings_steps_in_step [OF assms] NewSettingsManager_in_step by (simp add: in_step_def)
  have rh: "rs_RedactedHeaders (resolve m) = DefaultRedactedHeaders @ headers_of (sm_user m)"
    by (simp add: resolve_def headers_of_def split: option.split)
  have none: "\<not> matchPattern [] n" for n by (simp add: matchPattern_def trim_stars_def HasPrefix_def HasSuffix_def)
  have trim: "TrimSpace p = p" if "p \<in> set DefaultRedactedHeaders" for p
    using that by (intro TrimSpace_no_space) (auto simp: DefaultRedactedHeaders_def is_space_def)
  have "isSensitive (sm_redactor m) name \<longleftrightarrow>
      (\<exists>p \<in> set (rs_RedactedHeaders (resolve m)). matchPattern (ToLower (TrimSpace p)) (ToLower name))"
    unfolding r rh isSensitive_iff redactor_patterns using none trim
    by (auto simp: bex_Un) (metis none)
  moreover have "isSensitive (NewHeaderRedactor []) name \<Longrightarrow> isSensitive (sm_redactor m) name"
    unfolding r by (rule redactor_mono)
  ultimately show ?thesis by blast
qed

text \<open>
  Settings survive a restart: after any updates that could be written, starting without a file, a new manager that loads the file
  resolves to the same settings and redacts the same headers.
\<close>

theorem settings_survive_restart:
  assumes "json_ok marshal unmarshal (sm_user m)"
    and "foldl (\<lambda>(f, m) p. fst (Update marshal write_file f m p)) (Missing, NewSettingsManager b) ps = (f, m)"
  shows "\<exists>m'. Load unmarshal f (NewSettingsManager b) = (m', None) \<and> resolve m' = resolve m \<and> sm_redactor m' = sm_redactor m"
proof -
  have ok: "saved marshal (f, m)"
  proof -
    have "saved marshal (Missing, NewSettingsManager b)" by (simp add: saved_def NewSettingsManager_def)
    from updates_saved [OF this, of ps] show ?thesis unfolding assms(2) .
  qed
  have nb: "sm_defaultNotificationsEnabled m = b"
    using updates_default [of marshal "(Missing, NewSettingsManager b)" ps] assms(2) by (simp add: NewSettingsManager_def)
  have "in_step m"
  proof -
    have "in_step (snd (foldl (\<lambda>(f, m) p. fst (Update marshal write_file f m p)) st ps))" if "in_step (snd st)" for st
      using that by (induction ps arbitrary: st) (simp_all add: Update_state updated_in_step split_beta)
    from this [of "(Missing, NewSettingsManager b)"] show ?thesis
      unfolding assms(2) using NewSettingsManager_in_step by simp
  qed
  then have red: "sm_redactor m = NewHeaderRedactor (headers_of (sm_user m))" by (simp add: in_step_def)
  have same: "resolve (NewSettingsManager b\<lparr>sm_user := u, sm_redactor := x\<rparr>) = resolve m" "headers_of u = headers_of (sm_user m)"
    if "u = stored (sm_user m)" for u x
    using that nb by (auto simp: stored_def resolve_def or_else_def NewSettingsManager_def headers_of_def)
  show ?thesis
  proof (cases "sm_user m = empty_settings")
    case True
    then show ?thesis
      using ok nb red by (simp add: saved_def Load_def NewSettingsManager_def resolve_def or_else_def headers_of_def empty_settings_def)
  next
    case False
    then have "f = Contents (marshal (sm_user m))" using ok by (simp add: saved_def)
    moreover have "unmarshal (sm_user (NewSettingsManager b)) (marshal (sm_user m)) = (stored (sm_user m), None)"
      using assms(1) by (simp add: json_ok_def NewSettingsManager_def)
    ultimately show ?thesis
      using same [OF refl] red by (simp add: Load_def rebuildRedactor_def)
  qed
qed

text \<open>
  What errors leave behind: when the settings cannot be written, the update is reported as failed and no callback
  runs, but the new settings are in force; and when the file decodes only in part, the headers it names are shown among the
  settings but not redacted.
\<close>

lemma failed_save_still_applies:
  assumes "write f (marshal (sm_user (updated m p))) = (f', Some e)" "sm_user (updated m p) \<noteq> empty_settings"
  shows "Update marshal write f m p = ((f', updated m p), Fail e, [])"
  using assms by (simp add: Update_spec save_def)

lemma failed_load_shows_unapplied:
  assumes "unmarshal empty_settings data = (empty_settings\<lparr>u_RedactedHeaders := Some hs\<rparr>, Some e)"
  shows "\<exists>m. Load unmarshal (Contents data) (NewSettingsManager b) = (m, Some e) \<and>
    rs_RedactedHeaders (resolve m) = DefaultRedactedHeaders @ hs \<and> sm_redactor m = NewHeaderRedactor []"
  using assms by (simp add: Load_def NewSettingsManager_def resolve_def)

end
