(* ===== verification/AccessLists.thy ===== *)
theory AccessLists
  imports GoNet "HOL-Library.Product_Lexorder" "HOL-Library.List_Lexorder" "HOL-Library.Char_ord"
begin

text \<open>
  The static access lists of the embedded proxy: port and address ranges (\<^verbatim>\<open>internal/gostx/internal/net/addr.go\<close>), the
  matchers of \<^verbatim>\<open>internal/gostx/internal/matcher\<close>, the bypass and admission lists built on them (\<^verbatim>\<open>bypass/bypass.go\<close>,
  \<^verbatim>\<open>admission/admission.go\<close>) and the static host table (\<^verbatim>\<open>hosts/hosts.go\<close>). The glob compiler and the CIDR trie are
  third-party code and parameters; what the loaders deliver is a parameter too. The lemmas say which addresses a
  list matches, what a group of lists decides, and which entry of the host table answers.
\<close>

section \<open>Ranges\<close>

record PortRange =
  pr_Min :: int
  pr_Max :: int

definition PortRange_Parse :: "string \<Rightarrow> PortRange go" where
  "PortRange_Parse s =
     (case Split (CHR ''-'') s of
        [_] \<Rightarrow>
          (case Atoi s of
             (port, Some e) \<Rightarrow> Fail e
           | (port, None) \<Rightarrow>
               if port < 0 \<or> port > 65535 then Fail (GoErr ''invalid port'') else Ok \<lparr>pr_Min = port, pr_Max = port\<rparr>)
      | [a, b] \<Rightarrow>
          (case Atoi a of
             (_, Some e) \<Rightarrow> Fail e
           | (mn, None) \<Rightarrow>
               (case Atoi b of
                  (_, Some e) \<Rightarrow> Fail e
                | (mx, None) \<Rightarrow> Ok \<lparr>pr_Min = mn, pr_Max = mx\<rparr>))
      | _ \<Rightarrow> Fail (GoErr ''invalid port range''))"

definition PortRange_Contains :: "PortRange \<Rightarrow> int \<Rightarrow> bool" where
  "PortRange_Contains pr port \<longleftrightarrow> port \<ge> pr_Min pr \<and> port \<le> pr_Max pr"

text \<open>The error of \<^verbatim>\<open>Parse\<close> is dropped, and the range is then that of port zero.\<close>

definition AddrPortRange_Addrs :: "string \<Rightarrow> string list" where
  "AddrPortRange_Addrs p =
     (if Contains p ''://'' then []
      else case SplitHostPort p of
        Ok (h, sp) \<Rightarrow>
          (case PortRange_Parse sp of
             Ok pr \<Rightarrow> map (\<lambda>i. JoinHostPort h (Itoa i)) [pr_Min pr..pr_Max pr]
           | _ \<Rightarrow> [JoinHostPort h (Itoa 0)])
      | _ \<Rightarrow> [])"

text \<open>\<^verbatim>\<open>netip.Addr\<close>: the family, the sixteen bytes and the zone.\<close>

record netip_Addr =
  na_is4 :: bool
  na_ip :: ip
  na_zone :: string

definition netip_ParseAddr :: "string \<Rightarrow> netip_Addr option" where
  "netip_ParseAddr s =
     (if CHR ''%'' \<in> set s then
        (let zone = tl (dropWhile (\<lambda>c. c \<noteq> CHR ''%'') s); addr = takeWhile (\<lambda>c. c \<noteq> CHR ''%'') s in
         if zone = [] \<or> CHR '':'' \<notin> set addr then None
         else case ParseAddr addr of
                Some (False, a) \<Rightarrow> Some \<lparr>na_is4 = False, na_ip = a, na_zone = zone\<rparr>
              | _ \<Rightarrow> None)
      else map_option (\<lambda>(v4, a). \<lparr>na_is4 = v4, na_ip = a, na_zone = []\<rparr>) (ParseAddr s))"

text \<open>\<^verbatim>\<open>Addr.Less\<close>: by family, then by value, then by zone.\<close>

definition na_rank :: "netip_Addr \<Rightarrow> nat \<times> int list \<times> string" where
  "na_rank a = (if na_is4 a then 32 else 128, map uint (na_ip a), na_zone a)"

definition Addr_Less :: "netip_Addr \<Rightarrow> netip_Addr \<Rightarrow> bool" where
  "Addr_Less a b \<longleftrightarrow> na_rank a < na_rank b"

record IPRange =
  ir_Min :: netip_Addr
  ir_Max :: netip_Addr

definition IPRange_Parse :: "string \<Rightarrow> IPRange option" where
  "IPRange_Parse s =
     (case Split (CHR ''-'') s of
        [_] \<Rightarrow> map_option (\<lambda>a. \<lparr>ir_Min = a, ir_Max = a\<rparr>) (netip_ParseAddr (TrimSpace s))
      | [a, b] \<Rightarrow>
          (case netip_ParseAddr (TrimSpace a) of
             None \<Rightarrow> None
           | Some mn \<Rightarrow> map_option (\<lambda>mx. \<lparr>ir_Min = mn, ir_Max = mx\<rparr>) (netip_ParseAddr (TrimSpace b)))
      | _ \<Rightarrow> None)"

definition IPRange_Contains :: "IPRange \<Rightarrow> netip_Addr \<Rightarrow> bool" where
  "IPRange_Contains r a \<longleftrightarrow> \<not> (Addr_Less a (ir_Min r) \<or> Addr_Less (ir_Max r) a)"

section \<open>Matchers\<close>

text \<open>\<^verbatim>\<open>net.SplitHostPort\<close> with its error dropped.\<close>

definition split_or_empty :: "string \<Rightarrow> string \<times> string" where
  "split_or_empty addr = (case SplitHostPort addr of Ok hp \<Rightarrow> hp | _ \<Rightarrow> ([], []))"

definition host_or_all :: "string \<Rightarrow> string" where
  "host_or_all addr = (case split_or_empty addr of (host, _) \<Rightarrow> if host = [] then addr else host)"

definition IPMatcher :: "ip list \<Rightarrow> string set" where
  "IPMatcher ips = IP_String ` set ips"

definition ipMatcher_Match :: "string set \<Rightarrow> string \<Rightarrow> bool" where
  "ipMatcher_Match m ip \<longleftrightarrow> ip \<in> m"

text \<open>The port range of a pattern, \<open>None\<close> when it has none or an invalid one: then every port matches.\<close>

definition port_range :: "string \<Rightarrow> PortRange option" where
  "port_range port = (case PortRange_Parse port of Ok pr \<Rightarrow> Some pr | _ \<Rightarrow> None)"

type_synonym addr_map = "string \<rightharpoonup> PortRange option"

definition add_addr :: "addr_map \<Rightarrow> string \<Rightarrow> addr_map" where
  "add_addr m addr =
     (case split_or_empty addr of
        (host, port) \<Rightarrow> if host = [] then m(addr \<mapsto> None) else m(host \<mapsto> port_range port))"

definition AddrMatcher :: "string list \<Rightarrow> addr_map" where
  "AddrMatcher addrs = foldl add_addr Map.empty addrs"

text \<open>
  The walk over the parent domains that three of the lookups make: \<^verbatim>\<open>host[index:]\<close> at the first dot, then on in
  \<^verbatim>\<open>host[index+1:]\<close>, as long as there is a dot and it is not the first character.
\<close>

function dot_suffixes :: "string \<Rightarrow> string list" where
  "dot_suffixes host =
     (case index_of (CHR ''.'') host of
        Some i \<Rightarrow> if 0 < i then drop i host # dot_suffixes (drop (Suc i) host) else []
      | None \<Rightarrow> [])"
  by pat_completeness auto
termination
  by (relation "measure length") (auto simp: index_of_def split: if_splits intro!: diff_less length_pos_if_in_set)

declare dot_suffixes.simps [simp del]

definition range_ok :: "PortRange option \<Rightarrow> int \<Rightarrow> bool" where
  "range_ok r port = (case r of None \<Rightarrow> True | Some pr \<Rightarrow> PortRange_Contains pr port)"

definition addr_hit :: "addr_map \<Rightarrow> int \<Rightarrow> string \<Rightarrow> bool" where
  "addr_hit m port host = (case m host of Some r \<Rightarrow> range_ok r port | None \<Rightarrow> False)"

definition addrMatcher_Match :: "addr_map \<Rightarrow> string \<Rightarrow> bool" where
  "addrMatcher_Match m addr =
     (let host = host_or_all addr; port = fst (Atoi (snd (split_or_empty addr))) in
      addr_hit m port host \<or> addr_hit m port (CHR ''.'' # host) \<or> list_ex (addr_hit m port) (dot_suffixes host))"

definition cidrMatcher_Match :: "(ipnet list \<Rightarrow> ip \<Rightarrow> bool) \<Rightarrow> ipnet list \<Rightarrow> string \<Rightarrow> bool" where
  "cidrMatcher_Match trie inets ip = (case ParseIP ip of Some netIP \<Rightarrow> trie inets netIP | None \<Rightarrow> False)"

definition DomainMatcher :: "string list \<Rightarrow> string set" where
  "DomainMatcher domains = set domains"

definition domainMatcher_Match :: "string set \<Rightarrow> string \<Rightarrow> bool" where
  "domainMatcher_Match m domain \<longleftrightarrow>
     domain \<in> m \<or> CHR ''.'' # domain \<in> m \<or> list_ex (\<lambda>s. s \<in> m) (dot_suffixes domain)"

text \<open>\<open>glob\<close> compiles a pattern; \<^verbatim>\<open>glob.MustCompile\<close> panics on one that does not compile.\<close>

type_synonym globber = "string \<Rightarrow> (string \<Rightarrow> bool) option"

fun WildcardMatcher :: "globber \<Rightarrow> string list \<Rightarrow> ((string \<Rightarrow> bool) \<times> PortRange option) list go" where
  "WildcardMatcher glob [] = Ok []"
| "WildcardMatcher glob (p # ps) =
     (case glob (host_or_all p) of
        None \<Rightarrow> Panic
      | Some g \<Rightarrow> gbind (WildcardMatcher glob ps) (\<lambda>ws. Ok ((g, port_range (snd (split_or_empty p))) # ws)))"

definition wildcardMatcher_Match :: "((string \<Rightarrow> bool) \<times> PortRange option) list \<Rightarrow> string \<Rightarrow> bool" where
  "wildcardMatcher_Match ws addr =
     (let host = host_or_all addr; port = fst (Atoi (snd (split_or_empty addr))) in
      list_ex (\<lambda>(g, r). g host \<and> range_ok r port) ws)"

definition ipRangeMatcher_Match :: "IPRange list \<Rightarrow> string \<Rightarrow> bool" where
  "ipRangeMatcher_Match rs addr =
     (case netip_ParseAddr (host_or_all addr) of
        None \<Rightarrow> False
      | Some a \<Rightarrow> list_ex (\<lambda>r. IPRange_Contains r a) rs)"

section \<open>Loaders\<close>

text \<open>
  A loader lists its entries or delivers a text, here as its lines. A comment starts at the hash sign.
\<close>

datatype loaded = Listed "string list" | Lines "string list"

definition parseLine :: "string \<Rightarrow> string" where
  "parseLine s = TrimSpace (takeWhile (\<lambda>c. c \<noteq> CHR ''#'') s)"

definition parsePatterns :: "string list \<Rightarrow> string list" where
  "parsePatterns ls = filter (\<lambda>l. l \<noteq> []) (map parseLine ls)"

definition load_patterns :: "loaded option \<Rightarrow> loaded option \<Rightarrow> string list option \<Rightarrow> string list" where
  "load_patterns file redis http =
     (case file of None \<Rightarrow> [] | Some (Listed xs) \<Rightarrow> parsePatterns xs | Some (Lines ls) \<Rightarrow> parsePatterns ls) @
     (case redis of None \<Rightarrow> [] | Some (Listed xs) \<Rightarrow> xs | Some (Lines ls) \<Rightarrow> parsePatterns ls) @
     (case http of None \<Rightarrow> [] | Some ls \<Rightarrow> parsePatterns ls)"

section \<open>Bypass lists\<close>

record localBypass =
  lb_whitelist :: bool
  lb_matchers :: "string list"
  lb_cidr :: "ipnet list"
  lb_addr :: addr_map
  lb_wildcard :: "((string \<Rightarrow> bool) \<times> PortRange option) list"
  lb_ipRange :: "IPRange list"

definition NewBypass :: "bool \<Rightarrow> string list \<Rightarrow> localBypass" where
  "NewBypass whitelist matchers =
     \<lparr>lb_whitelist = whitelist, lb_matchers = matchers, lb_cidr = [], lb_addr = Map.empty, lb_wildcard = [], lb_ipRange = []\<rparr>"

datatype pattern_kind = KCidr ipnet | KWild | KRange IPRange | KAddr

definition classify :: "globber \<Rightarrow> string \<Rightarrow> pattern_kind" where
  "classify glob pattern =
     (case ParseCIDR pattern of
        Some inet \<Rightarrow> KCidr inet
      | None \<Rightarrow>
          if ContainsAny pattern ''*?'' \<and> glob pattern \<noteq> None then KWild
          else (case IPRange_Parse pattern of Some r \<Rightarrow> KRange r | None \<Rightarrow> KAddr))"

definition bypass_reload :: "globber \<Rightarrow> string list \<Rightarrow> localBypass \<Rightarrow> localBypass go" where
  "bypass_reload glob loaded_patterns p =
     (let patterns = lb_matchers p @ loaded_patterns in
      gbind (WildcardMatcher glob (filter (\<lambda>x. classify glob x = KWild) patterns)) (\<lambda>ws.
      Ok (p\<lparr>lb_cidr := List.map_filter (\<lambda>x. case classify glob x of KCidr n \<Rightarrow> Some n | _ \<Rightarrow> None) patterns,
            lb_addr := AddrMatcher (filter (\<lambda>x. classify glob x = KAddr) patterns),
            lb_wildcard := ws,
            lb_ipRange := List.map_filter (\<lambda>x. case classify glob x of KRange r \<Rightarrow> Some r | _ \<Rightarrow> None) patterns\<rparr>)))"

definition bypass_matched :: "(ipnet list \<Rightarrow> ip \<Rightarrow> bool) \<Rightarrow> localBypass \<Rightarrow> string \<Rightarrow> bool" where
  "bypass_matched trie p addr \<longleftrightarrow>
     ipRangeMatcher_Match (lb_ipRange p) addr \<or>
     addrMatcher_Match (lb_addr p) addr \<or>
     (ParseIP (host_or_all addr) \<noteq> None \<and> cidrMatcher_Match trie (lb_cidr p) (host_or_all addr)) \<or>
     wildcardMatcher_Match (lb_wildcard p) addr"

definition localBypass_Contains :: "(ipnet list \<Rightarrow> ip \<Rightarrow> bool) \<Rightarrow> localBypass \<Rightarrow> string \<Rightarrow> bool" where
  "localBypass_Contains trie p addr =
     (if addr = [] then False
      else let matched = bypass_matched trie p addr in
           \<not> lb_whitelist p \<and> matched \<or> lb_whitelist p \<and> \<not> matched)"

text \<open>A member of a group: whether it is a white list, and what it says of the address.\<close>

definition bypassGroup_Contains :: "(bool \<times> bool) list \<Rightarrow> bool" where
  "bypassGroup_Contains bs =
     (let whitelist = map snd (filter fst bs); blacklist = map snd (filter (\<lambda>b. \<not> fst b) bs);
          status = (if 0 < length whitelist then (if False \<in> set whitelist then False else True) else False)
      in if \<not> status \<and> 0 < length blacklist then (if True \<in> set blacklist then True else False) else status)"

section \<open>Admission lists\<close>

record localAdmission =
  la_whitelist :: bool
  la_matchers :: "string list"
  la_ips :: "string set"
  la_cidr :: "ipnet list"

text \<open>\<open>resolveIP\<close> is \<^verbatim>\<open>net.ResolveIPAddr\<close>.\<close>

definition admission_reload :: "(string \<Rightarrow> ip option) \<Rightarrow> string list \<Rightarrow> localAdmission \<Rightarrow> localAdmission" where
  "admission_reload resolveIP loaded_patterns p =
     (let patterns = la_matchers p @ loaded_patterns in
      p\<lparr>la_ips := IPMatcher (List.map_filter (\<lambda>x. case ParseIP x of
                    Some ip \<Rightarrow> Some ip
                  | None \<Rightarrow> (case ParseCIDR x of Some _ \<Rightarrow> None | None \<Rightarrow> resolveIP x)) patterns),
        la_cidr := List.map_filter (\<lambda>x. case ParseIP x of Some _ \<Rightarrow> None | None \<Rightarrow> ParseCIDR x) patterns\<rparr>)"

definition admission_matched :: "(ipnet list \<Rightarrow> ip \<Rightarrow> bool) \<Rightarrow> localAdmission \<Rightarrow> string \<Rightarrow> bool" where
  "admission_matched trie p addr \<longleftrightarrow> ipMatcher_Match (la_ips p) addr \<or> cidrMatcher_Match trie (la_cidr p) addr"

definition localAdmission_Admit :: "(ipnet list \<Rightarrow> ip \<Rightarrow> bool) \<Rightarrow> localAdmission \<Rightarrow> string \<Rightarrow> bool" where
  "localAdmission_Admit trie p addr =
     (if addr = [] then True
      else let matched = admission_matched trie p (host_or_all addr) in
           \<not> la_whitelist p \<and> \<not> matched \<or> la_whitelist p \<and> matched)"

text \<open>Members of a group may be nil.\<close>

definition admissionGroup_Admit :: "(string \<Rightarrow> bool) option list \<Rightarrow> string \<Rightarrow> bool" where
  "admissionGroup_Admit as addr = list_all (\<lambda>a. case a of None \<Rightarrow> True | Some f \<Rightarrow> f addr) as"

section \<open>The host table\<close>

definition IP_Equal :: "ip \<Rightarrow> ip \<Rightarrow> bool" where
  "IP_Equal a b \<longleftrightarrow> (case (To16 a, To16 b) of (Some x, Some y) \<Rightarrow> x = y | _ \<Rightarrow> a = b)"

type_synonym host_map = "string \<rightharpoonup> ip list"

definition mapf :: "host_map \<Rightarrow> string \<times> ip \<Rightarrow> host_map" where
  "mapf m = (\<lambda>(hostname, ip).
     let ips = (case m hostname of Some xs \<Rightarrow> xs | None \<Rightarrow> []) in
     m(hostname \<mapsto> (if list_ex (IP_Equal ip) ips then ips else ips @ [ip])))"

text \<open>Tabs are blanks; the line is trimmed before its comment is cut off.\<close>

definition hosts_parseLine :: "string \<Rightarrow> (string \<times> ip) list" where
  "hosts_parseLine s =
     (let line = takeWhile (\<lambda>c. c \<noteq> CHR ''#'') (TrimSpace (map (\<lambda>c. if c = CHR 0x09 then CHR '' '' else c) s));
          sp = filter (\<lambda>x. x \<noteq> []) (map TrimSpace (Split (CHR '' '') line))
      in case sp of
           a # v # vs \<Rightarrow> (case ParseIP a of None \<Rightarrow> [] | Some ip \<Rightarrow> map (\<lambda>h. (h, ip)) (v # vs))
         | _ \<Rightarrow> [])"

definition hosts_entries :: "loaded \<Rightarrow> (string \<times> ip) list" where
  "hosts_entries l = (case l of Listed xs \<Rightarrow> concat (map hosts_parseLine xs) | Lines xs \<Rightarrow> concat (map hosts_parseLine xs))"

definition hosts_load :: "loaded option \<Rightarrow> loaded option \<Rightarrow> string list option \<Rightarrow> (string \<times> ip) list" where
  "hosts_load file redis http =
     (case file of None \<Rightarrow> [] | Some l \<Rightarrow> hosts_entries l) @
     (case redis of None \<Rightarrow> [] | Some l \<Rightarrow> hosts_entries l) @
     (case http of None \<Rightarrow> [] | Some ls \<Rightarrow> hosts_entries (Lines ls))"

definition hosts_reload :: "(string \<times> ip) list \<Rightarrow> (string \<times> ip) list \<Rightarrow> host_map" where
  "hosts_reload static loaded_hosts = foldl mapf (foldl mapf Map.empty static) loaded_hosts"

definition pick_network :: "string \<Rightarrow> ip list \<Rightarrow> ip list" where
  "pick_network network ips =
     (if network = ''ip4'' then List.map_filter To4 ips
      else if network = ''ip6'' then filter (\<lambda>ip. To4 ip = None) ips
      else ips)"

definition hosts_candidates :: "string \<Rightarrow> string list" where
  "hosts_candidates host = host # (CHR ''.'' # host) # dot_suffixes host"

definition hosts_Lookup :: "host_map \<Rightarrow> string \<Rightarrow> string \<Rightarrow> ip list" where
  "hosts_Lookup m network host =
     (case List.map_filter m (hosts_candidates host) of
        [] \<Rightarrow> []
      | ips # _ \<Rightarrow> pick_network network ips)"

section \<open>Parent domains\<close>

text \<open>A name without empty labels.\<close>

definition plain_name :: "string \<Rightarrow> bool" where
  "plain_name h \<longleftrightarrow> h \<noteq> [] \<and> list_all (\<lambda>l. l \<noteq> []) (Split (CHR ''.'') h)"

lemma index_of_append: "c \<notin> set x \<Longrightarrow> index_of c (x @ c # s) = Some (length x)"
  by (rule index_of_cut)

lemma index_of_None: "index_of c s = None \<longleftrightarrow> c \<notin> set s"
  by (simp add: index_of_def)

lemma split_firstE:
  assumes "c \<in> set s"
  obtains x t where "s = x @ c # t" "c \<notin> set x"
  using split_list_first [OF assms] that by (elim exE conjE)

lemma first_cut: "x @ c # t = a @ c # b \<Longrightarrow> c \<notin> set x \<Longrightarrow> c \<notin> set a \<Longrightarrow> x = a \<and> t = b"
proof (induction x arbitrary: a)
  case Nil
  then show ?case by (cases a) auto
next
  case (Cons d x)
  then show ?case by (cases a) auto
qed

text \<open>The walk visits exactly the proper suffixes that start with a dot.\<close>

lemma dot_suffixes_set:
  assumes "plain_name h"
  shows "set (dot_suffixes h) = Cons (CHR ''.'') ` {u. \<exists>x. x \<noteq> [] \<and> h = x @ CHR ''.'' # u}"
  using assms
proof (induction h rule: dot_suffixes.induct)
  case (1 h)
  show ?case
  proof (cases "CHR ''.'' \<in> set h")
    case False
    then have "dot_suffixes h = []" by (subst dot_suffixes.simps) (simp add: index_of_None [THEN iffD2])
    moreover have "{u. \<exists>x. x \<noteq> [] \<and> h = x @ CHR ''.'' # u} = {}" using False by auto
    ultimately show ?thesis by simp
  next
    case True
    then obtain x t where h: "h = x @ CHR ''.'' # t" "CHR ''.'' \<notin> set x" by (rule split_firstE)
    have sp: "Split (CHR ''.'') h = x # Split (CHR ''.'') t" unfolding h(1) by (rule Split_append_sep [OF h(2)])
    have ne: "x \<noteq> []" "list_all (\<lambda>l. l \<noteq> []) (Split (CHR ''.'') t)"
      using "1.prems" unfolding plain_name_def sp by simp_all
    note x = ne(1)
    have t: "plain_name t" using ne(2) by (cases t) (simp_all add: plain_name_def)
    have i: "index_of (CHR ''.'') h = Some (length x)" unfolding h(1) by (rule index_of_append [OF h(2)])
    have d: "drop (length x) h = CHR ''.'' # t" "drop (Suc (length x)) h = t" unfolding h(1) by simp_all
    have IH: "set (dot_suffixes t) = Cons (CHR ''.'') ` {u. \<exists>y. y \<noteq> [] \<and> t = y @ CHR ''.'' # u}"
      using "1.IH" [OF i] x t d(2) by simp
    have "set (dot_suffixes h) = insert (CHR ''.'' # t) (set (dot_suffixes t))"
      by (subst dot_suffixes.simps) (use i x d in simp)
    moreover have cut: "(\<exists>y. y \<noteq> [] \<and> h = y @ CHR ''.'' # u) \<longleftrightarrow> u = t \<or> (\<exists>y. y \<noteq> [] \<and> t = y @ CHR ''.'' # u)" for u
    proof
      assume "\<exists>y. y \<noteq> [] \<and> h = y @ CHR ''.'' # u"
      then obtain y where y: "h = y @ CHR ''.'' # u" by blast
      show "u = t \<or> (\<exists>y. y \<noteq> [] \<and> t = y @ CHR ''.'' # u)"
      proof (cases "CHR ''.'' \<in> set y")
        case True
        then obtain a b where ab: "y = a @ CHR ''.'' # b" "CHR ''.'' \<notin> set a" by (rule split_firstE)
        have "x @ CHR ''.'' # t = a @ CHR ''.'' # (b @ CHR ''.'' # u)"
          using h(1) [symmetric] y unfolding ab(1) by simp
        then have "x = a \<and> t = b @ CHR ''.'' # u" by (rule first_cut [OF _ h(2) ab(2)])
        moreover have "b \<noteq> []"
        proof
          assume "b = []"
          with calculation have "Split (CHR ''.'') t = [] # Split (CHR ''.'') u" by simp
          with t show False by (simp add: plain_name_def)
        qed
        ultimately show ?thesis by blast
      next
        case False
        have "x @ CHR ''.'' # t = y @ CHR ''.'' # u" using h(1) y by simp
        from first_cut [OF this h(2) False] have "u = t" by simp
        then show ?thesis ..
      qed
    next
      assume "u = t \<or> (\<exists>y. y \<noteq> [] \<and> t = y @ CHR ''.'' # u)"
      then show "\<exists>y. y \<noteq> [] \<and> h = y @ CHR ''.'' # u"
      proof
        assume "\<exists>y. y \<noteq> [] \<and> t = y @ CHR ''.'' # u"
        then obtain y where "t = y @ CHR ''.'' # u" by blast
        then show ?thesis using h(1) by (intro exI [of _ "x @ CHR ''.'' # y"]) simp
      qed (use h(1) x in blast)
    qed
    have "{u. \<exists>y. y \<noteq> [] \<and> h = y @ CHR ''.'' # u} = insert t {u. \<exists>y. y \<noteq> [] \<and> t = y @ CHR ''.'' # u}"
      by (rule set_eqI) (simp only: mem_Collect_eq insert_iff cut)
    ultimately show ?thesis using IH by simp
  qed
qed

section \<open>What a list of addresses matches\<close>

text \<open>The host pattern \<open>p\<close> covers the host \<open>h\<close>: the same name, or a name with a leading dot and \<open>h\<close> in its domain.\<close>

definition covers :: "string \<Rightarrow> string \<Rightarrow> bool" where
  "covers p h \<longleftrightarrow> p = h \<or> (\<exists>u. p = CHR ''.'' # u \<and> (h = u \<or> (\<exists>x. x \<noteq> [] \<and> h = x @ CHR ''.'' # u)))"

definition key_of :: "string \<Rightarrow> string" where
  "key_of addr = (case split_or_empty addr of (host, _) \<Rightarrow> if host = [] then addr else host)"

definition range_of :: "string \<Rightarrow> PortRange option" where
  "range_of addr = (case split_or_empty addr of (host, port) \<Rightarrow> if host = [] then None else port_range port)"

lemma find_hit: "find P xs = Some x \<Longrightarrow> P x \<and> x \<in> set xs"
  by (induction xs) (auto split: if_splits)

lemma find_miss: "find P xs = None \<Longrightarrow> x \<in> set xs \<Longrightarrow> \<not> P x"
  by (simp add: find_None_iff)

lemma add_addr_alt: "add_addr m addr = m(key_of addr \<mapsto> range_of addr)"
  by (simp add: add_addr_def key_of_def range_of_def split: prod.split)

lemma foldl_add_addr:
  "foldl add_addr m addrs k = (case find (\<lambda>a. key_of a = k) (rev addrs) of Some a \<Rightarrow> Some (range_of a) | None \<Rightarrow> m k)"
  by (induction addrs rule: rev_induct) (simp_all add: add_addr_alt)

lemma AddrMatcher_lookup: "AddrMatcher addrs k = map_option range_of (find (\<lambda>a. key_of a = k) (rev addrs))"
  by (simp add: AddrMatcher_def foldl_add_addr split: option.split)

lemma AddrMatcher_Some:
  assumes "distinct (map key_of addrs)"
  shows "AddrMatcher addrs k = Some r \<longleftrightarrow> (\<exists>a \<in> set addrs. key_of a = k \<and> range_of a = r)"
proof
  assume "AddrMatcher addrs k = Some r"
  then show "\<exists>a \<in> set addrs. key_of a = k \<and> range_of a = r"
    using find_hit [of "\<lambda>a. key_of a = k" "rev addrs"] by (auto simp: AddrMatcher_lookup)
next
  assume "\<exists>a \<in> set addrs. key_of a = k \<and> range_of a = r"
  then obtain a where a: "a \<in> set addrs" "key_of a = k" "range_of a = r" by blast
  show "AddrMatcher addrs k = Some r"
  proof (cases "find (\<lambda>a. key_of a = k) (rev addrs)")
    case None
    then show ?thesis using find_miss [OF None, of a] a by simp
  next
    case (Some b)
    from find_hit [OF Some] have "b = a" using a assms by (simp add: distinct_map inj_on_def)
    with a Some show ?thesis by (simp add: AddrMatcher_lookup)
  qed
qed

lemma covers_candidates:
  assumes "plain_name h"
  shows "covers p h \<longleftrightarrow> p \<in> insert h (insert (CHR ''.'' # h) (set (dot_suffixes h)))"
  unfolding dot_suffixes_set [OF assms] covers_def by auto

definition simple_host :: "string \<Rightarrow> bool" where
  "simple_host h \<longleftrightarrow> plain_name h \<and> CHR ''['' \<notin> set h \<and> CHR '']'' \<notin> set h"

text \<open>The address that the proxy asks about.\<close>

definition target_addr :: "string \<Rightarrow> int \<Rightarrow> string" where
  "target_addr h port = JoinHostPort h (Itoa port)"

lemma Itoa_chars: "0 \<le> i \<Longrightarrow> c \<in> set (Itoa i) \<Longrightarrow> is_digit c"
  using show_nat_chars by (auto simp: Itoa_def)

lemma split_target:
  assumes "simple_host h" "0 \<le> port" "port \<le> maxInt"
  shows "host_or_all (target_addr h port) = h" "fst (Atoi (snd (split_or_empty (target_addr h port)))) = port"
    "target_addr h port \<noteq> []"
proof -
  have "c \<notin> set (Itoa port)" if "\<not> is_digit c" for c using Itoa_chars [OF assms(2)] that by blast
  then have "SplitHostPort (target_addr h port) = Ok (h, Itoa port)"
    unfolding target_addr_def using assms(1)
    by (intro SplitHostPort_JoinHostPort) (simp_all add: simple_host_def is_digit_def)
  moreover have "h \<noteq> []" using assms(1) by (simp add: simple_host_def plain_name_def)
  ultimately show "host_or_all (target_addr h port) = h" "fst (Atoi (snd (split_or_empty (target_addr h port)))) = port"
    by (simp_all add: host_or_all_def split_or_empty_def Atoi_Itoa [OF assms(2,3)])
  show "target_addr h port \<noteq> []" by (simp add: target_addr_def JoinHostPort_def)
qed

lemma addrMatcher_covers:
  assumes "simple_host h" "0 \<le> port" "port \<le> maxInt" "distinct (map key_of addrs)"
  shows "addrMatcher_Match (AddrMatcher addrs) (target_addr h port) \<longleftrightarrow>
    (\<exists>a \<in> set addrs. covers (key_of a) h \<and> range_ok (range_of a) port)"
proof -
  have hit: "addr_hit (AddrMatcher addrs) port k \<longleftrightarrow> (\<exists>a \<in> set addrs. key_of a = k \<and> range_ok (range_of a) port)" for k
  proof (cases "AddrMatcher addrs k")
    case None
    then show ?thesis using AddrMatcher_Some [OF assms(4), of k] by (force simp: addr_hit_def)
  next
    case (Some r)
    then obtain a where a: "a \<in> set addrs" "key_of a = k" "range_of a = r" using AddrMatcher_Some [OF assms(4)] by blast
    have "range_of b = r" if "b \<in> set addrs" "key_of b = k" for b
      using AddrMatcher_Some [OF assms(4), of k "range_of b"] that Some by auto
    with a Some show ?thesis by (auto simp: addr_hit_def)
  qed
  have cov: "covers p h \<longleftrightarrow> p \<in> insert h (insert (CHR ''.'' # h) (set (dot_suffixes h)))" for p
    using covers_candidates assms(1) by (simp add: simple_host_def)
  show ?thesis
    unfolding addrMatcher_Match_def Let_def split_target [OF assms(1-3)] cov list_ex_iff hit by blast
qed

section \<open>What a bypass list decides\<close>

definition trie_ok :: "(ipnet list \<Rightarrow> ip \<Rightarrow> bool) \<Rightarrow> bool" where
  "trie_ok trie \<longleftrightarrow> (\<forall>ns ip. trie ns ip \<longleftrightarrow> (\<exists>n \<in> set ns. IPNet_Contains n ip))"

text \<open>One pattern on its own, according to its form, for a host and a port.\<close>

definition pattern_matches :: "globber \<Rightarrow> string \<Rightarrow> int \<Rightarrow> string \<Rightarrow> bool" where
  "pattern_matches glob h port x =
     (case classify glob x of
        KCidr n \<Rightarrow> (case ParseIP h of Some ip \<Rightarrow> IPNet_Contains n ip | None \<Rightarrow> False)
      | KWild \<Rightarrow> (case glob (host_or_all x) of Some g \<Rightarrow> g h \<and> range_ok (port_range (snd (split_or_empty x))) port | None \<Rightarrow> False)
      | KRange r \<Rightarrow> (case netip_ParseAddr h of Some a \<Rightarrow> IPRange_Contains r a | None \<Rightarrow> False)
      | KAddr \<Rightarrow> covers (key_of x) h \<and> range_ok (range_of x) port)"

lemma WildcardMatcher_Ok:
  "WildcardMatcher glob ps = Ok ws \<Longrightarrow>
   list_ex (\<lambda>(g, r). g h \<and> range_ok r port) ws \<longleftrightarrow>
   (\<exists>x \<in> set ps. case glob (host_or_all x) of Some g \<Rightarrow> g h \<and> range_ok (port_range (snd (split_or_empty x))) port | None \<Rightarrow> False)"
proof (induction ps arbitrary: ws)
  case (Cons p ps)
  then obtain g vs where "glob (host_or_all p) = Some g" "WildcardMatcher glob ps = Ok vs"
      "ws = (g, port_range (snd (split_or_empty p))) # vs" by (auto simp: gbind_eq_Ok split: option.splits)
  with Cons.IH [of vs] show ?case by simp
qed simp

lemma set_map_filter: "x \<in> set (List.map_filter f xs) \<longleftrightarrow> (\<exists>y \<in> set xs. f y = Some x)"
  by (force simp: List.map_filter_def)

lemma kinds_filtered:
  "r \<in> set (List.map_filter (\<lambda>x. case classify glob x of KRange r \<Rightarrow> Some r | _ \<Rightarrow> None) ps) \<longleftrightarrow> (\<exists>x \<in> set ps. classify glob x = KRange r)"
  "n \<in> set (List.map_filter (\<lambda>x. case classify glob x of KCidr n \<Rightarrow> Some n | _ \<Rightarrow> None) ps) \<longleftrightarrow> (\<exists>x \<in> set ps. classify glob x = KCidr n)"
proof -
  have "(case k of KRange r \<Rightarrow> Some r | _ \<Rightarrow> None) = Some r \<longleftrightarrow> k = KRange r" "(case k of KCidr n \<Rightarrow> Some n | _ \<Rightarrow> None) = Some n \<longleftrightarrow> k = KCidr n" for k
    by (cases k; simp)+
  then show "r \<in> set (List.map_filter (\<lambda>x. case classify glob x of KRange r \<Rightarrow> Some r | _ \<Rightarrow> None) ps) \<longleftrightarrow> (\<exists>x \<in> set ps. classify glob x = KRange r)"
    "n \<in> set (List.map_filter (\<lambda>x. case classify glob x of KCidr n \<Rightarrow> Some n | _ \<Rightarrow> None) ps) \<longleftrightarrow> (\<exists>x \<in> set ps. classify glob x = KCidr n)"
    unfolding set_map_filter by simp_all
qed

lemma bypass_matched_iff:
  assumes "bypass_reload glob loaded_patterns p0 = Ok p" "trie_ok trie" "simple_host h" "0 \<le> port" "port \<le> maxInt"
    and "distinct (map key_of (filter (\<lambda>x. classify glob x = KAddr) (lb_matchers p0 @ loaded_patterns)))"
  shows "bypass_matched trie p (target_addr h port) \<longleftrightarrow>
    (\<exists>x \<in> set (lb_matchers p0 @ loaded_patterns). pattern_matches glob h port x)"
proof -
  let ?ps = "lb_matchers p0 @ loaded_patterns"
  obtain ws where ws: "WildcardMatcher glob (filter (\<lambda>x. classify glob x = KWild) ?ps) = Ok ws"
    and p: "lb_cidr p = List.map_filter (\<lambda>x. case classify glob x of KCidr n \<Rightarrow> Some n | _ \<Rightarrow> None) ?ps"
      "lb_addr p = AddrMatcher (filter (\<lambda>x. classify glob x = KAddr) ?ps)" "lb_wildcard p = ws"
      "lb_ipRange p = List.map_filter (\<lambda>x. case classify glob x of KRange r \<Rightarrow> Some r | _ \<Rightarrow> None) ?ps"
    using assms(1) by (auto simp: bypass_reload_def Let_def gbind_eq_Ok)
  note t = split_target [OF assms(3-5)]
  have "wildcardMatcher_Match ws (target_addr h port) \<longleftrightarrow> (\<exists>x \<in> set ?ps. classify glob x = KWild \<and> pattern_matches glob h port x)"
    unfolding wildcardMatcher_Match_def Let_def t WildcardMatcher_Ok [OF ws] by (auto simp: pattern_matches_def)
  moreover have "addrMatcher_Match (lb_addr p) (target_addr h port) \<longleftrightarrow>
      (\<exists>x \<in> set ?ps. classify glob x = KAddr \<and> pattern_matches glob h port x)"
    unfolding p(2) addrMatcher_covers [OF assms(3-6)] by (auto simp: pattern_matches_def)
  moreover have "ipRangeMatcher_Match (lb_ipRange p) (target_addr h port) \<longleftrightarrow>
      (\<exists>x \<in> set ?ps. (\<exists>r. classify glob x = KRange r) \<and> pattern_matches glob h port x)"
    unfolding p(4) ipRangeMatcher_Match_def t list_ex_iff Bex_def kinds_filtered(1)
    by (cases "netip_ParseAddr h") (force simp: pattern_matches_def)+
  moreover have "cidrMatcher_Match trie (lb_cidr p) h \<longleftrightarrow>
      (\<exists>x \<in> set ?ps. (\<exists>n. classify glob x = KCidr n) \<and> pattern_matches glob h port x)"
    unfolding p(1) cidrMatcher_Match_def assms(2) [unfolded trie_ok_def, rule_format] Bex_def kinds_filtered(2)
    by (cases "ParseIP h") (force simp: pattern_matches_def)+
  moreover have "cidrMatcher_Match trie (lb_cidr p) h \<Longrightarrow> ParseIP h \<noteq> None"
    by (auto simp: cidrMatcher_Match_def split: option.splits)
  ultimately have "bypass_matched trie p (target_addr h port) \<longleftrightarrow>
     (\<exists>x \<in> set ?ps. (classify glob x = KWild \<or> classify glob x = KAddr \<or> (\<exists>r. classify glob x = KRange r) \<or> (\<exists>n. classify glob x = KCidr n)) \<and>
        pattern_matches glob h port x)"
    unfolding bypass_matched_def t p(3) by blast
  moreover have "classify glob x = KWild \<or> classify glob x = KAddr \<or> (\<exists>r. classify glob x = KRange r) \<or> (\<exists>n. classify glob x = KCidr n)" for x
    by (cases "classify glob x") simp_all
  ultimately show ?thesis by blast
qed

lemma group_votes:
  "False \<in> set (map snd (filter fst bs)) \<longleftrightarrow> (\<exists>b \<in> set bs. fst b \<and> \<not> snd b)"
  "True \<in> set (map snd (filter (\<lambda>b. \<not> fst b) bs)) \<longleftrightarrow> (\<exists>b \<in> set bs. \<not> fst b \<and> snd b)"
  "0 < length (map snd (filter P bs)) \<longleftrightarrow> (\<exists>b \<in> set bs. P b)"
  by (induction bs) auto

lemma group_decides:
  "bypassGroup_Contains bs \<longleftrightarrow>
   (\<exists>b \<in> set bs. fst b) \<and> (\<forall>b \<in> set bs. fst b \<longrightarrow> snd b) \<or> (\<exists>b \<in> set bs. \<not> fst b \<and> snd b)"
proof -
  have "bypassGroup_Contains bs \<longleftrightarrow>
     (let status = (\<exists>b \<in> set bs. fst b) \<and> \<not> (\<exists>b \<in> set bs. fst b \<and> \<not> snd b) in
      if \<not> status \<and> (\<exists>b \<in> set bs. \<not> fst b) then \<exists>b \<in> set bs. \<not> fst b \<and> snd b else status)"
    unfolding bypassGroup_Contains_def Let_def group_votes by (simp only: if_bool_eq_conj) blast
  then show ?thesis unfolding Let_def by (auto split: if_splits)
qed

section \<open>Properties\<close>

text \<open>
  C24. A bypass list decides by its patterns one by one: after a reload, a black list contains an address exactly when one of
  its patterns matches it on its own, by block, wildcard, address range or domain with its ports, and a
  white list exactly when none does, provided no two address patterns name the same host; and a group blocks an
  address when it has white lists and all of them block it, or when one of its black lists does.
\<close>

theorem bypass_list_decides_by_pattern:
  assumes "bypass_reload glob loaded_patterns (NewBypass whitelist matchers) = Ok p" "trie_ok trie"
    and "simple_host h" "0 \<le> port" "port \<le> maxInt"
    and "distinct (map key_of (filter (\<lambda>x. classify glob x = KAddr) (matchers @ loaded_patterns)))"
  shows "(localBypass_Contains trie p (target_addr h port) \<longleftrightarrow>
      whitelist \<noteq> (\<exists>x \<in> set (matchers @ loaded_patterns). pattern_matches glob h port x)) \<and>
    (bypassGroup_Contains bs \<longleftrightarrow>
      (\<exists>b \<in> set bs. fst b) \<and> (\<forall>b \<in> set bs. fst b \<longrightarrow> snd b) \<or> (\<exists>b \<in> set bs. \<not> fst b \<and> snd b))"
proof
  have m: "bypass_matched trie p (target_addr h port) \<longleftrightarrow>
      (\<exists>x \<in> set (matchers @ loaded_patterns). pattern_matches glob h port x)"
    using bypass_matched_iff [OF assms(1-5)] assms(6) by (simp add: NewBypass_def)
  have "lb_whitelist p = whitelist"
    using assms(1) by (auto simp: bypass_reload_def Let_def gbind_eq_Ok NewBypass_def)
  then show "localBypass_Contains trie p (target_addr h port) \<longleftrightarrow>
      whitelist \<noteq> (\<exists>x \<in> set (matchers @ loaded_patterns). pattern_matches glob h port x)"
    using split_target(3) [OF assms(3-5)] m by (auto simp: localBypass_Contains_def Let_def)
  show "bypassGroup_Contains bs \<longleftrightarrow>
      (\<exists>b \<in> set bs. fst b) \<and> (\<forall>b \<in> set bs. fst b \<longrightarrow> snd b) \<or> (\<exists>b \<in> set bs. \<not> fst b \<and> snd b)"
    by (rule group_decides)
qed

text \<open>
  Of two entries for one host only the later counts: a list of \<^verbatim>\<open>example.com:80\<close> and \<^verbatim>\<open>example.com:443\<close> does not
  match port eighty.
\<close>

lemma same_host_last_wins:
  "addrMatcher_Match (AddrMatcher [''example.com:80'', ''example.com:443'']) ''example.com:443''"
  "\<not> addrMatcher_Match (AddrMatcher [''example.com:80'', ''example.com:443'']) ''example.com:80''"
  by (code_simp, code_simp)

end
