(* ===== verification/ConnLimiter.thy ===== *)
theory ConnLimiter
  imports AccessLists
begin

text \<open>
  The connection limiter of the embedded proxy (\<^verbatim>\<open>internal/gostx/limiter/conn\<close>) and the listener and connection
  wrappers that use it. Limiters are shared objects: the model has a store of them and refers to each by its
  address. \<^verbatim>\<open>Allow\<close> of a group is a sequence of atomic additions, and the additions of different connections
  interleave; so a connection is a task that makes one addition at a time. The trie of networks is third-party code
  and a parameter. The lemmas say which limits apply to a client, that interleaved admissions never exceed a limit while
  connections are closed once, and what a second \<^verbatim>\<open>Close\<close> and an interrupted release do to the counters.
\<close>

section \<open>Limiters\<close>

record llimiter =
  ll_limit :: int
  ll_current :: int

definition NewLimiter :: "int \<Rightarrow> llimiter" where
  "NewLimiter n = \<lparr>ll_limit = n, ll_current = 0\<rparr>"

text \<open>One atomic addition, and whether the sum is within the limit.\<close>

definition AddInt64 :: "int \<Rightarrow> llimiter \<Rightarrow> llimiter" where
  "AddInt64 n l = l\<lparr>ll_current := ll_current l + n\<rparr>"

definition within :: "llimiter \<Rightarrow> bool" where
  "within l \<longleftrightarrow> ll_current l \<le> ll_limit l"

definition llimiter_Allow :: "int \<Rightarrow> llimiter \<Rightarrow> llimiter \<times> bool" where
  "llimiter_Allow n l =
     (let l1 = AddInt64 n l in
      if \<not> within l1 then (if n > 0 then AddInt64 (- n) l1 else l1, False) else (l1, True))"

text \<open>The store of limiters.\<close>

type_synonym lheap = "llimiter list"

definition alloc :: "llimiter \<Rightarrow> lheap \<Rightarrow> lheap \<times> nat" where
  "alloc l h = (h @ [l], length h)"

text \<open>
  \<^verbatim>\<open>sort.Slice\<close> on a group, which has at most two members: an insertion sort.
\<close>

definition newLimiterGroup :: "lheap \<Rightarrow> nat list \<Rightarrow> nat list" where
  "newLimiterGroup h lims = sort_key (\<lambda>a. ll_limit (h ! a)) lims"

definition limiterGroup_Limit :: "lheap \<Rightarrow> nat list \<Rightarrow> int" where
  "limiterGroup_Limit h lims = (case lims of [] \<Rightarrow> 0 | a # _ \<Rightarrow> ll_limit (h ! a))"

text \<open>The loop of \<^verbatim>\<open>limiterGroup.Allow\<close>, with the limiters it has passed, when nothing interferes with it.\<close>

fun allow_loop :: "int \<Rightarrow> lheap \<Rightarrow> nat list \<Rightarrow> nat list \<Rightarrow> lheap \<times> bool" where
  "allow_loop n h done [] = (h, True)"
| "allow_loop n h done (a # todo) =
     (case llimiter_Allow n (h ! a) of
        (l, True) \<Rightarrow> allow_loop n (h[a := l]) (done @ [a]) todo
      | (l, False) \<Rightarrow>
          (if n > 0 then foldl (\<lambda>h b. h[b := fst (llimiter_Allow (- n) (h ! b))]) (h[a := l]) done else h[a := l], False))"

definition limiterGroup_Allow :: "int \<Rightarrow> lheap \<Rightarrow> nat list \<Rightarrow> lheap \<times> bool" where
  "limiterGroup_Allow n h lims = (if lims = [] then (h, False) else allow_loop n h [] lims)"

section \<open>Generators\<close>

record connLimitGenerator =
  gen_n :: int

record connLimitSingleGenerator =
  gen_limiter :: "nat option"

datatype ConnLimitGenerator = Each connLimitGenerator | Single connLimitSingleGenerator

definition NewConnLimitGenerator :: "int \<Rightarrow> connLimitGenerator" where
  "NewConnLimitGenerator n = \<lparr>gen_n = n\<rparr>"

definition connLimitGenerator_Limiter :: "connLimitGenerator \<Rightarrow> lheap \<Rightarrow> lheap \<times> nat option" where
  "connLimitGenerator_Limiter p h =
     (if gen_n p \<le> 0 then (h, None)
      else case alloc (NewLimiter (gen_n p)) h of (h1, a) \<Rightarrow> (h1, Some a))"

definition NewConnLimitSingleGenerator :: "int \<Rightarrow> lheap \<Rightarrow> lheap \<times> connLimitSingleGenerator" where
  "NewConnLimitSingleGenerator n h =
     (if n > 0 then (case alloc (NewLimiter n) h of (h1, a) \<Rightarrow> (h1, \<lparr>gen_limiter = Some a\<rparr>))
      else (h, \<lparr>gen_limiter = None\<rparr>))"

definition generator_Limiter :: "ConnLimitGenerator \<Rightarrow> lheap \<Rightarrow> lheap \<times> nat option" where
  "generator_Limiter g h =
     (case g of Each p \<Rightarrow> connLimitGenerator_Limiter p h | Single p \<Rightarrow> (h, gen_limiter p))"

section \<open>The limits of a client\<close>

record cidrLimitEntry =
  cl_ipNet :: ipnet
  cl_limit :: connLimitGenerator

record connLimiter =
  ipLimits :: "string \<rightharpoonup> ConnLimitGenerator"
  cidrLimits :: "cidrLimitEntry list"
  limits :: "string \<rightharpoonup> nat list option"

definition NewConnLimiter :: connLimiter where
  "NewConnLimiter = \<lparr>ipLimits = Map.empty, cidrLimits = [], limits = Map.empty\<rparr>"

definition GlobalLimitKey :: string where
  "GlobalLimitKey = ''$''"

definition IPLimitKey :: string where
  "IPLimitKey = ''$$''"

text \<open>\<^verbatim>\<open>if p := m[key]; p != nil { if lim := p.Limiter(); lim != nil { ... } }\<close>\<close>

definition keyed_limiter :: "connLimiter \<Rightarrow> string \<Rightarrow> lheap \<Rightarrow> lheap \<times> nat option" where
  "keyed_limiter l key h = (case ipLimits l key of None \<Rightarrow> (h, None) | Some p \<Rightarrow> generator_Limiter p h)"

text \<open>\<open>nets\<close> is \<^verbatim>\<open>ContainingNetworks\<close> of the trie.\<close>

type_synonym ranger = "cidrLimitEntry list \<Rightarrow> ip \<Rightarrow> cidrLimitEntry list"

definition cidr_limiter :: "ranger \<Rightarrow> connLimiter \<Rightarrow> ip \<Rightarrow> lheap \<Rightarrow> lheap \<times> nat option" where
  "cidr_limiter nets l ip h =
     (case nets (cidrLimits l) ip of [] \<Rightarrow> (h, None) | v # _ \<Rightarrow> connLimitGenerator_Limiter (cl_limit v) h)"

text \<open>The limiter of the address itself, of its network, or of any address.\<close>

definition client_limiter :: "ranger \<Rightarrow> connLimiter \<Rightarrow> string \<Rightarrow> lheap \<Rightarrow> lheap \<times> nat option" where
  "client_limiter nets l key h =
     (case ParseIP key of
        None \<Rightarrow> keyed_limiter l IPLimitKey h
      | Some ip \<Rightarrow>
          (case keyed_limiter l key h of
             (h1, Some a) \<Rightarrow> (h1, Some a)
           | (h1, None) \<Rightarrow>
               (case cidr_limiter nets l ip h1 of
                  (h2, Some a) \<Rightarrow> (h2, Some a)
                | (h2, None) \<Rightarrow> keyed_limiter l IPLimitKey h2)))"

definition Limiter :: "ranger \<Rightarrow> connLimiter \<Rightarrow> string \<Rightarrow> lheap \<Rightarrow> lheap \<times> connLimiter \<times> nat list option" where
  "Limiter nets l key h =
     (case limits l key of
        Some lim \<Rightarrow> (h, l, lim)
      | None \<Rightarrow>
          (case client_limiter nets l key h of
             (h1, c) \<Rightarrow>
               (case keyed_limiter l GlobalLimitKey h1 of
                  (h2, g) \<Rightarrow>
                    (let lims = (case c of None \<Rightarrow> [] | Some a \<Rightarrow> [a]) @ (case g of None \<Rightarrow> [] | Some a \<Rightarrow> [a]);
                         lim = (if lims \<noteq> [] then Some (newLimiterGroup h2 lims) else None)
                     in (h2, l\<lparr>limits := (limits l)(key \<mapsto> lim)\<rparr>, lim)))))"

section \<open>Loading\<close>

definition parseLimit :: "string \<Rightarrow> string \<times> int" where
  "parseLimit s =
     (case filter (\<lambda>v. v \<noteq> []) (Split (CHR '' '') (TrimSpace (map (\<lambda>c. if c = CHR 0x09 then CHR '' '' else c) s))) of
        key # limit # _ \<Rightarrow> (key, fst (Atoi limit))
      | _ \<Rightarrow> ([], 0))"

text \<open>One line of the configuration, on the limits under construction and the store.\<close>

definition add_limit ::
  "(string \<rightharpoonup> ConnLimitGenerator) \<times> cidrLimitEntry list \<times> lheap \<Rightarrow> string \<Rightarrow>
   (string \<rightharpoonup> ConnLimitGenerator) \<times> cidrLimitEntry list \<times> lheap" where
  "add_limit = (\<lambda>(ips, cidrs, h) s.
     case parseLimit s of
       (key, limit) \<Rightarrow>
         if key = [] \<or> limit \<le> 0 then (ips, cidrs, h)
         else if key = GlobalLimitKey then
           (case NewConnLimitSingleGenerator limit h of (h1, g) \<Rightarrow> (ips(key \<mapsto> Single g), cidrs, h1))
         else if key = IPLimitKey then (ips(key \<mapsto> Each (NewConnLimitGenerator limit)), cidrs, h)
         else if ParseIP key \<noteq> None then
           (case NewConnLimitSingleGenerator limit h of (h1, g) \<Rightarrow> (ips(key \<mapsto> Single g), cidrs, h1))
         else (case ParseCIDR key of
                 Some ipNet \<Rightarrow> (ips, cidrs @ [\<lparr>cl_ipNet = ipNet, cl_limit = NewConnLimitGenerator limit\<rparr>], h)
               | None \<Rightarrow> (ips, cidrs, h)))"

text \<open>\<open>lines\<close> are the configured limits followed by what the loaders deliver (\<open>load_patterns\<close>).\<close>

definition connLimiter_reload :: "string list \<Rightarrow> lheap \<Rightarrow> lheap \<times> connLimiter" where
  "connLimiter_reload lines h =
     (case foldl add_limit (Map.empty, [], h) lines of
        (ips, cidrs, h1) \<Rightarrow> (h1, \<lparr>ipLimits = ips, cidrLimits = cidrs, limits = Map.empty\<rparr>))"

section \<open>Connections\<close>

text \<open>
  What the goroutine of a connection has yet to do: \<open>Adding done todo\<close> is in the loop of \<^verbatim>\<open>limiterGroup.Allow(1)\<close>, \<open>Over\<close> has found
  a limiter above its limit and must take its own addition back, \<open>Rolling\<close> takes back the additions before it,
  \<open>Open\<close> is a wrapped connection, \<open>Closing\<close> is in the loop of \<^verbatim>\<open>Allow(-1)\<close>, and \<open>Shut\<close> has been closed.
\<close>

datatype task =
    Adding "nat list" "nat list"
  | Over nat "nat list"
  | Rolling "nat list"
  | Refused
  | Unlimited
  | Open "nat list"
  | Closing "nat list" "nat list"
  | is_Shut: Shut "nat list"

definition after_roll :: "nat list \<Rightarrow> task" where
  "after_roll todo = (if todo = [] then Refused else Rolling todo)"

text \<open>The next atomic addition of a task.\<close>

definition run_task :: "lheap \<Rightarrow> task \<Rightarrow> lheap \<times> task" where
  "run_task h t =
     (case t of
        Adding done [] \<Rightarrow> (h, Refused)
      | Adding done (a # todo) \<Rightarrow>
          (let l = AddInt64 1 (h ! a); h1 = h[a := l] in
           if \<not> within l then (h1, Over a done)
           else (h1, if todo = [] then Open (done @ [a]) else Adding (done @ [a]) todo))
      | Over a done \<Rightarrow> (h[a := AddInt64 (- 1) (h ! a)], after_roll done)
      | Rolling (a # todo) \<Rightarrow> (h[a := AddInt64 (- 1) (h ! a)], after_roll todo)
      | Closing all (a # todo) \<Rightarrow>
          (let l = AddInt64 (- 1) (h ! a); h1 = h[a := l] in
           if \<not> within l then (h1, Shut all) else (h1, if todo = [] then Shut all else Closing all todo))
      | Closing all [] \<Rightarrow> (h, Shut all)
      | _ \<Rightarrow> (h, t))"

text \<open>\<^verbatim>\<open>serverConn.Close\<close>, which does not remember that it ran.\<close>

definition serverConn_Close :: "task \<Rightarrow> task" where
  "serverConn_Close t = (case t of Open ls \<Rightarrow> Closing ls ls | Shut ls \<Rightarrow> Closing ls ls | _ \<Rightarrow> t)"

record client =
  cl_host :: string
  cl_task :: task

record limiter_state =
  objects :: lheap
  lim :: connLimiter
  clients :: "client list"

text \<open>\<^verbatim>\<open>listener.Accept\<close> for a remote address.\<close>

definition listener_Accept :: "ranger \<Rightarrow> string \<Rightarrow> limiter_state \<Rightarrow> limiter_state" where
  "listener_Accept nets remote s =
     (let host = fst (split_or_empty remote) in
      case Limiter nets (lim s) host (objects s) of
        (h, l, g) \<Rightarrow>
          s\<lparr>objects := h, lim := l,
            clients := clients s @ [\<lparr>cl_host = host, cl_task = (case g of None \<Rightarrow> Unlimited | Some ls \<Rightarrow> Adding [] ls)\<rparr>]\<rparr>)"

datatype limiter_event = Accept string | Run nat | CloseConn nat | Reload "string list"

definition limiter_step :: "ranger \<Rightarrow> limiter_state \<Rightarrow> limiter_event \<Rightarrow> limiter_state" where
  "limiter_step nets s e =
     (case e of
        Accept remote \<Rightarrow> listener_Accept nets remote s
      | Run i \<Rightarrow>
          (if i < length (clients s) then
             (case run_task (objects s) (cl_task (clients s ! i)) of
                (h, t) \<Rightarrow> s\<lparr>objects := h, clients := (clients s)[i := (clients s ! i)\<lparr>cl_task := t\<rparr>]\<rparr>)
           else s)
      | CloseConn i \<Rightarrow>
          (if i < length (clients s) then
             s\<lparr>clients := (clients s)[i := (clients s ! i)\<lparr>cl_task := serverConn_Close (cl_task (clients s ! i))\<rparr>]\<rparr>
           else s)
      | Reload lines \<Rightarrow> (case connLimiter_reload lines (objects s) of (h, l) \<Rightarrow> s\<lparr>objects := h, lim := l\<rparr>))"

definition limiter_init :: limiter_state where
  "limiter_init = \<lparr>objects = [], lim = NewConnLimiter, clients = []\<rparr>"

text \<open>A run in which no connection is closed a second time: such events are passed over.\<close>

definition once_step :: "ranger \<Rightarrow> limiter_state \<Rightarrow> limiter_event \<Rightarrow> limiter_state" where
  "once_step nets s e =
     (case e of
        CloseConn i \<Rightarrow>
          (if i < length (clients s) \<and> is_Shut (cl_task (clients s ! i)) then s else limiter_step nets s e)
      | _ \<Rightarrow> limiter_step nets s e)"

text \<open>The open connections that count on the limiter at an address.\<close>

definition open_on :: "limiter_state \<Rightarrow> nat \<Rightarrow> client list" where
  "open_on s a = filter (\<lambda>c. case cl_task c of Open ls \<Rightarrow> a \<in> set ls | _ \<Rightarrow> False) (clients s)"

section \<open>The store only grows\<close>

definition grows :: "lheap \<Rightarrow> lheap \<Rightarrow> bool" where
  "grows h h' \<longleftrightarrow> (\<exists>ns. h' = h @ ns \<and> (\<forall>l \<in> set ns. ll_current l = 0 \<and> 0 < ll_limit l))"

lemma grows_refl [simp]: "grows h h"
  by (simp add: grows_def)

lemma grows_trans [trans]: "grows h h1 \<Longrightarrow> grows h1 h2 \<Longrightarrow> grows h h2"
  unfolding grows_def by (metis Un_iff append.assoc set_append)

lemma grows_length: "grows h h' \<Longrightarrow> length h \<le> length h'"
  by (auto simp: grows_def)

lemma grows_nth: "grows h h' \<Longrightarrow> a < length h \<Longrightarrow> h' ! a = h ! a"
  by (auto simp: grows_def nth_append)

lemma grows_new:
  assumes "grows h h'" "a < length h'" "\<not> a < length h"
  shows "ll_current (h' ! a) = 0" "0 < ll_limit (h' ! a)"
proof -
  obtain ns where ns: "h' = h @ ns" "\<forall>l \<in> set ns. ll_current l = 0 \<and> 0 < ll_limit l" using assms(1) by (auto simp: grows_def)
  have "h' ! a = ns ! (a - length h)" "a - length h < length ns" using assms(2,3) ns(1) by (simp_all add: nth_append)
  then show "ll_current (h' ! a) = 0" "0 < ll_limit (h' ! a)" using ns(2) nth_mem by auto
qed

text \<open>What a call that may allocate a limiter gives: the address is in the store.\<close>

definition gives :: "lheap \<Rightarrow> lheap \<times> nat option \<Rightarrow> bool" where
  "gives h r \<longleftrightarrow> grows h (fst r) \<and> (\<forall>a. snd r = Some a \<longrightarrow> a < length (fst r))"

lemma gives_pair: "gives h (h', r) \<longleftrightarrow> grows h h' \<and> (\<forall>a. r = Some a \<longrightarrow> a < length h')"
  by (simp add: gives_def)

lemma generator_gives: "gives h (connLimitGenerator_Limiter p h)"
  by (auto simp: gives_def connLimitGenerator_Limiter_def alloc_def NewLimiter_def grows_def)

definition lim_valid :: "connLimiter \<Rightarrow> lheap \<Rightarrow> bool" where
  "lim_valid l h \<longleftrightarrow>
     (\<forall>k p a. ipLimits l k = Some (Single p) \<longrightarrow> gen_limiter p = Some a \<longrightarrow> a < length h) \<and>
     (\<forall>k ls. limits l k = Some (Some ls) \<longrightarrow> set ls \<subseteq> {..<length h})"

lemma lim_valid_grows: "lim_valid l h \<Longrightarrow> grows h h' \<Longrightarrow> lim_valid l h'"
  unfolding lim_valid_def using grows_length by (meson lessThan_iff less_le_trans subset_eq)

lemma keyed_gives: "lim_valid l h \<Longrightarrow> gives h (keyed_limiter l k h)"
  by (auto simp: keyed_limiter_def generator_Limiter_def lim_valid_def gives_pair generator_gives
      split: option.split ConnLimitGenerator.split)

lemma cidr_gives: "gives h (cidr_limiter nets l ip h)"
  by (auto simp: cidr_limiter_def gives_pair generator_gives split: list.split)

lemma gives_trans: "grows h h1 \<Longrightarrow> gives h1 r \<Longrightarrow> gives h r"
  by (auto simp: gives_def intro: grows_trans)

lemma client_gives:
  assumes "lim_valid l h"
  shows "gives h (client_limiter nets l key h)"
proof (cases "ParseIP key")
  case None
  then show ?thesis using keyed_gives [OF assms] by (simp add: client_limiter_def)
next
  case (Some ip)
  obtain h1 r1 where k1: "keyed_limiter l key h = (h1, r1)" by fastforce
  obtain h2 r2 where k2: "cidr_limiter nets l ip h1 = (h2, r2)" by fastforce
  have g1: "gives h (h1, r1)" using keyed_gives [OF assms, of key] k1 by simp
  have "gives h1 (h2, r2)" using cidr_gives [of h1 nets l ip] k2 by simp
  with g1 have g2: "gives h (h2, r2)" by (auto simp: gives_pair intro: grows_trans)
  then have "gives h (keyed_limiter l IPLimitKey h2)"
    using keyed_gives [OF lim_valid_grows [OF assms]] by (auto simp: gives_pair intro: gives_trans)
  with g1 g2 Some show ?thesis by (auto simp: client_limiter_def k1 k2 split: option.split)
qed

lemma newLimiterGroup_set [simp]: "set (newLimiterGroup h lims) = set lims"
  by (simp add: newLimiterGroup_def)

lemma Limiter_valid:
  assumes "lim_valid l h" "Limiter nets l key h = (h', l', g)"
  shows "grows h h' \<and> lim_valid l' h' \<and> (\<forall>ls. g = Some ls \<longrightarrow> set ls \<subseteq> {..<length h'})"
proof (cases "limits l key")
  case (Some lim)
  with assms show ?thesis by (simp add: Limiter_def lim_valid_def) blast
next
  case None
  obtain h1 c where c: "client_limiter nets l key h = (h1, c)" by fastforce
  obtain h2 d where d: "keyed_limiter l GlobalLimitKey h1 = (h2, d)" by fastforce
  have g1: "gives h (h1, c)" using client_gives [OF assms(1), of nets key] c by simp
  then have v1: "lim_valid l h1" using assms(1) by (auto simp: gives_pair intro: lim_valid_grows)
  have g2: "gives h1 (h2, d)" using keyed_gives [OF v1, of GlobalLimitKey] d by simp
  then have v2: "lim_valid l h2" using v1 by (auto simp: gives_pair intro: lim_valid_grows)
  let ?lims = "(case c of None \<Rightarrow> [] | Some a \<Rightarrow> [a]) @ (case d of None \<Rightarrow> [] | Some a \<Rightarrow> [a])"
  have "set ?lims \<subseteq> {..<length h2}"
    using g1 g2 grows_length [of h1 h2] by (auto simp: gives_pair split: option.splits)
  moreover have "h' = h2" "l' = l\<lparr>limits := (limits l)(key \<mapsto> g)\<rparr>" "g = (if ?lims \<noteq> [] then Some (newLimiterGroup h2 ?lims) else None)"
    using assms(2) None unfolding Limiter_def by (auto simp: c d Let_def)
  ultimately show ?thesis
    using g1 g2 v2 by (auto simp: gives_pair lim_valid_def intro: grows_trans split: if_splits)
qed

definition ips_valid :: "(string \<rightharpoonup> ConnLimitGenerator) \<Rightarrow> lheap \<Rightarrow> bool" where
  "ips_valid m h \<longleftrightarrow> (\<forall>k p a. m k = Some (Single p) \<longrightarrow> gen_limiter p = Some a \<longrightarrow> a < length h)"

lemma add_limit_valid:
  assumes "ips_valid m h" "add_limit (m, cs, h) s = (m', cs', h')"
  shows "ips_valid m' h' \<and> grows h h'"
  using assms
  by (auto simp: add_limit_def NewConnLimitSingleGenerator_def NewConnLimitGenerator_def alloc_def ips_valid_def grows_def NewLimiter_def less_Suc_eq
      split: prod.splits if_splits option.splits)

lemma add_limits_valid:
  "ips_valid m h \<Longrightarrow> foldl add_limit (m, cs, h) lines = (m', cs', h') \<Longrightarrow> ips_valid m' h' \<and> grows h h'"
proof (induction lines arbitrary: m cs h)
  case (Cons s lines)
  obtain m1 cs1 h1 where s: "add_limit (m, cs, h) s = (m1, cs1, h1)" by (cases "add_limit (m, cs, h) s") auto
  from add_limit_valid [OF Cons.prems(1) s] Cons.IH [of m1 h1 cs1] Cons.prems(2) show ?case
    by (auto simp: s intro: grows_trans)
qed simp

lemma reload_valid:
  assumes "connLimiter_reload lines h = (h', l)"
  shows "grows h h' \<and> lim_valid l h'"
proof -
  obtain m cs h1 where f: "foldl add_limit (Map.empty, [], h) lines = (m, cs, h1)"
    by (cases "foldl add_limit (Map.empty, [], h) lines") auto
  have "ips_valid m h1 \<and> grows h h1" by (rule add_limits_valid [OF _ f]) (simp add: ips_valid_def)
  with assms f show ?thesis by (auto simp: connLimiter_reload_def lim_valid_def ips_valid_def)
qed

section \<open>Slots\<close>

text \<open>The additions that a task has made and not yet taken back: those within the limit, and one that was not.\<close>

definition slots :: "task \<Rightarrow> nat list" where
  "slots t = (case t of Adding done _ \<Rightarrow> done | Over _ done \<Rightarrow> done | Rolling todo \<Rightarrow> todo | Open ls \<Rightarrow> ls | Closing _ todo \<Rightarrow> todo | _ \<Rightarrow> [])"

definition surplus :: "task \<Rightarrow> nat list" where
  "surplus t = (case t of Over a _ \<Rightarrow> [a] | _ \<Rightarrow> [])"

definition addrs :: "task \<Rightarrow> nat set" where
  "addrs t = set (slots t) \<union> set (surplus t) \<union> (case t of Adding _ todo \<Rightarrow> set todo | _ \<Rightarrow> {})"

lemmas task_sets = slots_def surplus_def addrs_def

definition counted :: "(task \<Rightarrow> nat list) \<Rightarrow> client list \<Rightarrow> nat \<Rightarrow> int" where
  "counted f cs a = sum_list (map (\<lambda>c. int (count_list (f (cl_task c)) a)) cs)"

lemma counted_append [simp]: "counted f (cs @ ds) a = counted f cs a + counted f ds a"
  by (simp add: counted_def)

lemma counted_single [simp]: "counted f [c] a = int (count_list (f (cl_task c)) a)"
  by (simp add: counted_def)

lemma counted_nonneg: "0 \<le> counted f cs a"
  unfolding counted_def by (rule sum_list_nonneg) auto

lemma sum_list_upd:
  "i < length xs \<Longrightarrow> sum_list (map g (xs[i := y])) = sum_list (map g xs) + g y - (g (xs ! i) :: int)"
  by (induction xs arbitrary: i) (auto split: nat.split)

lemma counted_update:
  "i < length cs \<Longrightarrow> counted f (cs[i := c]) a =
     counted f cs a + int (count_list (f (cl_task c)) a) - int (count_list (f (cl_task (cs ! i))) a)"
  by (simp add: counted_def sum_list_upd)

lemma counted_outside: "(\<And>c. c \<in> set cs \<Longrightarrow> a \<notin> set (f (cl_task c))) \<Longrightarrow> counted f cs a = 0"
  unfolding counted_def by (induction cs) (auto simp: count_list_0_iff)

definition balanced :: "lheap \<Rightarrow> client list \<Rightarrow> bool" where
  "balanced h cs \<longleftrightarrow> (\<forall>a < length h.
     counted slots cs a \<le> ll_limit (h ! a) \<and> counted slots cs a + counted surplus cs a \<le> ll_current (h ! a))"

definition tasks_valid :: "lheap \<Rightarrow> client list \<Rightarrow> bool" where
  "tasks_valid h cs \<longleftrightarrow> (\<forall>c \<in> set cs. addrs (cl_task c) \<subseteq> {..<length h})"

definition limiter_inv :: "limiter_state \<Rightarrow> bool" where
  "limiter_inv s \<longleftrightarrow> lim_valid (lim s) (objects s) \<and> tasks_valid (objects s) (clients s) \<and> balanced (objects s) (clients s)"

lemma tasks_valid_grows: "tasks_valid h cs \<Longrightarrow> grows h h' \<Longrightarrow> tasks_valid h' cs"
  unfolding tasks_valid_def using grows_length by (meson lessThan_iff less_le_trans subset_eq)

lemma balanced_grows:
  assumes "balanced h cs" "tasks_valid h cs" "grows h h'"
  shows "balanced h' cs"
  unfolding balanced_def
proof (intro allI impI)
  fix a assume a: "a < length h'"
  show "counted slots cs a \<le> ll_limit (h' ! a) \<and> counted slots cs a + counted surplus cs a \<le> ll_current (h' ! a)"
  proof (cases "a < length h")
    case True
    then show ?thesis using assms(1) grows_nth [OF assms(3)] by (simp add: balanced_def)
  next
    case False
    then have "counted slots cs a = 0" "counted surplus cs a = 0"
      using assms(2) by (auto simp: tasks_valid_def addrs_def intro!: counted_outside)
    then show ?thesis using grows_new [OF assms(3) a False] by simp
  qed
qed

text \<open>One addition changes the count of one limiter.\<close>

lemma task_balance:
  assumes "run_task h t = (h', t')" "addrs t \<subseteq> {..<length h}"
  shows "length h' = length h" "addrs t' \<subseteq> {..<length h}"
    "ll_limit (h' ! a) = ll_limit (h ! a)"
    "a < length h \<Longrightarrow>
       int (count_list (slots t') a) + int (count_list (surplus t') a) - int (count_list (slots t) a) - int (count_list (surplus t) a)
       \<le> ll_current (h' ! a) - ll_current (h ! a)"
    "a < length h \<Longrightarrow> count_list (slots t') a \<le> count_list (slots t) a \<or>
       count_list (slots t') a = Suc (count_list (slots t) a) \<and> surplus t' = surplus t \<and> ll_current (h' ! a) \<le> ll_limit (h' ! a)"
  using assms
  by (cases t; auto simp: run_task_def task_sets after_roll_def AddInt64_def within_def Let_def nth_list_update split: list.splits if_splits)+

lemma run_keeps:
  assumes "limiter_inv s" "i < length (clients s)" "run_task (objects s) (cl_task (clients s ! i)) = (h, t)"
  shows "limiter_inv (s\<lparr>objects := h, clients := (clients s)[i := (clients s ! i)\<lparr>cl_task := t\<rparr>]\<rparr>)"
proof -
  let ?t = "cl_task (clients s ! i)" and ?cs = "(clients s)[i := (clients s ! i)\<lparr>cl_task := t\<rparr>]"
  have tv: "tasks_valid (objects s) (clients s)" and b: "balanced (objects s) (clients s)" and lv: "lim_valid (lim s) (objects s)"
    using assms(1) by (simp_all add: limiter_inv_def)
  have "addrs ?t \<subseteq> {..<length (objects s)}" using tv assms(2) by (simp add: tasks_valid_def)
  note k = task_balance [OF assms(3) this]
  have "tasks_valid h ?cs"
    using tv k(1,2) set_update_subset_insert [of "clients s" i] unfolding tasks_valid_def by fastforce
  moreover have "balanced h ?cs"
    unfolding balanced_def
  proof (intro allI impI)
    fix a assume "a < length h"
    then have a: "a < length (objects s)" using k(1) by simp
    have "counted slots (clients s) a \<le> ll_limit (objects s ! a)"
      "counted slots (clients s) a + counted surplus (clients s) a \<le> ll_current (objects s ! a)"
      "0 \<le> counted surplus (clients s) a"
      using b a counted_nonneg by (simp_all add: balanced_def)
    moreover have "counted f ?cs a = counted f (clients s) a + int (count_list (f t) a) - int (count_list (f ?t) a)" for f
      using assms(2) by (simp add: counted_update)
    ultimately show "counted slots ?cs a \<le> ll_limit (h ! a) \<and> counted slots ?cs a + counted surplus ?cs a \<le> ll_current (h ! a)"
      using k(3) [of a] k(4) [OF a] k(5) [OF a] by auto
  qed
  ultimately show ?thesis using lv k(1) by (simp add: limiter_inv_def lim_valid_def)
qed

lemma close_keeps:
  assumes "limiter_inv s" "i < length (clients s)" "\<not> is_Shut (cl_task (clients s ! i))"
  shows "limiter_inv (s\<lparr>clients := (clients s)[i := (clients s ! i)\<lparr>cl_task := serverConn_Close (cl_task (clients s ! i))\<rparr>]\<rparr>)"
proof -
  let ?t = "cl_task (clients s ! i)"
  have "slots (serverConn_Close ?t) = slots ?t" "surplus (serverConn_Close ?t) = surplus ?t" "addrs (serverConn_Close ?t) = addrs ?t"
    using assms(3) by (cases ?t; simp add: serverConn_Close_def task_sets)+
  moreover have "addrs ?t \<subseteq> {..<length (objects s)}" using assms(1,2) by (simp add: limiter_inv_def tasks_valid_def)
  ultimately show ?thesis
    using assms(1,2) set_update_subset_insert [of "clients s" i]
    unfolding limiter_inv_def balanced_def tasks_valid_def by (fastforce simp: counted_update)
qed

lemma accept_keeps:
  assumes "limiter_inv s"
  shows "limiter_inv (listener_Accept nets remote s)"
proof -
  obtain h l g where L: "Limiter nets (lim s) (fst (split_or_empty remote)) (objects s) = (h, l, g)"
    by (cases "Limiter nets (lim s) (fst (split_or_empty remote)) (objects s)") auto
  have inv: "lim_valid (lim s) (objects s)" "tasks_valid (objects s) (clients s)" "balanced (objects s) (clients s)"
    using assms by (simp_all add: limiter_inv_def)
  note v = Limiter_valid [OF inv(1) L]
  have "tasks_valid h (clients s)" "balanced h (clients s)"
    using tasks_valid_grows inv(2) balanced_grows [OF inv(3,2)] v by blast+
  with v show ?thesis
    by (auto simp: listener_Accept_def L limiter_inv_def tasks_valid_def balanced_def task_sets split: option.split)
qed

lemma reload_keeps: "limiter_inv s \<Longrightarrow> limiter_inv (limiter_step nets s (Reload lines))"
  using reload_valid [of lines "objects s"] tasks_valid_grows balanced_grows
  by (auto simp: limiter_step_def limiter_inv_def split: prod.split)

interpretation conn_limits: invariant_steps "once_step nets" limiter_inv for nets
proof
  fix s e assume "limiter_inv s"
  then show "limiter_inv (once_step nets s e)"
    using accept_keeps run_keeps close_keeps reload_keeps
    by (cases e) (auto simp: once_step_def limiter_step_def split: prod.split task.splits)
qed

lemma limiter_init_inv: "limiter_inv limiter_init"
  by (simp add: limiter_inv_def limiter_init_def NewConnLimiter_def lim_valid_def tasks_valid_def balanced_def)

lemma open_counted: "int (length (open_on s a)) \<le> counted slots (clients s) a"
proof -
  have "int (length (filter (\<lambda>c. case cl_task c of Open ls \<Rightarrow> a \<in> set ls | _ \<Rightarrow> False) cs)) \<le> counted slots cs a" for cs
  proof (induction cs)
    case (Cons c cs)
    have "int (if case cl_task c of Open ls \<Rightarrow> a \<in> set ls | _ \<Rightarrow> False then 1 else 0) \<le> int (count_list (slots (cl_task c)) a)"
      by (cases "cl_task c") (auto simp: slots_def Suc_le_eq count_list_0_iff intro: ccontr)
    moreover have "counted slots (c # cs) a = int (count_list (slots (cl_task c)) a) + counted slots cs a" by (simp add: counted_def)
    ultimately show ?case using Cons by (auto split: if_splits)
  qed (simp add: counted_def)
  then show ?thesis by (simp add: open_on_def)
qed

section \<open>Which limits apply\<close>

text \<open>The last line for a key, the networks of the lines, and the limit of a client by its address, its network or the default.\<close>

definition last_limit :: "string list \<Rightarrow> string \<Rightarrow> int option" where
  "last_limit lines key = foldl (\<lambda>r s. case parseLimit s of (k, n) \<Rightarrow> if k = key \<and> k \<noteq> [] \<and> 0 < n then Some n else r) None lines"

definition cidr_line :: "string \<Rightarrow> cidrLimitEntry option" where
  "cidr_line s =
     (case parseLimit s of (k, n) \<Rightarrow>
        if k \<noteq> [] \<and> 0 < n \<and> k \<noteq> GlobalLimitKey \<and> k \<noteq> IPLimitKey \<and> ParseIP k = None
        then map_option (\<lambda>net. \<lparr>cl_ipNet = net, cl_limit = \<lparr>gen_n = n\<rparr>\<rparr>) (ParseCIDR k) else None)"

definition cidr_lines :: "string list \<Rightarrow> cidrLimitEntry list" where
  "cidr_lines lines = List.map_filter cidr_line lines"

definition network_limit :: "ranger \<Rightarrow> string list \<Rightarrow> ip \<Rightarrow> int option" where
  "network_limit nets lines ip =
     (case nets (cidr_lines lines) ip of v # _ \<Rightarrow> if 0 < gen_n (cl_limit v) then Some (gen_n (cl_limit v)) else None | [] \<Rightarrow> None)"

definition client_limit :: "ranger \<Rightarrow> string list \<Rightarrow> string \<Rightarrow> int option" where
  "client_limit nets lines host =
     (case ParseIP host of
        None \<Rightarrow> last_limit lines IPLimitKey
      | Some ip \<Rightarrow>
          (case last_limit lines host of
             Some n \<Rightarrow> Some n
           | None \<Rightarrow> (case network_limit nets lines ip of Some n \<Rightarrow> Some n | None \<Rightarrow> last_limit lines IPLimitKey)))"

definition shared_key :: "string \<Rightarrow> bool" where
  "shared_key k \<longleftrightarrow> k = GlobalLimitKey \<or> ParseIP k \<noteq> None"

lemma dollar_keys: "ParseIP ''$'' = None" "ParseIP ''$$'' = None"
  by code_simp+

definition shared_at :: "(string \<rightharpoonup> ConnLimitGenerator) \<Rightarrow> lheap \<Rightarrow> string \<Rightarrow> int option \<Rightarrow> bool" where
  "shared_at m h k r =
     (case r of
        None \<Rightarrow> m k = None
      | Some n \<Rightarrow> 0 < n \<and> (\<exists>a < length h. m k = Some (Single \<lparr>gen_limiter = Some a\<rparr>) \<and> ll_limit (h ! a) = n))"

definition each_at :: "(string \<rightharpoonup> ConnLimitGenerator) \<Rightarrow> int option \<Rightarrow> bool" where
  "each_at m r = (case r of None \<Rightarrow> m IPLimitKey = None | Some n \<Rightarrow> 0 < n \<and> m IPLimitKey = Some (Each \<lparr>gen_n = n\<rparr>))"

definition ips_spec :: "string list \<Rightarrow> (string \<rightharpoonup> ConnLimitGenerator) \<Rightarrow> lheap \<Rightarrow> bool" where
  "ips_spec lines m h \<longleftrightarrow> (\<forall>k. shared_key k \<longrightarrow> shared_at m h k (last_limit lines k)) \<and> each_at m (last_limit lines IPLimitKey)"

lemma shared_at_grows: "shared_at m h k r \<Longrightarrow> grows h h' \<Longrightarrow> shared_at m h' k r"
proof (cases r)
  case (Some n)
  assume "shared_at m h k r" "grows h h'"
  with Some obtain a where "0 < n" "a < length h" "m k = Some (Single \<lparr>gen_limiter = Some a\<rparr>)" "ll_limit (h ! a) = n"
    by (auto simp: shared_at_def)
  with Some grows_length [OF \<open>grows h h'\<close>] grows_nth [OF \<open>grows h h'\<close>] show ?thesis
    by (auto simp: shared_at_def intro!: exI [of _ a])
qed (simp add: shared_at_def)

lemma shared_at_other: "k \<noteq> k' \<Longrightarrow> shared_at (m(k' \<mapsto> g)) h k r = shared_at m h k r"
  by (simp add: shared_at_def split: option.split)

lemma each_at_other: "k \<noteq> IPLimitKey \<Longrightarrow> each_at (m(k \<mapsto> g)) r = each_at m r"
  by (simp add: each_at_def split: option.split)

lemma last_limit_snoc:
  "last_limit (lines @ [s]) k = (case parseLimit s of (k', n) \<Rightarrow> if k' = k \<and> k' \<noteq> [] \<and> 0 < n then Some n else last_limit lines k)"
  unfolding last_limit_def by simp

lemma cidr_lines_snoc: "cidr_lines (lines @ [s]) = cidr_lines lines @ (case cidr_line s of None \<Rightarrow> [] | Some e \<Rightarrow> [e])"
  by (simp add: cidr_lines_def List.map_filter_def split: option.split)

lemma ips_spec_grows: "ips_spec lines m h \<Longrightarrow> grows h h' \<Longrightarrow> ips_spec lines m h'"
  unfolding ips_spec_def using shared_at_grows by blast

text \<open>A line whose key is not \<open>k\<close> leaves the entry of \<open>k\<close> alone, and a shared key gets a new limiter.\<close>

lemma ips_spec_shared:
  assumes "ips_spec lines m h" "shared_key k" "k \<noteq> IPLimitKey" "0 < n"
    and "parseLimit s = (k, n)" "k \<noteq> []"
  shows "ips_spec (lines @ [s]) (m(k \<mapsto> Single \<lparr>gen_limiter = Some (length h)\<rparr>)) (h @ [NewLimiter n])"
proof -
  let ?m = "m(k \<mapsto> Single \<lparr>gen_limiter = Some (length h)\<rparr>)" and ?h = "h @ [NewLimiter n]"
  have "grows h ?h" unfolding grows_def using assms(4) by (intro exI [of _ "[NewLimiter n]"]) (simp add: NewLimiter_def)
  with assms(1) have old: "ips_spec lines m ?h" by (rule ips_spec_grows)
  have "shared_at ?m ?h k' (last_limit (lines @ [s]) k')" if "shared_key k'" for k'
  proof (cases "k' = k")
    case True
    then have "last_limit (lines @ [s]) k' = Some n" using assms(4-6) by (simp add: last_limit_snoc)
    then show ?thesis
      using True assms(4) unfolding shared_at_def by (auto simp: NewLimiter_def intro!: exI [of _ "length h"])
  next
    case False
    then have "last_limit (lines @ [s]) k' = last_limit lines k'" using assms(5) by (simp add: last_limit_snoc)
    moreover have "shared_at m ?h k' (last_limit lines k')" using old that unfolding ips_spec_def by blast
    ultimately show ?thesis using False by (simp add: shared_at_other)
  qed
  moreover have "last_limit (lines @ [s]) IPLimitKey = last_limit lines IPLimitKey"
    using assms(3,5) by (simp add: last_limit_snoc)
  ultimately show ?thesis using old assms(3) by (simp add: ips_spec_def each_at_other)
qed

lemma not_shared_default: "\<not> shared_key IPLimitKey"
  using dollar_keys by (simp add: shared_key_def GlobalLimitKey_def IPLimitKey_def)

lemma add_limit_line:
  assumes "parseLimit s = (k, n)" "k \<noteq> []" "0 < n"
  shows "shared_key k \<Longrightarrow> add_limit (m, cs, h) s = (m(k \<mapsto> Single \<lparr>gen_limiter = Some (length h)\<rparr>), cs, h @ [NewLimiter n])"
    "k = IPLimitKey \<Longrightarrow> add_limit (m, cs, h) s = (m(k \<mapsto> Each \<lparr>gen_n = n\<rparr>), cs, h)"
    "\<not> shared_key k \<Longrightarrow> k \<noteq> IPLimitKey \<Longrightarrow> fst (add_limit (m, cs, h) s) = m \<and> snd (snd (add_limit (m, cs, h) s)) = h"
  using assms not_shared_default
  by (simp_all add: add_limit_def shared_key_def NewConnLimitSingleGenerator_def NewConnLimitGenerator_def alloc_def IPLimitKey_def GlobalLimitKey_def
      split: option.split)
    (use dollar_keys in auto)

lemma ips_spec_line:
  assumes "ips_spec lines m h" "add_limit (m, cs, h) s = (m', cs', h')"
  shows "ips_spec (lines @ [s]) m' h'"
proof -
  obtain k n where s: "parseLimit s = (k, n)" by fastforce
  consider "k = [] \<or> n \<le> 0" | "k \<noteq> []" "0 < n" "shared_key k" | "k \<noteq> []" "0 < n" "k = IPLimitKey"
    | "k \<noteq> []" "0 < n" "\<not> shared_key k" "k \<noteq> IPLimitKey" by fastforce
  then show ?thesis
  proof cases
    case 1
    then show ?thesis using assms s by (auto simp: add_limit_def ips_spec_def last_limit_snoc)
  next
    case 2
    then show ?thesis
      using ips_spec_shared [OF assms(1)] s assms(2) add_limit_line(1) [OF s 2] not_shared_default by auto
  next
    case 3
    then have "shared_key k' \<Longrightarrow> k' \<noteq> k" for k' using not_shared_default by auto
    then show ?thesis
      using assms add_limit_line(2) [OF s 3] 3 s by (auto simp: ips_spec_def last_limit_snoc shared_at_other each_at_def)
  next
    case 4
    then show ?thesis
      using assms add_limit_line(3) [OF s 4(1,2), of m cs h] s by (auto simp: ips_spec_def last_limit_snoc)
  qed
qed

lemma cidrs_line:
  assumes "add_limit (m, cs, h) s = (m', cs', h')"
  shows "cs' = cs @ (case cidr_line s of None \<Rightarrow> [] | Some e \<Rightarrow> [e])"
  using assms
  by (auto simp: add_limit_def cidr_line_def NewConnLimitSingleGenerator_def NewConnLimitGenerator_def alloc_def
      split: prod.splits if_splits option.splits)

lemma reload_spec:
  assumes "connLimiter_reload lines h = (h', l)"
  shows "cidrLimits l = cidr_lines lines \<and> ips_spec lines (ipLimits l) h' \<and> limits l = Map.empty"
proof -
  have "foldl add_limit (Map.empty, [], h) lines = (m, cs, h1) \<Longrightarrow> cs = cidr_lines lines \<and> ips_spec lines m h1" for m cs h1
  proof (induction lines arbitrary: m cs h1 rule: rev_induct)
    case Nil
    then show ?case by (auto simp: cidr_lines_def List.map_filter_def ips_spec_def last_limit_def shared_at_def each_at_def)
  next
    case (snoc s lines)
    obtain m0 cs0 h0 where f: "foldl add_limit (Map.empty, [], h) lines = (m0, cs0, h0)"
      by (cases "foldl add_limit (Map.empty, [], h) lines") auto
    with snoc.prems have a: "add_limit (m0, cs0, h0) s = (m, cs, h1)" by simp
    from snoc.IH [OF f] ips_spec_line [OF _ a] cidrs_line [OF a] show ?case by (simp add: cidr_lines_snoc)
  qed
  with assms show ?thesis by (auto simp: connLimiter_reload_def split: prod.splits)
qed

section \<open>Since the last reload\<close>

text \<open>The whole group that a task adds to or is open on.\<close>

definition group_of :: "task \<Rightarrow> nat list option" where
  "group_of t = (case t of Adding done todo \<Rightarrow> Some (done @ todo) | Open ls \<Rightarrow> Some ls | _ \<Rightarrow> None)"

lemma run_group: "run_task h t = (h', t') \<Longrightarrow> group_of t' = None \<or> group_of t' = group_of t"
  by (cases t) (auto simp: run_task_def group_of_def after_roll_def Let_def split: list.splits if_splits)

lemma close_group: "group_of (serverConn_Close t) = None \<or> group_of (serverConn_Close t) = group_of t"
  by (cases t) (simp_all add: serverConn_Close_def group_of_def)

definition has_limit :: "lheap \<Rightarrow> nat list option \<Rightarrow> int \<Rightarrow> bool" where
  "has_limit h g n \<longleftrightarrow> (\<exists>ls a. g = Some ls \<and> a \<in> set ls \<and> a < length h \<and> ll_limit (h ! a) = n)"

definition cached_ok :: "ranger \<Rightarrow> string list \<Rightarrow> connLimiter \<Rightarrow> lheap \<Rightarrow> bool" where
  "cached_ok nets lines l h \<longleftrightarrow>
     (\<forall>key g n. limits l key = Some g \<longrightarrow> client_limit nets lines key = Some n \<longrightarrow> has_limit h g n) \<and>
     (\<forall>key g p a. limits l key = Some g \<longrightarrow> ipLimits l GlobalLimitKey = Some (Single p) \<longrightarrow> gen_limiter p = Some a \<longrightarrow>
        (\<exists>ls. g = Some ls \<and> a \<in> set ls))"

definition since_ok :: "ranger \<Rightarrow> string list \<Rightarrow> nat \<Rightarrow> limiter_state \<Rightarrow> bool" where
  "since_ok nets lines k s \<longleftrightarrow>
     k \<le> length (clients s) \<and> cidrLimits (lim s) = cidr_lines lines \<and> ips_spec lines (ipLimits (lim s)) (objects s) \<and>
     cached_ok nets lines (lim s) (objects s) \<and>
     (\<forall>c \<in> set (drop k (clients s)). \<exists>g. limits (lim s) (cl_host c) = Some g \<and> (\<forall>ls. group_of (cl_task c) = Some ls \<longrightarrow> g = Some ls))"

text \<open>Stores that agree on the limits.\<close>

definition same_limits :: "lheap \<Rightarrow> lheap \<Rightarrow> bool" where
  "same_limits h h' \<longleftrightarrow> length h \<le> length h' \<and> (\<forall>a < length h. ll_limit (h' ! a) = ll_limit (h ! a))"

lemma grows_same_limits: "grows h h' \<Longrightarrow> same_limits h h'"
  by (simp add: same_limits_def grows_length grows_nth)

lemma AddInt64_limit: "ll_limit (h[b := AddInt64 n (h ! b)] ! a) = ll_limit (h ! a)"
  by (cases "b < length h"; cases "a = b") (simp_all add: AddInt64_def list_update_beyond)

lemma run_same_limits: "run_task h t = (h', t') \<Longrightarrow> same_limits h h'"
  by (cases t) (auto simp: run_task_def same_limits_def AddInt64_limit Let_def split: list.splits if_splits)

lemma same_limits_specs:
  assumes "same_limits h h'"
  shows "ips_spec lines m h \<Longrightarrow> ips_spec lines m h'" "has_limit h g n \<Longrightarrow> has_limit h' g n"
    "cached_ok nets lines l h \<Longrightarrow> cached_ok nets lines l h'"
proof -
  have ln: "a < length h \<Longrightarrow> a < length h' \<and> ll_limit (h' ! a) = ll_limit (h ! a)" for a
    using assms by (auto simp: same_limits_def)
  have "shared_at m h k r \<Longrightarrow> shared_at m h' k r" for k r
    unfolding shared_at_def by (cases r) (use ln in auto)
  then show "ips_spec lines m h \<Longrightarrow> ips_spec lines m h'" unfolding ips_spec_def by blast
  have hl: "has_limit h g n \<Longrightarrow> has_limit h' g n" for g n unfolding has_limit_def using ln by metis
  then show "has_limit h g n \<Longrightarrow> has_limit h' g n" .
  from hl show "cached_ok nets lines l h \<Longrightarrow> cached_ok nets lines l h'" unfolding cached_ok_def by blast
qed

lemma keyed_none: "ipLimits l k = None \<Longrightarrow> keyed_limiter l k h = (h, None)"
  by (simp add: keyed_limiter_def)

lemma keyed_single: "ipLimits l k = Some (Single p) \<Longrightarrow> keyed_limiter l k h = (h, gen_limiter p)"
  by (simp add: keyed_limiter_def generator_Limiter_def)

lemma each_alloc: "0 < n \<Longrightarrow> connLimitGenerator_Limiter \<lparr>gen_n = n\<rparr> h = (h @ [NewLimiter n], Some (length h))"
  by (simp add: connLimitGenerator_Limiter_def alloc_def)

lemma default_limiter:
  assumes "ips_spec lines (ipLimits l) h" "last_limit lines IPLimitKey = Some n" "keyed_limiter l IPLimitKey h = (h', c)"
  shows "has_limit h' (Some (case c of None \<Rightarrow> [] | Some a \<Rightarrow> [a])) n"
  using assms by (auto simp: ips_spec_def each_at_def keyed_limiter_def generator_Limiter_def each_alloc has_limit_def NewLimiter_def)

lemma client_limiter_spec:
  assumes "ips_spec lines (ipLimits l) h" "cidrLimits l = cidr_lines lines"
    and "client_limit nets lines key = Some n" "client_limiter nets l key h = (h', c)"
  shows "has_limit h' (Some (case c of None \<Rightarrow> [] | Some a \<Rightarrow> [a])) n"
proof (cases "ParseIP key")
  case None
  then show ?thesis using assms default_limiter [OF assms(1)] by (simp add: client_limit_def client_limiter_def)
next
  case (Some ip)
  then have sk: "shared_at (ipLimits l) h key (last_limit lines key)"
    using assms(1) unfolding ips_spec_def shared_key_def by blast
  show ?thesis
  proof (cases "last_limit lines key")
    case (Some m)
    then show ?thesis
      using sk assms(3,4) \<open>ParseIP key = Some ip\<close>
      by (auto simp: client_limit_def client_limiter_def shared_at_def keyed_single has_limit_def)
  next
    case None
    then have k: "keyed_limiter l key h = (h, None)" using sk by (simp add: shared_at_def keyed_none)
    show ?thesis
    proof (cases "nets (cidr_lines lines) ip")
      case Nil
      then show ?thesis
        using None k assms(2-4) \<open>ParseIP key = Some ip\<close> default_limiter [OF assms(1)]
        by (simp add: client_limit_def client_limiter_def network_limit_def cidr_limiter_def)
    next
      case (Cons v vs)
      then show ?thesis
        using None k assms(2-4) \<open>ParseIP key = Some ip\<close> default_limiter [OF assms(1)]
        by (auto simp: client_limit_def client_limiter_def network_limit_def cidr_limiter_def connLimitGenerator_Limiter_def alloc_def
            has_limit_def NewLimiter_def split: if_splits)
    qed
  qed
qed

lemma has_limit_mono: "has_limit h (Some xs) n \<Longrightarrow> set xs \<subseteq> set ys \<Longrightarrow> has_limit h (Some ys) n"
  by (auto simp: has_limit_def)

text \<open>A group built for a new client has its limit and the global one.\<close>

lemma Limiter_spec:
  assumes "lim_valid l h" "ips_spec lines (ipLimits l) h" "cidrLimits l = cidr_lines lines" "cached_ok nets lines l h"
    and "Limiter nets l key h = (h', l', g)"
  shows "cached_ok nets lines l' h' \<and> ipLimits l' = ipLimits l \<and> cidrLimits l' = cidrLimits l \<and> limits l' key = Some g \<and>
    (\<forall>k g'. limits l k = Some g' \<longrightarrow> limits l' k = Some g')"
proof (cases "limits l key")
  case (Some lim)
  with assms(4,5) show ?thesis by (auto simp: Limiter_def)
next
  case None
  obtain h1 c where c: "client_limiter nets l key h = (h1, c)" by fastforce
  obtain h2 d where d: "keyed_limiter l GlobalLimitKey h1 = (h2, d)" by fastforce
  let ?lims = "(case c of None \<Rightarrow> [] | Some a \<Rightarrow> [a]) @ (case d of None \<Rightarrow> [] | Some a \<Rightarrow> [a])"
  have e: "h' = h2" "l' = l\<lparr>limits := (limits l)(key \<mapsto> g)\<rparr>" "g = (if ?lims \<noteq> [] then Some (newLimiterGroup h2 ?lims) else None)"
    using assms(5) None unfolding Limiter_def by (auto simp: c d Let_def)
  have g1: "grows h h1" using client_gives [OF assms(1), of nets key] c by (simp add: gives_pair)
  then have g2: "grows h1 h2" using keyed_gives [OF lim_valid_grows [OF assms(1)], of h1 GlobalLimitKey] d by (simp add: gives_pair)
  have old: "cached_ok nets lines l h2"
    using same_limits_specs(3) [OF grows_same_limits [OF grows_trans [OF g1 g2]]] assms(4) .
  have new: "has_limit h2 g n" if "client_limit nets lines key = Some n" for n
  proof -
    have "has_limit h2 (Some (case c of None \<Rightarrow> [] | Some a \<Rightarrow> [a])) n"
      using same_limits_specs(2) [OF grows_same_limits [OF g2]] client_limiter_spec [OF assms(2,3) that c] .
    then have "has_limit h2 (Some (newLimiterGroup h2 ?lims)) n" by (rule has_limit_mono) simp
    then show ?thesis unfolding e(3) by (auto simp: has_limit_def)
  qed
  have "\<exists>ls. g = Some ls \<and> a \<in> set ls" if "ipLimits l GlobalLimitKey = Some (Single p)" "gen_limiter p = Some a" for p a
  proof -
    have "d = Some a" using d that by (simp add: keyed_single)
    then show ?thesis unfolding e(3) by simp
  qed
  with old new show ?thesis unfolding e(1,2) cached_ok_def using None by (auto simp del: split_paired_All)
qed

definition no_reload :: "limiter_event \<Rightarrow> bool" where
  "no_reload e = (case e of Reload _ \<Rightarrow> False | _ \<Rightarrow> True)"

lemma since_update:
  assumes "since_ok nets lines k s" "i < length (clients s)" "same_limits (objects s) h"
    and "group_of t = None \<or> group_of t = group_of (cl_task (clients s ! i))"
  shows "since_ok nets lines k (s\<lparr>objects := h, clients := (clients s)[i := (clients s ! i)\<lparr>cl_task := t\<rparr>]\<rparr>)"
proof -
  have "\<exists>g. limits (lim s) (cl_host c) = Some g \<and> (\<forall>ls. group_of (cl_task c) = Some ls \<longrightarrow> g = Some ls)"
    if c: "c \<in> set (drop k ((clients s)[i := (clients s ! i)\<lparr>cl_task := t\<rparr>]))" for c
  proof -
    obtain j where "j < length (drop k ((clients s)[i := (clients s ! i)\<lparr>cl_task := t\<rparr>]))"
      "c = drop k ((clients s)[i := (clients s ! i)\<lparr>cl_task := t\<rparr>]) ! j"
      using c unfolding in_set_conv_nth by metis
    then have j: "k + j < length (clients s)" "c = (clients s)[i := (clients s ! i)\<lparr>cl_task := t\<rparr>] ! (k + j)"
      by (simp_all add: nth_drop)
    have "clients s ! (k + j) \<in> set (drop k (clients s))" using j(1) nth_mem [of j "drop k (clients s)"] by (simp add: nth_drop)
    with assms(1) obtain g where g: "limits (lim s) (cl_host (clients s ! (k + j))) = Some g"
      "\<forall>ls. group_of (cl_task (clients s ! (k + j))) = Some ls \<longrightarrow> g = Some ls" unfolding since_ok_def by blast
    show ?thesis using g assms(2,4) j by (cases "i = k + j") auto
  qed
  then show ?thesis
    using assms(1) same_limits_specs [OF assms(3)] by (simp add: since_ok_def)
qed

lemma since_step:
  assumes "limiter_inv s" "since_ok nets lines k s" "no_reload e"
  shows "since_ok nets lines k (once_step nets s e)"
proof (cases e)
  case (Accept remote)
  let ?host = "fst (split_or_empty remote)"
  obtain h l g where L: "Limiter nets (lim s) ?host (objects s) = (h, l, g)"
    by (cases "Limiter nets (lim s) ?host (objects s)") auto
  have v: "lim_valid (lim s) (objects s)" using assms(1) by (simp add: limiter_inv_def)
  have so: "cidrLimits (lim s) = cidr_lines lines" "ips_spec lines (ipLimits (lim s)) (objects s)" "cached_ok nets lines (lim s) (objects s)"
    using assms(2) by (simp_all add: since_ok_def)
  have gr: "same_limits (objects s) h" using Limiter_valid [OF v L] by (simp add: grows_same_limits)
  note sp = Limiter_spec [OF v so(2,1,3) L]
  show ?thesis
    using assms(2) sp same_limits_specs(1) [OF gr so(2)]
    by (auto simp: Accept once_step_def limiter_step_def listener_Accept_def L since_ok_def group_of_def split: option.splits)
next
  case (Run i)
  then show ?thesis
    using since_update [OF assms(2) _ run_same_limits run_group] assms(2)
    by (auto simp: once_step_def limiter_step_def split: prod.split)
next
  case (CloseConn i)
  have "same_limits (objects s) (objects s)" by (simp add: same_limits_def)
  from since_update [OF assms(2) _ this close_group, of i] show ?thesis
    using assms(2) by (simp add: CloseConn once_step_def limiter_step_def)
qed (use assms(3) in \<open>simp add: no_reload_def\<close>)

lemma since_run:
  "limiter_inv s \<Longrightarrow> since_ok nets lines k s \<Longrightarrow> list_all no_reload es \<Longrightarrow> since_ok nets lines k (foldl (once_step nets) s es)"
  by (induction es arbitrary: s) (simp_all add: since_step conn_limits.inv_step)

lemma since_reload: "since_ok nets lines (length (clients s)) (once_step nets s (Reload lines))"
  using reload_spec [of lines "objects s"]
  by (auto simp: once_step_def limiter_step_def since_ok_def cached_ok_def split: prod.split)

definition is_open :: "client \<Rightarrow> bool" where
  "is_open c = (case cl_task c of Open _ \<Rightarrow> True | _ \<Rightarrow> False)"

lemma last_limit_pos: "last_limit lines k = Some n \<Longrightarrow> 0 < n"
proof (induction lines rule: rev_induct)
  case (snoc s lines)
  then show ?case by (auto simp: last_limit_snoc split: prod.splits if_splits)
qed (simp add: last_limit_def)

lemma client_limit_pos: "client_limit nets lines host = Some n \<Longrightarrow> 0 < n"
  using last_limit_pos [of lines _ n] by (auto simp: client_limit_def network_limit_def split: option.splits list.splits if_splits)

lemma filter_drop_le: "length (filter P (drop k xs)) \<le> length (filter P xs)"
  by (metis append_take_drop_id filter_append le_add2 length_append)

lemma length_filter_mono: "(\<And>x. x \<in> set xs \<Longrightarrow> P x \<Longrightarrow> Q x) \<Longrightarrow> length (filter P xs) \<le> length (filter Q xs)"
  by (induction xs) auto

text \<open>Open connections that all have the address \<open>a\<close> in their group.\<close>

lemma open_bounded:
  assumes "limiter_inv s" "a < length (objects s)"
    and "\<And>c ls. c \<in> set (drop k (clients s)) \<Longrightarrow> P c \<Longrightarrow> cl_task c = Open ls \<Longrightarrow> a \<in> set ls"
  shows "int (length (filter (\<lambda>c. P c \<and> is_open c) (drop k (clients s)))) \<le> ll_limit (objects s ! a)"
proof -
  let ?Q = "\<lambda>c. case cl_task c of Open ls \<Rightarrow> a \<in> set ls | _ \<Rightarrow> False"
  have "length (filter (\<lambda>c. P c \<and> is_open c) (drop k (clients s))) \<le> length (filter ?Q (drop k (clients s)))"
    using assms(3) by (intro length_filter_mono) (auto simp: is_open_def split: task.splits)
  also have "\<dots> \<le> length (open_on s a)" unfolding open_on_def by (rule filter_drop_le)
  finally show ?thesis
    using open_counted [of s a] assms(1,2) by (auto simp: limiter_inv_def balanced_def)
qed

section \<open>A connection on its own\<close>

primrec runs :: "nat \<Rightarrow> lheap \<times> task \<Rightarrow> lheap \<times> task" where
  "runs 0 s = s"
| "runs (Suc k) s = runs k (run_task (fst s) (snd s))"

lemma run_task_eqs:
  "within (AddInt64 1 (h ! a)) \<Longrightarrow> todo = [] \<Longrightarrow> run_task h (Adding done (a # todo)) = (h[a := AddInt64 1 (h ! a)], Open (done @ [a]))"
  "within (AddInt64 1 (h ! a)) \<Longrightarrow> todo \<noteq> [] \<Longrightarrow> run_task h (Adding done (a # todo)) = (h[a := AddInt64 1 (h ! a)], Adding (done @ [a]) todo)"
  "\<not> within (AddInt64 1 (h ! a)) \<Longrightarrow> run_task h (Adding done (a # todo)) = (h[a := AddInt64 1 (h ! a)], Over a done)"
  "run_task h (Over a done) = (h[a := AddInt64 (- 1) (h ! a)], after_roll done)"
  "run_task h (Rolling (a # todo)) = (h[a := AddInt64 (- 1) (h ! a)], after_roll todo)"
  by (simp_all add: run_task_def Let_def)

lemma release_fst: "fst (llimiter_Allow (- 1) l) = AddInt64 (- 1) l"
  by (simp add: llimiter_Allow_def Let_def)

lemma rolling_alone:
  "\<exists>k. runs k (h, after_roll todo) = (foldl (\<lambda>h b. h[b := AddInt64 (- 1) (h ! b)]) h todo, Refused)"
proof (induction todo arbitrary: h)
  case Nil
  show ?case by (intro exI [of _ 0]) (simp add: after_roll_def)
next
  case (Cons a todo)
  from Cons.IH [of "h[a := AddInt64 (- 1) (h ! a)]"] obtain k where
    "runs k (h[a := AddInt64 (- 1) (h ! a)], after_roll todo) =
       (foldl (\<lambda>h b. h[b := AddInt64 (- 1) (h ! b)]) h (a # todo), Refused)" by auto
  then have "runs (Suc k) (h, after_roll (a # todo)) = (foldl (\<lambda>h b. h[b := AddInt64 (- 1) (h ! b)]) h (a # todo), Refused)"
    by (simp add: after_roll_def [of "a # todo"] run_task_eqs)
  then show ?case ..
qed

text \<open>Without interference the additions of a task are the loop of \<^verbatim>\<open>Allow(1)\<close>.\<close>

lemma adding_alone:
  assumes "allow_loop 1 h done todo = (h', b)" "todo \<noteq> []" "set todo \<subseteq> {..<length h}"
  shows "\<exists>k. runs k (h, Adding done todo) = (h', if b then Open (done @ todo) else Refused)"
  using assms
proof (induction todo arbitrary: h "done")
  case (Cons a todo)
  let ?l = "AddInt64 1 (h ! a)"
  show ?case
  proof (cases "within ?l")
    case True
    then have loop: "allow_loop 1 (h[a := ?l]) (done @ [a]) todo = (h', b)"
      using Cons.prems(1) by (simp add: llimiter_Allow_def Let_def)
    show ?thesis
    proof (cases "todo = []")
      case True
      with loop \<open>within ?l\<close> have "runs (Suc 0) (h, Adding done (a # todo)) = (h', if b then Open (done @ a # todo) else Refused)"
        by (simp add: run_task_eqs)
      then show ?thesis ..
    next
      case False
      with Cons.IH [OF loop] Cons.prems(3) obtain k where
        "runs k (h[a := ?l], Adding (done @ [a]) todo) = (h', if b then Open ((done @ [a]) @ todo) else Refused)" by auto
      with False \<open>within ?l\<close> have "runs (Suc k) (h, Adding done (a # todo)) = (h', if b then Open (done @ a # todo) else Refused)"
        by (simp add: run_task_eqs)
      then show ?thesis ..
    qed
  next
    case False
    let ?undone = "h[a := AddInt64 (- 1) ?l]"
    have r: "b = False" "h' = foldl (\<lambda>h b. h[b := AddInt64 (- 1) (h ! b)]) ?undone done"
      using Cons.prems(1) False by (simp_all add: llimiter_Allow_def [of 1] Let_def release_fst)
    obtain k where "runs k (?undone, after_roll done) = (h', Refused)" using rolling_alone r(2) by blast
    then have "runs (Suc (Suc k)) (h, Adding done (a # todo)) = (h', Refused)"
      using False Cons.prems(3) by (simp add: run_task_eqs)
    then show ?thesis unfolding r(1) if_False by (rule exI)
  qed
qed simp

section \<open>Properties\<close>

text \<open>
  C15. Interleaved admissions stay within every limit: after a reload of the configuration and any further accepts,
  atomic additions and closes, in whatever order the connections make them, no limiter has more open connections than its limit; the
  connections accepted since then are at most the global limit in number, and those of one client at most the limit of its
  address, of its network, or of the default, as long as no connection is closed twice.
\<close>

theorem conn_limits_are_kept:
  assumes "s0 = foldl (once_step nets) limiter_init es0" "list_all no_reload es"
    and "s = foldl (once_step nets) s0 (Reload lines # es)"
  shows "(\<forall>a < length (objects s). int (length (open_on s a)) \<le> ll_limit (objects s ! a)) \<and>
    (\<forall>n. last_limit lines GlobalLimitKey = Some n \<longrightarrow>
       int (length (filter is_open (drop (length (clients s0)) (clients s)))) \<le> n) \<and>
    (\<forall>host n. client_limit nets lines host = Some n \<longrightarrow>
       int (length (filter (\<lambda>c. cl_host c = host \<and> is_open c) (drop (length (clients s0)) (clients s)))) \<le> n)"
proof (intro conjI allI impI)
  let ?k = "length (clients s0)"
  have inv0: "limiter_inv s0" unfolding assms(1) by (rule conn_limits.inv_run [OF limiter_init_inv])
  then have inv: "limiter_inv s" unfolding assms(3) by (rule conn_limits.inv_run)
  have so: "since_ok nets lines ?k s"
    unfolding assms(3) foldl_Cons by (intro since_run conn_limits.inv_step inv0 since_reload assms(2))
  have grp: "limits (lim s) (cl_host c) = Some (Some ls)" if "c \<in> set (drop ?k (clients s))" "cl_task c = Open ls" for c ls
    using so that unfolding since_ok_def by (force simp: group_of_def)
  show "int (length (open_on s a)) \<le> ll_limit (objects s ! a)" if "a < length (objects s)" for a
    using open_counted [of s a] inv that by (auto simp: limiter_inv_def balanced_def)
  show "int (length (filter is_open (drop ?k (clients s)))) \<le> n" if "last_limit lines GlobalLimitKey = Some n" for n
  proof -
    have "shared_at (ipLimits (lim s)) (objects s) GlobalLimitKey (Some n)"
      using so that unfolding since_ok_def ips_spec_def shared_key_def by metis
    then obtain a where a: "a < length (objects s)" "ipLimits (lim s) GlobalLimitKey = Some (Single \<lparr>gen_limiter = Some a\<rparr>)"
      "ll_limit (objects s ! a) = n" by (auto simp: shared_at_def)
    have "a \<in> set ls" if "c \<in> set (drop ?k (clients s))" "cl_task c = Open ls" for c ls
      using grp [OF that] so a(2) unfolding since_ok_def cached_ok_def by fastforce
    then show ?thesis using open_bounded [OF inv a(1), of ?k "\<lambda>_. True"] a(3) by simp
  qed
  show "int (length (filter (\<lambda>c. cl_host c = host \<and> is_open c) (drop ?k (clients s)))) \<le> n"
    if "client_limit nets lines host = Some n" for host n
  proof (cases "limits (lim s) host")
    case None
    then have "cl_host c \<noteq> host" if "c \<in> set (drop ?k (clients s))" for c
      using so that unfolding since_ok_def by force
    then have "filter (\<lambda>c. cl_host c = host \<and> is_open c) (drop ?k (clients s)) = []" by (simp add: filter_empty_conv)
    then show ?thesis using client_limit_pos [OF that] by simp
  next
    case (Some g)
    then have "has_limit (objects s) g n" using so that unfolding since_ok_def cached_ok_def by blast
    then obtain ls a where a: "g = Some ls" "a \<in> set ls" "a < length (objects s)" "ll_limit (objects s ! a) = n" by (auto simp: has_limit_def)
    have "a \<in> set ls'" if "c \<in> set (drop ?k (clients s))" "cl_host c = host" "cl_task c = Open ls'" for c ls'
      using grp [OF that(1,3)] that(2) Some a(1,2) by simp
    then show ?thesis using open_bounded [OF inv a(3), of ?k "\<lambda>c. cl_host c = host"] a(4) by simp
  qed
qed

text \<open>
  A second close breaks the bound: with a global limit of one, a connection that is closed twice, as it is when its
  context is cancelled while the handler still has its own deferred close, leaves room for two open connections.
\<close>

theorem second_close_breaks_limit:
  "length (filter is_open (clients (foldl (limiter_step (\<lambda>_ _. [])) limiter_init
     [Reload [''$ 1''], Accept ''10.0.0.1:40001'', Run 0, CloseConn 0, Run 0, CloseConn 0, Run 0,
      Accept ''10.0.0.2:40002'', Run 1, Accept ''10.0.0.3:40003'', Run 2]))) = 2"
  by code_simp

text \<open>
  A release that meets two admissions in flight loses a slot: the first limiter of the group is still above its limit, the
  loop of \<^verbatim>\<open>Allow(-1)\<close> stops, and the global counter keeps the addition of a connection that no longer exists. With a limit of
  one per client and one in all, nobody is admitted afterwards although no connection is open or pending.
\<close>

theorem interrupted_release_loses_slot:
  defines "s \<equiv> foldl (limiter_step (\<lambda>_ _. [])) limiter_init
     [Reload [''$ 1'', ''$$ 1''], Accept ''10.0.0.1:40001'', Run 0, Run 0, Accept ''10.0.0.1:40002'', Accept ''10.0.0.1:40003'',
      Run 1, Run 2, CloseConn 0, Run 0, Run 1, Run 2, Run 1, Run 2,
      Accept ''10.0.0.2:40004'', Run 3, Run 3, Run 3, Run 3]"
  shows "map cl_task (clients s) = [Shut [1, 0], Refused, Refused, Refused]"
  unfolding s_def by code_simp

end
