(* ===== verification/Socks5Conn.thy ===== *)
theory Socks5Conn
  imports Socks5 BypassPlugin
begin

text \<open>
  The SOCKS5 handshake: \<^verbatim>\<open>internal/gosocks5/conn.go\<close>, the selectors of \<^verbatim>\<open>gosocks5/server\<close>, \<^verbatim>\<open>gosocks5/client\<close>,
  \<^verbatim>\<open>gostx/handler/socks/v5\<close> and \<^verbatim>\<open>gostx/connector/socks/v5\<close>, and the two server handlers up to the dispatch of the request.
  A connection is the reader of its input, what has been written to it, and the outcomes of its next writes. TLS is a parameter, a
  function from a connection to the connection inside. The locale \<open>mandatory_auth\<close> is what a selector that demands
  credentials promises, and is interpreted for both servers. The lemmas say that nobody passes without credentials that the
  server accepts, that an honest client does pass, and under which name the access control then knows it.
\<close>

section \<open>Connections\<close>

record net_conn =
  nc_in :: reader
  nc_out :: "byte list"
  nc_writes :: "go_error option list"

type_synonym 'a io = "net_conn \<Rightarrow> 'a go \<times> net_conn"

definition io_read :: "'a rd \<Rightarrow> 'a io" where
  "io_read m c = (case m (nc_in c) of (r, i) \<Rightarrow> (r, c\<lparr>nc_in := i\<rparr>))"

text \<open>A write succeeds unless the connection says otherwise.\<close>

definition io_write :: "byte list \<Rightarrow> unit io" where
  "io_write b c =
     (case nc_writes c of
        Some e # ws \<Rightarrow> (Fail e, c\<lparr>nc_writes := ws\<rparr>)
      | ws \<Rightarrow> (Ok (), c\<lparr>nc_out := nc_out c @ b, nc_writes := tl ws\<rparr>))"

definition io_ret :: "'a \<Rightarrow> 'a io" where
  "io_ret a c = (Ok a, c)"

definition io_fail :: "go_error \<Rightarrow> 'a io" where
  "io_fail e c = (Fail e, c)"

definition io_panic :: "'a io" where
  "io_panic c = (Panic, c)"

definition io_bind :: "'a io \<Rightarrow> ('a \<Rightarrow> 'b io) \<Rightarrow> 'b io" where
  "io_bind m f c = (case m c of (Ok a, c') \<Rightarrow> f a c' | (Fail e, c') \<Rightarrow> (Fail e, c') | (Panic, c') \<Rightarrow> (Panic, c'))"

text \<open>A step on another view of the connection, such as the one inside TLS.\<close>

definition io_on :: "(net_conn \<Rightarrow> net_conn) \<Rightarrow> 'a io \<Rightarrow> 'a io" where
  "io_on view m c = m (view c)"

section \<open>Selectors\<close>

definition MethodNoAuth :: byte where "MethodNoAuth = 0"
definition MethodUserPass :: byte where "MethodUserPass = 2"
definition MethodNoAcceptable :: byte where "MethodNoAcceptable = 0xFF"
definition MethodTLS :: byte where "MethodTLS = 0x80"
definition MethodTLSAuth :: byte where "MethodTLSAuth = 0x82"

definition Succeeded :: byte where "Succeeded = 0"
definition Failure :: byte where "Failure = 1"
definition CmdUnsupported :: byte where "CmdUnsupported = 7"

definition ErrBadFormat :: go_error where "ErrBadFormat = GoErr ''bad format''"
definition ErrAuthFailure :: go_error where "ErrAuthFailure = GoErr ''auth failure''"

lemmas method_consts = MethodNoAuth_def MethodUserPass_def MethodNoAcceptable_def MethodTLS_def MethodTLSAuth_def

record selector =
  Methods :: "byte list"
  Select :: "byte list \<Rightarrow> byte"
  OnSelected :: "byte \<Rightarrow> string io"

text \<open>\<^verbatim>\<open>url.Userinfo\<close>: the name and the password, which may not be set.\<close>

type_synonym userinfo = "string \<times> string option"

definition user_Password :: "userinfo \<Rightarrow> string" where
  "user_Password u = (case snd u of None \<Rightarrow> [] | Some p \<Rightarrow> p)"

text \<open>\<^verbatim>\<open>gosocks5/server/selector.go\<close>\<close>

definition server_Select :: "userinfo list \<Rightarrow> byte list \<Rightarrow> byte" where
  "server_Select users methods = (if 0 < length users then MethodUserPass else MethodNoAuth)"

definition user_matches :: "UserPassRequest \<Rightarrow> userinfo \<Rightarrow> bool" where
  "user_matches req user \<longleftrightarrow>
     Username req = fst user \<and> Password req = user_Password user \<or>
     Username req = fst user \<and> user_Password user = [] \<or>
     fst user = [] \<and> Password req = user_Password user"

definition write_status :: "byte \<Rightarrow> unit io" where
  "write_status st = io_write (UserPassResponse_Write \<lparr>rs_Version = UserPassVer, rs_Status = st\<rparr>)"

definition server_OnSelected :: "userinfo list \<Rightarrow> byte \<Rightarrow> string io" where
  "server_OnSelected users meth =
     (if meth = MethodUserPass then
        io_bind (io_read ReadUserPassRequest) (\<lambda>req.
          let valid = list_ex (user_matches req) users in
          if 0 < length users \<and> \<not> valid
          then io_bind (write_status Failure) (\<lambda>_. io_fail ErrAuthFailure)
          else io_bind (write_status Succeeded) (\<lambda>_. io_ret []))
      else if meth = MethodNoAcceptable then io_fail ErrBadMethod
      else io_fail ErrBadFormat)"

definition serverSelector :: "userinfo list \<Rightarrow> byte list \<Rightarrow> selector" where
  "serverSelector users methods = \<lparr>Methods = methods, Select = server_Select users, OnSelected = server_OnSelected users\<rparr>"

text \<open>\<^verbatim>\<open>gosocks5/client/selector.go\<close>. The request panics where its buffer is too small.\<close>

definition write_userpass :: "userinfo option \<Rightarrow> unit io" where
  "write_userpass user =
     (case UserPassRequest_Write \<lparr>up_Version = UserPassVer,
          Username = (case user of None \<Rightarrow> [] | Some u \<Rightarrow> fst u), Password = (case user of None \<Rightarrow> [] | Some u \<Rightarrow> user_Password u)\<rparr> of
        Ok b \<Rightarrow> io_write b | Fail e \<Rightarrow> io_fail e | Panic \<Rightarrow> io_panic)"

definition client_auth :: "userinfo option \<Rightarrow> string io" where
  "client_auth user =
     io_bind (write_userpass user) (\<lambda>_.
     io_bind (io_read ReadUserPassResponse) (\<lambda>resp.
       if rs_Status resp \<noteq> Succeeded then io_fail ErrAuthFailure else io_ret []))"

definition client_OnSelected :: "userinfo option \<Rightarrow> byte \<Rightarrow> string io" where
  "client_OnSelected user meth =
     (if meth = MethodUserPass then client_auth user
      else if meth = MethodNoAcceptable then io_fail ErrBadMethod
      else io_fail ErrBadFormat)"

definition clientSelector :: "userinfo option \<Rightarrow> byte list \<Rightarrow> selector" where
  "clientSelector user methods = \<lparr>Methods = methods, Select = (\<lambda>_. 0), OnSelected = client_OnSelected user\<rparr>"

text \<open>
  \<^verbatim>\<open>gostx/handler/socks/v5/selector.go\<close>: \<open>auth\<close> is the authenticator, if there is one, for the remote address of the
  connection, and \<open>tls\<close> is \<^verbatim>\<open>tls.Server\<close>.
\<close>

definition gost_Select :: "(string \<Rightarrow> string \<Rightarrow> string \<times> bool) option \<Rightarrow> bool \<Rightarrow> byte list \<Rightarrow> byte" where
  "gost_Select auth noTLS methods =
     (let meth = (if MethodTLS \<in> set methods \<and> \<not> noTLS then MethodTLS else MethodNoAuth);
          meth1 = (if auth \<noteq> None \<and> meth = MethodNoAuth then MethodUserPass else meth)
      in if auth \<noteq> None \<and> meth1 = MethodTLS \<and> \<not> noTLS then MethodTLSAuth else meth1)"

definition gost_auth :: "(string \<Rightarrow> string \<Rightarrow> string \<times> bool) option \<Rightarrow> string io" where
  "gost_auth auth =
     io_bind (io_read ReadUserPassRequest) (\<lambda>req.
       case auth of
         None \<Rightarrow> io_bind (write_status Succeeded) (\<lambda>_. io_ret [])
       | Some f \<Rightarrow>
           (case f (Username req) (Password req) of
              (cid, False) \<Rightarrow> io_bind (write_status Failure) (\<lambda>_. io_fail ErrAuthFailure)
            | (cid, True) \<Rightarrow> io_bind (write_status Succeeded) (\<lambda>_. io_ret cid)))"

definition gost_OnSelected ::
  "(string \<Rightarrow> string \<Rightarrow> string \<times> bool) option \<Rightarrow> (net_conn \<Rightarrow> net_conn) \<Rightarrow> byte \<Rightarrow> string io" where
  "gost_OnSelected auth tls meth =
     (if meth = MethodNoAuth then io_ret []
      else if meth = MethodTLS then io_on tls (io_ret [])
      else if meth = MethodUserPass then gost_auth auth
      else if meth = MethodTLSAuth then io_on tls (gost_auth auth)
      else if meth = MethodNoAcceptable then io_fail ErrBadMethod
      else io_fail ErrBadFormat)"

definition gostSelector ::
  "(string \<Rightarrow> string \<Rightarrow> string \<times> bool) option \<Rightarrow> (net_conn \<Rightarrow> net_conn) \<Rightarrow> bool \<Rightarrow> byte list \<Rightarrow> selector" where
  "gostSelector auth tls noTLS methods =
     \<lparr>Methods = methods, Select = gost_Select auth noTLS, OnSelected = gost_OnSelected auth tls\<rparr>"

text \<open>\<^verbatim>\<open>gostx/connector/socks/v5/selector.go\<close>\<close>

definition connector_OnSelected :: "userinfo option \<Rightarrow> (net_conn \<Rightarrow> net_conn) \<Rightarrow> byte \<Rightarrow> string io" where
  "connector_OnSelected user tls meth =
     (if meth = MethodNoAuth then io_ret []
      else if meth = MethodTLS then io_on tls (io_ret [])
      else if meth = MethodUserPass then client_auth user
      else if meth = MethodTLSAuth then io_on tls (client_auth user)
      else if meth = MethodNoAcceptable then io_fail ErrBadMethod
      else io_fail ErrBadFormat)"

section \<open>The handshake\<close>

record Conn =
  cn_c :: net_conn
  cn_selector :: "selector option"
  cn_method :: byte
  isClient :: bool
  clientID :: string
  handshaked :: bool
  handshakeErr :: "go_error option"

definition ClientConn :: "net_conn \<Rightarrow> selector option \<Rightarrow> Conn" where
  "ClientConn c sel =
     \<lparr>cn_c = c, cn_selector = sel, cn_method = 0, isClient = True, clientID = [], handshaked = False, handshakeErr = None\<rparr>"

definition ServerConn :: "net_conn \<Rightarrow> selector option \<Rightarrow> Conn" where
  "ServerConn c sel =
     \<lparr>cn_c = c, cn_selector = sel, cn_method = 0, isClient = False, clientID = [], handshaked = False, handshakeErr = None\<rparr>"

text \<open>Without methods one byte is sent all the same, and it is zero.\<close>

definition client_greeting :: "byte list \<Rightarrow> byte list" where
  "client_greeting methods =
     (let nm = (if length methods = 0 then 1 else length methods) in
      [Ver5, of_nat nm] @ (if methods = [] then [0] else methods))"

definition client_handshake_io :: "selector option \<Rightarrow> byte io" where
  "client_handshake_io sel =
     io_bind (io_write (client_greeting (case sel of None \<Rightarrow> [] | Some s \<Rightarrow> Methods s))) (\<lambda>_.
     io_bind (io_read (ReadFull 2)) (\<lambda>b.
       if b ! 0 \<noteq> Ver5 then io_fail ErrBadVersion
       else case sel of
              None \<Rightarrow> io_ret (b ! 1)
            | Some s \<Rightarrow> io_bind (OnSelected s (b ! 1)) (\<lambda>_. io_ret (b ! 1))))"

definition clientHandshake :: "Conn \<Rightarrow> unit go \<times> Conn" where
  "clientHandshake conn =
     (case client_handshake_io (cn_selector conn) (cn_c conn) of
        (Ok m, c) \<Rightarrow> (Ok (), conn\<lparr>cn_c := c, cn_method := m, handshaked := True\<rparr>)
      | (Fail e, c) \<Rightarrow> (Fail e, conn\<lparr>cn_c := c\<rparr>)
      | (Panic, c) \<Rightarrow> (Panic, conn\<lparr>cn_c := c\<rparr>))"

definition server_handshake_io :: "selector option \<Rightarrow> (byte \<times> string) io" where
  "server_handshake_io sel =
     io_bind (io_read ReadMethods) (\<lambda>methods.
       let meth = (case sel of None \<Rightarrow> MethodNoAuth | Some s \<Rightarrow> Select s methods) in
       io_bind (io_write [Ver5, meth]) (\<lambda>_.
         case sel of
           None \<Rightarrow> io_ret (meth, [])
         | Some s \<Rightarrow> io_bind (OnSelected s meth) (\<lambda>cid. io_ret (meth, cid))))"

definition serverHandshake :: "Conn \<Rightarrow> unit go \<times> Conn" where
  "serverHandshake conn =
     (case server_handshake_io (cn_selector conn) (cn_c conn) of
        (Ok (m, cid), c) \<Rightarrow> (Ok (), conn\<lparr>cn_c := c, clientID := cid, cn_method := m, handshaked := True\<rparr>)
      | (Fail e, c) \<Rightarrow> (Fail e, conn\<lparr>cn_c := c\<rparr>)
      | (Panic, c) \<Rightarrow> (Panic, conn\<lparr>cn_c := c\<rparr>))"

definition Handleshake :: "Conn \<Rightarrow> unit go \<times> Conn" where
  "Handleshake conn =
     (case handshakeErr conn of
        Some e \<Rightarrow> (Fail e, conn)
      | None \<Rightarrow>
          if handshaked conn then (Ok (), conn)
          else case (if isClient conn then clientHandshake conn else serverHandshake conn) of
                 (Fail e, conn') \<Rightarrow> (Fail e, conn'\<lparr>handshakeErr := Some e\<rparr>)
               | r \<Rightarrow> r)"

text \<open>A reading program run on the connection: its first \<^verbatim>\<open>Read\<close> makes the handshake.\<close>

definition Conn_Read :: "'a rd \<Rightarrow> Conn \<Rightarrow> 'a go \<times> Conn" where
  "Conn_Read m conn =
     (case Handleshake conn of
        (Ok _, conn') \<Rightarrow> (case io_read m (cn_c conn') of (r, c) \<Rightarrow> (r, conn'\<lparr>cn_c := c\<rparr>))
      | (Fail e, conn') \<Rightarrow> (Fail e, conn')
      | (Panic, conn') \<Rightarrow> (Panic, conn'))"

definition Conn_Write :: "byte list \<Rightarrow> Conn \<Rightarrow> unit go \<times> Conn" where
  "Conn_Write b conn =
     (case Handleshake conn of
        (Ok _, conn') \<Rightarrow> (case io_write b (cn_c conn') of (r, c) \<Rightarrow> (r, conn'\<lparr>cn_c := c\<rparr>))
      | (Fail e, conn') \<Rightarrow> (Fail e, conn')
      | (Panic, conn') \<Rightarrow> (Panic, conn'))"

section \<open>The handlers up to the dispatch\<close>

definition CmdConnect :: byte where "CmdConnect = 1"
definition CmdBind :: byte where "CmdBind = 2"
definition CmdUdp :: byte where "CmdUdp = 3"
definition CmdMuxBind :: byte where "CmdMuxBind = 0xF2"
definition CmdUDPTun :: byte where "CmdUDPTun = 0xF3"

datatype socks_action = DoConnect string | DoBind string | DoMuxBind string | DoUDP | DoUDPTun string

definition request_address :: "Request \<Rightarrow> string" where
  "request_address req = (case rq_Addr req of Some a \<Rightarrow> Addr_String a | None \<Rightarrow> [])"

text \<open>\<^verbatim>\<open>serverHandler.Handle\<close> of \<^verbatim>\<open>gosocks5/server\<close>\<close>

definition server_Handle :: "selector option \<Rightarrow> net_conn \<Rightarrow> socks_action go \<times> Conn" where
  "server_Handle sel c =
     (case Conn_Read ReadRequest (ServerConn c sel) of
        (Fail e, conn) \<Rightarrow> (Fail e, conn)
      | (Panic, conn) \<Rightarrow> (Panic, conn)
      | (Ok req, conn) \<Rightarrow>
          (if Cmd req = CmdConnect then Ok (DoConnect (request_address req))
           else if Cmd req = CmdBind then Ok (DoBind (request_address req))
           else Fail (GoErr ''7: unsupported command''), conn))"

text \<open>\<^verbatim>\<open>socks5Handler.Handle\<close>: the result is what is done and for which client.\<close>

definition gost_Handle :: "bool \<Rightarrow> selector option \<Rightarrow> net_conn \<Rightarrow> (socks_action \<times> string) go \<times> Conn" where
  "gost_Handle rate_ok sel c =
     (if \<not> rate_ok then (Fail (GoErr ''rate limit''), ServerConn c sel)
      else case Conn_Read ReadRequest (ServerConn c sel) of
        (Fail e, conn) \<Rightarrow> (Fail e, conn)
      | (Panic, conn) \<Rightarrow> (Panic, conn)
      | (Ok req, conn) \<Rightarrow>
          (let address = request_address req; cid = clientID conn in
           if Cmd req = CmdConnect then (Ok (DoConnect address, cid), conn)
           else if Cmd req = CmdBind then (Ok (DoBind address, cid), conn)
           else if Cmd req = CmdMuxBind then (Ok (DoMuxBind address, cid), conn)
           else if Cmd req = CmdUdp then (Ok (DoUDP, cid), conn)
           else if Cmd req = CmdUDPTun then (Ok (DoUDPTun address, cid), conn)
           else (Fail (GoErr ''socks5: unknown command''),
                 snd (Conn_Write [Ver5, CmdUnsupported, 0, AddrIPv4, 0, 0, 0, 0, 0, 0] conn))))"

section \<open>Running connection programs\<close>

lemma io_bind_Ok:
  "io_bind m f c = (Ok b, c') \<longleftrightarrow> (\<exists>a c1. m c = (Ok a, c1) \<and> f a c1 = (Ok b, c'))"
  by (auto simp: io_bind_def split: prod.splits go.splits)

lemma io_read_Ok: "io_read m c = (Ok a, c') \<longleftrightarrow> (\<exists>i. m (nc_in c) = (Ok a, i) \<and> c' = c\<lparr>nc_in := i\<rparr>)"
  by (auto simp: io_read_def split: prod.splits)

lemma io_write_Ok: "io_write b c = (Ok u, c') \<Longrightarrow> nc_in c' = nc_in c \<and> nc_out c' = nc_out c @ b"
  by (auto simp: io_write_def split: list.splits option.splits)

lemma io_simps [simp]:
  "io_ret a c = (r, c') \<longleftrightarrow> r = Ok a \<and> c' = c" "io_fail e c = (r, c') \<longleftrightarrow> r = Fail e \<and> c' = c" "io_panic c = (r, c') \<longleftrightarrow> r = Panic \<and> c' = c"
  by (auto simp: io_ret_def io_fail_def io_panic_def)

lemma rd_simps [simp]: "rret a r = (x, r') \<longleftrightarrow> x = Ok a \<and> r' = r" "rfail e r = (x, r') \<longleftrightarrow> x = Fail e \<and> r' = r"
  by (auto simp: rret_def rfail_def)

lemma ReadFull_splits:
  assumes "ReadFull n r = (Ok b, r')"
  shows "length b = n \<and> rstream r = b @ rstream r' \<and> rend r' = rend r"
  using ReadFull_Ok [OF assms] by simp

lemma read_counted_Ok: "read_counted n r = (Ok b, r') \<Longrightarrow> length b = n \<and> rstream r = b @ rstream r'"
  by (auto simp: read_counted_def dest: ReadFull_splits split: if_splits)

section \<open>What the decoders deliver\<close>

text \<open>A message that was decoded is well formed, and its encoding is what was consumed.\<close>

lemma two_bytes: "length b = 2 \<Longrightarrow> b = [b ! 0, b ! 1]"
  by (auto simp: numeral_2_eq_2 length_Suc_conv)

lemma one_byte: "length b = 1 \<Longrightarrow> b = [b ! 0]"
  by (auto simp: length_Suc_conv)

lemma byte_of_unat [simp]: "(of_nat (unat (x :: byte)) :: byte) = x"
  by simp

lemma unat_byte: "unat (x :: byte) \<le> 255"
proof -
  have "unat x < 2 ^ LENGTH(8)" by (rule unsigned_less)
  then show ?thesis by simp
qed

lemma ReadMethods_typed:
  assumes "ReadMethods r = (Ok ms, r')"
  shows "valid_methods ms \<and> rstream r = methods_bytes ms @ rstream r'"
proof -
  obtain b r1 where b: "ReadFull 2 r = (Ok b, r1)" "b ! 0 = Ver5" "b ! 1 \<noteq> 0" "ReadFull (unat (b ! 1)) r1 = (Ok ms, r')"
    using assms by (auto simp: ReadMethods_def rbind_Ok split: if_splits)
  from ReadFull_splits [OF b(1)] have s: "rstream r = b @ rstream r1" "length b = 2" by simp_all
  from ReadFull_splits [OF b(4)] have t: "length ms = unat (b ! 1)" "rstream r1 = ms @ rstream r'" by simp_all
  have "b = [Ver5, of_nat (length ms)]" using two_bytes [OF s(2)] b(2) t(1) by simp
  moreover have "1 \<le> length ms \<and> length ms \<le> 255"
    using t(1) b(3) unat_byte [of "b ! 1"] by (simp add: unat_gt_0 Suc_le_eq)
  ultimately show ?thesis using s(1) t(2) by (simp add: valid_methods_def methods_bytes_def)
qed

lemma ReadUserPassRequest_typed:
  assumes "ReadUserPassRequest r = (Ok q, r')"
  shows "valid_userpass q \<and> rstream r = UserPassRequest_bytes q @ rstream r'"
proof -
  obtain b r1 u r2 pl r3 p where h: "ReadFull 2 r = (Ok b, r1)" "b ! 0 = UserPassVer" "read_counted (unat (b ! 1)) r1 = (Ok u, r2)"
    "ReadFull 1 r2 = (Ok pl, r3)" "read_counted (unat (pl ! 0)) r3 = (Ok p, r')"
    "q = \<lparr>up_Version = b ! 0, Username = string_of_bytes u, Password = string_of_bytes p\<rparr>"
    using assms by (auto simp: ReadUserPassRequest_def rbind_Ok Let_def split: if_splits)
  note s = ReadFull_splits [OF h(1)] read_counted_Ok [OF h(3)] ReadFull_splits [OF h(4)] read_counted_Ok [OF h(5)]
  have "b = [UserPassVer, of_nat (length u)]" using two_bytes [of b] s h(2) by simp
  moreover have "pl = [of_nat (length p)]" using one_byte [of pl] s by simp
  ultimately have "rstream r = UserPassRequest_bytes q @ rstream r'"
    using s h(2,6) by (simp add: UserPassRequest_bytes_def)
  moreover have "valid_userpass q"
    using s h(2,6) unat_byte [of "b ! 1"] unat_byte [of "pl ! 0"] by (simp add: valid_userpass_def)
  ultimately show ?thesis by simp
qed

section \<open>A selector that demands credentials\<close>

text \<open>
  \<open>chan\<close> is the view of the connection that a method works on, and \<open>cred\<close> gives the name of a client whose credentials are accepted.
\<close>

locale mandatory_auth =
  fixes sel :: selector
    and chan :: "byte \<Rightarrow> net_conn \<Rightarrow> net_conn"
    and cred :: "string \<Rightarrow> string \<Rightarrow> string option"
  assumes selected: "OnSelected sel (Select sel ms) c = (Ok cid, c') \<Longrightarrow>
    \<exists>q. valid_userpass q \<and> rstream (nc_in (chan (Select sel ms) c)) = UserPassRequest_bytes q @ rstream (nc_in c') \<and>
      cred (Username q) (Password q) = Some cid \<and> nc_out c' = nc_out (chan (Select sel ms) c) @ [UserPassVer, Succeeded]"
begin

lemma handshake_needs_credentials:
  assumes "server_handshake_io (Some sel) c = (Ok (m, cid), c')"
  shows "\<exists>ms q c1. valid_methods ms \<and> m = Select sel ms \<and> rstream (nc_in c) = methods_bytes ms @ rstream (nc_in c1) \<and>
    nc_out c1 = nc_out c @ [Ver5, m] \<and> valid_userpass q \<and>
    rstream (nc_in (chan m c1)) = UserPassRequest_bytes q @ rstream (nc_in c') \<and> cred (Username q) (Password q) = Some cid"
proof -
  obtain ms i c1 where h: "ReadMethods (nc_in c) = (Ok ms, i)" "io_write [Ver5, Select sel ms] (c\<lparr>nc_in := i\<rparr>) = (Ok (), c1)"
    "OnSelected sel (Select sel ms) c1 = (Ok cid, c')" "m = Select sel ms"
    using assms by (auto simp: server_handshake_io_def Let_def io_bind_Ok io_read_Ok)
  have "nc_in c1 = i" "nc_out c1 = nc_out c @ [Ver5, m]" using io_write_Ok [OF h(2)] h(4) by simp_all
  with ReadMethods_typed [OF h(1)] selected [OF h(3)] h(4) show ?thesis by blast
qed

end

lemma write_status_Ok:
  "write_status st c = (Ok u, c') \<Longrightarrow> nc_in c' = nc_in c \<and> nc_out c' = nc_out c @ [UserPassVer, st]"
  unfolding write_status_def by (drule io_write_Ok) (simp add: UserPassResponse_Write_def)

text \<open>Credentials that the list of users accepts.\<close>

definition users_cred :: "userinfo list \<Rightarrow> string \<Rightarrow> string \<Rightarrow> string option" where
  "users_cred users u p =
     (if list_ex (user_matches \<lparr>up_Version = UserPassVer, Username = u, Password = p\<rparr>) users then Some [] else None)"

definition auth_cred :: "(string \<Rightarrow> string \<Rightarrow> string \<times> bool) \<Rightarrow> string \<Rightarrow> string \<Rightarrow> string option" where
  "auth_cred f u p = (case f u p of (cid, ok) \<Rightarrow> if ok then Some cid else None)"

definition gost_chan :: "(net_conn \<Rightarrow> net_conn) \<Rightarrow> byte \<Rightarrow> net_conn \<Rightarrow> net_conn" where
  "gost_chan tls m c = (if m = MethodTLSAuth then tls c else c)"

lemma read_userpass_Ok:
  assumes "io_read ReadUserPassRequest c = (Ok q, c')"
  shows "valid_userpass q \<and> rstream (nc_in c) = UserPassRequest_bytes q @ rstream (nc_in c') \<and> nc_out c' = nc_out c"
  using assms ReadUserPassRequest_typed by (auto simp: io_read_Ok)

interpretation server_auth: mandatory_auth "serverSelector (user # users) methods" "\<lambda>_ c. c" "users_cred (user # users)" for user users methods
proof
  fix ms c cid c'
  assume "OnSelected (serverSelector (user # users) methods) (Select (serverSelector (user # users) methods) ms) c = (Ok cid, c')"
  then obtain q c1 where q: "io_read ReadUserPassRequest c = (Ok q, c1)" "list_ex (user_matches q) (user # users)" "cid = []"
      "write_status Succeeded c1 = (Ok (), c')"
    by (auto simp: serverSelector_def server_Select_def server_OnSelected_def Let_def io_bind_Ok split: if_splits)
  from read_userpass_Ok [OF q(1)] have v: "valid_userpass q" "rstream (nc_in c) = UserPassRequest_bytes q @ rstream (nc_in c1)" "nc_out c1 = nc_out c"
    by simp_all
  have "\<lparr>up_Version = UserPassVer, Username = Username q, Password = Password q\<rparr> = q" using v(1) by (simp add: valid_userpass_def)
  with q(2,3) have "users_cred (user # users) (Username q) (Password q) = Some cid" by (simp add: users_cred_def)
  with v write_status_Ok [OF q(4)] show "\<exists>q. valid_userpass q \<and>
      rstream (nc_in c) = UserPassRequest_bytes q @ rstream (nc_in c') \<and> users_cred (user # users) (Username q) (Password q) = Some cid \<and>
      nc_out c' = nc_out c @ [UserPassVer, Succeeded]" by metis
qed

lemma gost_auth_Ok:
  assumes "gost_auth (Some f) c = (Ok cid, c')"
  shows "\<exists>q. valid_userpass q \<and> rstream (nc_in c) = UserPassRequest_bytes q @ rstream (nc_in c') \<and>
    auth_cred f (Username q) (Password q) = Some cid \<and> nc_out c' = nc_out c @ [UserPassVer, Succeeded]"
proof -
  obtain q c1 cid1 ok where q: "io_read ReadUserPassRequest c = (Ok q, c1)" and f: "f (Username q) (Password q) = (cid1, ok)"
      and w: "(case (cid1, ok) of (cid, False) \<Rightarrow> io_bind (write_status Failure) (\<lambda>_. io_fail ErrAuthFailure)
            | (cid, True) \<Rightarrow> io_bind (write_status Succeeded) (\<lambda>_. io_ret cid)) c1 = (Ok cid, c')"
    using assms unfolding gost_auth_def io_bind_Ok option.case by (metis surj_pair)
  have ok: ok using w by (cases ok) (simp_all add: io_bind_Ok)
  with w have "cid = cid1" "write_status Succeeded c1 = (Ok (), c')" by (simp_all add: io_bind_Ok)
  with read_userpass_Ok [OF q] write_status_Ok [OF this(2)] f ok show ?thesis by (auto simp: auth_cred_def)
qed

interpretation gost_mandatory: mandatory_auth "gostSelector (Some f) tls noTLS methods" "gost_chan tls" "auth_cred f" for f tls noTLS methods
proof
  fix ms c cid c'
  assume a: "OnSelected (gostSelector (Some f) tls noTLS methods) (Select (gostSelector (Some f) tls noTLS methods) ms) c = (Ok cid, c')"
  have "Select (gostSelector (Some f) tls noTLS methods) ms \<in> {MethodUserPass, MethodTLSAuth}"
    by (auto simp: gostSelector_def gost_Select_def Let_def method_consts)
  then show "\<exists>q. valid_userpass q \<and>
      rstream (nc_in (gost_chan tls (Select (gostSelector (Some f) tls noTLS methods) ms) c)) = UserPassRequest_bytes q @ rstream (nc_in c') \<and>
      auth_cred f (Username q) (Password q) = Some cid \<and>
      nc_out c' = nc_out (gost_chan tls (Select (gostSelector (Some f) tls noTLS methods) ms) c) @ [UserPassVer, Succeeded]"
  proof
    assume m: "Select (gostSelector (Some f) tls noTLS methods) ms = MethodUserPass"
    then have "gost_auth (Some f) c = (Ok cid, c')" using a by (simp add: gostSelector_def gost_OnSelected_def method_consts)
    from gost_auth_Ok [OF this] show ?thesis unfolding m by (simp add: gost_chan_def method_consts)
  next
    assume "Select (gostSelector (Some f) tls noTLS methods) ms \<in> {MethodTLSAuth}"
    then have m: "Select (gostSelector (Some f) tls noTLS methods) ms = MethodTLSAuth" by simp
    then have "gost_auth (Some f) (tls c) = (Ok cid, c')" using a by (simp add: gostSelector_def gost_OnSelected_def io_on_def method_consts)
    from gost_auth_Ok [OF this] show ?thesis unfolding m by (simp add: gost_chan_def)
  qed
qed

section \<open>Passing the handshake\<close>

lemma Handleshake_new:
  "Handleshake (ServerConn c sel) =
     (case server_handshake_io sel c of
        (Ok (m, cid), c') \<Rightarrow> (Ok (), (ServerConn c' sel)\<lparr>clientID := cid, cn_method := m, handshaked := True\<rparr>)
      | (Fail e, c') \<Rightarrow> (Fail e, (ServerConn c' sel)\<lparr>handshakeErr := Some e\<rparr>)
      | (Panic, c') \<Rightarrow> (Panic, ServerConn c' sel))"
  by (auto simp: Handleshake_def ServerConn_def serverHandshake_def split: prod.splits go.splits)

lemma Handleshake_client:
  "Handleshake (ClientConn c sel) =
     (case client_handshake_io sel c of
        (Ok m, c') \<Rightarrow> (Ok (), (ClientConn c' sel)\<lparr>cn_method := m, handshaked := True\<rparr>)
      | (Fail e, c') \<Rightarrow> (Fail e, (ClientConn c' sel)\<lparr>handshakeErr := Some e\<rparr>)
      | (Panic, c') \<Rightarrow> (Panic, ClientConn c' sel))"
  by (auto simp: Handleshake_def ClientConn_def clientHandshake_def split: prod.splits go.splits)

lemma Conn_Read_Ok:
  assumes "Conn_Read m (ServerConn c sel) = (Ok a, conn)"
  shows "\<exists>meth c1 i. server_handshake_io sel c = (Ok (meth, clientID conn), c1) \<and> m (nc_in c1) = (Ok a, i) \<and> cn_method conn = meth"
proof -
  obtain k where k: "Handleshake (ServerConn c sel) = (Ok (), k)" "io_read m (cn_c k) = (Ok a, cn_c conn)" "clientID conn = clientID k" "cn_method conn = cn_method k"
    using assms by (auto simp: Conn_Read_def split: prod.splits go.splits)
  from k(1) show ?thesis using k(2-4) unfolding Handleshake_new io_read_Ok
    by (auto simp: ServerConn_def split: prod.splits go.splits)
qed

lemma gost_Handle_Ok:
  assumes "gost_Handle rate_ok sel c = (Ok (a, cid), conn)"
  shows "rate_ok \<and> (\<exists>req. Conn_Read ReadRequest (ServerConn c sel) = (Ok req, conn)) \<and> cid = clientID conn"
  using assms by (auto simp: gost_Handle_def Let_def split: if_splits prod.splits go.splits)

lemma server_Handle_Ok:
  "server_Handle sel c = (Ok a, conn) \<Longrightarrow> \<exists>req. Conn_Read ReadRequest (ServerConn c sel) = (Ok req, conn)"
  by (auto simp: server_Handle_def split: if_splits prod.splits go.splits)

lemma handshake_error_sticks:
  assumes "Handleshake conn = (Fail e, conn')"
  shows "Conn_Read m conn' = (Fail e, conn') \<and> Conn_Write b conn' = (Fail e, conn')"
proof -
  have "handshakeErr conn' = Some e" using assms
    by (auto simp: Handleshake_def split: option.splits if_splits prod.splits go.splits)
  then show ?thesis by (simp add: Conn_Read_def Conn_Write_def Handleshake_def)
qed

lemma users_cred_iff:
  "users_cred users u p = Some cid \<longleftrightarrow>
     cid = [] \<and> list_ex (user_matches \<lparr>up_Version = UserPassVer, Username = u, Password = p\<rparr>) users"
  by (auto simp: users_cred_def)

lemma auth_cred_iff: "auth_cred f u p = Some cid \<longleftrightarrow> f u p = (cid, True)"
  by (cases "f u p") (auto simp: auth_cred_def)

text \<open>
  C34. Authentication is mandatory. When the library server has users, or the proxy's handler has an authenticator, a request is
  acted on only if the client first sent a list of methods and then, on the channel of the method the server chose, a name and a
  password that are accepted; the handler acts under the name the authenticator gave. A handshake that failed stays failed: every
  later read or write of the connection returns its error.
\<close>

theorem socks_auth_is_mandatory:
  "(server_Handle (Some (serverSelector (user # users) methods)) c = (Ok a, conn) \<longrightarrow>
      (\<exists>ms q rest. valid_methods ms \<and> valid_userpass q \<and> list_ex (user_matches q) (user # users) \<and>
        rstream (nc_in c) = methods_bytes ms @ UserPassRequest_bytes q @ rest)) \<and>
   (gost_Handle rate_ok (Some (gostSelector (Some f) tls noTLS methods)) c = (Ok (a, cid), conn) \<longrightarrow>
      (\<exists>ms q c1 rest. valid_methods ms \<and> valid_userpass q \<and> f (Username q) (Password q) = (cid, True) \<and>
        rstream (nc_in c) = methods_bytes ms @ rstream (nc_in c1) \<and>
        rstream (nc_in (gost_chan tls (cn_method conn) c1)) = UserPassRequest_bytes q @ rest)) \<and>
   (Handleshake k = (Fail e, k') \<longrightarrow> Conn_Read m k' = (Fail e, k') \<and> Conn_Write b k' = (Fail e, k'))"
proof (intro conjI impI)
  assume "server_Handle (Some (serverSelector (user # users) methods)) c = (Ok a, conn)"
  then obtain meth c1 where "server_handshake_io (Some (serverSelector (user # users) methods)) c = (Ok (meth, clientID conn), c1)"
    by (blast dest: server_Handle_Ok Conn_Read_Ok)
  from server_auth.handshake_needs_credentials [OF this] obtain ms q where
    h: "valid_methods ms" "valid_userpass q" "list_ex (user_matches \<lparr>up_Version = UserPassVer, Username = Username q, Password = Password q\<rparr>) (user # users)"
      "rstream (nc_in c) = methods_bytes ms @ UserPassRequest_bytes q @ rstream (nc_in c1)"
    unfolding users_cred_iff by metis
  moreover have "\<lparr>up_Version = UserPassVer, Username = Username q, Password = Password q\<rparr> = q" using h(2) by (simp add: valid_userpass_def)
  ultimately show "\<exists>ms q rest. valid_methods ms \<and> valid_userpass q \<and> list_ex (user_matches q) (user # users) \<and>
      rstream (nc_in c) = methods_bytes ms @ UserPassRequest_bytes q @ rest" by metis
next
  assume "gost_Handle rate_ok (Some (gostSelector (Some f) tls noTLS methods)) c = (Ok (a, cid), conn)"
  from gost_Handle_Ok [OF this] obtain c1 where
    "server_handshake_io (Some (gostSelector (Some f) tls noTLS methods)) c = (Ok (cn_method conn, cid), c1)"
    by (blast dest: Conn_Read_Ok)
  from gost_mandatory.handshake_needs_credentials [OF this, unfolded auth_cred_iff]
  show "\<exists>ms q c1 rest. valid_methods ms \<and> valid_userpass q \<and> f (Username q) (Password q) = (cid, True) \<and>
      rstream (nc_in c) = methods_bytes ms @ rstream (nc_in c1) \<and>
      rstream (nc_in (gost_chan tls (cn_method conn) c1)) = UserPassRequest_bytes q @ rest" by blast
qed (simp_all add: handshake_error_sticks)

section \<open>An honest client passes\<close>

lemma io_write_free: "nc_writes c = [] \<Longrightarrow> io_write b c = (Ok (), c\<lparr>nc_out := nc_out c @ b\<rparr>)"
  by (simp add: io_write_def)

lemma decodes_io_read:
  assumes "decodes m bs a rest" "rstream (nc_in c) = bs"
  shows "\<exists>i. io_read m c = (Ok a, c\<lparr>nc_in := i\<rparr>) \<and> rstream i = rest"
proof -
  from assms obtain i where "m (nc_in c) = (Ok a, i)" "rstream i = rest" unfolding decodes_def by blast
  then have "io_read m c = (Ok a, c\<lparr>nc_in := i\<rparr>)" by (simp add: io_read_def)
  with \<open>rstream i = rest\<close> show ?thesis by blast
qed

definition credentials :: "userinfo \<Rightarrow> UserPassRequest" where
  "credentials u = \<lparr>up_Version = UserPassVer, Username = fst u, Password = user_Password u\<rparr>"

lemma write_userpass_valid:
  "valid_userpass (credentials u) \<Longrightarrow> write_userpass (Some u) = io_write (UserPassRequest_bytes (credentials u))"
  by (simp add: write_userpass_def credentials_def UserPassRequest_Write_def Let_def valid_userpass_def)

lemma greeting_is_methods: "valid_methods ms \<Longrightarrow> client_greeting ms = methods_bytes ms"
  by (auto simp: valid_methods_def client_greeting_def methods_bytes_def Let_def)

text \<open>A selector of a client that has methods and answers the demand for credentials with those of the user.\<close>

definition offers :: "userinfo \<Rightarrow> byte list \<Rightarrow> selector \<Rightarrow> bool" where
  "offers u ms s \<longleftrightarrow> Methods s = ms \<and> OnSelected s MethodUserPass = client_auth (Some u)"

lemma client_side:
  assumes "offers u ms s" "valid_methods ms" "valid_userpass (credentials u)" "nc_writes c = []"
    and "rstream (nc_in c) = [Ver5, MethodUserPass, UserPassVer, Succeeded] @ rest"
  shows "\<exists>i. Handleshake (ClientConn c (Some s)) =
      (Ok (), (ClientConn (c\<lparr>nc_in := i, nc_out := nc_out c @ methods_bytes ms @ UserPassRequest_bytes (credentials u)\<rparr>) (Some s))
        \<lparr>cn_method := MethodUserPass, handshaked := True\<rparr>) \<and> rstream i = rest"
proof -
  let ?c1 = "c\<lparr>nc_out := nc_out c @ methods_bytes ms\<rparr>"
  have "decodes (ReadFull 2) (Ver5 # MethodUserPass # [UserPassVer, Succeeded] @ rest) [Ver5, MethodUserPass] ([UserPassVer, Succeeded] @ rest)"
    by (rule decodes_read2)
  from decodes_io_read [OF this, of ?c1] assms(5) obtain i where
    i: "io_read (ReadFull 2) ?c1 = (Ok [Ver5, MethodUserPass], ?c1\<lparr>nc_in := i\<rparr>)" "rstream i = [UserPassVer, Succeeded] @ rest" by auto
  let ?c2 = "c\<lparr>nc_in := i, nc_out := nc_out c @ methods_bytes ms @ UserPassRequest_bytes (credentials u)\<rparr>"
  have "valid_response \<lparr>rs_Version = UserPassVer, rs_Status = Succeeded\<rparr>" by (simp add: valid_response_def)
  from response_codec.dec_enc [OF this, of rest]
  have "decodes ReadUserPassResponse ([UserPassVer, Succeeded] @ rest) \<lparr>rs_Version = UserPassVer, rs_Status = Succeeded\<rparr> rest"
    by (simp add: UserPassResponse_Write_def)
  from decodes_io_read [OF this, of ?c2] i(2) obtain j where
    j: "io_read ReadUserPassResponse ?c2 = (Ok \<lparr>rs_Version = UserPassVer, rs_Status = Succeeded\<rparr>, ?c2\<lparr>nc_in := j\<rparr>)" "rstream j = rest" by auto
  have "client_handshake_io (Some s) c = (Ok MethodUserPass, ?c2\<lparr>nc_in := j\<rparr>)"
    using assms(1-4) i(1) j(1)
    by (simp add: client_handshake_io_def offers_def greeting_is_methods io_bind_def io_write_free client_auth_def
        write_userpass_valid io_ret_def)
  then show ?thesis using j(2) by (intro exI [of _ j], cases c) (simp add: Handleshake_client)
qed

text \<open>A selector of a server that asks for credentials and accepts those of the user under some name.\<close>

definition accepts :: "userinfo \<Rightarrow> byte list \<Rightarrow> string \<Rightarrow> selector \<Rightarrow> bool" where
  "accepts u ms cid s \<longleftrightarrow> Select s ms = MethodUserPass \<and>
     (\<forall>c i. io_read ReadUserPassRequest c = (Ok (credentials u), c\<lparr>nc_in := i\<rparr>) \<and> nc_writes c = [] \<longrightarrow>
        OnSelected s MethodUserPass c = (Ok cid, c\<lparr>nc_in := i, nc_out := nc_out c @ [UserPassVer, Succeeded]\<rparr>))"

lemma server_side:
  assumes "accepts u ms cid s" "valid_methods ms" "valid_userpass (credentials u)" "nc_writes c = []"
    and "rstream (nc_in c) = methods_bytes ms @ UserPassRequest_bytes (credentials u) @ rest"
  shows "\<exists>i. Handleshake (ServerConn c (Some s)) =
      (Ok (), (ServerConn (c\<lparr>nc_in := i, nc_out := nc_out c @ [Ver5, MethodUserPass, UserPassVer, Succeeded]\<rparr>) (Some s))
        \<lparr>clientID := cid, cn_method := MethodUserPass, handshaked := True\<rparr>) \<and> rstream i = rest"
proof -
  from decodes_io_read [OF methods_codec.dec_enc [OF assms(2)] assms(5)] obtain i where
    i: "io_read ReadMethods c = (Ok ms, c\<lparr>nc_in := i\<rparr>)" "rstream i = UserPassRequest_bytes (credentials u) @ rest" by auto
  let ?c1 = "c\<lparr>nc_in := i, nc_out := nc_out c @ [Ver5, MethodUserPass]\<rparr>"
  from decodes_io_read [OF userpass_codec.dec_enc [OF assms(3)], of ?c1 rest] i(2) obtain j where
    j: "io_read ReadUserPassRequest ?c1 = (Ok (credentials u), ?c1\<lparr>nc_in := j\<rparr>)" "rstream j = rest" by auto
  have sel: "Select s ms = MethodUserPass"
    "OnSelected s MethodUserPass ?c1 = (Ok cid, ?c1\<lparr>nc_in := j, nc_out := nc_out ?c1 @ [UserPassVer, Succeeded]\<rparr>)"
    using assms(1,4) j(1) by (simp_all add: accepts_def)
  have "server_handshake_io (Some s) c =
      (Ok (MethodUserPass, cid), c\<lparr>nc_in := j, nc_out := nc_out c @ [Ver5, MethodUserPass, UserPassVer, Succeeded]\<rparr>)"
    using assms(4) i(1) sel by (simp add: server_handshake_io_def Let_def io_bind_def io_write_free io_ret_def)
  then show ?thesis using j(2) by (intro exI [of _ j]) (simp add: Handleshake_new)
qed

lemma client_offers: "offers u ms (clientSelector (Some u) ms)"
  by (simp add: offers_def clientSelector_def client_OnSelected_def)

definition connectorSelector :: "userinfo option \<Rightarrow> (net_conn \<Rightarrow> net_conn) \<Rightarrow> byte list \<Rightarrow> selector" where
  "connectorSelector user tls methods = \<lparr>Methods = methods, Select = (\<lambda>_. 0), OnSelected = connector_OnSelected user tls\<rparr>"

lemma connector_offers: "offers u ms (connectorSelector (Some u) tls ms)"
  by (simp add: offers_def connectorSelector_def connector_OnSelected_def method_consts)

lemma write_status_free:
  "nc_writes c = [] \<Longrightarrow> write_status st c = (Ok (), c\<lparr>nc_out := nc_out c @ [UserPassVer, st]\<rparr>)"
  by (simp add: write_status_def UserPassResponse_Write_def io_write_free)

lemma server_accepts:
  assumes "u \<in> set users"
  shows "accepts u ms [] (serverSelector users methods)"
proof -
  have "list_ex (user_matches (credentials u)) users"
    using assms by (auto simp: list_ex_iff user_matches_def credentials_def)
  moreover have "users \<noteq> []" using assms by auto
  ultimately show ?thesis
    by (simp add: accepts_def serverSelector_def server_Select_def server_OnSelected_def io_bind_def write_status_free io_ret_def)
qed

lemma gost_accepts:
  assumes "f (fst u) (user_Password u) = (cid, True)" "noTLS \<or> MethodTLS \<notin> set ms"
  shows "accepts u ms cid (gostSelector (Some f) tls noTLS methods)"
  using assms by (auto simp: accepts_def gostSelector_def gost_Select_def gost_OnSelected_def gost_auth_def method_consts Let_def
      credentials_def io_bind_def write_status_free io_ret_def)


section \<open>Under which name\<close>


section \<open>The default selectors\<close>

text \<open>
  The library's default server serves nobody. Its selector, which has no users, chooses the method without authentication and then
  has no case for it: whatever a client sends, and whatever it could be told before the connection failed, no request is acted on; a client that
  sends a list of methods is told that none is needed and is then refused. The default client likewise refuses every server but one that demands
  credentials.
\<close>

lemma default_server_handshake:
  "server_handshake_io (Some (serverSelector [] [])) c \<noteq> (Ok x, c')"
  "valid_methods ms \<Longrightarrow> nc_writes c = [] \<Longrightarrow> rstream (nc_in c) = methods_bytes ms @ rest \<Longrightarrow>
   \<exists>i. server_handshake_io (Some (serverSelector [] [])) c = (Fail ErrBadFormat, c\<lparr>nc_in := i, nc_out := nc_out c @ [Ver5, MethodNoAuth]\<rparr>)"
proof -
  show "server_handshake_io (Some (serverSelector [] [])) c \<noteq> (Ok x, c')"
    by (auto simp: server_handshake_io_def Let_def io_bind_Ok serverSelector_def server_Select_def server_OnSelected_def method_consts)
  assume v: "valid_methods ms" "nc_writes c = []" "rstream (nc_in c) = methods_bytes ms @ rest"
  from decodes_io_read [OF methods_codec.dec_enc [OF v(1)] v(3)] obtain i where i: "io_read ReadMethods c = (Ok ms, c\<lparr>nc_in := i\<rparr>)" by auto
  then show "\<exists>i. server_handshake_io (Some (serverSelector [] [])) c = (Fail ErrBadFormat, c\<lparr>nc_in := i, nc_out := nc_out c @ [Ver5, MethodNoAuth]\<rparr>)"
    using v(2) by (intro exI [of _ i]) (simp add: server_handshake_io_def Let_def io_bind_def io_write_free serverSelector_def server_Select_def
        server_OnSelected_def method_consts io_fail_def)
qed

lemma ReadUserPassResponse_Ok:
  "ReadUserPassResponse r = (Ok p, r') \<Longrightarrow> rstream r = [UserPassVer, rs_Status p] @ rstream r'"
  using two_bytes ReadFull_splits
  by (fastforce simp: ReadUserPassResponse_def rbind_Ok split: if_splits)

lemma client_auth_Ok:
  assumes "client_auth u c = (Ok x, c')"
  shows "\<exists>rest. rstream (nc_in c) = [UserPassVer, Succeeded] @ rest"
proof -
  obtain c1 p i where h: "write_userpass u c = (Ok (), c1)" "ReadUserPassResponse (nc_in c1) = (Ok p, i)" "rs_Status p = Succeeded"
    using assms by (auto simp: client_auth_def io_bind_Ok io_read_Ok split: if_splits)
  have "nc_in c1 = nc_in c" using h(1) by (auto simp: write_userpass_def dest: io_write_Ok split: go.splits)
  with ReadUserPassResponse_Ok [OF h(2)] h(3) show ?thesis by simp
qed

lemma default_client_handshake:
  assumes "client_handshake_io (Some (clientSelector None [])) c = (Ok m, c')"
  shows "\<exists>rest. rstream (nc_in c) = [Ver5, MethodUserPass, UserPassVer, Succeeded] @ rest"
proof -
  obtain c1 b c2 x where h: "io_write (client_greeting []) c = (Ok (), c1)" "io_read (ReadFull 2) c1 = (Ok b, c2)" "b ! 0 = Ver5"
    "client_OnSelected None (b ! 1) c2 = (Ok x, c')"
    using assms by (auto simp: client_handshake_io_def clientSelector_def io_bind_Ok split: if_splits)
  have b: "rstream (nc_in c) = [Ver5, b ! 1] @ rstream (nc_in c2)"
    using io_write_Ok [OF h(1)] h(2,3) two_bytes [of b] by (auto simp: io_read_Ok dest: ReadFull_splits)
  moreover have m: "b ! 1 = MethodUserPass" "client_auth None c2 = (Ok x, c')"
    using h(4) by (simp_all add: client_OnSelected_def split: if_splits)
  ultimately show ?thesis using client_auth_Ok [OF m(2)] by auto
qed

text \<open>
  C38. The library's default server serves nobody. Its selector, which has no users, chooses the method without authentication and then
  has no case for it: whatever a client sends, no request is acted on, and a client that sends a list of methods is told that no
  authentication is needed and is then refused. The default client likewise refuses every server but one that demands credentials
  and accepts the empty ones.
\<close>

theorem default_selector_refuses_everyone:
  "fst (server_Handle (Some (serverSelector [] [])) c) \<noteq> Ok a \<and>
   (valid_methods ms \<and> nc_writes c = [] \<and> rstream (nc_in c) = methods_bytes ms @ rest \<longrightarrow>
     fst (server_Handle (Some (serverSelector [] [])) c) = Fail ErrBadFormat \<and>
     nc_out (cn_c (snd (server_Handle (Some (serverSelector [] [])) c))) = nc_out c @ [Ver5, MethodNoAuth]) \<and>
   (fst (Handleshake (ClientConn c (Some (clientSelector None [])))) = Ok () \<longrightarrow>
     (\<exists>rest. rstream (nc_in c) = [Ver5, MethodUserPass, UserPassVer, Succeeded] @ rest))"
proof (intro conjI impI)
  show "fst (server_Handle (Some (serverSelector [] [])) c) \<noteq> Ok a"
    using server_Handle_Ok Conn_Read_Ok default_server_handshake(1) by (metis surjective_pairing)
next
  assume "fst (Handleshake (ClientConn c (Some (clientSelector None [])))) = Ok ()"
  then show "\<exists>rest. rstream (nc_in c) = [Ver5, MethodUserPass, UserPassVer, Succeeded] @ rest"
    using default_client_handshake [of c] by (auto simp: Handleshake_client split: prod.splits go.splits)
next
  assume "valid_methods ms \<and> nc_writes c = [] \<and> rstream (nc_in c) = methods_bytes ms @ rest"
  from default_server_handshake(2) [of ms c rest] this obtain i where
    "server_handshake_io (Some (serverSelector [] [])) c = (Fail ErrBadFormat, c\<lparr>nc_in := i, nc_out := nc_out c @ [Ver5, MethodNoAuth]\<rparr>)" by blast
  then show "fst (server_Handle (Some (serverSelector [] [])) c) = Fail ErrBadFormat"
    "nc_out (cn_c (snd (server_Handle (Some (serverSelector [] [])) c))) = nc_out c @ [Ver5, MethodNoAuth]"
    by (simp_all add: server_Handle_def Conn_Read_def Handleshake_new) (simp add: ServerConn_def)
qed

section \<open>Decoded values are well typed\<close>

text \<open>An address as the decoder makes it: of one of the three types, and a domain is short.\<close>

definition typed_addr :: "Addr \<Rightarrow> bool" where
  "typed_addr a \<longleftrightarrow> addr_Type a \<in> {AddrIPv4, AddrIPv6, AddrDomain} \<and> (addr_Type a = AddrDomain \<longrightarrow> length (addr_Host a) \<le> 255)"

lemma Addr_ReadFrom_typed:
  assumes "Addr_ReadFrom r = (Ok a, r')"
  shows "typed_addr a"
proof -
  obtain t r1 where t: "ReadFull 1 r = (Ok t, r1)" "addr_Type a = t ! 0" "t ! 0 \<in> {AddrIPv4, AddrIPv6, AddrDomain}"
    using assms by (auto simp: Addr_ReadFrom_def rbind_Ok Let_def split: if_splits)
  have "length (addr_Host a) \<le> 255" if dom: "t ! 0 = AddrDomain"
  proof -
    obtain l r2 b r3 where "ReadFull (unat ((l ! 0) :: byte)) r2 = (Ok b, r3)" "addr_Host a = string_of_bytes b"
      using assms t(1) dom by (auto simp: Addr_ReadFrom_def rbind_Ok Let_def split: if_splits)
    then show ?thesis using ReadFull_splits unat_byte [of "l ! 0"] by fastforce
  qed
  with t(2,3) show ?thesis by (simp add: typed_addr_def)
qed

lemma typed_addr_encodes: "typed_addr a \<Longrightarrow> Encode 259 a = Ok (Addr_bytes a)"
  by (auto simp: typed_addr_def Encode_def Addr_bytes_length Addr_Length_def Let_def checkType_def)

lemma read_message_typed:
  assumes "read_message r = (Ok (c, a), r')"
  shows "typed_addr a"
proof -
  obtain b n r1 where "read_rest b n r1 = (Ok (c, a), r')"
    using assms by (auto simp: read_message_def rbind_Ok split: if_splits)
  then obtain bs where "Addr_Decode bs = Ok a"
    by (auto simp: read_rest_def rbind_Ok rlift_def split: go.splits)
  then show ?thesis by (auto simp: Addr_Decode_def intro: Addr_ReadFrom_typed [OF surjective_pairing [THEN trans]])
qed

text \<open>
  C37. Decoding delivers well-typed values only. From any bytes, in whatever pieces they arrive, a list of methods that is read has
  between 1 and 255 entries, credentials have the right version and at most 255 bytes each, and their encodings are the bytes
  that were consumed; the address of a request, a reply or a datagram header is present, of one of the three types, and short enough
  that writing the message back neither fails nor panics.
\<close>

theorem decoded_messages_are_typed:
  "(ReadMethods r = (Ok ms, r') \<longrightarrow> valid_methods ms \<and> rstream r = methods_bytes ms @ rstream r') \<and>
   (ReadUserPassRequest r = (Ok q, r') \<longrightarrow>
     valid_userpass q \<and> (\<exists>bs. UserPassRequest_Write q = Ok bs \<and> rstream r = bs @ rstream r')) \<and>
   (ReadUserPassResponse r = (Ok p, r') \<longrightarrow> valid_response p \<and> rstream r = UserPassResponse_Write p @ rstream r') \<and>
   (ReadRequest r = (Ok req, r') \<longrightarrow> (\<exists>a bs. rq_Addr req = Some a \<and> typed_addr a \<and> Request_Write req = Ok bs)) \<and>
   (ReadReply r = (Ok rep, r') \<longrightarrow> (\<exists>a bs. rp_Addr rep = Some a \<and> typed_addr a \<and> Reply_Write rep = Ok bs)) \<and>
   (UDPHeader_ReadFrom r = (Ok h, r') \<longrightarrow> (\<exists>a bs. uh_Addr h = Some a \<and> typed_addr a \<and> UDPHeader_WriteTo h = Ok bs))"
proof (intro conjI impI)
  assume m: "ReadMethods r = (Ok ms, r')"
  show "valid_methods ms" "rstream r = methods_bytes ms @ rstream r'" using ReadMethods_typed [OF m] by simp_all
next
  assume "ReadUserPassRequest r = (Ok q, r')"
  from ReadUserPassRequest_typed [OF this]
  show "valid_userpass q" "\<exists>bs. UserPassRequest_Write q = Ok bs \<and> rstream r = bs @ rstream r'"
    by (simp_all add: UserPassRequest_Write_def Let_def valid_userpass_def)
next
  assume p: "ReadUserPassResponse r = (Ok p, r')"
  then have "rs_Version p = UserPassVer" by (auto simp: ReadUserPassResponse_def rbind_Ok split: if_splits)
  with ReadUserPassResponse_Ok [OF p] show "valid_response p" "rstream r = UserPassResponse_Write p @ rstream r'"
    by (simp_all add: valid_response_def UserPassResponse_Write_def)
next
  assume "ReadRequest r = (Ok req, r')"
  then obtain c a where "read_message r = (Ok (c, a), r')" "req = \<lparr>Cmd = c, rq_Addr = Some a\<rparr>" by (auto simp: ReadRequest_def rbind_Ok)
  with read_message_typed [OF this(1)] show "\<exists>a bs. rq_Addr req = Some a \<and> typed_addr a \<and> Request_Write req = Ok bs"
    by (simp add: Request_Write_def typed_addr_encodes)
next
  assume "ReadReply r = (Ok rep, r')"
  then obtain c a where "read_message r = (Ok (c, a), r')" "rep = \<lparr>Rep = c, rp_Addr = Some a\<rparr>" by (auto simp: ReadReply_def rbind_Ok)
  with read_message_typed [OF this(1)] show "\<exists>a bs. rp_Addr rep = Some a \<and> typed_addr a \<and> Reply_Write rep = Ok bs"
    by (simp add: Reply_Write_def typed_addr_encodes)
next
  assume "UDPHeader_ReadFrom r = (Ok h, r')"
  then obtain a r1 where "Addr_ReadFrom r1 = (Ok a, r')" "uh_Addr h = Some a" by (auto simp: UDPHeader_ReadFrom_def rbind_Ok)
  with Addr_ReadFrom_typed [OF this(1)] show "\<exists>a bs. uh_Addr h = Some a \<and> typed_addr a \<and> UDPHeader_WriteTo h = Ok bs"
    by (simp add: UDPHeader_WriteTo_def Addr_WriteTo_def typed_addr_encodes)
qed

section \<open>A concrete session\<close>

definition ex_user :: userinfo where
  "ex_user = (''app'', Some ''pw'')"

definition ex_credentials :: "byte list" where
  "ex_credentials = [1, 3, 97, 112, 112, 2, 112, 119]"

text \<open>The client offers two methods, sends its credentials and asks for \<^verbatim>\<open>127.0.0.1:80\<close>.\<close>

definition ex_server_conn :: net_conn where
  "ex_server_conn = \<lparr>nc_in = bytes_reader ([5, 2, 0, 2] @ ex_credentials @ [5, 1, 0, 1, 127, 0, 0, 1, 0, 80]), nc_out = [], nc_writes = []\<rparr>"

definition ex_client_conn :: net_conn where
  "ex_client_conn = \<lparr>nc_in = bytes_reader [5, 2, 1, 0], nc_out = [], nc_writes = []\<rparr>"

definition ex_auth :: "string \<Rightarrow> string \<Rightarrow> string \<times> bool" where
  "ex_auth = Authenticate (Some ''10.0.0.7:4000'')"

lemma ex_credentials_bytes: "UserPassRequest_bytes (credentials ex_user) = ex_credentials" "methods_bytes [0, 2] = [5, 2, 0, 2]"
  by code_simp+

lemma ex_server_run:
  "fst (server_Handle (Some (serverSelector [ex_user] [])) ex_server_conn) = Ok (DoConnect ''127.0.0.1:80'')"
  by code_simp

lemma ex_gost_run:
  "fst (gost_Handle True (Some (gostSelector (Some ex_auth) (\<lambda>c. c) False [])) ex_server_conn) = Ok (DoConnect ''127.0.0.1:80'', ''10.0.0.7|app'')"
  by code_simp

theorem socks_auth_is_mandatory_witness:
  "(\<exists>ms q rest. valid_methods ms \<and> valid_userpass q \<and> list_ex (user_matches q) [ex_user] \<and>
      rstream (nc_in ex_server_conn) = methods_bytes ms @ UserPassRequest_bytes q @ rest) \<and>
   (\<exists>ms q (c1 :: net_conn) rest. valid_methods ms \<and> valid_userpass q \<and> ex_auth (Username q) (Password q) = (''10.0.0.7|app'', True) \<and>
      rstream (nc_in ex_server_conn) = methods_bytes ms @ rstream (nc_in c1) \<and> rstream (nc_in c1) = UserPassRequest_bytes q @ rest)"
proof -
  obtain k l where run: "server_Handle (Some (serverSelector [ex_user] [])) ex_server_conn = (Ok (DoConnect ''127.0.0.1:80''), k)"
    "gost_Handle True (Some (gostSelector (Some ex_auth) (\<lambda>c. c) False [])) ex_server_conn = (Ok (DoConnect ''127.0.0.1:80'', ''10.0.0.7|app''), l)"
    using ex_server_run ex_gost_run by (metis prod.collapse)
  have chan: "gost_chan (\<lambda>c. c) m c = c" for m c by (simp add: gost_chan_def)
  show ?thesis
    using socks_auth_is_mandatory [THEN conjunct1, rule_format, OF run(1)]
      socks_auth_is_mandatory [THEN conjunct2, THEN conjunct1, rule_format, OF run(2)] unfolding chan by (rule conjI)
qed



theorem default_selector_refuses_everyone_witness:
  "fst (server_Handle (Some (serverSelector [] [])) ex_server_conn) = Fail ErrBadFormat \<and>
   nc_out (cn_c (snd (server_Handle (Some (serverSelector [] [])) ex_server_conn))) = [5, 0]"
proof -
  have "valid_methods [0, 2] \<and> nc_writes ex_server_conn = [] \<and>
      rstream (nc_in ex_server_conn) = methods_bytes [0, 2] @ (ex_credentials @ [5, 1, 0, 1, 127, 0, 0, 1, 0, 80])"
    by code_simp
  moreover have "[Ver5, MethodNoAuth] = [5, 0]" "nc_out ex_server_conn = []" by code_simp+
  ultimately show ?thesis using default_selector_refuses_everyone [THEN conjunct2, THEN conjunct1, rule_format] by (metis append_Nil)
qed

theorem decoded_messages_are_typed_witness:
  "valid_methods [0, 2] \<and> (\<exists>bs. UserPassRequest_Write (credentials ex_user) = Ok bs \<and> ex_credentials = bs)"
proof -
  have "fst (ReadMethods (bytes_reader [5, 2, 0, 2])) = Ok [0, 2]" by code_simp
  then have "valid_methods [0, 2]" using decoded_messages_are_typed [of "bytes_reader [5, 2, 0, 2]" "[0, 2]"] by (metis prod.collapse)
  moreover have "ReadUserPassRequest (bytes_reader ex_credentials) = (Ok (credentials ex_user), snd (ReadUserPassRequest (bytes_reader ex_credentials)))"
    "rstream (snd (ReadUserPassRequest (bytes_reader ex_credentials))) = []" by code_simp+
  ultimately show ?thesis using decoded_messages_are_typed [of "bytes_reader ex_credentials" _ _ "credentials ex_user"] by fastforce
qed

end
