(* ===== verification/EdgeScenarios.thy ===== *)
theory EdgeScenarios
  imports WsFrame EndpointRegistry Resolver Settings ConnLimiter Socks5Conn
begin

text \<open>
  Small concrete inputs for the theorems on the wire formats, the registry of endpoints, the resolver, the settings, the
  access lists and the connection limiter: each shows that the hypotheses of a theorem can hold and what it says there.
\<close>

section \<open>WebSocket frames\<close>

definition ex_frame :: FrameHeader where
  "ex_frame = \<lparr>Fin = True, Rsv1 = False, Rsv2 = False, Rsv3 = False, OpCode = 1, PayloadLength = 3, Masked = True, MaskKey = 0x01020304\<rparr>"

lemma ex_frame_valid: "valid_frame_header ex_frame"
  by (simp add: ex_frame_def valid_frame_header_def maxInt_def)

theorem frame_header_roundtrip_witness:
  "(\<exists>r'. read_many read_header 2 (bytes_reader (FrameHeader_WriteTo ex_frame @ FrameHeader_WriteTo ex_frame)) = (Ok [ex_frame, ex_frame], r') \<and>
     rstream r' = []) \<and>
   (\<exists>r'. FrameHeader_ReadFrom zero_header (bytes_reader (FrameHeader_WriteTo ex_frame)) = (Ok (ex_frame, 6), r'))"
proof -
  have "int (length (FrameHeader_WriteTo ex_frame)) - (if PayloadLength ex_frame > 125 then 2 else 0) = 6" by code_simp
  with frame_header_roundtrip [of "[ex_frame, ex_frame]" "bytes_reader (FrameHeader_WriteTo ex_frame @ FrameHeader_WriteTo ex_frame)" "[]"] ex_frame_valid
  show ?thesis by (simp add: numeral_2_eq_2)
qed

definition ex_hooks :: sniffer_hooks where
  "ex_hooks = \<lparr>sn_RecorderOptions = None, sn_OnHTTPRoundTrip = False, sn_HTTPRoundTripHook = True, sn_WebSocketFrameHook = True\<rparr>"

definition ex_wire :: "byte list" where
  "ex_wire = FrameHeader_WriteTo ex_frame @ unmask (MaskKey ex_frame) [104, 105, 33]"


section \<open>Endpoints\<close>

definition no_rows :: EndpointTable where
  "no_rows = \<lparr>er_rows = [], er_seq = 0\<rparr>"

lemma no_rows_ok: "table_ok no_rows"
  by (simp add: no_rows_def table_ok_def)

theorem endpoint_registry_consistent_witness:
  "reg_ok (foldl reg_step (NewEndpointRegistry no_rows) [DeleteReq ''1'', DeleteReq ''x''])"
  by (rule endpoint_registry_consistent [OF no_rows_ok])

theorem endpoint_routing_is_complete_witness:
  "Registry_Match (NewEndpointRegistry no_rows) ''https://api.openai.com:443/v1/chat/completions?a=1'' ''POST'' ''api.openai.com'' = ''openai-chat''"
proof -
  let ?reg = "NewEndpointRegistry no_rows"
  let ?r = "(builtin ''api.openai.com'' ''/v1/chat/completions'' ''POST'' ''openai-chat'')\<lparr>er_ID := 5\<rparr>"
  have reg: "reg_ok ?reg" by (rule NewEndpointRegistry_ok [OF no_rows_ok])
  have url: "url_ok ''https'' ''api.openai.com'' '':443'' ''/v1/chat/completions'' ''?a=1''" by (simp add: url_ok_def)
  have "filter (\<lambda>r. er_Enabled r \<and> (er_Method r = ''*'' \<or> er_Method r = ''POST'') \<and>
      star_match (HostPattern r) ''api.openai.com'' \<and> star_match (PathPattern r) ''/v1/chat/completions'') (er_rows (reg_table ?reg)) = [?r]"
    by code_simp
  from arg_cong [where f = set, OF this] have hits: "{r \<in> set (er_rows (reg_table ?reg)). er_Enabled r \<and> (er_Method r = ''*'' \<or> er_Method r = ''POST'') \<and>
      star_match (HostPattern r) ''api.openai.com'' \<and> star_match (PathPattern r) ''/v1/chat/completions''} = {?r}" by simp
  have "''https://api.openai.com:443/v1/chat/completions?a=1'' = ''https'' @ ''://'' @ ''api.openai.com'' @ '':443'' @ ''/v1/chat/completions'' @ ''?a=1''"
    by simp
  from endpoint_routing_is_complete [OF reg url this, of "''POST''"] show ?thesis unfolding hits by (simp add: builtin_def)
qed

section \<open>Names\<close>

definition ex_address :: ip where
  "ex_address = [10, 0, 0, 7]"

definition ex_dns :: dns_world where
  "ex_dns = \<lparr>exchange = (\<lambda>_ _ t. if t = TypeA then Some [\<lparr>rr_ttl = 3, rr_data = RR_other\<rparr>, \<lparr>rr_ttl = 60, rr_data = RR_A ex_address\<rparr>] else None),
     osLookup = (\<lambda>_ _. Fail EOF)\<rparr>"

definition ex_resolver :: Resolver where
  "ex_resolver = NewResolver (NewDNSCache 0 None) ''10.0.0.53:53''"

definition ex_call :: resolve_call where
  "ex_call = \<lparr>rc_world = ex_dns, rc_now = 100, rc_done = 101, rc_network = ''ip4'', rc_host = ''db.example.com''\<rparr>"

lemma ex_lookup: "resolver_lookup ex_dns ex_resolver ''ip4'' ''db.example.com'' = Ok ([ex_address], 60)"
  by (simp add: resolver_lookup_def ex_resolver_def NewResolver_def rawDNSLookup_def answers_def dnsQTypes_def ex_dns_def add_record_def
      clamp_ttl_def minForwardCacheTTL_def maxForwardCacheTTL_def)

lemma ex_resolver_empty: "fwdMap ex_resolver k = None"
  by (simp add: ex_resolver_def NewResolver_def)

theorem resolver_serves_fresh_addresses_witness:
  "Resolve ex_dns 160 161 (do_resolve ex_resolver ex_call) ''ip4'' ''db.example.com'' = (do_resolve ex_resolver ex_call, Ok [ex_address], []) \<and>
   rawDNSLookup ex_dns [] [] ''ip4'' = Ok ([ex_address], clamp_ttl 60)"
proof -
  let ?e = "\<lparr>fc_ips = [ex_address], fc_expiry = 161\<rparr>"
  have "ParseIP ''db.example.com'' = None" by code_simp
  then have e: "fwdMap (foldl do_resolve (NewResolver (NewDNSCache 0 None) ''10.0.0.53:53'') [ex_call]) (fwd_key ''ip4'' ''db.example.com'') = Some ?e"
    unfolding ex_resolver_def [symmetric]
    by (simp add: do_resolve_def ex_call_def Resolve_def Let_def ex_lookup RegisterIPs_def ex_resolver_empty)
  have "answers ex_dns [] [] ''ip4'' = [\<lparr>rr_ttl = 3, rr_data = RR_other\<rparr>] @ \<lparr>rr_ttl = 60, rr_data = RR_A ex_address\<rparr> # []"
    by (simp add: answers_def dnsQTypes_def ex_dns_def)
  from resolver_serves_fresh_addresses [OF e _ this, where now = 160 and now' = 161] show ?thesis
    unfolding ex_resolver_def [symmetric] by (simp add: is_address_def answers_def dnsQTypes_def ex_dns_def address_of_def)
qed

theorem resolved_addresses_are_named_witness:
  "GetCached 200 (rv_cache (fst (Resolve ex_dns 100 101 ex_resolver ''ip4'' ''db.example.com''))) (IP_String ex_address) = ''db.example.com''"
proof -
  let ?R = "Resolve ex_dns 100 101 ex_resolver ''ip4'' ''db.example.com''"
  let ?c = "\<lparr>dc_cache = NewDNSCache 0 None, dc_query = Some [1]\<rparr>"
  have n: "fwdMap ex_resolver (fwd_key ''ip4'' ''db.example.com'') = None" by (rule ex_resolver_empty)
  have p: "ParseIP ''db.example.com'' = None" by code_simp
  have "fst (snd ?R) = Ok [ex_address]"
    using n p by (simp add: Resolve_def Let_def ex_lookup RegisterIPs_def)
  then have R: "?R = (fst ?R, Ok [ex_address], snd (snd ?R))" by (metis prod.collapse)
  have t: "ttl (rv_cache ex_resolver) = 3600" "ttl (dc_cache ?c) = 3600"
    by (simp_all add: ex_resolver_def NewResolver_def NewDNSCache_def Let_def defaultDNSCacheTTL_def)
  from resolved_addresses_are_named [OF R n p, of ex_address 200 "\<lambda>_. Some ([''db.example.com.''], [\<lparr>rr_ttl = 1, rr_data = RR_A ex_address\<rparr>])"
      "[1]" "''db.example.com.''" "[]" "[\<lparr>rr_ttl = 1, rr_data = RR_A ex_address\<rparr>]" "\<lparr>rr_ttl = 1, rr_data = RR_A ex_address\<rparr>" ex_address ?c]
  show ?thesis using t by (simp add: address_of_def trim_dot_def)
qed

section \<open>Settings\<close>

theorem settings_shown_are_applied_witness:
  "isSensitive (sm_redactor (snd (fst (Update (\<lambda>_. []) write_file Missing (NewSettingsManager True)
     (empty_settings\<lparr>u_RedactedHeaders := Some [''x-secret'']\<rparr>))))) ''X-Secret''"
proof -
  let ?p = "empty_settings\<lparr>u_RedactedHeaders := Some [''x-secret'']\<rparr>"
  let ?st = "fst (Update (\<lambda>_. []) write_file Missing (NewSettingsManager True) ?p)"
  have "settings_step\<^sup>*\<^sup>* (Missing, NewSettingsManager True) (fst ?st, snd ?st)"
    using settings_step.update [of Missing "NewSettingsManager True"] by (simp add: r_into_rtranclp)
  moreover have "''x-secret'' \<in> set (rs_RedactedHeaders (resolve (snd ?st)))"
    by (simp add: Update_state updated_def overlay_def NewSettingsManager_def empty_settings_def resolve_def)
  moreover have "matchPattern (ToLower (TrimSpace ''x-secret'')) (ToLower ''X-Secret'')" by code_simp
  ultimately show ?thesis using settings_shown_are_applied by blast
qed

theorem settings_survive_restart_witness:
  "\<exists>m'. Load (\<lambda>_ _. (empty_settings\<lparr>u_RedactedHeaders := Some [''x-secret'']\<rparr>, None)) (Contents [1]) (NewSettingsManager True) = (m', None) \<and>
     rs_RedactedHeaders (resolve m') = DefaultRedactedHeaders @ [''x-secret'']"
proof -
  let ?p = "empty_settings\<lparr>u_RedactedHeaders := Some [''x-secret'']\<rparr>"
  let ?m = "updated (NewSettingsManager True) ?p"
  have u: "sm_user ?m = ?p" by (simp add: updated_def overlay_def NewSettingsManager_def empty_settings_def)
  then have j: "json_ok (\<lambda>_. [1]) (\<lambda>_ _. (?p, None)) (sm_user ?m)" by (simp add: json_ok_def stored_def)
  have "foldl (\<lambda>(f, m) p. fst (Update (\<lambda>_. [1]) write_file f m p)) (Missing, NewSettingsManager True) [?p] = (Contents [1], ?m)"
    using u by (simp add: Update_spec save_def write_file_def empty_settings_def)
  from settings_survive_restart [OF j this] u show ?thesis by (auto simp: resolve_def)
qed

section \<open>Access lists\<close>

definition any_glob :: globber where
  "any_glob p = (if p = ''*'' then Some (\<lambda>_. True) else None)"

definition all_nets :: "ipnet list \<Rightarrow> ip \<Rightarrow> bool" where
  "all_nets ns a \<longleftrightarrow> list_ex (\<lambda>n. IPNet_Contains n a) ns"

theorem bypass_list_decides_by_pattern_witness:
  "\<exists>p. bypass_reload any_glob [] (NewBypass False [''.example.com:80-90'', ''10.0.0.0/8'']) = Ok p \<and>
     localBypass_Contains all_nets p (target_addr ''api.example.com'' 85)"
proof -
  have k: "classify any_glob ''.example.com:80-90'' = KAddr" by code_simp
  have k': "\<exists>n. classify any_glob ''10.0.0.0/8'' = KCidr n"
  proof -
    have "ParseCIDR ''10.0.0.0/8'' \<noteq> None" by code_simp
    then show ?thesis by (auto simp: classify_def)
  qed
  obtain p where p: "bypass_reload any_glob [] (NewBypass False [''.example.com:80-90'', ''10.0.0.0/8'']) = Ok p"
    using k k' by (auto simp: bypass_reload_def NewBypass_def Let_def)
  have trie: "trie_ok all_nets" by (simp add: trie_ok_def all_nets_def list_ex_iff)
  have h: "simple_host ''api.example.com''" by code_simp
  have d: "distinct (map key_of (filter (\<lambda>x. classify any_glob x = KAddr) ([''.example.com:80-90'', ''10.0.0.0/8''] @ [])))"
    using k k' by auto
  have "covers (key_of ''.example.com:80-90'') ''api.example.com''" "range_ok (range_of ''.example.com:80-90'') 85"
  proof -
    have "key_of ''.example.com:80-90'' = ''.example.com''" by code_simp
    moreover have "''api.example.com'' = ''api'' @ CHR ''.'' # ''example.com''" by simp
    ultimately show "covers (key_of ''.example.com:80-90'') ''api.example.com''" unfolding covers_def by blast
    show "range_ok (range_of ''.example.com:80-90'') 85" by code_simp
  qed
  then have "pattern_matches any_glob ''api.example.com'' 85 ''.example.com:80-90''" by (simp add: pattern_matches_def k)
  with bypass_list_decides_by_pattern [OF p trie h, of 85 "[]"] d p show ?thesis by (auto simp: maxInt_def)
qed

section \<open>Connection limits\<close>

theorem conn_limits_are_kept_witness:
  "int (length (filter is_open (clients (foldl (once_step (\<lambda>_ _. [])) limiter_init
     [Reload [''$ 1''], Accept ''10.0.0.1:40001'', Run 0, Accept ''10.0.0.2:40002'', Run 1, Run 1])))) \<le> 1"
proof -
  let ?es = "[Accept ''10.0.0.1:40001'', Run 0, Accept ''10.0.0.2:40002'', Run 1, Run 1]"
  have l: "last_limit [''$ 1''] GlobalLimitKey = Some 1" by code_simp
  have "list_all no_reload ?es" by (simp add: no_reload_def)
  from conn_limits_are_kept [of limiter_init "\<lambda>_ _. []" "[]", OF _ this refl, of "[''$ 1'']"] l
  show ?thesis by (simp add: limiter_init_def)
qed

end
