(* ===== verification/Clients.thy ===== *)
theory Clients
  imports Middleware RuleEngine
begin

text \<open>
  How greyproxy recognises the program behind an LLM request: the data the dissectors extract (\<^verbatim>\<open>dissector/dissector.go\<close>), the adapters
  of the known clients (\<^verbatim>\<open>client_adapter.go\<close> and \<^verbatim>\<open>client_*.go\<close>), what each calls scaffolding (\<^verbatim>\<open>scaffolding.go\<close>), and how
  it names sessions (\<^verbatim>\<open>session_strategy.go\<close>) and subagents (\<^verbatim>\<open>subagent_strategy.go\<close>). An interface with a fixed set of
  implementations is a datatype, and each of its methods a function by cases. Confidences are hundredths. \<^verbatim>\<open>sort.Slice\<close>, \<^verbatim>\<open>time.Parse\<close> and
  \<^verbatim>\<open>sha256.Sum256\<close> are arguments; a time is a number of nanoseconds.
\<close>

section \<open>Extracted data\<close>

record ContentBlock =
  cb_Type :: string
  cb_Text :: string
  cb_Name :: string
  cb_ID :: string
  cb_Input :: string
  cb_ToolSummary :: string
  cb_ToolUseID :: string
  cb_Content :: string
  cb_IsError :: bool
  cb_Thinking :: string

record Message =
  Role :: string
  msg_Content :: "ContentBlock list"
  RawContent :: string

record SystemBlock =
  sb_Type :: string
  sb_Text :: string

record Tool =
  tool_Name :: string
  tool_Description :: string

record ToolCall =
  tc_Tool :: string
  tc_InputPreview :: string
  tc_ToolSummary :: string
  tc_ToolUseID :: string
  tc_ResultPreview :: string
  tc_IsError :: bool
  tc_LinkedConversationID :: string

record SSEResponseData =
  sse_Text :: string
  sse_ToolCalls :: "ToolCall list"
  sse_Thinking :: string

record ExtractionResult =
  xr_Provider :: string
  xr_SessionID :: string
  xr_Model :: string
  xr_Messages :: "Message list"
  xr_SystemBlocks :: "SystemBlock list"
  xr_Tools :: "Tool list"
  xr_SSEResponse :: "SSEResponseData option"
  xr_MessageCount :: int
  xr_ClientHint :: string

definition SystemPromptLength :: "SystemBlock list \<Rightarrow> nat" where
  "SystemPromptLength blocks = sum_list (map (length \<circ> sb_Text) blocks)"

text \<open>A transaction of the archive with what was extracted from it; the parsed body, which nothing reads, is left out.\<close>

record transactionEntry =
  txnID :: int
  te_timestamp :: string
  te_containerName :: string
  te_url :: string
  te_sessionID :: string
  te_model :: string
  te_msgCount :: int
  te_result :: "ExtractionResult option"
  te_durationMs :: int
  te_requestHeaders :: "http_header option"

section \<open>Adapters\<close>

datatype ClientAdapter = ClaudeCode | OpenCode | Aider | Codex | GeminiCLI | Generic

fun client_Name :: "ClientAdapter \<Rightarrow> string" where
  "client_Name ClaudeCode = ''claude-code''"
| "client_Name OpenCode = ''opencode''"
| "client_Name Aider = ''aider''"
| "client_Name Codex = ''codex''"
| "client_Name GeminiCLI = ''gemini-cli''"
| "client_Name Generic = ''generic''"

text \<open>The registry in the order in which the files of the package are initialised.\<close>

definition clientAdapters :: "ClientAdapter list" where
  "clientAdapters = [ClaudeCode, OpenCode, Aider, Codex, GeminiCLI]"

definition has_tool :: "ExtractionResult \<Rightarrow> string \<Rightarrow> bool" where
  "has_tool r name \<longleftrightarrow> name \<in> tool_Name ` set (xr_Tools r)"

definition claude_confidence :: "http_header option \<Rightarrow> ExtractionResult option \<Rightarrow> int" where
  "claude_confidence headers result =
     (if (case headers of None \<Rightarrow> False
          | Some h \<Rightarrow> Contains (hdr_Get ''User-Agent'' h) ''claude-cli/'' \<or> Contains (hdr_Get ''User-Agent'' h) ''Claude-Code/'') then 95
      else case result of
        None \<Rightarrow> 0
      | Some r \<Rightarrow>
          if xr_Provider r = ''anthropic'' \<and> xr_SessionID r \<noteq> [] \<and> (has_tool r ''Read'' \<or> has_tool r ''Bash'' \<or> has_tool r ''Agent'')
          then 70 else 0)"

definition opencode_confidence :: "http_header option \<Rightarrow> ExtractionResult option \<Rightarrow> int" where
  "opencode_confidence headers result =
     (let fallback = (case result of
          None \<Rightarrow> 0
        | Some r \<Rightarrow> if has_tool r ''task'' \<and> has_tool r ''question'' \<and> has_tool r ''todowrite'' then 60 else 0)
      in case headers of
           None \<Rightarrow> fallback
         | Some h \<Rightarrow>
             if Contains (hdr_Get ''User-Agent'' h) ''opencode/'' then 95
             else if hdr_Get ''X-Title'' h = ''opencode'' \<or> hdr_Get ''Http-Referer'' h = ''https://opencode.ai/'' then 85
             else fallback)"

definition aider_confidence :: "http_header option \<Rightarrow> ExtractionResult option \<Rightarrow> int" where
  "aider_confidence headers result =
     (let fallback = (case result of
          None \<Rightarrow> 0
        | Some r \<Rightarrow> if list_ex (\<lambda>sb. Contains (sb_Text sb) ''expert software developer'' \<and> Contains (sb_Text sb) ''diligent and tireless'')
                        (xr_SystemBlocks r) then 85 else 0)
      in case headers of
           None \<Rightarrow> fallback
         | Some h \<Rightarrow>
             if hdr_Get ''Http-Referer'' h = ''https://aider.chat'' then 95
             else if hdr_Get ''X-Title'' h = ''Aider'' then 85
             else if Contains (hdr_Get ''User-Agent'' h) ''litellm/'' \<and> hdr_Get ''X-Title'' h = ''Aider'' then 80
             else fallback)"

definition codex_confidence :: "http_header option \<Rightarrow> ExtractionResult option \<Rightarrow> int" where
  "codex_confidence headers result =
     (let hint = (case result of None \<Rightarrow> 0 | Some r \<Rightarrow> if xr_ClientHint r = ''codex'' then 95 else 0)
      in case headers of
           None \<Rightarrow> hint
         | Some h \<Rightarrow>
             if hdr_Get ''Originator'' h = ''codex_exec'' then 98
             else if hdr_Get ''Version'' h \<noteq> [] \<and> (case result of None \<Rightarrow> False | Some r \<Rightarrow> Contains (xr_Model r) ''codex'') then 80
             else hint)"

definition gemini_confidence :: "http_header option \<Rightarrow> int" where
  "gemini_confidence headers =
     (case headers of None \<Rightarrow> 0 | Some h \<Rightarrow> if Contains (hdr_Get ''User-Agent'' h) ''GeminiCLI/'' then 98 else 0)"

fun DetectConfidence :: "ClientAdapter \<Rightarrow> http_header option \<Rightarrow> ExtractionResult option \<Rightarrow> int" where
  "DetectConfidence ClaudeCode h r = claude_confidence h r"
| "DetectConfidence OpenCode h r = opencode_confidence h r"
| "DetectConfidence Aider h r = aider_confidence h r"
| "DetectConfidence Codex h r = codex_confidence h r"
| "DetectConfidence GeminiCLI h r = gemini_confidence h"
| "DetectConfidence Generic h r = 10"

type_synonym 'a sorter = "('a \<Rightarrow> 'a \<Rightarrow> bool) \<Rightarrow> 'a list \<Rightarrow> 'a list"

definition DetectClient :: "(ClientAdapter \<times> int) sorter \<Rightarrow> http_header option \<Rightarrow> ExtractionResult option \<Rightarrow> ClientAdapter" where
  "DetectClient srt headers result =
     (let candidates = filter (\<lambda>(a, sc). sc > 0) (map (\<lambda>a. (a, DetectConfidence a headers result)) clientAdapters)
      in case srt (\<lambda>i j. snd i > snd j) candidates of
           [] \<Rightarrow> Generic
         | (a, sc) # _ \<Rightarrow> if sc \<ge> 70 then a else Generic)"

definition DetectClientFromEntries :: "(ClientAdapter \<times> int) sorter \<Rightarrow> transactionEntry list \<Rightarrow> ClientAdapter" where
  "DetectClientFromEntries srt entries =
     (case find (\<lambda>e. te_requestHeaders e \<noteq> None \<and> te_result e \<noteq> None) entries of
        Some e \<Rightarrow> DetectClient srt (te_requestHeaders e) (te_result e)
      | None \<Rightarrow>
          (case find (\<lambda>e. te_result e \<noteq> None) entries of
             Some e \<Rightarrow> DetectClient srt None (te_result e)
           | None \<Rightarrow> Generic))"

section \<open>Threads\<close>

definition claude_thread :: "ExtractionResult \<Rightarrow> string" where
  "claude_thread r =
     (let sysLen = SystemPromptLength (xr_SystemBlocks r); toolCount = length (xr_Tools r) in
      if sysLen > 10000 then ''main''
      else if sysLen > 1000 then ''subagent''
      else if sysLen > 100 \<and> toolCount \<le> 2 then ''mcp''
      else ''utility'')"

definition opencode_thread :: "ExtractionResult \<Rightarrow> string" where
  "opencode_thread r =
     (if length (xr_Tools r) = 0 then
        (if xr_Model r = ''gpt-5-nano'' \<or> xr_Model r = ''claude-haiku-4-5-20251001'' then ''title-gen'' else ''utility'')
      else if has_tool r ''task'' \<or> has_tool r ''question'' \<or> has_tool r ''todowrite'' then ''main''
      else if length (xr_Tools r) > 0 then ''subagent''
      else ''utility'')"

definition codex_thread :: "ExtractionResult \<Rightarrow> string" where
  "codex_thread r =
     (if xr_SSEResponse r \<noteq> None then ''main''
      else if has_tool r ''spawn_agent'' \<or> has_tool r ''wait_agent'' \<or> has_tool r ''resume_agent'' \<or> has_tool r ''close_agent'' then ''main''
      else if length (xr_Tools r) > 0 then ''subagent''
      else ''utility'')"

definition generic_thread :: "ExtractionResult \<Rightarrow> string" where
  "generic_thread r =
     (let sysLen = SystemPromptLength (xr_SystemBlocks r); toolCount = length (xr_Tools r) in
      if toolCount > 0 \<and> sysLen > 5000 then ''main''
      else if toolCount > 0 then ''subagent''
      else if xr_MessageCount r > 0 then ''main''
      else ''utility'')"

fun ClassifyThread :: "ClientAdapter \<Rightarrow> ExtractionResult \<Rightarrow> string" where
  "ClassifyThread ClaudeCode r = claude_thread r"
| "ClassifyThread OpenCode r = opencode_thread r"
| "ClassifyThread Aider r = ''main''"
| "ClassifyThread Codex r = codex_thread r"
| "ClassifyThread GeminiCLI r = (if Contains (xr_Model r) ''flash-lite'' then ''complexity-scorer'' else ''main'')"
| "ClassifyThread Generic r = generic_thread r"

definition isComplexityScorer :: "transactionEntry \<Rightarrow> bool" where
  "isComplexityScorer e \<longleftrightarrow> (case te_result e of None \<Rightarrow> False | Some r \<Rightarrow> Contains (xr_Model r) ''flash-lite'')"

fun gemini_pairs :: "transactionEntry list \<Rightarrow> int list list" where
  "gemini_pairs (a # b # es) =
     (if isComplexityScorer a \<and> \<not> isComplexityScorer b then [txnID a, txnID b] # gemini_pairs es
      else [txnID a] # gemini_pairs (b # es))"
| "gemini_pairs [a] = [[txnID a]]"
| "gemini_pairs [] = []"

fun PairTransactions :: "ClientAdapter \<Rightarrow> transactionEntry list \<Rightarrow> int list list" where
  "PairTransactions GeminiCLI es = gemini_pairs es"
| "PairTransactions _ es = []"

section \<open>Scaffolding\<close>

record ScaffoldingConfig =
  ExactTexts :: "string list"
  PrefixPatterns :: "string list"
  XMLTags :: "string list"

text \<open>The text before and after the first occurrence of a pattern.\<close>

fun cut_at :: "string \<Rightarrow> string \<Rightarrow> (string \<times> string) option" where
  "cut_at pat s =
     (if HasPrefix s pat then Some ([], drop (length pat) s)
      else case s of [] \<Rightarrow> None | c # cs \<Rightarrow> map_option (\<lambda>(a, b). (c # a, b)) (cut_at pat cs))"

declare cut_at.simps [simp del]

lemma cut_at_split: "cut_at pat s = Some (a, b) \<Longrightarrow> s = a @ pat @ b"
proof (induction s arbitrary: a)
  case Nil
  then show ?case by (auto simp: cut_at.simps [of pat "[]"] HasPrefix_def split: if_splits)
next
  case (Cons c cs)
  show ?case
  proof (cases "HasPrefix (c # cs) pat")
    case True
    then obtain t where t: "c # cs = pat @ t" by (auto simp: HasPrefix_iff)
    have "a = []" "b = drop (length pat) (c # cs)" using True Cons.prems by (simp_all add: cut_at.simps [of pat "c # cs"])
    with t show ?thesis by simp
  next
    case False
    with Cons show ?thesis by (auto simp: cut_at.simps [of pat "c # cs"])
  qed
qed

text \<open>
  \<^verbatim>\<open>ReplaceAllString\<close> of \<^verbatim>\<open>(?s)<tag>.*?</tag>\<close> by the empty string: each match starts at the leftmost opening tag and ends at the first
  closing tag after it.
\<close>

function remove_tag :: "string \<Rightarrow> string \<Rightarrow> string" where
  "remove_tag tag s =
     (case cut_at (''<'' @ tag @ ''>'') s of
        None \<Rightarrow> s
      | Some (a, r) \<Rightarrow>
          (case cut_at (''</'' @ tag @ ''>'') r of
             None \<Rightarrow> s
           | Some (_, r') \<Rightarrow> a @ remove_tag tag r'))"
  by pat_completeness auto
termination
  by (relation "measure (length \<circ> snd)") (auto dest!: cut_at_split)

declare remove_tag.simps [simp del]

definition IsScaffoldingText :: "ScaffoldingConfig \<Rightarrow> string \<Rightarrow> bool" where
  "IsScaffoldingText cfg text =
     (let stripped = TrimSpace text in
      stripped \<in> set (ExactTexts cfg) \<or> list_ex (HasPrefix stripped) (PrefixPatterns cfg))"

definition CleanText :: "ScaffoldingConfig \<Rightarrow> string \<Rightarrow> string" where
  "CleanText cfg text = TrimSpace (foldl (\<lambda>t tag. remove_tag tag t) text (XMLTags cfg))"

definition real_texts :: "ScaffoldingConfig \<Rightarrow> Message \<Rightarrow> string list" where
  "real_texts cfg msg =
     filter (\<lambda>t. t \<noteq> [] \<and> \<not> IsScaffoldingText cfg t)
       (map (TrimSpace \<circ> cb_Text) (filter (\<lambda>b. cb_Type b = ''text'') (msg_Content msg)))"

definition IsRealUserMessage :: "ScaffoldingConfig \<Rightarrow> Message \<Rightarrow> bool" where
  "IsRealUserMessage cfg msg =
     (if RawContent msg \<noteq> [] then
        \<not> IsScaffoldingText cfg (RawContent msg) \<and> TrimSpace (RawContent msg) \<noteq> []
      else length (real_texts cfg msg) > 0)"

definition GetUserText :: "ScaffoldingConfig \<Rightarrow> Message \<Rightarrow> string option" where
  "GetUserText cfg msg =
     (let kept = (\<lambda>cleaned. cleaned \<noteq> [] \<and> cleaned \<notin> set (ExactTexts cfg)) in
      if RawContent msg \<noteq> [] then
        (let cleaned = CleanText cfg (RawContent msg) in
         if IsScaffoldingText cfg (RawContent msg) \<or> \<not> kept cleaned then None else Some cleaned)
      else
        (let texts = filter kept (map (CleanText cfg) (real_texts cfg msg)) in
         if texts = [] then None else Some (Join [CHR 0x0A] texts)))"

definition claudeCodeScaffolding :: ScaffoldingConfig where
  "claudeCodeScaffolding =
     \<lparr>ExactTexts = [''Tool loaded.'', ''[Request interrupted by user]'', ''clear''],
      PrefixPatterns = [''<available-deferred-tools>'', ''<system-reminder>'', ''<local-command-caveat>''],
      XMLTags = [''local-command-caveat'', ''command-name'', ''command-message'', ''command-args'', ''local-command-stdout'']\<rparr>"

definition emptyScaffolding :: ScaffoldingConfig where
  "emptyScaffolding = \<lparr>ExactTexts = [], PrefixPatterns = [], XMLTags = []\<rparr>"

definition codexScaffolding :: ScaffoldingConfig where
  "codexScaffolding =
     \<lparr>ExactTexts = [], PrefixPatterns = [''<environment_context>'', ''<permissions>''], XMLTags = [''environment_context'', ''permissions'']\<rparr>"

definition geminiCLIScaffolding :: ScaffoldingConfig where
  "geminiCLIScaffolding =
     \<lparr>ExactTexts = [], PrefixPatterns = [''<session_context>''], XMLTags = [''session_context'', ''extension_context'', ''loaded_context'']\<rparr>"

definition ScaffoldingForClient :: "string \<Rightarrow> ScaffoldingConfig" where
  "ScaffoldingForClient name =
     (if name = ''claude-code'' then claudeCodeScaffolding
      else if name = ''opencode'' then emptyScaffolding
      else if name = ''codex'' then codexScaffolding
      else if name = ''gemini-cli'' then geminiCLIScaffolding
      else if name = ''aider'' then emptyScaffolding
      else claudeCodeScaffolding)"

section \<open>Session strategies\<close>

datatype session_strategy = HeaderField | PromptCacheKey | Timing int | MessageGrowth | Composite "session_strategy list"

text \<open>\<^verbatim>\<open>5 * time.Minute\<close> in nanoseconds, the zero \<^verbatim>\<open>time.Time\<close>, and \<^verbatim>\<open>Sub\<close>, which saturates.\<close>

definition five_minutes :: int where
  "five_minutes = 300 * 1000000000"

definition zero_time :: int where
  "zero_time = - 62135596800 * 1000000000"

definition time_Sub :: "int \<Rightarrow> int \<Rightarrow> int" where
  "time_Sub a b = max minInt (min maxInt (a - b))"

definition header_or_empty :: "http_header option \<Rightarrow> string \<Rightarrow> string" where
  "header_or_empty headers k = (case headers of None \<Rightarrow> [] | Some h \<Rightarrow> hdr_Get k h)"

definition extracted_id :: "ExtractionResult option \<Rightarrow> string \<Rightarrow> string" where
  "extracted_id result other =
     (case result of None \<Rightarrow> other | Some r \<Rightarrow> if xr_SessionID r \<noteq> [] then xr_SessionID r else other)"

text \<open>The first identifier in a list that is not empty.\<close>

fun first_nonempty :: "string list \<Rightarrow> string" where
  "first_nonempty [] = []"
| "first_nonempty (s # ss) = (if s \<noteq> [] then s else first_nonempty ss)"

fun ExtractSessionID :: "session_strategy \<Rightarrow> ExtractionResult option \<Rightarrow> http_header option \<Rightarrow> string" where
  "ExtractSessionID HeaderField result headers = extracted_id result (header_or_empty headers ''X-Claude-Code-Session-Id'')"
| "ExtractSessionID PromptCacheKey result headers = extracted_id result (header_or_empty headers ''Session_id'')"
| "ExtractSessionID (Timing gap) result headers = []"
| "ExtractSessionID MessageGrowth result headers = []"
| "ExtractSessionID (Composite ss) result headers = first_nonempty (map (\<lambda>s. ExtractSessionID s result headers) ss)"

text \<open>The assignments of the timing strategy, in the order of the loop.\<close>

fun timing_loop :: "(string \<Rightarrow> int option) \<Rightarrow> int \<Rightarrow> int \<Rightarrow> string \<Rightarrow> transactionEntry list \<Rightarrow> (int \<times> string) list" where
  "timing_loop parse gap prevTs groupKey [] = []"
| "timing_loop parse gap prevTs groupKey (e # es) =
     (case parse (te_timestamp e) of
        None \<Rightarrow> (txnID e, groupKey) # timing_loop parse gap prevTs groupKey es
      | Some ts \<Rightarrow>
          (let key = (if prevTs \<noteq> zero_time \<and> time_Sub ts prevTs > gap then ''timing_'' @ Itoa (txnID e) else groupKey)
           in (txnID e, key) # timing_loop parse gap ts key es))"

definition timing_infer :: "(string \<Rightarrow> int option) \<Rightarrow> int \<Rightarrow> transactionEntry list \<Rightarrow> (int \<times> string) list" where
  "timing_infer parse gap entries =
     (case entries of
        [] \<Rightarrow> []
      | e # _ \<Rightarrow> timing_loop parse (if gap = 0 then five_minutes else gap) zero_time (''timing_'' @ Itoa (txnID e)) entries)"

definition hex_of :: "byte list \<Rightarrow> string" where
  "hex_of bs = concat (map (\<lambda>b. [hex_char (unat b div 16), hex_char (unat b mod 16)]) bs)"

definition systemPromptFingerprint :: "(string \<Rightarrow> byte list) \<Rightarrow> ExtractionResult option \<Rightarrow> string" where
  "systemPromptFingerprint sha result =
     (case result of
        None \<Rightarrow> ''nosystem''
      | Some r \<Rightarrow>
          if xr_SystemBlocks r = [] then ''nosystem''
          else hex_of (take 16 (sha (take 200 (concat (map sb_Text (xr_SystemBlocks r)))))))"

fun growth_loop :: "string \<Rightarrow> nat \<Rightarrow> int \<Rightarrow> transactionEntry list \<Rightarrow> (int \<times> string) list" where
  "growth_loop fp sessionIdx prevCount [] = []"
| "growth_loop fp sessionIdx prevCount (e # es) =
     (let idx = (if prevCount \<ge> 0 \<and> te_msgCount e < prevCount - 1 then sessionIdx + 1 else sessionIdx)
      in (txnID e, ''growth_'' @ take 8 fp @ ''_'' @ show_nat idx) # growth_loop fp idx (te_msgCount e) es)"

text \<open>The groups have no transaction in common, so the order in which the map of fingerprints is visited is of no consequence.\<close>

definition growth_infer :: "(string \<Rightarrow> byte list) \<Rightarrow> transactionEntry list \<Rightarrow> (int \<times> string) list" where
  "growth_infer sha entries =
     (let fp = (\<lambda>e. systemPromptFingerprint sha (te_result e)) in
      concat (map (\<lambda>f. growth_loop f 0 (- 1) (filter (\<lambda>e. fp e = f) entries)) (remdups (map fp entries))))"

fun first_inferred :: "(int \<times> string) list list \<Rightarrow> (int \<times> string) list" where
  "first_inferred [] = []"
| "first_inferred (r # rs) = (if r \<noteq> [] then r else first_inferred rs)"

fun InferSession ::
  "session_strategy \<Rightarrow> (string \<Rightarrow> int option) \<Rightarrow> (string \<Rightarrow> byte list) \<Rightarrow> transactionEntry list \<Rightarrow> (int \<times> string) list" where
  "InferSession HeaderField parse sha entries = []"
| "InferSession PromptCacheKey parse sha entries = []"
| "InferSession (Timing gap) parse sha entries = timing_infer parse gap entries"
| "InferSession MessageGrowth parse sha entries = growth_infer sha entries"
| "InferSession (Composite ss) parse sha entries = first_inferred (map (\<lambda>s. InferSession s parse sha entries) ss)"

text \<open>A later assignment to the same transaction replaces an earlier one.\<close>

definition inferred_session :: "(int \<times> string) list \<Rightarrow> transactionEntry \<Rightarrow> string" where
  "inferred_session assigned e = (case map_of (rev assigned) (txnID e) of None \<Rightarrow> [] | Some sid \<Rightarrow> sid)"

fun SessionStrategy :: "ClientAdapter \<Rightarrow> session_strategy" where
  "SessionStrategy ClaudeCode = HeaderField"
| "SessionStrategy OpenCode = Composite [PromptCacheKey, MessageGrowth]"
| "SessionStrategy Aider = Timing five_minutes"
| "SessionStrategy Codex = PromptCacheKey"
| "SessionStrategy GeminiCLI = Timing five_minutes"
| "SessionStrategy Generic = Timing five_minutes"

section \<open>Subagents\<close>

fun AgentToolNames :: "ClientAdapter \<Rightarrow> string list" where
  "AgentToolNames ClaudeCode = [''Agent'']"
| "AgentToolNames OpenCode = [''task'']"
| "AgentToolNames Codex = [''spawn_agent'', ''wait_agent'']"
| "AgentToolNames GeminiCLI = [''gsd-executor'', ''gsd-planner'', ''gsd-debugger'', ''codebase_investigator'', ''generalist'']"
| "AgentToolNames _ = []"

text \<open>The leftmost match of \<^verbatim>\<open>task_id:\s*(ses_[A-Za-z0-9_]+)\<close>.\<close>

definition re_space :: "char \<Rightarrow> bool" where
  "re_space c \<longleftrightarrow> c \<in> {CHR 0x09, CHR 0x0A, CHR 0x0C, CHR 0x0D, CHR '' ''}"

definition re_word :: "char \<Rightarrow> bool" where
  "re_word c \<longleftrightarrow> (let n = of_char c :: nat in 48 \<le> n \<and> n \<le> 57 \<or> 65 \<le> n \<and> n \<le> 90 \<or> 97 \<le> n \<and> n \<le> 122 \<or> c = CHR ''_'')"

definition task_id_here :: "string \<Rightarrow> string option" where
  "task_id_here s =
     (let t = dropWhile re_space (drop 8 s); w = takeWhile re_word (drop 4 t) in
      if HasPrefix s ''task_id:'' \<and> HasPrefix t ''ses_'' \<and> w \<noteq> [] then Some (''ses_'' @ w) else None)"

fun extractTaskID :: "string \<Rightarrow> string" where
  "extractTaskID [] = []"
| "extractTaskID (c # cs) = (case task_id_here (c # cs) of Some t \<Rightarrow> t | None \<Rightarrow> extractTaskID cs)"

fun LinkSubagentID :: "ClientAdapter \<Rightarrow> string \<Rightarrow> string" where
  "LinkSubagentID OpenCode content = extractTaskID content"
| "LinkSubagentID _ content = []"

definition tool_result_ids :: "Message list \<Rightarrow> string list" where
  "tool_result_ids messages =
     filter (\<lambda>t. t \<noteq> [])
       (map (extractTaskID \<circ> cb_Content)
         (filter (\<lambda>cb. cb_Type cb = ''tool_result'' \<and> cb_Content cb \<noteq> []) (concat (map msg_Content messages))))"

fun ExtractReferencedSessions :: "ClientAdapter \<Rightarrow> Message list \<Rightarrow> string list" where
  "ExtractReferencedSessions OpenCode messages = tool_result_ids messages"
| "ExtractReferencedSessions _ messages = []"

end
