(* ===== verification/Grouping.thy ===== *)
theory Grouping
  imports Clients EndpointRegistry "HOL-Library.AList"
begin

text \<open>
  The grouping of archived transactions into conversations: \<^verbatim>\<open>groupBySession\<close> of \<^verbatim>\<open>conversation_assembler.go\<close> and what it calls. A
  \<^verbatim>\<open>map[string][]transactionEntry\<close> is an association list with distinct keys. The order in which a loop visits a map is
  chosen by \<open>visit\<close>, from a label of the loop and the keys; the loop of \<^verbatim>\<open>remapOpenAISubagents\<close> changes the map it visits, and \<open>walk\<close>
  is the sequence of keys it sees, in which keys that were inserted meanwhile may or may not occur. The lemmas say that, whatever the orders, every
  transaction ends in exactly one conversation or is a call that its client makes on its own behalf.
\<close>

section \<open>Maps of transactions\<close>

type_synonym smap = "(string \<times> transactionEntry list) list"

definition sm_get :: "smap \<Rightarrow> string \<Rightarrow> transactionEntry list" where
  "sm_get m k = (case map_of m k of None \<Rightarrow> [] | Some v \<Rightarrow> v)"

definition sm_append :: "string \<Rightarrow> transactionEntry list \<Rightarrow> smap \<Rightarrow> smap" where
  "sm_append k v m = AList.update k (sm_get m k @ v) m"

definition sm_keys :: "smap \<Rightarrow> string list" where
  "sm_keys m = map fst m"

text \<open>What the program takes from its environment.\<close>

record asm_env =
  sort_entries :: "transactionEntry sorter"
  sort_clients :: "(ClientAdapter \<times> int) sorter"
  parse_time :: "string \<Rightarrow> int option"
  sum256 :: "string \<Rightarrow> byte list"
  visit :: "nat list \<Rightarrow> string list \<Rightarrow> string list"
  walk :: "nat list \<Rightarrow> string list \<Rightarrow> string list"

section \<open>Raw sessions\<close>

definition timeGapThreshold :: int where
  "timeGapThreshold = five_minutes"

definition time_less :: "transactionEntry \<Rightarrow> transactionEntry \<Rightarrow> bool" where
  "time_less a b \<longleftrightarrow> te_timestamp a < te_timestamp b"

definition entry_less :: "transactionEntry \<Rightarrow> transactionEntry \<Rightarrow> bool" where
  "entry_less a b \<longleftrightarrow> (if te_timestamp a = te_timestamp b then txnID a < txnID b else te_timestamp a < te_timestamp b)"

definition explicit_step :: "smap \<times> transactionEntry list \<Rightarrow> transactionEntry \<Rightarrow> smap \<times> transactionEntry list" where
  "explicit_step = (\<lambda>(m, u) t. if te_sessionID t \<noteq> [] then (sm_append (te_sessionID t) [t] m, u) else (m, u @ [t]))"

definition inferred_step :: "(int \<times> string) list \<Rightarrow> smap \<times> transactionEntry list \<Rightarrow> transactionEntry \<Rightarrow> smap \<times> transactionEntry list" where
  "inferred_step assigned = (\<lambda>(m, u) t.
     let sid = inferred_session assigned t in if sid \<noteq> [] then (sm_append sid [t] m, u) else (m, u @ [t]))"

text \<open>Groups of transactions without a gap of more than five minutes; a time that does not parse makes no gap.\<close>

fun time_groups :: "(string \<Rightarrow> int option) \<Rightarrow> transactionEntry list \<Rightarrow> transactionEntry list \<Rightarrow> transactionEntry list list" where
  "time_groups parse current [] = (if current = [] then [] else [current])"
| "time_groups parse current (e # es) =
     (if current = [] then time_groups parse [e] es
      else case (parse (te_timestamp (last current)), parse (te_timestamp e)) of
             (Some prevTs, Some currTs) \<Rightarrow>
               if time_Sub currTs prevTs > timeGapThreshold then current # time_groups parse [e] es
               else time_groups parse (current @ [e]) es
           | _ \<Rightarrow> time_groups parse (current @ [e]) es)"

definition fake_id :: "transactionEntry list \<Rightarrow> string" where
  "fake_id grp = ''heuristic_'' @ Itoa (txnID (hd grp)) @ ''_'' @ Itoa (txnID (last grp))"

text \<open>The session whose time overlaps most with that of a group; no entry of the map is empty.\<close>

definition overlap_step ::
  "(string \<Rightarrow> int option) \<Rightarrow> smap \<Rightarrow> int \<Rightarrow> int \<Rightarrow> string \<times> int \<Rightarrow> string \<Rightarrow> string \<times> int" where
  "overlap_step parse m groupStart groupEnd = (\<lambda>(best, bestOverlap) sid.
     (case sm_get m sid of
        [] \<Rightarrow> (best, bestOverlap)
      | sentries \<Rightarrow>
          (case (parse (te_timestamp (hd sentries)), parse (te_timestamp (last sentries))) of
             (Some sStart, Some sEnd) \<Rightarrow>
               (let overlapStart = max sStart groupStart; overlapEnd = min (sEnd + timeGapThreshold) (groupEnd + timeGapThreshold);
                    overlap = time_Sub overlapEnd overlapStart
                in if overlapStart \<le> overlapEnd \<and> overlap > bestOverlap then (sid, overlap) else (best, bestOverlap))
           | _ \<Rightarrow> (best, bestOverlap))))"

definition best_session :: "asm_env \<Rightarrow> nat \<Rightarrow> smap \<Rightarrow> int \<Rightarrow> int \<Rightarrow> string" where
  "best_session env k m groupStart groupEnd =
     fst (foldl (overlap_step (parse_time env) m groupStart groupEnd) ([], 0) (visit env [0, k] (sm_keys m)))"

definition place_group :: "asm_env \<Rightarrow> smap \<Rightarrow> nat \<times> transactionEntry list \<Rightarrow> smap" where
  "place_group env m = (\<lambda>(k, grp).
     case (parse_time env (te_timestamp (hd grp)), parse_time env (te_timestamp (last grp))) of
       (Some groupStart, Some groupEnd) \<Rightarrow>
         (let sid = best_session env k m groupStart groupEnd in
          if sid \<noteq> [] then AList.update sid (sort_entries env time_less (sm_get m sid @ grp)) m
          else AList.update (fake_id grp) grp m)
     | _ \<Rightarrow> AList.update (fake_id grp) grp m)"

definition place_unassigned :: "asm_env \<Rightarrow> smap \<Rightarrow> transactionEntry list \<Rightarrow> smap" where
  "place_unassigned env m unassigned0 =
     (let unassigned = sort_entries env time_less unassigned0;
          adapter = DetectClientFromEntries (sort_clients env) unassigned;
          assigned = InferSession (SessionStrategy adapter) (parse_time env) (sum256 env) unassigned;
          (m1, still) = foldl (inferred_step assigned) (m, []) unassigned
      in foldl (place_group env) m1 (enumerate 0 (time_groups (parse_time env) [] still)))"

definition raw_sessions :: "asm_env \<Rightarrow> transactionEntry list \<Rightarrow> smap" where
  "raw_sessions env txns =
     (case foldl explicit_step ([], []) txns of
        (m, unassigned) \<Rightarrow> if unassigned = [] then m else place_unassigned env m unassigned)"

section \<open>Threads\<close>

definition own_calls :: "string set" where
  "own_calls = {''utility'', ''mcp'', ''title-gen'', ''complexity-scorer''}"

definition thread_key :: "ClientAdapter \<Rightarrow> transactionEntry \<Rightarrow> string" where
  "thread_key adapter e =
     (case te_result e of
        None \<Rightarrow> ''main''
      | Some r \<Rightarrow>
          (let threadType = ClassifyThread adapter r in
           if threadType = ''main'' then ''main''
           else if threadType = ''subagent'' then ''subagent_'' @ show_nat (SystemPromptLength (xr_SystemBlocks r))
           else if threadType \<in> own_calls then threadType
           else ''main''))"

definition splitSessionIntoThreads :: "ClientAdapter \<Rightarrow> transactionEntry list \<Rightarrow> smap" where
  "splitSessionIntoThreads adapter entries = foldl (\<lambda>m e. sm_append (thread_key adapter e) [e] m) [] entries"

definition prev_count :: "transactionEntry list \<Rightarrow> int" where
  "prev_count current = (case find (\<lambda>e. te_msgCount e \<ge> 0) (rev current) of None \<Rightarrow> 999 | Some e \<Rightarrow> te_msgCount e)"

fun split_loop :: "transactionEntry list \<Rightarrow> transactionEntry list \<Rightarrow> transactionEntry list list" where
  "split_loop current [] = (if current = [] then [] else [current])"
| "split_loop current (e # es) =
     (if current \<noteq> [] \<and> te_msgCount e \<ge> 0 \<and> te_msgCount e < prev_count current - 1
      then current # split_loop [e] es
      else split_loop (current @ [e]) es)"

definition splitSubagentInvocations :: "asm_env \<Rightarrow> transactionEntry list \<Rightarrow> transactionEntry list list" where
  "splitSubagentInvocations env entries = split_loop [] (sort_entries env entry_less entries)"

fun SplitInvocations :: "ClientAdapter \<Rightarrow> asm_env \<Rightarrow> transactionEntry list \<Rightarrow> transactionEntry list list" where
  "SplitInvocations ClaudeCode env entries = splitSubagentInvocations env entries"
| "SplitInvocations _ env entries = (if entries = [] then [] else [entries])"

text \<open>The invocations of a subagent, numbered from one.\<close>

definition numbered :: "string \<Rightarrow> transactionEntry list list \<Rightarrow> smap" where
  "numbered prefix subs = map (\<lambda>(i, sub). (prefix @ show_nat (i + 1), sub)) (enumerate 0 subs)"

definition thread_sessions :: "asm_env \<Rightarrow> ClientAdapter \<Rightarrow> string \<Rightarrow> smap \<Rightarrow> string \<Rightarrow> smap" where
  "thread_sessions env adapter sid threads threadKey =
     (let threadEntries = sm_get threads threadKey in
      if threadEntries = [] \<or> threadKey \<in> own_calls then []
      else if threadKey = ''main'' then [(sid, threadEntries)]
      else numbered (sid @ ''/'' @ threadKey @ ''_'') (SplitInvocations adapter env threadEntries))"

definition session_threads :: "asm_env \<Rightarrow> smap \<Rightarrow> nat \<times> string \<Rightarrow> smap" where
  "session_threads env raw = (\<lambda>(k, sid).
     let entries = sort_entries env entry_less (sm_get raw sid);
         adapter = DetectClientFromEntries (sort_clients env) entries;
         threads = splitSessionIntoThreads adapter entries
     in concat (map (thread_sessions env adapter sid threads) (visit env [2, k] (sm_keys threads))))"

definition split_all :: "asm_env \<Rightarrow> smap \<Rightarrow> smap" where
  "split_all env raw =
     foldl (\<lambda>m (k, v). AList.update k v m) []
       (concat (map (session_threads env raw) (enumerate 0 (visit env [1] (sm_keys raw)))))"

section \<open>Subagents with sessions of their own\<close>

definition task_sids :: "transactionEntry list \<Rightarrow> string list" where
  "task_sids entries = concat (map (\<lambda>e.
     case te_result e of
       None \<Rightarrow> []
     | Some r \<Rightarrow> tool_result_ids (xr_Messages r) @
         (case xr_SSEResponse r of
            None \<Rightarrow> []
          | Some sse \<Rightarrow> filter (\<lambda>t. t \<noteq> [])
              (map (extractTaskID \<circ> tc_ResultPreview) (filter (\<lambda>tc. tc_ResultPreview tc \<noteq> []) (sse_ToolCalls sse))))) entries)"

definition is_main_session :: "smap \<Rightarrow> string \<Rightarrow> bool" where
  "is_main_session sess sid \<longleftrightarrow>
     CHR ''/'' \<notin> set sid \<and>
     list_ex (\<lambda>e. case te_result e of None \<Rightarrow> False | Some r \<Rightarrow> xr_Provider r = ''openai'') (sm_get sess sid) \<and>
     task_sids (sm_get sess sid) \<noteq> []"

definition main_infos :: "asm_env \<Rightarrow> smap \<Rightarrow> (string \<times> string list) list" where
  "main_infos env sess =
     map (\<lambda>sid. (sid, task_sids (sm_get sess sid))) (filter (is_main_session sess) (visit env [3] (sm_keys sess)))"

definition base_sid :: "string \<Rightarrow> string" where
  "base_sid key = takeWhile (\<lambda>c. c \<noteq> CHR ''/'') key"

definition remap_key :: "string \<Rightarrow> string \<Rightarrow> smap \<times> nat \<Rightarrow> string \<Rightarrow> smap \<times> nat" where
  "remap_key sid taskSID = (\<lambda>(sess, subIdx) existingKey.
     if existingKey \<in> fst ` set sess \<and> base_sid existingKey = taskSID
     then (let subIdx = subIdx + 1; newKey = sid @ ''/subagent_'' @ show_nat subIdx
           in (AList.delete existingKey (AList.update newKey (sm_get sess existingKey) sess), subIdx))
     else (sess, subIdx))"

definition remap_task :: "asm_env \<Rightarrow> nat \<Rightarrow> string \<Rightarrow> smap \<times> nat \<Rightarrow> nat \<times> string \<Rightarrow> smap \<times> nat" where
  "remap_task env i sid = (\<lambda>(sess, subIdx) (j, taskSID).
     foldl (remap_key sid taskSID) (sess, subIdx) (walk env [4, i, j] (sm_keys sess)))"

definition remap_main :: "asm_env \<Rightarrow> smap \<Rightarrow> nat \<times> string \<times> string list \<Rightarrow> smap" where
  "remap_main env sess = (\<lambda>(i, sid, taskSIDs). fst (foldl (remap_task env i sid) (sess, 0) (enumerate 0 taskSIDs)))"

definition remapOpenAISubagents :: "asm_env \<Rightarrow> smap \<Rightarrow> smap" where
  "remapOpenAISubagents env sess = foldl (remap_main env) sess (enumerate 0 (main_infos env sess))"

definition groupBySession :: "asm_env \<Rightarrow> transactionEntry list \<Rightarrow> smap" where
  "groupBySession env txns = remapOpenAISubagents env (split_all env (raw_sessions env txns))"

text \<open>Sessions that tool results refer to and that are not known yet.\<close>

definition extractReferencedSubagentSessions :: "asm_env \<Rightarrow> transactionEntry list \<Rightarrow> string list \<Rightarrow> string list" where
  "extractReferencedSubagentSessions env entries known =
     (let strategy = DetectClientFromEntries (sort_clients env) entries in
      remdups (filter (\<lambda>ref. ref \<noteq> [] \<and> ref \<notin> set known) (concat (map (\<lambda>e.
         case te_result e of
           None \<Rightarrow> []
         | Some r \<Rightarrow> ExtractReferencedSessions strategy (xr_Messages r) @
             (case xr_SSEResponse r of
                None \<Rightarrow> []
              | Some sse \<Rightarrow> map (LinkSubagentID strategy \<circ> tc_ResultPreview) (filter (\<lambda>tc. tc_ResultPreview tc \<noteq> []) (sse_ToolCalls sse)))) entries))))"

section \<open>The transactions in a map\<close>

definition held :: "smap \<Rightarrow> transactionEntry multiset" where
  "held m = mset (concat (map snd m))"

definition keys_ok :: "smap \<Rightarrow> bool" where
  "keys_ok m \<longleftrightarrow> distinct (map fst m) \<and> [] \<notin> snd ` set m"

lemma held_simps [simp]: "held [] = {#}" "held (p # m) = mset (snd p) + held m"
  by (simp_all add: held_def)

lemma sm_get_fresh: "k \<notin> fst ` set m \<Longrightarrow> sm_get m k = []"
  by (simp add: sm_get_def map_of_eq_None_iff [THEN iffD2])

lemma sm_get_key: "distinct (map fst m) \<Longrightarrow> (k, v) \<in> set m \<Longrightarrow> sm_get m k = v"
  by (simp add: sm_get_def)

lemma held_update:
  "distinct (map fst m) \<Longrightarrow> held (AList.update k v m) + mset (sm_get m k) = held m + mset v"
proof (induction m)
  case (Cons p m)
  obtain a w where p: "p = (a, w)" by (cases p)
  show ?case
  proof (cases "a = k")
    case True
    then show ?thesis using p by (simp add: sm_get_def)
  next
    case False
    then have "sm_get (p # m) k = sm_get m k" using p by (simp add: sm_get_def)
    moreover have "held (AList.update k v m) + mset (sm_get m k) = held m + mset v" using Cons by simp
    ultimately show ?thesis using False p by (simp add: union_assoc add.left_commute)
  qed
qed (simp add: sm_get_def)

lemma held_fresh: "distinct (map fst m) \<Longrightarrow> k \<notin> fst ` set m \<Longrightarrow> held (AList.update k v m) = held m + mset v"
  using held_update [of m k v] by (simp add: sm_get_fresh)

lemma held_append: "distinct (map fst m) \<Longrightarrow> held (sm_append k v m) = held m + mset v"
  using held_update [of m k "sm_get m k @ v"] by (simp add: sm_append_def add.left_commute)

lemma held_delete: "distinct (map fst m) \<Longrightarrow> held (AList.delete k m) + mset (sm_get m k) = held m"
proof (induction m)
  case (Cons p m)
  obtain a w where p: "p = (a, w)" by (cases p)
  show ?case
  proof (cases "a = k")
    case True
    with Cons.prems p have "k \<notin> fst ` set m" by auto
    then have "AList.delete k m = m" by (simp add: delete_id)
    then show ?thesis using True p by (simp add: sm_get_def)
  next
    case False
    then have "sm_get (p # m) k = sm_get m k" using p by (simp add: sm_get_def)
    then show ?thesis using False p Cons by (simp add: union_assoc)
  qed
qed (simp add: sm_get_def)

lemma keys_update [simp]: "fst ` set (AList.update k v m) = insert k (fst ` set m)"
  by (induction m) auto

lemma values_update: "snd ` set (AList.update k v m) \<subseteq> insert v (snd ` set m)"
  by (induction m) auto

lemma keys_ok_update: "keys_ok m \<Longrightarrow> v \<noteq> [] \<Longrightarrow> keys_ok (AList.update k v m)"
  using values_update [of k v m] by (auto simp: keys_ok_def distinct_update)

lemma keys_ok_append: "keys_ok m \<Longrightarrow> v \<noteq> [] \<Longrightarrow> keys_ok (sm_append k v m)"
  by (simp add: sm_append_def keys_ok_update)

lemma keys_append [simp]: "fst ` set (sm_append k v m) = insert k (fst ` set m)"
  by (simp add: sm_append_def)

lemma keys_ok_delete: "keys_ok m \<Longrightarrow> keys_ok (AList.delete k m)"
  by (auto simp: keys_ok_def distinct_delete) (force simp: AList.delete_eq)

lemma keys_ok_Nil [simp]: "keys_ok []"
  by (simp add: keys_ok_def)

lemma keys_okD: "keys_ok m \<Longrightarrow> distinct (map fst m)" "keys_ok m \<Longrightarrow> k \<in> fst ` set m \<Longrightarrow> sm_get m k \<noteq> []"
  by (auto simp: keys_ok_def sm_get_key) (metis image_eqI snd_conv)

section \<open>The environment\<close>

text \<open>\<^verbatim>\<open>sort.Slice\<close> permutes, and a loop over a map visits every key once.\<close>

locale assembler_env =
  fixes env :: asm_env
  assumes sort_perm: "mset (sort_entries env lt xs) = mset xs"
    and visit_perm: "mset (visit env l ks) = mset ks"
begin

lemma sort_set [simp]: "set (sort_entries env lt xs) = set xs"
  by (metis sort_perm set_mset_mset)

lemma sort_empty [simp]: "sort_entries env lt xs = [] \<longleftrightarrow> xs = []"
  by (metis sort_perm mset_zero_iff)

lemma visit_set [simp]: "set (visit env l ks) = set ks"
  by (metis visit_perm set_mset_mset)

lemma visit_distinct: "distinct ks \<Longrightarrow> distinct (visit env l ks)"
  by (metis visit_perm mset_eq_imp_distinct_iff)

end

section \<open>Raw sessions keep every transaction\<close>

lemma explicit_steps:
  assumes "keys_ok m" "foldl explicit_step (m, u) txns = (m', u')"
  shows "keys_ok m' \<and> held m' + mset u' = held m + mset u + mset txns \<and>
    fst ` set m' \<subseteq> fst ` set m \<union> te_sessionID ` set txns \<and> set u' \<subseteq> set u \<union> set txns"
  using assms
proof (induction txns arbitrary: m u)
  case (Cons t ts)
  show ?case
  proof (cases "te_sessionID t = []")
    case True
    then have "foldl explicit_step (m, u @ [t]) ts = (m', u')" using Cons.prems by (simp add: explicit_step_def)
    from Cons.IH [OF Cons.prems(1) this] show ?thesis by auto
  next
    case False
    then have f: "foldl explicit_step (sm_append (te_sessionID t) [t] m, u) ts = (m', u')" using Cons.prems by (simp add: explicit_step_def)
    from Cons.IH [OF keys_ok_append [OF Cons.prems(1)] f] show ?thesis
      by (auto simp: held_append keys_okD(1) [OF Cons.prems(1)])
  qed
qed auto

lemma inferred_steps:
  assumes "keys_ok m" "foldl (inferred_step as) (m, u) txns = (m', u')"
  shows "keys_ok m' \<and> held m' + mset u' = held m + mset u + mset txns \<and>
    fst ` set m' \<subseteq> fst ` set m \<union> (snd ` set as) \<and> set u' \<subseteq> set u \<union> set txns"
  using assms
proof (induction txns arbitrary: m u)
  case (Cons t ts)
  show ?case
  proof (cases "inferred_session as t = []")
    case True
    then have "foldl (inferred_step as) (m, u @ [t]) ts = (m', u')" using Cons.prems by (simp add: inferred_step_def)
    from Cons.IH [OF Cons.prems(1) this] show ?thesis by auto
  next
    case False
    then have f: "foldl (inferred_step as) (sm_append (inferred_session as t) [t] m, u) ts = (m', u')"
      using Cons.prems by (simp add: inferred_step_def)
    have "inferred_session as t \<in> snd ` set as"
      using False by (force simp: inferred_session_def split: option.splits dest!: map_of_SomeD)
    then have "insert (inferred_session as t) (fst ` set m \<union> snd ` set as) = fst ` set m \<union> snd ` set as" by auto
    with Cons.IH [OF keys_ok_append [OF Cons.prems(1)] f] show ?thesis
      by (simp add: held_append keys_okD(1) [OF Cons.prems(1)]) blast
  qed
qed auto

lemma time_groups_concat: "concat (time_groups parse cur es) = cur @ es" "[] \<notin> set (time_groups parse cur es)"
  by (induction parse cur es rule: time_groups.induct) (auto split: option.splits)

lemma overlap_step_keys:
  "b \<in> insert [] (fst ` set m) \<Longrightarrow> fst (overlap_step parse m gs ge (b, o') sid) \<in> insert [] (fst ` set m)"
  using sm_get_fresh [of sid m] by (auto simp: overlap_step_def Let_def split: list.splits option.splits)

lemma best_session_key: "best_session env k m gs ge \<in> insert [] (fst ` set m)"
proof -
  have "fst (foldl (overlap_step parse m gs ge) p sids) \<in> insert [] (fst ` set m)" if "fst p \<in> insert [] (fst ` set m)" for parse p sids
    using that
  proof (induction sids arbitrary: p)
    case (Cons s ss)
    have "fst (overlap_step parse m gs ge p s) \<in> insert [] (fst ` set m)"
      using overlap_step_keys [of "fst p" m parse gs ge "snd p" s] Cons.prems by simp
    from Cons.IH [OF this] show ?case by simp
  qed simp
  then show ?thesis by (simp add: best_session_def)
qed

context assembler_env
begin

lemma place_group_held:
  assumes "keys_ok m" "g \<noteq> []" "fake_id g \<notin> fst ` set m"
  shows "keys_ok (place_group env m (k, g)) \<and> held (place_group env m (k, g)) = held m + mset g \<and>
    fst ` set (place_group env m (k, g)) \<subseteq> insert (fake_id g) (fst ` set m)"
proof -
  have fake: "keys_ok (AList.update (fake_id g) g m) \<and> held (AList.update (fake_id g) g m) = held m + mset g"
    using assms by (simp add: keys_ok_update held_fresh keys_okD(1))
  have best: "keys_ok (AList.update s (sort_entries env time_less (sm_get m s @ g)) m) \<and>
      held (AList.update s (sort_entries env time_less (sm_get m s @ g)) m) = held m + mset g" for s
    using held_update [OF keys_okD(1) [OF assms(1)], of s "sort_entries env time_less (sm_get m s @ g)"] assms
    by (simp add: keys_ok_update sort_perm add.left_commute)
  have key: "best_session env k m a b \<in> fst ` set m" if "best_session env k m a b \<noteq> []" for a b
    using best_session_key [of env k m a b] that by simp
  show ?thesis using fake best key
    by (auto simp: place_group_def Let_def split: option.splits)
qed

end

section \<open>The shape of keys\<close>

lemma Itoa_set: "set (Itoa i) \<subseteq> {c. is_digit c \<or> c = CHR ''-''}"
  using show_nat_digits by (auto simp: Itoa_def list_all_iff)

lemma Itoa_not_mem [simp]: "CHR ''_'' \<notin> set (Itoa i)" "CHR ''/'' \<notin> set (Itoa i)"
  using Itoa_set [of i] by (auto simp: is_digit_def)

lemma show_nat_not_mem [simp]: "CHR ''_'' \<notin> set (show_nat n)" "CHR ''/'' \<notin> set (show_nat n)"
  using show_nat_digits [of n] by (auto simp: list_all_iff is_digit_def)

declare show_nat_inj [simp] Itoa_inj [simp]

lemma append_sep_inj:
  assumes "c \<notin> set x" "c \<notin> set y" "x @ c # a = y @ c # b"
  shows "x = y \<and> a = b"
proof -
  have "takeWhile (\<lambda>d. d \<noteq> c) (x @ c # a) = x" "takeWhile (\<lambda>d. d \<noteq> c) (y @ c # b) = y"
    using assms(1,2) by (auto simp: takeWhile_append2 takeWhile_tail)
  with assms(3) show ?thesis by auto
qed

lemma append_sep_inj_last:
  assumes "c \<notin> set a" "c \<notin> set b" "x @ c # a = y @ c # b"
  shows "x = y \<and> a = b"
proof -
  have "rev a @ c # rev x = rev b @ c # rev y" using arg_cong [OF assms(3), of rev] by simp
  from append_sep_inj [OF _ _ this] assms(1,2) show ?thesis by simp
qed

lemma fake_id_inj: "fake_id g = fake_id h \<Longrightarrow> txnID (hd g) = txnID (hd h)"
  using append_sep_inj [of "CHR ''_''" "Itoa (txnID (hd g))" "Itoa (txnID (hd h))"] by (auto simp: fake_id_def)

text \<open>A key that the heuristics did not make, and one that has no slash.\<close>

definition plain_key :: "string \<Rightarrow> bool" where
  "plain_key s \<longleftrightarrow> CHR ''/'' \<notin> set s \<and> \<not> HasPrefix s ''heuristic_''"

lemma fake_id_not_plain: "\<not> plain_key (fake_id g)" "CHR ''/'' \<notin> set (fake_id g)"
  by (auto simp: plain_key_def fake_id_def HasPrefix_def)

lemma timing_keys: "plain_key key \<Longrightarrow> \<forall>k \<in> snd ` set (timing_loop parse gap prev key es). plain_key k"
proof (induction parse gap prev key es rule: timing_loop.induct)
  case (2 parse gap prevTs groupKey e es)
  have "plain_key (''timing_'' @ Itoa (txnID e))" by (simp add: plain_key_def HasPrefix_def)
  with 2 show ?case by (auto simp: Let_def split: option.splits if_splits)
qed simp

lemma hex_char_plain: "n < 16 \<Longrightarrow> hex_char n \<noteq> CHR ''/''"
  by (auto simp: hex_char_def dest: arg_cong [of _ _ "of_char :: char \<Rightarrow> nat"] simp: take_bit_nat_eq_self)

lemma hex_of_plain: "CHR ''/'' \<notin> set (hex_of bs)"
proof -
  have "unat b < 2 ^ LENGTH(8)" for b :: byte by (rule unsigned_less)
  then have "hex_char (unat b div 16) \<noteq> CHR ''/'' \<and> hex_char (unat b mod 16) \<noteq> CHR ''/''" for b :: byte
    using hex_char_plain by (simp add: less_mult_imp_div_less)
  then show ?thesis by (simp add: hex_of_def image_iff not_sym)
qed

lemma growth_keys: "CHR ''/'' \<notin> set fp \<Longrightarrow> \<forall>k \<in> snd ` set (growth_loop fp i prev es). plain_key k"
proof (induction fp i prev es rule: growth_loop.induct)
  case (2 fp i prev e es)
  have "plain_key (''growth_'' @ take 8 fp @ ''_'' @ show_nat n)" for n
    using 2(2) by (auto simp: plain_key_def HasPrefix_def dest: in_set_takeD)
  with 2 show ?case by (auto simp: Let_def)
qed simp

lemma infer_keys: "\<forall>k \<in> snd ` set (InferSession s parse sha es). plain_key k"
proof (induction s)
  case (Timing gap)
  show ?case
  proof (cases es)
    case (Cons e xs)
    have "\<forall>k \<in> snd ` set (timing_loop parse (if gap = 0 then five_minutes else gap) zero_time (''timing_'' @ Itoa (txnID e)) es). plain_key k"
      by (rule timing_keys) (simp add: plain_key_def HasPrefix_def)
    then show ?thesis using Cons by (simp only: InferSession.simps timing_infer_def list.case)
  qed (simp add: timing_infer_def)
next
  case MessageGrowth
  have "CHR ''/'' \<notin> set (systemPromptFingerprint sha r)" for r
    using hex_of_plain by (auto simp: systemPromptFingerprint_def split: option.splits)
  then have "\<forall>k \<in> snd ` set (growth_loop (systemPromptFingerprint sha r) 0 (- 1) xs). plain_key k" for r xs
    by (rule growth_keys)
  then show ?case by (fastforce simp: growth_infer_def Let_def)
next
  case (Composite ss)
  have "first_inferred rs \<in> insert [] (set rs)" for rs by (induction rs) auto
  then have "first_inferred (map (\<lambda>s. InferSession s parse sha es) ss) \<in> insert [] ((\<lambda>s. InferSession s parse sha es) ` set ss)"
    by (metis list.set_map)
  with Composite show ?case by fastforce
qed simp_all

section \<open>Raw sessions keep every transaction\<close>

lemma distinct_heads: "[] \<notin> set gs \<Longrightarrow> distinct (map f (concat gs)) \<Longrightarrow> distinct (map (\<lambda>g. f (hd g)) gs)"
proof (induction gs)
  case (Cons g gs)
  have split: "distinct (map f (concat gs))" "f ` set g \<inter> f ` set (concat gs) = {}"
    using Cons.prems(2) by (simp_all only: concat.simps map_append distinct_append set_map)
  have "f (hd g) \<notin> (\<lambda>g. f (hd g)) ` set gs"
  proof
    assume "f (hd g) \<in> (\<lambda>g. f (hd g)) ` set gs"
    then obtain h where h: "h \<in> set gs" "f (hd g) = f (hd h)" by blast
    have "g \<noteq> []" "h \<noteq> []" using Cons.prems(1) h(1) by auto
    then have m: "f (hd g) \<in> f ` set g" "f (hd h) \<in> f ` set h" by simp_all
    have "f ` set h \<subseteq> f ` set (concat gs)" using h(1) by auto
    from subsetD [OF this m(2)] have "f (hd g) \<in> f ` set (concat gs)" unfolding h(2) .
    from IntI [OF m(1) this] show False unfolding split(2) by (rule emptyE)
  qed
  moreover have "distinct (map (\<lambda>g. f (hd g)) gs)" using Cons.IH Cons.prems(1) split(1) by simp
  ultimately show ?case by simp
qed simp

text \<open>The keys are plain, or those of the groups with the given first transactions.\<close>

definition raw_keys :: "int set \<Rightarrow> smap \<Rightarrow> bool" where
  "raw_keys firsts m \<longleftrightarrow> (\<forall>k \<in> fst ` set m. plain_key k \<or> (\<exists>g. k = fake_id g \<and> txnID (hd g) \<in> firsts))"

context assembler_env
begin

lemma place_groups:
  assumes "keys_ok m" "raw_keys F m" "[] \<notin> set gs" "distinct (map (\<lambda>g. txnID (hd g)) gs)" "F \<inter> (\<lambda>g. txnID (hd g)) ` set gs = {}"
  shows "let m' = foldl (place_group env) m (enumerate i gs) in
    keys_ok m' \<and> held m' = held m + mset (concat gs) \<and> raw_keys (F \<union> (\<lambda>g. txnID (hd g)) ` set gs) m'"
  using assms
proof (induction gs arbitrary: m F i)
  case (Cons g gs)
  let ?m = "place_group env m (i, g)"
  have "fake_id g \<notin> fst ` set m"
  proof
    assume "fake_id g \<in> fst ` set m"
    with Cons.prems(2) have "plain_key (fake_id g) \<or> (\<exists>h. fake_id g = fake_id h \<and> txnID (hd h) \<in> F)"
      unfolding raw_keys_def by (rule bspec)
    then obtain h where h: "fake_id g = fake_id h" "txnID (hd h) \<in> F" using fake_id_not_plain(1) by blast
    from fake_id_inj [OF h(1)] h(2) Cons.prems(5) show False by simp
  qed
  from place_group_held [OF Cons.prems(1) _ this] Cons.prems(3)
  have p: "keys_ok ?m" "held ?m = held m + mset g" "fst ` set ?m \<subseteq> insert (fake_id g) (fst ` set m)" by auto
  have "raw_keys (insert (txnID (hd g)) F) ?m"
    unfolding raw_keys_def
  proof
    fix k assume "k \<in> fst ` set ?m"
    from subsetD [OF p(3) this] show "plain_key k \<or> (\<exists>h. k = fake_id h \<and> txnID (hd h) \<in> insert (txnID (hd g)) F)"
    proof (rule insertE)
      assume "k \<in> fst ` set m"
      with Cons.prems(2) have "plain_key k \<or> (\<exists>h. k = fake_id h \<and> txnID (hd h) \<in> F)" unfolding raw_keys_def by (rule bspec)
      then show ?thesis by blast
    qed blast
  qed
  moreover have "insert (txnID (hd g)) F \<inter> (\<lambda>g. txnID (hd g)) ` set gs = {}" "[] \<notin> set gs" "distinct (map (\<lambda>g. txnID (hd g)) gs)"
    using Cons.prems(3-5) by auto
  ultimately have r: "let m' = foldl (place_group env) ?m (enumerate (Suc i) gs) in
    keys_ok m' \<and> held m' = held ?m + mset (concat gs) \<and> raw_keys (insert (txnID (hd g)) F \<union> (\<lambda>g. txnID (hd g)) ` set gs) m'"
    by (intro Cons.IH [OF p(1)])
  have "insert (txnID (hd g)) F \<union> (\<lambda>g. txnID (hd g)) ` set gs = F \<union> (\<lambda>g. txnID (hd g)) ` set (g # gs)" by auto
  with r show ?case unfolding Let_def p(2) by (simp add: union_assoc)
qed simp

lemma raw_sessions_held:
  assumes "distinct (map txnID txns)" "\<forall>t \<in> set txns. plain_key (te_sessionID t)"
  shows "keys_ok (raw_sessions env txns)" "held (raw_sessions env txns) = mset txns"
    "\<forall>k \<in> fst ` set (raw_sessions env txns). CHR ''/'' \<notin> set k"
proof -
  obtain m u where mu: "foldl explicit_step ([], []) txns = (m, u)" by fastforce
  from explicit_steps [OF keys_ok_Nil mu] have e: "keys_ok m" "held m + mset u = mset txns" "fst ` set m \<subseteq> te_sessionID ` set txns"
    "set u \<subseteq> set txns" by auto
  let ?u = "sort_entries env time_less u"
  let ?as = "InferSession (SessionStrategy (DetectClientFromEntries (sort_clients env) ?u)) (parse_time env) (sum256 env) ?u"
  obtain m1 still where ms: "foldl (inferred_step ?as) (m, []) ?u = (m1, still)" by fastforce
  from inferred_steps [OF e(1) ms] have i: "keys_ok m1" "held m1 + mset still = held m + mset u"
    "fst ` set m1 \<subseteq> fst ` set m \<union> snd ` set ?as" by (simp_all add: sort_perm)
  let ?gs = "time_groups (parse_time env) [] still"
  have c: "concat ?gs = still" "[] \<notin> set ?gs" using time_groups_concat [of "parse_time env" "[]" still] by simp_all
  have "mset (map txnID txns) = image_mset txnID (held m1) + mset (map txnID (concat ?gs))"
    using e(2) i(2) c(1) by (metis image_mset_union mset_map)
  with assms(1) have "distinct (map txnID (concat ?gs))"
    by (metis distinct_append mset_append mset_eq_imp_distinct_iff ex_mset)
  then have d: "distinct (map (\<lambda>g. txnID (hd g)) ?gs)" by (rule distinct_heads [OF c(2)])
  have "plain_key k" if "k \<in> fst ` set m1" for k
  proof -
    from subsetD [OF i(3) that] consider "k \<in> fst ` set m" | "k \<in> snd ` set ?as" by (rule UnE)
    then show ?thesis
    proof cases
      case 1
      from subsetD [OF e(3) this] assms(2) show ?thesis by auto
    next
      case 2
      with infer_keys show ?thesis by (rule bspec)
    qed
  qed
  then have k1: "raw_keys {} m1" unfolding raw_keys_def by simp
  from place_groups [OF i(1) k1 c(2) d, of 0] have p:
    "keys_ok (foldl (place_group env) m1 (enumerate 0 ?gs))" "held (foldl (place_group env) m1 (enumerate 0 ?gs)) = held m1 + mset still"
    "raw_keys ((\<lambda>g. txnID (hd g)) ` set ?gs) (foldl (place_group env) m1 (enumerate 0 ?gs))"
    using c(1) by (simp_all add: Let_def)
  have r: "raw_sessions env txns = (if u = [] then m else foldl (place_group env) m1 (enumerate 0 ?gs))"
    using mu ms by (simp add: raw_sessions_def place_unassigned_def Let_def)
  show "keys_ok (raw_sessions env txns)" using e(1) p(1) by (simp add: r)
  show "held (raw_sessions env txns) = mset txns" using e(2) p(2) i(2) by (cases "u = []") (simp_all add: r)
  show "\<forall>k \<in> fst ` set (raw_sessions env txns). CHR ''/'' \<notin> set k"
  proof
    fix k assume k: "k \<in> fst ` set (raw_sessions env txns)"
    show "CHR ''/'' \<notin> set k"
    proof (cases "u = []")
      case True
      with k have "k \<in> te_sessionID ` set txns" using e(3) by (auto simp: r)
      with assms(2) show ?thesis by (auto simp: plain_key_def)
    next
      case False
      with k p(3) have "plain_key k \<or> (\<exists>g. k = fake_id g)" unfolding raw_keys_def r by auto
      then show ?thesis using fake_id_not_plain(2) by (auto simp: plain_key_def)
    qed
  qed
qed

end

section \<open>Threads keep every transaction that is not a client's own\<close>

lemma sm_get_append: "sm_get (sm_append k v m) k' = (if k' = k then sm_get m k @ v else sm_get m k')"
  by (simp add: sm_append_def sm_get_def update_conv)

lemma threads_get:
  "sm_get (foldl (\<lambda>m e. sm_append (f e) [e] m) m es) k = sm_get m k @ filter (\<lambda>e. f e = k) es"
  by (induction es arbitrary: m) (simp_all add: sm_get_append)

lemma threads_keys_ok:
  "keys_ok m \<Longrightarrow> keys_ok (foldl (\<lambda>m e. sm_append (f e) [e] m) m es)"
  "fst ` set (foldl (\<lambda>m e. sm_append (f e) [e] m) m es) = fst ` set m \<union> f ` set es"
  by (induction es arbitrary: m) (simp_all add: keys_ok_append)

lemma split_loop_concat: "concat (split_loop cur es) = cur @ es" "[] \<notin> set (split_loop cur es)"
  by (induction cur es rule: split_loop.induct) auto

lemma held_append_lists: "held (xs @ ys) = held xs + held ys"
  by (simp add: held_def)

lemma held_concat: "held (concat xss) = sum_list (map held xss)"
  by (induction xss) (simp_all add: held_append_lists)

lemma sum_filters:
  "distinct ks \<Longrightarrow> sum_list (map (\<lambda>k. mset (filter (\<lambda>e. f e = k \<and> P k) es)) ks) = mset (filter (\<lambda>e. f e \<in> set ks \<and> P (f e)) es)"
proof (induction ks)
  case (Cons k ks)
  have "mset (filter (\<lambda>e. f e \<in> set (k # ks) \<and> P (f e)) xs) =
      mset (filter (\<lambda>e. f e = k \<and> P k) xs) + mset (filter (\<lambda>e. f e \<in> set ks \<and> P (f e)) xs)" for xs
    using Cons.prems by (induction xs) auto
  with Cons show ?case by simp
qed simp

lemma numbered_keys: "map fst (numbered g xs) = map (\<lambda>i. g @ show_nat (i + 1)) [0..<length xs]" "map snd (numbered g xs) = xs"
proof -
  have "map fst (map (\<lambda>(i, sub). (g @ show_nat (i + 1), sub)) (zip ns xs)) = map (\<lambda>i. g @ show_nat (i + 1)) ns"
    "map snd (map (\<lambda>(i, sub). (g @ show_nat (i + 1), sub)) (zip ns xs)) = xs" if "length ns = length xs" for ns
    using that by (induction ns xs rule: list_induct2) simp_all
  then show "map fst (numbered g xs) = map (\<lambda>i. g @ show_nat (i + 1)) [0..<length xs]" "map snd (numbered g xs) = xs"
    unfolding numbered_def enumerate_eq_zip by simp_all
qed

lemma numbered_distinct: "distinct (map fst (numbered g xs))"
  unfolding numbered_keys by (simp add: distinct_map inj_on_def)

lemma numbered_sets: "fst ` set (numbered g xs) \<subseteq> {g @ show_nat m | m. True}" "snd ` set (numbered g xs) = set xs"
proof -
  have "fst ` set (numbered g xs) = set (map (\<lambda>i. g @ show_nat (i + 1)) [0..<length xs])" unfolding numbered_keys(1) [symmetric] by (simp only: set_map)
  then show "fst ` set (numbered g xs) \<subseteq> {g @ show_nat m | m. True}" by auto
  have "snd ` set (numbered g xs) = set (map snd (numbered g xs))" by (simp only: set_map)
  then show "snd ` set (numbered g xs) = set xs" unfolding numbered_keys(2) .
qed

lemma held_numbered: "held (numbered g xs) = mset (concat xs)"
  by (simp add: held_def numbered_keys)

definition client_own :: "ClientAdapter \<Rightarrow> transactionEntry \<Rightarrow> bool" where
  "client_own adapter e \<longleftrightarrow> thread_key adapter e \<in> own_calls"

context assembler_env
begin

lemma SplitInvocations_perm:
  "mset (concat (SplitInvocations c env es)) = mset es" "[] \<notin> set (SplitInvocations c env es)"
proof -
  show "mset (concat (SplitInvocations c env es)) = mset es"
    by (cases c) (simp_all only: SplitInvocations.simps splitSubagentInvocations_def split_loop_concat(1) append_Nil sort_perm, simp_all)
  show "[] \<notin> set (SplitInvocations c env es)"
    by (cases c) (simp_all add: splitSubagentInvocations_def split_loop_concat(2))
qed

lemma held_thread_sessions:
  "held (thread_sessions env a sid threads key) = (if key \<in> own_calls then {#} else mset (sm_get threads key))"
  by (auto simp: thread_sessions_def Let_def held_numbered SplitInvocations_perm(1))

lemma held_session_threads:
  "held (session_threads env raw (k, sid)) =
     filter_mset (\<lambda>e. \<not> client_own (DetectClientFromEntries (sort_clients env) (sort_entries env entry_less (sm_get raw sid))) e)
       (mset (sm_get raw sid))"
proof -
  let ?es = "sort_entries env entry_less (sm_get raw sid)"
  let ?a = "DetectClientFromEntries (sort_clients env) ?es"
  let ?t = "splitSessionIntoThreads ?a ?es"
  have g: "sm_get ?t key = filter (\<lambda>e. thread_key ?a e = key) ?es" for key
    by (simp add: splitSessionIntoThreads_def threads_get sm_get_fresh)
  have ok: "keys_ok ?t" "set (sm_keys ?t) = thread_key ?a ` set ?es"
    using threads_keys_ok [where m = "[]" and f = "thread_key ?a" and es = ?es] by (simp_all add: splitSessionIntoThreads_def sm_keys_def)
  have d: "distinct (visit env [2, k] (sm_keys ?t))"
    using keys_okD(1) [OF ok(1)] by (intro visit_distinct) (simp add: sm_keys_def)
  have h: "held (thread_sessions env ?a sid ?t key) = mset (filter (\<lambda>e. thread_key ?a e = key \<and> key \<notin> own_calls) ?es)" for key
    by (simp add: held_thread_sessions g)
  have "held (session_threads env raw (k, sid)) =
      sum_list (map (\<lambda>key. mset (filter (\<lambda>e. thread_key ?a e = key \<and> key \<notin> own_calls) ?es)) (visit env [2, k] (sm_keys ?t)))"
    by (simp add: session_threads_def Let_def held_concat comp_def h)
  also have "\<dots> = mset (filter (\<lambda>e. thread_key ?a e \<in> thread_key ?a ` set ?es \<and> thread_key ?a e \<notin> own_calls) ?es)"
    using sum_filters [OF d, of "thread_key ?a" "\<lambda>k. k \<notin> own_calls" ?es] ok(2) by simp
  also have "\<dots> = mset (filter (\<lambda>e. \<not> client_own ?a e) ?es)"
    by (intro arg_cong [of _ _ mset] filter_cong) (auto simp: client_own_def)
  also have "\<dots> = filter_mset (\<lambda>e. \<not> client_own ?a e) (mset ?es)" by simp
  finally show ?thesis unfolding sort_perm .
qed

end

section \<open>Keys of threads\<close>

lemma thread_key_cases:
  "thread_key a e = ''main'' \<or> thread_key a e \<in> own_calls \<or> (\<exists>n. thread_key a e = ''subagent_'' @ show_nat n)"
  by (auto simp: thread_key_def Let_def split: option.splits)

text \<open>The keys that the threads of a session get.\<close>

definition thread_keys :: "string \<Rightarrow> string \<Rightarrow> string set" where
  "thread_keys sid key = (if key = ''main'' then {sid} else {sid @ ''/'' @ key @ ''_'' @ show_nat n | n. True})"

lemma thread_sessions_keys:
  "fst ` set (thread_sessions env a sid threads key) \<subseteq> thread_keys sid key"
  "distinct (map fst (thread_sessions env a sid threads key))"
  using numbered_sets(1) [of "sid @ ''/'' @ key @ ''_''"]
  by (auto simp: thread_sessions_def thread_keys_def Let_def numbered_distinct)

lemma thread_keys_disjoint:
  assumes "CHR ''/'' \<notin> set sid" "k \<noteq> k'"
  shows "thread_keys sid k \<inter> thread_keys sid k' = {}"
proof -
  have "k = k'" if "sid @ ''/'' @ k @ ''_'' @ show_nat m = sid @ ''/'' @ k' @ ''_'' @ show_nat n" for m n
    using append_sep_inj_last [of "CHR ''_''" "show_nat m" "show_nat n" k k'] that by simp
  with assms show ?thesis by (auto simp: thread_keys_def)
qed

lemma base_sid_slash [simp]: "CHR ''/'' \<notin> set sid \<Longrightarrow> base_sid (sid @ CHR ''/'' # x) = sid"
  unfolding base_sid_def by (auto simp: takeWhile_append2 takeWhile_tail)

lemma base_sid_plain [simp]: "CHR ''/'' \<notin> set sid \<Longrightarrow> base_sid sid = sid"
  by (simp add: base_sid_def takeWhile_eq_all_conv) blast

lemma thread_keys_base: "CHR ''/'' \<notin> set sid \<Longrightarrow> k \<in> thread_keys sid key \<Longrightarrow> base_sid k = sid"
  by (auto simp: thread_keys_def split: if_splits)

lemma distinct_concat_keys:
  assumes "distinct xs" "\<And>x. x \<in> set xs \<Longrightarrow> distinct (map fst (f x))" "\<And>x. x \<in> set xs \<Longrightarrow> fst ` set (f x) \<subseteq> K x"
    and "\<And>x y. x \<in> set xs \<Longrightarrow> y \<in> set xs \<Longrightarrow> x \<noteq> y \<Longrightarrow> K x \<inter> K y = {}"
  shows "distinct (map fst (concat (map f xs)))"
  using assms
proof (induction xs)
  case (Cons x xs)
  have "distinct (map fst (concat (map f xs)))" using Cons by simp
  moreover have "distinct (map fst (f x))" using Cons.prems(2) by simp
  moreover have "fst ` set (f x) \<inter> fst ` set (concat (map f xs)) = {}"
  proof -
    have "fst ` set (f x) \<inter> fst ` set (f y) = {}" if "y \<in> set xs" for y
    proof -
      have "x \<noteq> y" using Cons.prems(1) that by auto
      then have "K x \<inter> K y = {}" using Cons.prems(4) that by simp
      moreover have "fst ` set (f x) \<subseteq> K x" "fst ` set (f y) \<subseteq> K y" using Cons.prems(3) that by simp_all
      ultimately show ?thesis by blast
    qed
    moreover have "fst ` set (concat (map f xs)) = (\<Union>y \<in> set xs. fst ` set (f y))" by auto
    ultimately show ?thesis by (simp only: Int_UN_distrib) simp
  qed
  ultimately show ?case by (simp only: list.map concat.simps map_append distinct_append set_map)
qed simp

text \<open>A key as the threads make it: a session, or an invocation of a subagent of a session.\<close>

definition split_key :: "string \<Rightarrow> bool" where
  "split_key k \<longleftrightarrow> CHR ''/'' \<notin> set k \<or>
     (\<exists>sid n m. CHR ''/'' \<notin> set sid \<and> k = sid @ ''/subagent_'' @ show_nat n @ ''_'' @ show_nat m)"

lemma thread_keys_split: "CHR ''/'' \<notin> set sid \<Longrightarrow> k \<in> thread_keys sid (''subagent_'' @ show_nat n) \<Longrightarrow> split_key k"
  by (auto simp: thread_keys_def split_key_def)

context assembler_env
begin

lemma session_threads_keys:
  assumes "CHR ''/'' \<notin> set sid"
  shows "distinct (map fst (session_threads env raw (k, sid)))"
    "x \<in> fst ` set (session_threads env raw (k, sid)) \<Longrightarrow> base_sid x = sid \<and> split_key x"
    "[] \<notin> snd ` set (session_threads env raw (k, sid))"
proof -
  let ?es = "sort_entries env entry_less (sm_get raw sid)"
  let ?a = "DetectClientFromEntries (sort_clients env) ?es"
  let ?t = "splitSessionIntoThreads ?a ?es"
  let ?v = "visit env [2, k] (sm_keys ?t)"
  have ok: "keys_ok ?t" "set ?v = thread_key ?a ` set ?es"
    using threads_keys_ok [where m = "[]" and f = "thread_key ?a" and es = ?es] by (simp_all add: splitSessionIntoThreads_def sm_keys_def)
  have d: "distinct ?v" using keys_okD(1) [OF ok(1)] by (intro visit_distinct) (simp add: sm_keys_def)
  have s: "session_threads env raw (k, sid) = concat (map (thread_sessions env ?a sid ?t) ?v)"
    by (simp add: session_threads_def Let_def)
  show "distinct (map fst (session_threads env raw (k, sid)))" unfolding s
    by (rule distinct_concat_keys [OF d thread_sessions_keys(2) thread_sessions_keys(1) thread_keys_disjoint [OF assms]])
  show "base_sid x = sid \<and> split_key x" if "x \<in> fst ` set (session_threads env raw (k, sid))"
  proof -
    from that obtain key where key: "key \<in> thread_key ?a ` set ?es" "x \<in> fst ` set (thread_sessions env ?a sid ?t key)"
      unfolding s using ok(2) by auto
    from subsetD [OF thread_sessions_keys(1) key(2)] have x: "x \<in> thread_keys sid key" .
    have "key \<notin> own_calls" using key(2) by (auto simp: thread_sessions_def Let_def)
    with key(1) thread_key_cases consider "key = ''main''" | n where "key = ''subagent_'' @ show_nat n" by blast
    then have "split_key x"
    proof cases
      case 1
      with x assms show ?thesis by (simp add: thread_keys_def split_key_def)
    next
      case (2 n)
      from thread_keys_split [OF assms] x show ?thesis unfolding 2 .
    qed
    with thread_keys_base [OF assms x] show ?thesis by simp
  qed
  have "[] \<notin> snd ` set (thread_sessions env ?a sid ?t key)" for key
    using SplitInvocations_perm(2) by (auto simp: thread_sessions_def Let_def numbered_sets(2))
  then show "[] \<notin> snd ` set (session_threads env raw (k, sid))" unfolding s by auto
qed

end

lemma foldl_updates:
  assumes "keys_ok m" "distinct (map fst ps)" "fst ` set m \<inter> fst ` set ps = {}" "[] \<notin> snd ` set ps"
  shows "let m' = foldl (\<lambda>m (k, v). AList.update k v m) m ps in
    keys_ok m' \<and> held m' = held m + held ps \<and> fst ` set m' = fst ` set m \<union> fst ` set ps"
  using assms
proof (induction ps arbitrary: m)
  case (Cons p ps)
  obtain k v where p: "p = (k, v)" by (cases p)
  have "k \<notin> fst ` set m" "v \<noteq> []" using Cons.prems p by auto
  then have u: "keys_ok (AList.update k v m)" "held (AList.update k v m) = held m + mset v"
    using Cons.prems(1) by (simp_all add: keys_ok_update held_fresh keys_okD(1))
  have "fst ` set (AList.update k v m) \<inter> fst ` set ps = {}" using Cons.prems(2,3) p by auto
  from Cons.IH [OF u(1) _ this] Cons.prems(2,4) p u(2) show ?case
    by (simp add: Let_def union_assoc)
qed simp

lemma held_by_keys: "distinct (map fst m) \<Longrightarrow> sum_list (map (\<lambda>k. mset (sm_get m k)) (sm_keys m)) = held m"
proof -
  assume d: "distinct (map fst m)"
  have "map (\<lambda>p. mset (sm_get m (fst p))) m = map (\<lambda>p. mset (snd p)) m"
    using sm_get_key [OF d] by (auto intro!: map_cong)
  then have "sum_list (map (\<lambda>k. mset (sm_get m k)) (sm_keys m)) = sum_list (map (\<lambda>p. mset (snd p)) m)"
    by (simp only: sm_keys_def map_map comp_def)
  also have "\<dots> = held m" by (induction m) simp_all
  finally show ?thesis .
qed

lemma sum_list_perm: "mset xs = mset ys \<Longrightarrow> sum_list (map g xs) = sum_list (map g ys)" for g :: "'a \<Rightarrow> 'b :: comm_monoid_add"
  by (metis mset_map sum_mset_sum_list)

lemma sum_list_enumerate: "sum_list (map (\<lambda>(i, x). g x) (enumerate n xs)) = sum_list (map g xs)"
  by (induction xs arbitrary: n) simp_all

lemma filter_sums:
  "sum_list (map g xs) = sum_list (map (\<lambda>x. filter_mset (\<lambda>e. \<not> P x e) (g x)) xs) + sum_list (map (\<lambda>x. filter_mset (P x) (g x)) xs)"
  for g :: "'a \<Rightarrow> 'b multiset"
proof (induction xs)
  case (Cons x xs)
  have "g x = filter_mset (\<lambda>e. \<not> P x e) (g x) + filter_mset (P x) (g x)"
    using multiset_partition [of "g x" "P x"] by (simp add: add.commute)
  with Cons show ?case by (simp add: union_ac)
qed simp

lemma in_sum_list: "e \<in># sum_list (map g xs) \<Longrightarrow> \<exists>x \<in> set xs. e \<in># g x" for g :: "'a \<Rightarrow> 'b multiset"
  by (induction xs) auto

lemma sm_get_held: "set (sm_get m k) \<subseteq> set_mset (held m)"
proof (cases "map_of m k")
  case (Some v)
  from map_of_SomeD [OF this] show ?thesis using Some by (auto simp: sm_get_def held_def)
qed (simp add: sm_get_def)

text \<open>A call on the client's own behalf: the client is recognised from some of the transactions, among them this one.\<close>

definition own_call_of :: "asm_env \<Rightarrow> transactionEntry set \<Rightarrow> transactionEntry \<Rightarrow> bool" where
  "own_call_of env T e \<longleftrightarrow> (\<exists>es. e \<in> set es \<and> set es \<subseteq> T \<and> client_own (DetectClientFromEntries (sort_clients env) es) e)"

context assembler_env
begin

lemma split_all_held:
  assumes "keys_ok raw" "\<forall>k \<in> fst ` set raw. CHR ''/'' \<notin> set k"
  obtains dropped where "held raw = held (split_all env raw) + dropped" "\<And>e. e \<in># dropped \<Longrightarrow> own_call_of env (set_mset (held raw)) e"
    "keys_ok (split_all env raw)" "\<And>k. k \<in> fst ` set (split_all env raw) \<Longrightarrow> split_key k"
proof -
  let ?vs = "visit env [1] (sm_keys raw)"
  let ?ps = "concat (map (session_threads env raw) (enumerate 0 ?vs))"
  let ?own = "\<lambda>sid. client_own (DetectClientFromEntries (sort_clients env) (sort_entries env entry_less (sm_get raw sid)))"
  have sids: "CHR ''/'' \<notin> set sid" if "(k, sid) \<in> set (enumerate 0 ?vs)" for k sid
  proof -
    have "sid \<in> set ?vs" using that by (metis enumerate_eq_zip set_zip_rightD)
    then show ?thesis using assms(2) by (auto simp: sm_keys_def)
  qed
  have dv: "distinct ?vs" using keys_okD(1) [OF assms(1)] by (intro visit_distinct) (simp add: sm_keys_def)
  have inj: "sid \<noteq> sid'" if "(k, sid) \<in> set (enumerate 0 ?vs)" "(k', sid') \<in> set (enumerate 0 ?vs)" "(k, sid) \<noteq> (k', sid')" for k sid k' sid'
    using that dv by (auto simp: in_set_enumerate_eq nth_eq_iff_index_eq)
  have "distinct (map fst ?ps)"
  proof (rule distinct_concat_keys [where K = "\<lambda>(k, sid). {x. base_sid x = sid}"])
    show "distinct (enumerate 0 ?vs)" by (simp add: distinct_enumerate)
    fix p assume p: "p \<in> set (enumerate 0 ?vs)"
    obtain k sid where ks: "p = (k, sid)" by (cases p)
    show "distinct (map fst (session_threads env raw p))" using session_threads_keys(1) [OF sids] p ks by blast
    show "fst ` set (session_threads env raw p) \<subseteq> (case p of (k, sid) \<Rightarrow> {x. base_sid x = sid})"
      using session_threads_keys(2) [OF sids] p ks by blast
    fix q assume q: "q \<in> set (enumerate 0 ?vs)" "p \<noteq> q"
    obtain k' sid' where "q = (k', sid')" by (cases q)
    then show "(case p of (k, sid) \<Rightarrow> {x. base_sid x = sid}) \<inter> (case q of (k, sid) \<Rightarrow> {x. base_sid x = sid}) = {}"
      using inj [of k sid k' sid'] p q ks by auto
  qed
  moreover have "[] \<notin> snd ` set ?ps"
  proof
    assume "[] \<in> snd ` set ?ps"
    then obtain k sid where "(k, sid) \<in> set (enumerate 0 ?vs)" "[] \<in> snd ` set (session_threads env raw (k, sid))" by auto
    then show False using session_threads_keys(3) [OF sids] by blast
  qed
  ultimately have u: "keys_ok (split_all env raw)" "held (split_all env raw) = held ?ps" "fst ` set (split_all env raw) = fst ` set ?ps"
    using foldl_updates [OF keys_ok_Nil, of ?ps] by (simp_all add: split_all_def Let_def)
  have "held ?ps = sum_list (map (\<lambda>sid. filter_mset (\<lambda>e. \<not> ?own sid e) (mset (sm_get raw sid))) (sm_keys raw))"
  proof -
    have "held ?ps = sum_list (map (\<lambda>(k, sid). filter_mset (\<lambda>e. \<not> ?own sid e) (mset (sm_get raw sid))) (enumerate 0 ?vs))"
      unfolding held_concat map_map by (intro arg_cong [of _ _ sum_list] map_cong) (auto simp: held_session_threads)
    also have "\<dots> = sum_list (map (\<lambda>sid. filter_mset (\<lambda>e. \<not> ?own sid e) (mset (sm_get raw sid))) ?vs)"
      by (rule sum_list_enumerate)
    also have "\<dots> = sum_list (map (\<lambda>sid. filter_mset (\<lambda>e. \<not> ?own sid e) (mset (sm_get raw sid))) (sm_keys raw))"
      by (rule sum_list_perm [OF visit_perm])
    finally show ?thesis .
  qed
  moreover have "held raw = sum_list (map (\<lambda>sid. filter_mset (\<lambda>e. \<not> ?own sid e) (mset (sm_get raw sid))) (sm_keys raw)) +
      sum_list (map (\<lambda>sid. filter_mset (?own sid) (mset (sm_get raw sid))) (sm_keys raw))"
    unfolding held_by_keys [OF keys_okD(1) [OF assms(1)], symmetric] by (rule filter_sums)
  ultimately show ?thesis
  proof (intro that)
    fix e assume "e \<in># sum_list (map (\<lambda>sid. filter_mset (?own sid) (mset (sm_get raw sid))) (sm_keys raw))"
    from in_sum_list [OF this] obtain sid where "e \<in> set (sm_get raw sid)" "?own sid e" by auto
    with sm_get_held [of raw sid] show "own_call_of env (set_mset (held raw)) e"
      unfolding own_call_of_def by (intro exI [of _ "sort_entries env entry_less (sm_get raw sid)"]) simp
  next
    fix x assume "x \<in> fst ` set (split_all env raw)"
    then obtain k sid where "(k, sid) \<in> set (enumerate 0 ?vs)" "x \<in> fst ` set (session_threads env raw (k, sid))"
      unfolding u(3) by auto
    then show "split_key x" using session_threads_keys(2) [OF sids] by blast
  qed (use u in simp_all)
qed

end

section \<open>Remapping keeps every transaction\<close>

definition child_key :: "string \<Rightarrow> nat \<Rightarrow> string" where
  "child_key sid n = sid @ ''/subagent_'' @ show_nat n"

text \<open>The keys that remapping has made so far are those of the sessions done and the first \<open>idx\<close> of the current one.\<close>

definition remap_inv :: "string set \<Rightarrow> string \<Rightarrow> nat \<Rightarrow> smap \<Rightarrow> bool" where
  "remap_inv done sid idx m \<longleftrightarrow> keys_ok m \<and>
     (\<forall>k \<in> fst ` set m. split_key k \<or> (\<exists>s n. k = child_key s n \<and> CHR ''/'' \<notin> set s \<and> (s \<in> done \<or> s = sid \<and> n \<le> idx)))"

lemma child_key_inj:
  assumes "CHR ''/'' \<notin> set s" "CHR ''/'' \<notin> set t" "child_key s n = child_key t m"
  shows "s = t \<and> n = m"
  using append_sep_inj [OF assms(1,2), of "''subagent_'' @ show_nat n" "''subagent_'' @ show_nat m"] assms(3) by (simp add: child_key_def)

lemma child_key_not_split:
  assumes "CHR ''/'' \<notin> set s"
  shows "\<not> split_key (child_key s n)"
proof
  assume "split_key (child_key s n)"
  then obtain sid a b where h: "CHR ''/'' \<notin> set sid" "child_key s n = sid @ ''/subagent_'' @ show_nat a @ ''_'' @ show_nat b"
    by (auto simp: split_key_def child_key_def)
  have "show_nat n = show_nat a @ ''_'' @ show_nat b"
    using append_sep_inj [OF assms h(1), of "''subagent_'' @ show_nat n" "''subagent_'' @ show_nat a @ ''_'' @ show_nat b"] h(2)
    by (simp add: child_key_def)
  then have "CHR ''_'' \<in> set (show_nat n)" by simp
  then show False by simp
qed

lemma remap_key_inv:
  assumes "remap_inv D sid idx m" "CHR ''/'' \<notin> set sid" "sid \<notin> D" "remap_key sid task (m, idx) k = (m', idx')"
  shows "remap_inv D sid idx' m' \<and> held m' = held m"
proof (cases "k \<in> fst ` set m \<and> base_sid k = task")
  case False
  then have "m' = m" "idx' = idx" using assms(4) unfolding remap_key_def by (simp_all split: if_splits)
  with assms(1) show ?thesis by simp
next
  case True
  let ?new = "child_key sid (idx + 1)" and ?v = "sm_get m k"
  have r: "m' = AList.delete k (AList.update ?new ?v m)" "idx' = idx + 1"
    using assms(4) True by (auto simp: remap_key_def Let_def child_key_def)
  have ok: "keys_ok m" and keys: "\<And>k. k \<in> fst ` set m \<Longrightarrow> split_key k \<or> (\<exists>s n. k = child_key s n \<and> CHR ''/'' \<notin> set s \<and> (s \<in> D \<or> s = sid \<and> n \<le> idx))"
    using assms(1) by (auto simp: remap_inv_def)
  have new: "?new \<notin> fst ` set m"
  proof
    assume "?new \<in> fst ` set m"
    with keys child_key_not_split [OF assms(2)] obtain s n where "?new = child_key s n" "CHR ''/'' \<notin> set s" "s \<in> D \<or> s = sid \<and> n \<le> idx" by blast
    with child_key_inj [OF assms(2) this(2,1)] assms(3) show False by auto
  qed
  have v: "?v \<noteq> []" using keys_okD(2) [OF ok] True by blast
  have u: "keys_ok (AList.update ?new ?v m)" "held (AList.update ?new ?v m) = held m + mset ?v"
    using ok v new by (simp_all add: keys_ok_update held_fresh keys_okD(1))
  have "sm_get (AList.update ?new ?v m) k = ?v" by (simp add: sm_get_def update_conv)
  with held_delete [OF keys_okD(1) [OF u(1)], of k] u(2) have h: "held m' = held m" unfolding r(1) by simp
  have sub: "fst ` set m' \<subseteq> insert ?new (fst ` set m)" unfolding r(1) by (auto simp: AList.delete_eq dest: keys_update [THEN equalityD1, THEN subsetD, OF imageI])
  have "split_key x \<or> (\<exists>s n. x = child_key s n \<and> CHR ''/'' \<notin> set s \<and> (s \<in> D \<or> s = sid \<and> n \<le> idx'))" if "x \<in> fst ` set m'" for x
  proof -
    from subsetD [OF sub that] show ?thesis
    proof (rule insertE)
      assume "x = ?new"
      with assms(2) r(2) show ?thesis by blast
    next
      assume "x \<in> fst ` set m"
      from keys [OF this] show ?thesis using r(2) le_SucI by (metis Suc_eq_plus1)
    qed
  qed
  moreover have "keys_ok m'" unfolding r(1) by (rule keys_ok_delete [OF u(1)])
  ultimately show ?thesis using h by (simp add: remap_inv_def)
qed

lemma remap_keys_inv:
  assumes "CHR ''/'' \<notin> set sid" "sid \<notin> D" "remap_inv D sid idx m" "foldl (remap_key sid task) (m, idx) ks = (m', idx')"
  shows "remap_inv D sid idx' m' \<and> held m' = held m"
  using assms(3,4)
proof (induction ks arbitrary: m idx)
  case (Cons k ks)
  obtain m1 idx1 where s: "remap_key sid task (m, idx) k = (m1, idx1)" by fastforce
  from remap_key_inv [OF Cons.prems(1) assms(1,2) s] have r: "remap_inv D sid idx1 m1" "held m1 = held m" by simp_all
  have "foldl (remap_key sid task) (m1, idx1) ks = (m', idx')" using Cons.prems(2) s by simp
  from Cons.IH [OF r(1) this] r(2) show ?case by simp
qed simp

lemma remap_tasks_inv:
  assumes "CHR ''/'' \<notin> set sid" "sid \<notin> D" "remap_inv D sid idx m" "foldl (remap_task env i sid) (m, idx) ts = (m', idx')"
  shows "remap_inv D sid idx' m' \<and> held m' = held m"
  using assms(3,4)
proof (induction ts arbitrary: m idx)
  case (Cons t ts)
  obtain j task where t: "t = (j, task)" by (cases t)
  obtain m1 idx1 where s: "foldl (remap_key sid task) (m, idx) (walk env [4, i, j] (sm_keys m)) = (m1, idx1)" by fastforce
  from remap_keys_inv [OF assms(1,2) Cons.prems(1) s] have r: "remap_inv D sid idx1 m1" "held m1 = held m" by simp_all
  have "foldl (remap_task env i sid) (m1, idx1) ts = (m', idx')" using Cons.prems(2) s t by (simp add: remap_task_def)
  from Cons.IH [OF r(1) this] r(2) show ?case by simp
qed simp

text \<open>Between two main sessions.\<close>

definition remapped :: "string set \<Rightarrow> smap \<Rightarrow> bool" where
  "remapped done m \<longleftrightarrow> keys_ok m \<and>
     (\<forall>k \<in> fst ` set m. split_key k \<or> (\<exists>s n. k = child_key s n \<and> CHR ''/'' \<notin> set s \<and> s \<in> done))"

lemma remapped_start: "remapped D m \<Longrightarrow> remap_inv D sid 0 m"
  unfolding remap_inv_def remapped_def by metis

lemma remapped_done: "remap_inv D sid idx m \<Longrightarrow> remapped (insert sid D) m"
  unfolding remap_inv_def remapped_def by (metis insertCI)

lemma remap_mains_inv:
  assumes "distinct (map fst ms)" "\<forall>s \<in> fst ` set ms. CHR ''/'' \<notin> set s \<and> s \<notin> D" "remapped D m"
  shows "keys_ok (foldl (remap_main env) m (enumerate i ms)) \<and> held (foldl (remap_main env) m (enumerate i ms)) = held m"
  using assms
proof (induction ms arbitrary: m D i)
  case Nil
  then show ?case by (simp add: remapped_def)
next
  case (Cons p ms)
  obtain sid ts where p: "p = (sid, ts)" by (cases p)
  obtain m1 idx where f: "foldl (remap_task env i sid) (m, 0) (enumerate 0 ts) = (m1, idx)" by fastforce
  have "CHR ''/'' \<notin> set sid" "sid \<notin> D" using Cons.prems(2) p by auto
  from remap_tasks_inv [OF this remapped_start [OF Cons.prems(3)] f] have r: "remap_inv D sid idx m1" "held m1 = held m" by simp_all
  have "\<forall>s \<in> fst ` set ms. CHR ''/'' \<notin> set s \<and> s \<notin> insert sid D" using Cons.prems(1,2) p by auto
  from Cons.IH [OF _ this remapped_done [OF r(1)], of "Suc i"] Cons.prems(1) r(2) f p show ?case
    by (simp add: remap_main_def)
qed

context assembler_env
begin

lemma remap_held:
  assumes "keys_ok m" "\<And>k. k \<in> fst ` set m \<Longrightarrow> split_key k"
  shows "keys_ok (remapOpenAISubagents env m) \<and> held (remapOpenAISubagents env m) = held m"
  unfolding remapOpenAISubagents_def
proof (rule remap_mains_inv)
  have "map fst (main_infos env m) = filter (is_main_session m) (visit env [3] (sm_keys m))"
    by (simp add: main_infos_def comp_def)
  then show "distinct (map fst (main_infos env m))"
    using keys_okD(1) [OF assms(1)] by (simp add: sm_keys_def visit_distinct)
  show "\<forall>s \<in> fst ` set (main_infos env m). CHR ''/'' \<notin> set s \<and> s \<notin> {}"
    by (auto simp: main_infos_def is_main_session_def)
  show "remapped {} m" using assms by (simp add: remapped_def)
qed

lemma grouping_conserves:
  assumes "distinct (map txnID txns)" "\<forall>t \<in> set txns. plain_key (te_sessionID t)"
  shows "\<exists>dropped. mset txns = held (groupBySession env txns) + dropped \<and> (\<forall>e \<in># dropped. own_call_of env (set txns) e) \<and> keys_ok (groupBySession env txns)"
proof -
  note raw = raw_sessions_held [OF assms]
  obtain dropped where d: "held (raw_sessions env txns) = held (split_all env (raw_sessions env txns)) + dropped"
    "\<And>e. e \<in># dropped \<Longrightarrow> own_call_of env (set txns) e" "keys_ok (split_all env (raw_sessions env txns))"
    "\<And>k. k \<in> fst ` set (split_all env (raw_sessions env txns)) \<Longrightarrow> split_key k"
    using split_all_held [OF raw(1,3)] unfolding raw(2) set_mset_mset by blast
  from remap_held [OF d(3,4)] d(1,2) raw(2) show ?thesis by (auto simp: groupBySession_def)
qed

end

section \<open>Properties\<close>

text \<open>
  An environment of Go: insertion sort, which \<^verbatim>\<open>sort.Slice\<close> uses for short slices, and maps visited in the order of insertion.
\<close>

definition go_env :: "(string \<Rightarrow> int option) \<Rightarrow> (string \<Rightarrow> byte list) \<Rightarrow> asm_env" where
  "go_env parse sha =
     \<lparr>sort_entries = insertion_sort, sort_clients = insertion_sort, parse_time = parse, sum256 = sha,
      visit = (\<lambda>_ ks. ks), walk = (\<lambda>_ ks. ks)\<rparr>"

interpretation go_assembler: assembler_env "go_env parse sha" for parse sha
  by unfold_locales (simp_all add: go_env_def mset_insertion_sort)

text \<open>
  C18. Grouping loses and duplicates no transaction. Whatever order the maps are visited in and however \<^verbatim>\<open>sort.Slice\<close> orders ties, the conversations
  hold every transaction exactly once, except calls that the client which is recognised from them makes on its own behalf, such as titles
  and complexity scores; no conversation is empty and no two have the same name. The transactions have distinct ids, and no session id that
  came over the wire contains a slash or begins like an id the grouping makes up.
\<close>

theorem grouping_keeps_transactions:
  assumes "assembler_env env" "distinct (map txnID txns)"
    and "\<forall>t \<in> set txns. CHR ''/'' \<notin> set (te_sessionID t) \<and> \<not> HasPrefix (te_sessionID t) ''heuristic_''"
  shows "\<exists>dropped. mset txns = mset (concat (map snd (groupBySession env txns))) + dropped \<and>
    (\<forall>e \<in># dropped. \<exists>es. e \<in> set es \<and> set es \<subseteq> set txns \<and>
       thread_key (DetectClientFromEntries (sort_clients env) es) e \<in> {''utility'', ''mcp'', ''title-gen'', ''complexity-scorer''}) \<and>
    [] \<notin> snd ` set (groupBySession env txns) \<and> distinct (map fst (groupBySession env txns))"
  using assembler_env.grouping_conserves [OF assms(1,2)] assms(3)
  unfolding held_def own_call_of_def client_own_def own_calls_def keys_ok_def plain_key_def by blast

end
