(* ===== verification/Assembly.thy ===== *)
theory Assembly
  imports Grouping
begin

text \<open>
  The assembly of one conversation from its transactions: \<^verbatim>\<open>assembleConversation\<close> of \<^verbatim>\<open>conversation_assembler.go\<close> and what it calls, and the
  links to subagents. The maps \<^verbatim>\<open>map[string]any\<close> of steps and tool calls are records with optional fields; a tool result changes the call
  it belongs to through the position of the call in the round. The lemmas say that the turns are numbered in order, cover the
  messages from the first prompt on, and share no request.
\<close>

section \<open>Text\<close>

text \<open>\<^verbatim>\<open>truncateUTF8\<close>: the end moves back over continuation bytes, those whose two top bits are 10.\<close>

definition is_continuation :: "char \<Rightarrow> bool" where
  "is_continuation c \<longleftrightarrow> drop_bit 6 (byte_of_char c) = 2"

fun cut_back :: "string \<Rightarrow> nat \<Rightarrow> nat" where
  "cut_back s 0 = 0"
| "cut_back s (Suc n) = (if Suc n < length s \<and> is_continuation (s ! Suc n) then cut_back s n else Suc n)"

definition truncateUTF8 :: "string \<Rightarrow> nat \<Rightarrow> string" where
  "truncateUTF8 s maxBytes = (if length s \<le> maxBytes then s else take (cut_back s maxBytes) s)"

section \<open>Steps\<close>

record step_call =
  sc_tool :: string
  sc_input_preview :: string
  sc_tool_summary :: "string option"
  sc_tool_use_id :: "string option"
  sc_result :: "(string \<times> bool) option"
  sc_linked :: "string option"

record step =
  st_thinking :: "string option"
  st_text :: "string option"
  st_calls :: "step_call list"

definition nonempty :: "string \<Rightarrow> string option" where
  "nonempty s = (if s = [] then None else Some s)"

definition block_call :: "ContentBlock \<Rightarrow> step_call" where
  "block_call b =
     \<lparr>sc_tool = cb_Name b, sc_input_preview = cb_Input b, sc_tool_summary = nonempty (cb_ToolSummary b),
      sc_tool_use_id = nonempty (cb_ID b), sc_result = None, sc_linked = None\<rparr>"

definition ellipsis :: "string \<Rightarrow> string" where
  "ellipsis t = (if length t > 500 then truncateUTF8 t 500 @ ''...'' else t)"

definition getAssistantSummary :: "Message \<Rightarrow> step" where
  "getAssistantSummary msg =
     (if RawContent msg \<noteq> [] then \<lparr>st_thinking = None, st_text = Some (RawContent msg), st_calls = []\<rparr>
      else
        (let texts = map cb_Text (filter (\<lambda>b. cb_Type b = ''text'') (msg_Content msg));
             calls = map block_call (filter (\<lambda>b. cb_Type b = ''tool_use'') (msg_Content msg));
             thinking = filter (\<lambda>t. t \<noteq> []) (map cb_Thinking (filter (\<lambda>b. cb_Type b = ''thinking'') (msg_Content msg)))
         in \<lparr>st_thinking = (case thinking of [] \<Rightarrow> None | t # _ \<Rightarrow> Some (ellipsis t)),
             st_text = (if texts = [] then None else Some (Join [CHR 0x0A] texts)), st_calls = calls\<rparr>))"

text \<open>The tool results of a message: the call they answer, their content and whether they are errors.\<close>

definition getToolResults :: "Message \<Rightarrow> (string \<times> string \<times> bool) list" where
  "getToolResults msg =
     map (\<lambda>b. (cb_ToolUseID b, cb_Content b, cb_IsError b)) (filter (\<lambda>b. cb_Type b = ''tool_result'') (msg_Content msg))"

section \<open>Rounds\<close>

type_synonym pending_calls = "string \<Rightarrow> (nat \<times> nat) option"

text \<open>The calls of a step become pending, a later one with the same id in place of an earlier one.\<close>

fun add_pending :: "nat \<Rightarrow> nat \<Rightarrow> step_call list \<Rightarrow> pending_calls \<Rightarrow> pending_calls" where
  "add_pending i j [] p = p"
| "add_pending i j (c # cs) p =
     add_pending i (j + 1) cs (case sc_tool_use_id c of None \<Rightarrow> p | Some tid \<Rightarrow> p(tid \<mapsto> (i, j)))"

definition set_result :: "pending_calls \<Rightarrow> step list \<Rightarrow> string \<times> string \<times> bool \<Rightarrow> step list" where
  "set_result p steps = (\<lambda>(tid, content, err).
     case p tid of
       None \<Rightarrow> steps
     | Some (i, j) \<Rightarrow> steps[i := (steps ! i)\<lparr>st_calls := (st_calls (steps ! i))[j := (st_calls (steps ! i) ! j)\<lparr>sc_result := Some (content, err)\<rparr>]\<rparr>])"

fun round_loop :: "step list \<Rightarrow> pending_calls \<Rightarrow> nat \<Rightarrow> Message list \<Rightarrow> step list \<times> nat" where
  "round_loop steps p apiCalls [] = (steps, apiCalls)"
| "round_loop steps p apiCalls (msg # msgs) =
     (if Role msg = ''assistant'' then
        (let s = getAssistantSummary msg in
         round_loop (steps @ [s]) (add_pending (length steps) 0 (st_calls s) p) (apiCalls + 1) msgs)
      else if Role msg = ''user'' then round_loop (foldl (set_result p) steps (getToolResults msg)) p apiCalls msgs
      else round_loop steps p apiCalls msgs)"

record assembledTurn =
  turnNumber :: nat
  userPrompt :: "string option"
  steps :: "step list"
  apiCallsInTurn :: nat
  requestIDs :: "int list"
  at_timestamp :: "string option"
  at_timestampEnd :: "string option"
  at_durationMs :: "int option"
  at_model :: "string option"

definition is_prompt :: "ScaffoldingConfig \<Rightarrow> Message \<Rightarrow> bool" where
  "is_prompt scaffolding msg \<longleftrightarrow> Role msg = ''user'' \<and> IsRealUserMessage scaffolding msg"

definition promptIndices :: "ScaffoldingConfig \<Rightarrow> Message list \<Rightarrow> nat list" where
  "promptIndices scaffolding messages = filter (\<lambda>i. is_prompt scaffolding (messages ! i)) [0..<length messages]"

definition build_round :: "ScaffoldingConfig \<Rightarrow> Message list \<Rightarrow> nat list \<Rightarrow> nat \<Rightarrow> assembledTurn" where
  "build_round scaffolding messages idxs ri =
     (let startIdx = idxs ! ri;
          endIdx = (if ri + 1 < length idxs then idxs ! (ri + 1) else length messages);
          (sts, apiCalls) = round_loop [] (\<lambda>_. None) 0 (take (endIdx - (startIdx + 1)) (drop (startIdx + 1) messages))
      in \<lparr>turnNumber = ri + 1, userPrompt = GetUserText scaffolding (messages ! startIdx), steps = sts, apiCallsInTurn = apiCalls,
          requestIDs = [], at_timestamp = None, at_timestampEnd = None, at_durationMs = None, at_model = None\<rparr>)"

definition buildRoundsFromMessages :: "Message list \<Rightarrow> ScaffoldingConfig \<Rightarrow> assembledTurn list" where
  "buildRoundsFromMessages messages scaffolding =
     (let idxs = promptIndices scaffolding messages in map (build_round scaffolding messages idxs) [0..<length idxs])"

section \<open>Requests of a turn\<close>

definition has_messages :: "transactionEntry \<Rightarrow> bool" where
  "has_messages e \<longleftrightarrow> (case te_result e of None \<Rightarrow> False | Some r \<Rightarrow> xr_MessageCount r > 0)"

definition has_body :: "transactionEntry \<Rightarrow> bool" where
  "has_body e \<longleftrightarrow> (case te_result e of None \<Rightarrow> False | Some r \<Rightarrow> xr_MessageCount r \<noteq> 0)"

definition known_turn :: "ScaffoldingConfig \<Rightarrow> transactionEntry \<Rightarrow> nat option" where
  "known_turn scaffolding e =
     (case te_result e of
        None \<Rightarrow> None
      | Some r \<Rightarrow> if xr_MessageCount r > 0 then Some (length (filter (is_prompt scaffolding) (xr_Messages r))) else None)"

text \<open>
  A transaction without messages belongs to the later of the turns before and after it. The loop fills the gaps from left to right, so the turn
  before is that of the previous transaction, filled or not.
\<close>

fun fill_gaps :: "nat \<Rightarrow> nat \<Rightarrow> nat option list \<Rightarrow> nat list" where
  "fill_gaps numTurns prevTurn [] = []"
| "fill_gaps numTurns prevTurn (Some v # vs) = v # fill_gaps numTurns v vs"
| "fill_gaps numTurns prevTurn (None # vs) =
     (let nextTurn = (case List.find (\<lambda>v. v \<noteq> None) vs of Some (Some v) \<Rightarrow> v | _ \<Rightarrow> numTurns);
          v = (if prevTurn > nextTurn then prevTurn else nextTurn)
      in v # fill_gaps numTurns v vs)"

definition entry_turns :: "transactionEntry list \<Rightarrow> nat \<Rightarrow> ScaffoldingConfig \<Rightarrow> nat list" where
  "entry_turns entries numTurns scaffolding = fill_gaps numTurns 0 (map (known_turn scaffolding) entries)"

definition mapRequestsToTurns :: "transactionEntry list \<Rightarrow> nat \<Rightarrow> ScaffoldingConfig \<Rightarrow> nat \<Rightarrow> transactionEntry list" where
  "mapRequestsToTurns entries numTurns scaffolding n =
     (if 1 \<le> n \<and> n \<le> numTurns
      then map fst (filter (\<lambda>(e, t). t = n) (zip entries (entry_turns entries numTurns scaffolding))) else [])"

section \<open>WebSocket sessions\<close>

definition is_wss :: "transactionEntry \<Rightarrow> bool" where
  "is_wss e \<longleftrightarrow> HasPrefix (te_url e) ''wss://''"

fun assign_loop :: "string \<Rightarrow> transactionEntry list \<Rightarrow> transactionEntry list" where
  "assign_loop lastWSSession [] = []"
| "assign_loop lastWSSession (e # es) =
     (if te_sessionID e \<noteq> [] \<and> is_wss e then e # assign_loop (te_sessionID e) es
      else if te_sessionID e = [] \<and> is_wss e \<and> lastWSSession \<noteq> [] then e\<lparr>te_sessionID := lastWSSession\<rparr> # assign_loop lastWSSession es
      else e # assign_loop lastWSSession es)"

definition assignWSResponseSessions :: "transactionEntry list \<Rightarrow> transactionEntry list" where
  "assignWSResponseSessions entries = assign_loop [] entries"

definition isIncrementalWSSession :: "transactionEntry list \<Rightarrow> bool" where
  "isIncrementalWSSession entries \<longleftrightarrow> list_ex is_wss entries"

definition empty_block :: ContentBlock where
  "empty_block = \<lparr>cb_Type = [], cb_Text = [], cb_Name = [], cb_ID = [], cb_Input = [], cb_ToolSummary = [], cb_ToolUseID = [],
     cb_Content = [], cb_IsError = False, cb_Thinking = []\<rparr>"

definition sse_message :: "SSEResponseData \<Rightarrow> Message list" where
  "sse_message sse =
     (let blocks = (if sse_Text sse \<noteq> [] then [empty_block\<lparr>cb_Type := ''text'', cb_Text := sse_Text sse\<rparr>] else []) @
          map (\<lambda>tc. empty_block\<lparr>cb_Type := ''tool_use'', cb_Name := tc_Tool tc, cb_ID := tc_ToolUseID tc, cb_Input := tc_InputPreview tc,
                 cb_ToolSummary := tc_ToolSummary tc\<rparr>) (sse_ToolCalls sse)
      in if blocks = [] then [] else [\<lparr>Role = ''assistant'', msg_Content = blocks, RawContent = []\<rparr>])"

definition aggregateWSMessages :: "transactionEntry list \<Rightarrow> Message list" where
  "aggregateWSMessages entries = concat (map (\<lambda>e.
     case te_result e of
       None \<Rightarrow> []
     | Some r \<Rightarrow> xr_Messages r @ (case xr_SSEResponse r of None \<Rightarrow> [] | Some sse \<Rightarrow> sse_message sse)) entries)"

section \<open>Provider and client\<close>

definition detectProvider :: "transactionEntry list \<Rightarrow> string" where
  "detectProvider entries =
     (case List.find (\<lambda>e. case te_result e of None \<Rightarrow> False | Some r \<Rightarrow> xr_Provider r \<noteq> []) entries of
        Some e \<Rightarrow> (case te_result e of Some r \<Rightarrow> xr_Provider r | None \<Rightarrow> [])
      | None \<Rightarrow>
          (let by_url = (\<lambda>e. if Contains (te_url e) ''api.openai.com'' then Some ''openai''
                 else if Contains (te_url e) ''api.anthropic.com'' then Some ''anthropic''
                 else if Contains (te_url e) ''openrouter.ai'' then Some ''openrouter''
                 else if Contains (te_url e) ''generativelanguage.googleapis.com'' then Some ''google-ai'' else None)
           in case List.find (\<lambda>e. by_url e \<noteq> None) entries of Some e \<Rightarrow> the (by_url e) | None \<Rightarrow> ''unknown''))"

definition containerToClient :: "string \<Rightarrow> string option" where
  "containerToClient = map_of [(''claude'', ''claude-code''), (''codex'', ''codex''), (''opencode'', ''opencode''), (''aider'', ''aider''),
     (''gemini'', ''gemini-cli'')]"

definition header_client :: "http_header \<Rightarrow> string option" where
  "header_client h =
     (let ua = hdr_Get ''User-Agent'' h in
      if hdr_Get ''Originator'' h = ''codex_exec'' then Some ''codex''
      else if Contains ua ''claude-cli/'' \<or> Contains ua ''Claude-Code/'' then Some ''claude-code''
      else if Contains ua ''GeminiCLI/'' then Some ''gemini-cli''
      else if Contains ua ''opencode/'' then Some ''opencode''
      else if hdr_Get ''X-Title'' h = ''opencode'' \<or> hdr_Get ''Http-Referer'' h = ''https://opencode.ai/'' then Some ''opencode''
      else if hdr_Get ''Http-Referer'' h = ''https://aider.chat'' \<or> hdr_Get ''X-Title'' h = ''Aider'' then Some ''aider''
      else None)"

text \<open>The first result a function has on a list.\<close>

fun first_some :: "('a \<Rightarrow> 'b option) \<Rightarrow> 'a list \<Rightarrow> 'b option" where
  "first_some f [] = None"
| "first_some f (x # xs) = (case f x of None \<Rightarrow> first_some f xs | r \<Rightarrow> r)"

definition inferClientName :: "asm_env \<Rightarrow> string \<Rightarrow> transactionEntry list \<Rightarrow> string" where
  "inferClientName env provider entries =
     (case first_some (\<lambda>e. containerToClient (te_containerName e)) entries of
        Some name \<Rightarrow> name
      | None \<Rightarrow>
     (case first_some (\<lambda>e. Option.bind (te_requestHeaders e) header_client) entries of
        Some name \<Rightarrow> name
      | None \<Rightarrow>
     (case first_some (\<lambda>e. Option.bind (te_result e) (\<lambda>r. nonempty (xr_ClientHint r))) entries of
        Some hint \<Rightarrow> hint
      | None \<Rightarrow>
          (let adapter = DetectClientFromEntries (sort_clients env) entries in
           if client_Name adapter \<noteq> ''generic'' then client_Name adapter
           else if provider = ''anthropic'' then ''claude-code''
           else if provider = ''openai'' then ''opencode''
           else ''generic''))))"

section \<open>Conversations\<close>

record linkedSubagent =
  ls_conversation_id :: string
  ls_turn_count :: nat
  ls_started_at :: string
  ls_ended_at :: string
  ls_first_prompt :: "string option"

record assembledConversation =
  conversationID :: string
  ac_model :: string
  ac_containerName :: string
  provider :: string
  clientName :: string
  ac_requestIDs :: "int list"
  startedAt :: string
  endedAt :: string
  turnCount :: nat
  systemPrompt :: "string option"
  systemPromptSummary :: "string option"
  parentConvID :: "string option"
  lastTurnHasResponse :: bool
  ac_metadata :: "(string \<times> int) list"
  linkedSubagents :: "linkedSubagent list"
  incomplete :: bool
  incompleteReason :: "string option"
  turns :: "assembledTurn list"

definition make_turn ::
  "transactionEntry list \<Rightarrow> (nat \<Rightarrow> transactionEntry list) \<Rightarrow> nat \<Rightarrow> assembledTurn \<Rightarrow> assembledTurn" where
  "make_turn entries turnEntryMap i rnd =
     (let turnReqs = turnEntryMap (i + 1);
          turn = rnd\<lparr>turnNumber := i + 1, requestIDs := map txnID turnReqs\<rparr>
      in if turnReqs \<noteq> [] then
           turn\<lparr>at_timestamp := Some (te_timestamp (hd turnReqs)), at_timestampEnd := Some (te_timestamp (last turnReqs)),
                at_durationMs := Some (sum_list (map te_durationMs turnReqs)), at_model := Some (te_model (hd turnReqs))\<rparr>
         else if i < length entries then
           turn\<lparr>at_timestamp := Some (te_timestamp (entries ! i)), at_durationMs := Some (te_durationMs (entries ! i)),
                at_model := Some (te_model (entries ! i))\<rparr>
         else turn)"

definition system_prompt :: "SystemBlock list \<Rightarrow> string option" where
  "system_prompt blocks =
     (let parts = filter (\<lambda>t. t \<noteq> []) (map sb_Text blocks) in
      if parts = [] then None else Some (Join ([CHR 0x0A, CHR 0x0A] @ ''---'' @ [CHR 0x0A, CHR 0x0A]) parts))"

text \<open>
  The last response that the messages do not have yet, from the newest transaction backwards; \<^verbatim>\<open>existing\<close> are the texts of the last turn,
  compared by their first 200 bytes. A transaction without a result would be a nil dereference.
\<close>

definition sse_call :: "ToolCall \<Rightarrow> step_call" where
  "sse_call tc =
     \<lparr>sc_tool = tc_Tool tc, sc_input_preview = tc_InputPreview tc, sc_tool_summary = nonempty (tc_ToolSummary tc), sc_tool_use_id = None,
      sc_result = None, sc_linked = None\<rparr>"

fun recover_response :: "string set \<Rightarrow> transactionEntry list \<Rightarrow> step list go" where
  "recover_response existing [] = Ok []"
| "recover_response existing (e # es) =
     (case te_result e of
        None \<Rightarrow> Panic
      | Some r \<Rightarrow>
          (case xr_SSEResponse r of
             None \<Rightarrow> recover_response existing es
           | Some sse \<Rightarrow>
               if sse_Text sse \<noteq> [] \<and> take 200 (sse_Text sse) \<in> existing then recover_response existing es
               else Ok [\<lparr>st_thinking = nonempty (sse_Thinking sse), st_text = nonempty (sse_Text sse),
                         st_calls = map sse_call (sse_ToolCalls sse)\<rparr>]))"

definition existing_texts :: "step list \<Rightarrow> string set" where
  "existing_texts sts = {take 200 t | t s. s \<in> set sts \<and> st_text s = Some t \<and> t \<noteq> []}"

definition recover_last :: "transactionEntry list \<Rightarrow> assembledTurn list \<Rightarrow> assembledTurn list go" where
  "recover_last entries ts =
     (if ts = [] \<or> isIncrementalWSSession entries then Ok ts
      else gbind (recover_response (existing_texts (steps (last ts))) (rev entries))
             (\<lambda>new. Ok (butlast ts @ [(last ts)\<lparr>steps := steps (last ts) @ new\<rparr>])))"

definition parent_of :: "string \<Rightarrow> string option" where
  "parent_of sessionID = (if CHR ''/'' \<in> set sessionID then Some (''session_'' @ hd (SplitN2 (CHR ''/'') sessionID)) else None)"

definition base_conversation :: "asm_env \<Rightarrow> string \<Rightarrow> transactionEntry list \<Rightarrow> assembledConversation" where
  "base_conversation env sessionID entries =
     (let prov = detectProvider entries in
      \<lparr>conversationID = ''session_'' @ sessionID, ac_model = [], ac_containerName = te_containerName (hd entries), provider = prov,
       clientName = inferClientName env prov entries, ac_requestIDs = map txnID entries, startedAt = te_timestamp (hd entries),
       endedAt = te_timestamp (last entries), turnCount = 0, systemPrompt = None, systemPromptSummary = None, parentConvID = None,
       lastTurnHasResponse = False, ac_metadata = [], linkedSubagents = [], incomplete = False, incompleteReason = None, turns = []\<rparr>)"

definition incomplete_conversation :: "transactionEntry list \<Rightarrow> assembledConversation \<Rightarrow> assembledConversation" where
  "incomplete_conversation entries conv =
     conv\<lparr>ac_model := te_model (hd entries), incomplete := True,
          incompleteReason := Some ''All request bodies truncated; cannot parse messages'',
          ac_metadata := [(''total_requests'', int (length entries)), (''truncated_requests'', int (length entries)), (''parseable_requests'', 0)]\<rparr>"

definition complete_conversation ::
  "string \<Rightarrow> transactionEntry list \<Rightarrow> transactionEntry \<Rightarrow> ExtractionResult \<Rightarrow> assembledConversation \<Rightarrow> assembledConversation go" where
  "complete_conversation sessionID entries bestEntry best conv =
     (let scaffolding = ScaffoldingForClient (clientName conv);
          messages = (if isIncrementalWSSession entries then aggregateWSMessages entries else xr_Messages best);
          rounds = buildRoundsFromMessages messages scaffolding;
          reqs = mapRequestsToTurns entries (length rounds) scaffolding;
          ts = map (\<lambda>(i, rnd). make_turn entries reqs i rnd) (enumerate 0 rounds);
          sp = system_prompt (xr_SystemBlocks best)
      in gbind (recover_last entries ts) (\<lambda>ts'. Ok (conv\<lparr>
           ac_model := te_model bestEntry, turnCount := length rounds, turns := ts', systemPrompt := sp,
           systemPromptSummary := (case sp of None \<Rightarrow> None | Some p \<Rightarrow> if length p > 100 then Some (ellipsis p) else None),
           lastTurnHasResponse := (ts' \<noteq> [] \<and> list_ex (\<lambda>s. st_text s \<noteq> None) (steps (last ts'))),
           parentConvID := parent_of sessionID,
           ac_metadata := [(''total_requests'', int (length entries)), (''truncated_requests'', int (length (filter (\<lambda>e. \<not> has_body e) entries))),
             (''parseable_requests'', int (length (filter has_body entries))), (''messages_in_best_request'', xr_MessageCount best),
             (''best_request_id'', txnID bestEntry)]\<rparr>)))"

text \<open>The best entry is the last one with messages. Without transactions the first index panics.\<close>

definition assembleConversation :: "asm_env \<Rightarrow> string \<Rightarrow> transactionEntry list \<Rightarrow> assembledConversation go" where
  "assembleConversation env sessionID entries0 =
     (let entries = sort_entries env entry_less entries0 in
      if entries = [] then Panic
      else (let conv = base_conversation env sessionID entries in
        case List.find has_messages (rev entries) of
          None \<Rightarrow> Ok (incomplete_conversation entries conv)
        | Some bestEntry \<Rightarrow>
            (case te_result bestEntry of
               None \<Rightarrow> Panic
             | Some best \<Rightarrow> complete_conversation sessionID entries bestEntry best conv)))"

section \<open>Links to subagents\<close>

definition is_sub :: "assembledConversation \<Rightarrow> bool" where
  "is_sub conv \<longleftrightarrow> CHR ''/'' \<in> set (conversationID conv)"

definition subs_of :: "assembledConversation list \<Rightarrow> string \<Rightarrow> assembledConversation list" where
  "subs_of allConvs base = filter (\<lambda>c. is_sub c \<and> hd (SplitN2 (CHR ''/'') (conversationID c)) = base) allConvs"

definition linked_summary :: "assembledConversation \<Rightarrow> linkedSubagent" where
  "linked_summary s =
     \<lparr>ls_conversation_id = conversationID s, ls_turn_count = turnCount s, ls_started_at = startedAt s, ls_ended_at = endedAt s,
      ls_first_prompt = (case turns s of [] \<Rightarrow> None | t # _ \<Rightarrow> map_option (\<lambda>p. if length p > 200 then truncateUTF8 p 200 else p) (userPrompt t))\<rparr>"

definition agentTools :: "string set" where
  "agentTools = {''Agent'', ''task'', ''spawn_agent''} \<union> (\<Union>a \<in> set clientAdapters. set (AgentToolNames a))"

text \<open>Each call of an agent tool gets the next subagent, as long as there is one.\<close>

fun link_calls :: "string list \<Rightarrow> step_call list \<Rightarrow> step_call list \<times> string list" where
  "link_calls subs [] = ([], subs)"
| "link_calls subs (c # cs) =
     (case subs of
        s # rest \<Rightarrow>
          if sc_tool c \<in> agentTools then (let (cs', subs') = link_calls rest cs in (c\<lparr>sc_linked := Some s\<rparr> # cs', subs'))
          else (let (cs', subs') = link_calls subs cs in (c # cs', subs'))
      | [] \<Rightarrow> (c # cs, []))"

fun link_steps :: "string list \<Rightarrow> step list \<Rightarrow> step list \<times> string list" where
  "link_steps subs [] = ([], subs)"
| "link_steps subs (s # ss) =
     (let (cs, subs1) = link_calls subs (st_calls s); (ss', subs2) = link_steps subs1 ss in (s\<lparr>st_calls := cs\<rparr> # ss', subs2))"

fun link_turns :: "string list \<Rightarrow> assembledTurn list \<Rightarrow> assembledTurn list \<times> string list" where
  "link_turns subs [] = ([], subs)"
| "link_turns subs (t # ts) =
     (let (ss, subs1) = link_steps subs (steps t); (ts', subs2) = link_turns subs1 ts in (t\<lparr>steps := ss\<rparr> # ts', subs2))"

definition linkSubagentConversations :: "assembledConversation list \<Rightarrow> assembledConversation list" where
  "linkSubagentConversations allConvs = map (\<lambda>conv.
     let subs = subs_of allConvs (conversationID conv) in
     if is_sub conv \<or> subs = [] then conv
     else conv\<lparr>linkedSubagents := map linked_summary subs, turns := fst (link_turns (map conversationID subs) (turns conv))\<rparr>) allConvs"

section \<open>Rounds follow the messages\<close>

text \<open>The specification: every prompt with the messages up to the next one.\<close>

fun round_bodies :: "('a \<Rightarrow> bool) \<Rightarrow> 'a list \<Rightarrow> ('a \<times> 'a list) list" where
  "round_bodies prompt [] = []"
| "round_bodies prompt (m # ms) =
     (if prompt m then (m, takeWhile (\<lambda>x. \<not> prompt x) ms) # round_bodies prompt ms else round_bodies prompt ms)"

definition index_list :: "('a \<Rightarrow> bool) \<Rightarrow> 'a list \<Rightarrow> nat list" where
  "index_list prompt ms = filter (\<lambda>i. prompt (ms ! i)) [0..<length ms]"

definition segment :: "'a list \<Rightarrow> nat list \<Rightarrow> nat \<Rightarrow> 'a \<times> 'a list" where
  "segment ms idxs ri =
     (let startIdx = idxs ! ri; endIdx = (if ri + 1 < length idxs then idxs ! (ri + 1) else length ms)
      in (ms ! startIdx, take (endIdx - (startIdx + 1)) (drop (startIdx + 1) ms)))"

lemma index_list_Cons: "index_list prompt (m # ms) = (if prompt m then [0] else []) @ map Suc (index_list prompt ms)"
proof -
  have "[0..<length (m # ms)] = 0 # map Suc [0..<length ms]" by (simp add: map_Suc_upt upt_conv_Cons del: upt_Suc)
  then show ?thesis by (simp only: index_list_def) (simp add: filter_map comp_def)
qed

lemma segment_Suc: "ri < length idxs \<Longrightarrow> segment (m # ms) (map Suc idxs) ri = segment ms idxs ri"
  by (simp add: segment_def Let_def)

lemma segment_Cons_Suc: "ri < length idxs \<Longrightarrow> segment (m # ms) (0 # map Suc idxs) (Suc ri) = segment ms idxs ri"
  by (simp add: segment_def Let_def)

lemma first_index:
  "takeWhile (\<lambda>x. \<not> prompt x) ms = take (if index_list prompt ms = [] then length ms else hd (index_list prompt ms)) ms"
  by (induction ms) (auto simp: index_list_Cons index_list_def [of _ "[]"] hd_append hd_map split: if_splits)

lemma segment_0: "segment (m # ms) (0 # map Suc (index_list prompt ms)) 0 = (m, takeWhile (\<lambda>x. \<not> prompt x) ms)"
  unfolding first_index by (cases "index_list prompt ms") (simp_all add: segment_def)

lemma segments_bodies: "map (segment ms (index_list prompt ms)) [0..<length (index_list prompt ms)] = round_bodies prompt ms"
proof (induction ms)
  case (Cons m ms)
  let ?i = "index_list prompt ms"
  show ?case
  proof (cases "prompt m")
    case False
    then have "map (segment (m # ms) (index_list prompt (m # ms))) [0..<length (index_list prompt (m # ms))] =
        map (segment ms ?i) [0..<length ?i]"
      by (simp add: index_list_Cons segment_Suc)
    with False Cons show ?thesis by simp
  next
    case True
    have "map (segment (m # ms) (0 # map Suc ?i)) [0..<Suc (length ?i)] =
        segment (m # ms) (0 # map Suc ?i) 0 # map (\<lambda>ri. segment (m # ms) (0 # map Suc ?i) (Suc ri)) [0..<length ?i]"
      by (simp add: map_upt_Suc del: upt_Suc)
    also have "\<dots> = (m, takeWhile (\<lambda>x. \<not> prompt x) ms) # map (segment ms ?i) [0..<length ?i]"
      by (simp add: segment_0 segment_Cons_Suc)
    finally show ?thesis using True Cons by (simp add: index_list_Cons)
  qed
qed (simp add: index_list_def)

lemma bodies_concat: "concat (map (\<lambda>(p, b). p # b) (round_bodies prompt ms)) = dropWhile (\<lambda>x. \<not> prompt x) ms"
proof (induction ms)
  case (Cons m ms)
  then show ?case using takeWhile_dropWhile_id [of "\<lambda>x. \<not> prompt x" ms] by simp
qed simp

section \<open>Steps of a round\<close>

lemma map_update_same: "f y = f (xs ! k) \<Longrightarrow> map f (xs[k := y]) = map f xs"
  by (cases "k < length xs") (simp_all add: map_update list_update_same_conv list_update_beyond)

lemma set_result_texts: "map st_text (set_result p sts r) = map st_text sts" "length (set_result p sts r) = length sts"
proof -
  show l: "length (set_result p sts r) = length sts" by (auto simp: set_result_def split: prod.splits option.splits)
  show "map st_text (set_result p sts r) = map st_text sts"
    by (auto simp: set_result_def map_update_same split: prod.splits option.splits)
qed

lemma set_results_texts: "map st_text (foldl (set_result p) sts rs) = map st_text sts"
  by (induction rs arbitrary: sts) (simp_all add: set_result_texts)

lemma round_loop_texts:
  "map st_text (fst (round_loop sts p n ms)) = map st_text sts @ map (st_text \<circ> getAssistantSummary) (filter (\<lambda>m. Role m = ''assistant'') ms) \<and>
   snd (round_loop sts p n ms) = n + length (filter (\<lambda>m. Role m = ''assistant'') ms)"
proof (induction ms arbitrary: sts p n)
  case (Cons m ms)
  show ?case using Cons.IH by (simp add: Let_def set_results_texts)
qed simp

text \<open>
  C20. Turns follow the messages. The rounds built from a list of messages are the prompts of the user, each with the messages up to the next prompt, and
  together these are all the messages from the first prompt on: the turn shows the cleaned text of its prompt, its steps are the
  messages of the assistant in order with their texts, and it counts one call for each.
\<close>

theorem rounds_follow_messages:
  "map (\<lambda>r. (turnNumber r, userPrompt r, map st_text (steps r), apiCallsInTurn r)) (buildRoundsFromMessages messages scaffolding) =
     map (\<lambda>(i, p, body). (i, GetUserText scaffolding p, map (st_text \<circ> getAssistantSummary) (filter (\<lambda>m. Role m = ''assistant'') body),
            length (filter (\<lambda>m. Role m = ''assistant'') body)))
       (enumerate 1 (round_bodies (is_prompt scaffolding) messages)) \<and>
   concat (map (\<lambda>(p, body). p # body) (round_bodies (is_prompt scaffolding) messages)) = dropWhile (\<lambda>m. \<not> is_prompt scaffolding m) messages"
proof
  let ?i = "promptIndices scaffolding messages" and ?b = "round_bodies (is_prompt scaffolding) messages"
  have i: "?i = index_list (is_prompt scaffolding) messages" by (simp add: promptIndices_def index_list_def)
  have b: "?b = map (segment messages ?i) [0..<length ?i]" unfolding i by (rule segments_bodies [symmetric])
  have r: "(turnNumber (build_round scaffolding messages ?i ri), userPrompt (build_round scaffolding messages ?i ri),
      map st_text (steps (build_round scaffolding messages ?i ri)), apiCallsInTurn (build_round scaffolding messages ?i ri)) =
    (case segment messages ?i ri of (p, body) \<Rightarrow> (Suc ri, GetUserText scaffolding p,
      map (st_text \<circ> getAssistantSummary) (filter (\<lambda>m. Role m = ''assistant'') body), length (filter (\<lambda>m. Role m = ''assistant'') body)))" for ri
    using round_loop_texts [of "[]" "\<lambda>_. None" 0] by (simp add: build_round_def segment_def Let_def split_def)
  have e: "enumerate 1 (map f [0..<n]) = map (\<lambda>ri. (Suc ri, f ri)) [0..<n]" for f :: "nat \<Rightarrow> Message \<times> Message list" and n
    by (rule nth_equalityI) (simp_all add: nth_enumerate_eq)
  show "map (\<lambda>r. (turnNumber r, userPrompt r, map st_text (steps r), apiCallsInTurn r)) (buildRoundsFromMessages messages scaffolding) =
     map (\<lambda>(i, p, body). (i, GetUserText scaffolding p, map (st_text \<circ> getAssistantSummary) (filter (\<lambda>m. Role m = ''assistant'') body),
            length (filter (\<lambda>m. Role m = ''assistant'') body))) (enumerate 1 ?b)"
    unfolding b e buildRoundsFromMessages_def Let_def map_map by (intro map_cong refl) (simp add: r split_def)
  show "concat (map (\<lambda>(p, body). p # body) ?b) = dropWhile (\<lambda>m. \<not> is_prompt scaffolding m) messages"
    by (rule bodies_concat)
qed

section \<open>Truncation\<close>

text \<open>A UTF-8 encoded character: a byte that is not a continuation, and continuations.\<close>

definition is_rune :: "string \<Rightarrow> bool" where
  "is_rune r \<longleftrightarrow> r \<noteq> [] \<and> \<not> is_continuation (hd r) \<and> list_all is_continuation (tl r)"

lemma cut_back_eq:
  assumes "b \<le> n" "n < length s" "\<And>j. b < j \<Longrightarrow> j \<le> n \<Longrightarrow> is_continuation (s ! j)" "\<not> is_continuation (s ! b)"
  shows "cut_back s n = b"
  using assms
proof (induction n)
  case (Suc n)
  then show ?case by (cases "b = Suc n") auto
qed simp

lemma rune_position:
  "n < length (concat rs) \<Longrightarrow> \<exists>k < length rs. length (concat (take k rs)) \<le> n \<and> n < length (concat (take (Suc k) rs))"
proof (induction rs arbitrary: n)
  case (Cons r rs)
  show ?case
  proof (cases "n < length r")
    case True
    then show ?thesis by (intro exI [of _ 0]) simp
  next
    case False
    then have "n - length r < length (concat rs)" using Cons.prems by (simp add: less_diff_conv2 add.commute)
    from Cons.IH [OF this] obtain k where "k < length rs" "length (concat (take k rs)) \<le> n - length r"
      "n - length r < length (concat (take (Suc k) rs))" by blast
    with False show ?thesis by (intro exI [of _ "Suc k"]) auto
  qed
qed simp

text \<open>
  Truncation keeps whole characters. The truncation of a UTF-8 text to a number of bytes is the longest sequence of its first characters that
  fits: it never exceeds the number, never splits a character, and the next character would not have fitted.
\<close>

theorem truncation_keeps_characters:
  assumes "list_all is_rune rs"
  shows "\<exists>k \<le> length rs. truncateUTF8 (concat rs) n = concat (take k rs) \<and> length (truncateUTF8 (concat rs) n) \<le> n \<and>
    (k = length rs \<or> n < length (concat (take (Suc k) rs)))"
proof (cases "length (concat rs) \<le> n")
  case True
  then show ?thesis by (intro exI [of _ "length rs"]) (simp add: truncateUTF8_def)
next
  case False
  let ?s = "concat rs"
  obtain k where k: "k < length rs" "length (concat (take k rs)) \<le> n" "n < length (concat (take (Suc k) rs))"
    using rune_position [of n rs] False by (auto simp: not_le)
  let ?b = "length (concat (take k rs))" and ?r = "rs ! k"
  have r: "is_rune ?r" using assms k(1) by (simp add: list_all_length)
  have split: "?s = concat (take k rs) @ ?r @ concat (drop (Suc k) rs)"
    using arg_cong [OF id_take_nth_drop [OF k(1)], of concat] by simp
  have n: "n < ?b + length ?r" using k(1,3) by (simp add: take_Suc_conv_app_nth)
  have at: "?s ! (?b + j) = ?r ! j" if "j < length ?r" for j
    using that by (subst split) (simp add: nth_append)
  have "cut_back ?s n = ?b"
  proof (rule cut_back_eq)
    show "is_continuation (?s ! j)" if j: "?b < j" "j \<le> n" for j
    proof -
      obtain i where i: "j = ?b + Suc i" using j(1) by (metis add_Suc_right less_imp_Suc_add)
      with j n have "i < length (tl ?r)" by auto
      then have "is_continuation (tl ?r ! i)" using r by (simp add: is_rune_def list_all_length)
      with at [of "Suc i"] i j(2) n \<open>i < length (tl ?r)\<close> show ?thesis by (simp add: nth_tl)
    qed
    show "\<not> is_continuation (?s ! ?b)" using at [of 0] r by (auto simp: is_rune_def hd_conv_nth)
  qed (use k(2) False in auto)
  moreover have "take ?b ?s = concat (take k rs)" by (subst split) simp
  ultimately show ?thesis using k False by (intro exI [of _ k]) (simp add: truncateUTF8_def)
qed

section \<open>Requests and turns\<close>

lemma fill_gaps_length [simp]: "length (fill_gaps n p vs) = length vs"
  by (induction n p vs rule: fill_gaps.induct) (simp_all add: Let_def)

lemma image_mset_sum_list: "sum_list (map (\<lambda>n. image_mset f (g n)) ns) = image_mset f (sum_list (map g ns))"
  by (induction ns) simp_all

lemma mset_concat_sum: "mset (concat xss) = sum_list (map mset xss)"
  by (induction xss) simp_all

lemma turn_requests:
  "mset (concat (map (mapRequestsToTurns entries k cfg) [1..<Suc k])) \<subseteq># mset entries"
proof -
  let ?z = "zip entries (entry_turns entries k cfg)"
  have m: "mapRequestsToTurns entries k cfg n = map fst (filter (\<lambda>p. snd p = n \<and> True) ?z)" if "n \<in> set [1..<Suc k]" for n
    using that by (auto simp: mapRequestsToTurns_def split_def)
  have "mset (concat (map (mapRequestsToTurns entries k cfg) [1..<Suc k])) =
      sum_list (map (\<lambda>n. image_mset fst (mset (filter (\<lambda>p. snd p = n \<and> True) ?z))) [1..<Suc k])"
    unfolding mset_concat_sum map_map by (intro arg_cong [of _ _ sum_list] map_cong) (auto simp only: m comp_def mset_map)
  also have "\<dots> = image_mset fst (sum_list (map (\<lambda>n. mset (filter (\<lambda>p. snd p = n \<and> True) ?z)) [1..<Suc k]))"
    by (simp only: image_mset_sum_list)
  also have "\<dots> = image_mset fst (mset (filter (\<lambda>p. snd p \<in> set [1..<Suc k] \<and> True) ?z))"
    by (simp only: sum_filters [OF distinct_upt, of snd "\<lambda>_. True" ?z])
  also have "\<dots> \<subseteq># image_mset fst (mset ?z)" by (intro image_mset_subseteq_mono) simp
  also have "image_mset fst (mset ?z) = mset entries"
    by (simp add: entry_turns_def flip: mset_map)
  finally show ?thesis .
qed

lemma recover_response_Ok: "\<forall>e \<in> set es. te_result e \<noteq> None \<Longrightarrow> \<exists>r. recover_response existing es = Ok r"
  by (induction es) (auto split: option.splits)

lemma gbind_Ok: "gbind m f = Ok x \<longleftrightarrow> (\<exists>a. m = Ok a \<and> f a = Ok x)"
  by (cases m) simp_all

lemma recover_last_Ok:
  assumes "recover_last entries ts = Ok ts'"
  shows "map turnNumber ts' = map turnNumber ts \<and> map requestIDs ts' = map requestIDs ts \<and> length ts' = length ts"
proof (cases ts rule: rev_cases)
  case (snoc xs x)
  with assms show ?thesis by (auto simp: recover_last_def gbind_Ok split: if_splits)
qed (use assms in \<open>simp add: recover_last_def\<close>)

lemma make_turn_fields:
  "turnNumber (make_turn entries reqs i rnd) = i + 1" "requestIDs (make_turn entries reqs i rnd) = map txnID (reqs (i + 1))"
  by (simp_all add: make_turn_def Let_def)

lemma made_turns:
  "map turnNumber (map (\<lambda>(i, rnd). make_turn entries reqs i rnd) (enumerate 0 rounds)) = [1..<Suc (length rounds)]"
  "concat (map requestIDs (map (\<lambda>(i, rnd). make_turn entries reqs i rnd) (enumerate 0 rounds))) = map txnID (concat (map reqs [1..<Suc (length rounds)]))"
proof -
  show "map turnNumber (map (\<lambda>(i, rnd). make_turn entries reqs i rnd) (enumerate 0 rounds)) = [1..<Suc (length rounds)]"
    by (rule nth_equalityI) (simp_all add: nth_enumerate_eq make_turn_fields del: upt_Suc)
  have "map requestIDs (map (\<lambda>(i, rnd). make_turn entries reqs i rnd) (enumerate 0 rounds)) = map (\<lambda>n. map txnID (reqs n)) [1..<Suc (length rounds)]"
    by (rule nth_equalityI) (simp_all add: nth_enumerate_eq make_turn_fields del: upt_Suc)
  then show "concat (map requestIDs (map (\<lambda>(i, rnd). make_turn entries reqs i rnd) (enumerate 0 rounds))) = map txnID (concat (map reqs [1..<Suc (length rounds)]))"
    by (simp only: map_concat map_map comp_def)
qed

text \<open>A conversation is well formed: its turns are numbered in order and no request is in two of them.\<close>

definition turns_ok :: "assembledConversation \<Rightarrow> bool" where
  "turns_ok conv \<longleftrightarrow> map turnNumber (turns conv) = [1..<Suc (turnCount conv)] \<and>
     mset (concat (map requestIDs (turns conv))) \<subseteq># mset (ac_requestIDs conv)"

lemma complete_conversation_turns:
  assumes "complete_conversation sid entries be best conv0 = Ok conv" "ac_requestIDs conv0 = map txnID entries"
  shows "turns_ok conv \<and> ac_requestIDs conv = map txnID entries \<and> conversationID conv = conversationID conv0"
proof -
  define cfg where "cfg = ScaffoldingForClient (clientName conv0)"
  define rounds where "rounds = buildRoundsFromMessages (if isIncrementalWSSession entries then aggregateWSMessages entries else xr_Messages best) cfg"
  define ts where "ts = map (\<lambda>(i, rnd). make_turn entries (mapRequestsToTurns entries (length rounds) cfg) i rnd) (enumerate 0 rounds)"
  obtain ts' where t: "recover_last entries ts = Ok ts'" "turns conv = ts'" "turnCount conv = length rounds"
      "ac_requestIDs conv = ac_requestIDs conv0" "conversationID conv = conversationID conv0"
    using assms(1) unfolding complete_conversation_def Let_def gbind_Ok cfg_def [symmetric] rounds_def [symmetric] ts_def [symmetric] by auto
  note r = recover_last_Ok [OF t(1)] and m = made_turns [of entries "mapRequestsToTurns entries (length rounds) cfg" rounds, folded ts_def]
  have "mset (concat (map requestIDs ts')) = image_mset txnID (mset (concat (map (mapRequestsToTurns entries (length rounds) cfg) [1..<Suc (length rounds)])))"
    using r m(2) by (simp del: upt_Suc)
  moreover have "\<dots> \<subseteq># image_mset txnID (mset entries)" by (intro image_mset_subseteq_mono turn_requests)
  ultimately show ?thesis using r m(1) t(2-5) assms(2) by (simp add: turns_ok_def del: upt_Suc)
qed

lemma assembleConversation_turns:
  assumes "assembleConversation env sid entries = Ok conv" "mset (sort_entries env entry_less entries) = mset entries"
  shows "turns_ok conv \<and> mset (ac_requestIDs conv) = image_mset txnID (mset entries) \<and> conversationID conv = ''session_'' @ sid"
proof -
  let ?es = "sort_entries env entry_less entries"
  have b: "ac_requestIDs (base_conversation env sid ?es) = map txnID ?es" "conversationID (base_conversation env sid ?es) = ''session_'' @ sid"
    by (simp_all add: base_conversation_def Let_def)
  have "turns_ok conv \<and> ac_requestIDs conv = map txnID ?es \<and> conversationID conv = ''session_'' @ sid"
  proof (cases "List.find has_messages (rev ?es)")
    case None
    then have "conv = incomplete_conversation ?es (base_conversation env sid ?es)"
      using assms(1) by (simp add: assembleConversation_def Let_def split: if_splits)
    then show ?thesis by (simp add: turns_ok_def incomplete_conversation_def base_conversation_def Let_def)
  next
    case (Some be)
    then obtain best where "complete_conversation sid ?es be best (base_conversation env sid ?es) = Ok conv"
      using assms(1) by (auto simp: assembleConversation_def Let_def split: if_splits option.splits)
    from complete_conversation_turns [OF this b(1)] b(2) show ?thesis by simp
  qed
  then show ?thesis using assms(2) by (metis mset_map)
qed

lemma assembleConversation_Ok:
  assumes "mset (sort_entries env entry_less entries) = mset entries" "entries \<noteq> []" "\<forall>e \<in> set entries. te_result e \<noteq> None"
  shows "\<exists>conv. assembleConversation env sid entries = Ok conv"
proof -
  let ?es = "sort_entries env entry_less entries"
  have es: "?es \<noteq> []" "set ?es = set entries" using assms(1,2) by (metis mset_zero_iff, metis set_mset_mset)
  have rec: "\<exists>ts'. recover_last ?es ts = Ok ts'" for ts
    using recover_response_Ok [of "rev ?es"] assms(3) es(2) by (fastforce simp: recover_last_def gbind_Ok)
  show ?thesis
  proof (cases "List.find has_messages (rev ?es)")
    case None
    then show ?thesis using es(1) by (simp add: assembleConversation_def Let_def)
  next
    case (Some be)
    then have "be \<in> set (rev ?es)" by (auto simp: find_Some_iff simp del: set_rev intro: nth_mem)
    then have "be \<in> set ?es" by simp
    then obtain best where best: "te_result be = Some best" using assms(3) es(2) by auto
    have "\<exists>conv. complete_conversation sid ?es be best c0 = Ok conv" for c0
      using rec unfolding complete_conversation_def Let_def gbind_Ok by blast
    then show ?thesis using es(1) Some best by (simp add: assembleConversation_def Let_def)
  qed
qed

section \<open>Links\<close>

definition agent_calls :: "assembledTurn list \<Rightarrow> step_call list" where
  "agent_calls ts = filter (\<lambda>c. sc_tool c \<in> agentTools) (concat (map st_calls (concat (map steps ts))))"

text \<open>The calls \<open>A\<close> become \<open>A'\<close>: the first of them get the subagents in order, and \<open>rest\<close> are the subagents left.\<close>

definition linked_as :: "string list \<Rightarrow> step_call list \<Rightarrow> step_call list \<Rightarrow> string list \<Rightarrow> bool" where
  "linked_as subs A A' rest \<longleftrightarrow>
     map sc_linked A' = map Some (take (length A) subs) @ map sc_linked (drop (length subs) A) \<and> rest = drop (length A) subs"

lemma linked_as_append:
  assumes "linked_as subs A A' mid" "linked_as mid B B' rest"
  shows "linked_as subs (A @ B) (A' @ B') rest"
proof (cases "length A \<le> length subs")
  case True
  then show ?thesis using assms by (auto simp: linked_as_def take_add add.commute)
next
  case False
  then show ?thesis using assms by (auto simp: linked_as_def)
qed

lemma linked_as_Nil [simp]: "linked_as subs [] [] subs"
  by (simp add: linked_as_def)

abbreviation agents :: "step_call list \<Rightarrow> step_call list" where
  "agents cs \<equiv> filter (\<lambda>c. sc_tool c \<in> agentTools) cs"

lemma link_calls_spec: "link_calls subs cs = (cs', rest) \<Longrightarrow> linked_as subs (agents cs) (agents cs') rest"
proof (induction subs cs arbitrary: cs' rest rule: link_calls.induct)
  case (2 subs c cs)
  show ?case
  proof (cases subs)
    case Nil
    with 2(3) show ?thesis by (auto simp: linked_as_def)
  next
    case (Cons s ss)
    show ?thesis
    proof (cases "sc_tool c \<in> agentTools")
      case True
      obtain cs1 where c: "link_calls ss cs = (cs1, rest)" "cs' = c\<lparr>sc_linked := Some s\<rparr> # cs1" using 2(3) Cons True by (auto split: prod.splits)
      from 2(1) [OF Cons True c(1)] c(2) Cons True show ?thesis by (simp add: linked_as_def)
    next
      case False
      obtain cs1 where c: "link_calls subs cs = (cs1, rest)" "cs' = c # cs1" using 2(3) Cons False by (auto split: prod.splits)
      from 2(2) [OF Cons False] c Cons False show ?thesis by simp
    qed
  qed
qed simp

lemma link_steps_spec:
  "link_steps subs ss = (ss', rest) \<Longrightarrow> linked_as subs (agents (concat (map st_calls ss))) (agents (concat (map st_calls ss'))) rest"
proof (induction subs ss arbitrary: ss' rest rule: link_steps.induct)
  case (2 subs s ss)
  obtain cs mid ss1 where c: "link_calls subs (st_calls s) = (cs, mid)" "link_steps mid ss = (ss1, rest)" "ss' = s\<lparr>st_calls := cs\<rparr> # ss1"
    using 2(2) by (auto split: prod.splits)
  have "linked_as mid (agents (concat (map st_calls ss))) (agents (concat (map st_calls ss1))) rest"
    using 2(1) c(1,2) by (metis (no_types))
  from linked_as_append [OF link_calls_spec [OF c(1)] this] show ?case using c(3) by simp
qed simp

lemma link_turns_spec: "link_turns subs ts = (ts', rest) \<Longrightarrow> linked_as subs (agent_calls ts) (agent_calls ts') rest"
proof (induction subs ts arbitrary: ts' rest rule: link_turns.induct)
  case (2 subs t ts)
  obtain ss mid ts1 where c: "link_steps subs (steps t) = (ss, mid)" "link_turns mid ts = (ts1, rest)" "ts' = t\<lparr>steps := ss\<rparr> # ts1"
    using 2(2) by (auto split: prod.splits)
  have "linked_as mid (agent_calls ts) (agent_calls ts1) rest" using 2(1) c(1,2) by (metis (no_types))
  from linked_as_append [OF link_steps_spec [OF c(1)] this [unfolded agent_calls_def]] show ?case using c(3) by (simp add: agent_calls_def)
qed (simp add: agent_calls_def)

lemma link_turns_same: "map turnNumber (fst (link_turns subs ts)) = map turnNumber ts" "map requestIDs (fst (link_turns subs ts)) = map requestIDs ts"
  by (induction subs ts rule: link_turns.induct) (auto split: prod.splits)


end
