(* ===== verification/ConversationStore.thy ===== *)
theory ConversationStore
  imports Assembly
begin

text \<open>
  The run of the assembler over the archive: \<^verbatim>\<open>processNewTransactionsLocked\<close>, \<^verbatim>\<open>RebuildAllConversations\<close> and the loaders of
  \<^verbatim>\<open>conversation_assembler.go\<close>, and the tables of \<^verbatim>\<open>conversation_crud.go\<close>. What a dissector extracts from a row is the argument \<open>dissect\<close>; the
  columns that hold JSON keep the value that is encoded. The statements of the database succeed.
\<close>

section \<open>Tables\<close>

record http_row =
  hr_id :: int
  hr_timestamp :: string
  hr_container :: string
  hr_url :: string
  hr_method :: string
  hr_host :: string
  hr_request_body :: string
  hr_duration_ms :: "int option"
  hr_headers :: "http_header option"
  hr_conversation_id :: "string option"

record conv_db =
  http_rows :: "http_row list"
  conversations :: "assembledConversation list"
  turn_rows :: "(string \<times> assembledTurn) list"
  processing_state :: "(string \<times> string) list"
  cascades :: bool

definition GetConversationProcessingState :: "conv_db \<Rightarrow> string \<Rightarrow> string" where
  "GetConversationProcessingState db key = (case map_of (processing_state db) key of None \<Rightarrow> [] | Some v \<Rightarrow> v)"

definition SetConversationProcessingState :: "string \<Rightarrow> string \<Rightarrow> conv_db \<Rightarrow> conv_db" where
  "SetConversationProcessingState key value db = db\<lparr>processing_state := AList.update key value (processing_state db)\<rparr>"

text \<open>An empty string is stored as a missing value.\<close>

definition nullStrPtr :: "string option \<Rightarrow> string option" where
  "nullStrPtr s = (if s = Some [] then None else s)"

definition conversation_row :: "assembledConversation \<Rightarrow> assembledConversation" where
  "conversation_row c =
     c\<lparr>systemPrompt := nullStrPtr (systemPrompt c), systemPromptSummary := nullStrPtr (systemPromptSummary c),
       parentConvID := nullStrPtr (parentConvID c), incompleteReason := nullStrPtr (incompleteReason c), turns := []\<rparr>"

definition turn_row :: "assembledTurn \<Rightarrow> assembledTurn" where
  "turn_row t =
     t\<lparr>userPrompt := nullStrPtr (userPrompt t), at_timestamp := nullStrPtr (at_timestamp t),
       at_timestampEnd := nullStrPtr (at_timestampEnd t), at_model := nullStrPtr (at_model t)\<rparr>"

text \<open>\<^verbatim>\<open>INSERT OR REPLACE\<close>: the old row with the id goes, and its turns with it where the driver enforces foreign keys.\<close>

definition UpsertConversation :: "assembledConversation \<Rightarrow> conv_db \<Rightarrow> conv_db" where
  "UpsertConversation conv db =
     db\<lparr>conversations := filter (\<lambda>c. conversationID c \<noteq> conversationID conv) (conversations db) @ [conversation_row conv],
        turn_rows := if cascades db then filter (\<lambda>(c, t). c \<noteq> conversationID conv) (turn_rows db) else turn_rows db\<rparr>"

definition UpsertTurns :: "string \<Rightarrow> assembledTurn list \<Rightarrow> conv_db \<Rightarrow> conv_db" where
  "UpsertTurns cid ts db = db\<lparr>turn_rows := filter (\<lambda>(c, t). c \<noteq> cid) (turn_rows db) @ map (\<lambda>t. (cid, turn_row t)) ts\<rparr>"

definition UpdateTransactionConversationID :: "string \<Rightarrow> conv_db \<Rightarrow> int \<Rightarrow> conv_db" where
  "UpdateTransactionConversationID cid db i =
     db\<lparr>http_rows := map (\<lambda>r. if hr_id r = i then r\<lparr>hr_conversation_id := Some cid\<rparr> else r) (http_rows db)\<rparr>"

definition DeleteAllConversations :: "conv_db \<Rightarrow> conv_db" where
  "DeleteAllConversations db =
     db\<lparr>turn_rows := [], conversations := [], http_rows := map (\<lambda>r. r\<lparr>hr_conversation_id := None\<rparr>) (http_rows db)\<rparr>"

definition GetTransactionsByConversationID :: "conv_db \<Rightarrow> string \<Rightarrow> int list" where
  "GetTransactionsByConversationID db cid = map hr_id (sort_key hr_id (filter (\<lambda>r. hr_conversation_id r = Some cid) (http_rows db)))"

definition GetConversation :: "conv_db \<Rightarrow> string \<Rightarrow> assembledConversation option" where
  "GetConversation db cid =
     map_option (\<lambda>c. c\<lparr>turns := sort_key turnNumber (map snd (filter (\<lambda>(c', t). c' = cid) (turn_rows db)))\<rparr>)
       (List.find (\<lambda>c. conversationID c = cid) (conversations db))"

definition upsertConversation :: "conv_db \<Rightarrow> assembledConversation \<Rightarrow> conv_db" where
  "upsertConversation db conv =
     foldl (UpdateTransactionConversationID (conversationID conv))
       (UpsertTurns (conversationID conv) (turns conv) (UpsertConversation conv db)) (ac_requestIDs conv)"

section \<open>Loading\<close>

definition entry_of :: "http_row \<Rightarrow> ExtractionResult \<Rightarrow> transactionEntry" where
  "entry_of row r =
     \<lparr>txnID = hr_id row, te_timestamp = hr_timestamp row, te_containerName = hr_container row, te_url = hr_url row,
      te_sessionID = xr_SessionID r, te_model = xr_Model r, te_msgCount = xr_MessageCount r, te_result = Some r,
      te_durationMs = (case hr_duration_ms row of None \<Rightarrow> 0 | Some d \<Rightarrow> d), te_requestHeaders = hr_headers row\<rparr>"

definition dissected :: "(http_row \<Rightarrow> ExtractionResult option) \<Rightarrow> http_row list \<Rightarrow> transactionEntry list" where
  "dissected dissect rows = List.map_filter (\<lambda>row. map_option (entry_of row) (dissect row)) rows"

definition loadNewTransactions :: "(http_row \<Rightarrow> ExtractionResult option) \<Rightarrow> conv_db \<Rightarrow> int \<Rightarrow> transactionEntry list \<times> int" where
  "loadNewTransactions dissect db sinceID =
     (let rows = filter (\<lambda>r. hr_id r > sinceID) (sort_key hr_id (http_rows db))
      in (assignWSResponseSessions (dissected dissect rows), foldl max sinceID (map hr_id rows)))"

definition escapeLikePattern :: "string \<Rightarrow> string" where
  "escapeLikePattern s =
     ReplaceAll (ReplaceAll (ReplaceAll s [CHR 0x5C] [CHR 0x5C, CHR 0x5C]) ''%'' [CHR 0x5C, CHR ''%'']) ''_'' [CHR 0x5C, CHR ''_'']"

text \<open>SQLite's \<^verbatim>\<open>LIKE\<close> on ASCII with a backslash as escape character.\<close>

fun like_esc :: "string \<Rightarrow> string \<Rightarrow> bool" where
  "like_esc [] s \<longleftrightarrow> s = []"
| "like_esc (c # p) s \<longleftrightarrow>
     (if c = CHR ''%'' then like_esc p s \<or> (case s of [] \<Rightarrow> False | d # s' \<Rightarrow> like_esc (c # p) s')
      else case s of
        [] \<Rightarrow> False
      | d # s' \<Rightarrow>
          if c = CHR 0x5C then (case p of [] \<Rightarrow> False | e # p' \<Rightarrow> lower_char e = lower_char d \<and> like_esc p' s')
          else (c = CHR ''_'' \<or> lower_char c = lower_char d) \<and> like_esc p s')"

definition session_patterns :: "string \<Rightarrow> string list" where
  "session_patterns sid =
     [''%session_'' @ escapeLikePattern sid @ ''%'', ''%session_id%'' @ escapeLikePattern sid @ ''%'',
      ''%prompt_cache_key%'' @ escapeLikePattern sid @ ''%'']"

definition loadTransactionsForSessions ::
  "(http_row \<Rightarrow> ExtractionResult option) \<Rightarrow> string list \<Rightarrow> conv_db \<Rightarrow> string list \<Rightarrow> transactionEntry list" where
  "loadTransactionsForSessions dissect urlPatterns db sessionIDs =
     (let patterns = (if urlPatterns = [] then [''%api.anthropic.com/v1/messages%'', ''%api.openai.com/v1/responses%''] else urlPatterns);
          rows = filter (\<lambda>r. list_ex (\<lambda>p. sql_like p (hr_url r)) patterns \<and>
                   list_ex (\<lambda>sid. list_ex (\<lambda>p. like_esc p (hr_request_body r)) (session_patterns sid)) sessionIDs)
                 (sort_key hr_id (http_rows db))
      in filter (\<lambda>e. te_sessionID e \<noteq> [] \<and> te_sessionID e \<in> set sessionIDs) (dissected dissect rows))"

section \<open>One run\<close>

record asm_state =
  as_db :: conv_db
  as_enabled :: bool
  as_published :: "string list"

definition last_processed :: "conv_db \<Rightarrow> int" where
  "last_processed db =
     (let v = GetConversationProcessingState db ''last_processed_id'' in
      if v = [] then 0 else case Atoi v of (n, None) \<Rightarrow> n | (_, Some _) \<Rightarrow> 0)"

fun assemble_all :: "asm_env \<Rightarrow> smap \<Rightarrow> string list \<Rightarrow> assembledConversation list go" where
  "assemble_all env m [] = Ok []"
| "assemble_all env m (sid # sids) =
     gbind (assembleConversation env sid (sm_get m sid)) (\<lambda>conv. gbind (assemble_all env m sids) (\<lambda>convs. Ok (conv # convs)))"

definition assemble_groups :: "asm_env \<Rightarrow> nat \<Rightarrow> transactionEntry list \<Rightarrow> assembledConversation list go" where
  "assemble_groups env k txns = (let m = groupBySession env txns in assemble_all env m (visit env [5, k] (sm_keys m)))"

definition affected_sessions :: "transactionEntry list \<Rightarrow> string list" where
  "affected_sessions newTxns = remdups (filter (\<lambda>s. s \<noteq> []) (map te_sessionID newTxns))"

definition sessionless :: "transactionEntry list \<Rightarrow> transactionEntry list" where
  "sessionless newTxns = filter (\<lambda>t. te_sessionID t = []) newTxns"

text \<open>
  The transactions that the affected sessions are assembled from: all that were loaded when the scan began at zero, otherwise those of the sessions, read
  again, and of the subagent sessions they refer to.
\<close>

definition session_transactions ::
  "asm_env \<Rightarrow> (http_row \<Rightarrow> ExtractionResult option) \<Rightarrow> string list \<Rightarrow> conv_db \<Rightarrow> int \<Rightarrow> transactionEntry list \<Rightarrow> transactionEntry list" where
  "session_transactions env dissect urlPatterns db lastID newTxns =
     (if lastID = 0 then newTxns
      else
        (let affected = affected_sessions newTxns;
             allTxns = loadTransactionsForSessions dissect urlPatterns db affected;
             extra = extractReferencedSubagentSessions env allTxns affected
         in if extra = [] then allTxns else allTxns @ loadTransactionsForSessions dissect urlPatterns db extra))"

definition set_cursor :: "int \<Rightarrow> conv_db \<Rightarrow> conv_db" where
  "set_cursor maxID = SetConversationProcessingState ''last_processed_id'' (Itoa maxID)"

definition new_conversations ::
  "asm_env \<Rightarrow> (http_row \<Rightarrow> ExtractionResult option) \<Rightarrow> string list \<Rightarrow> conv_db \<Rightarrow> int \<Rightarrow> transactionEntry list \<Rightarrow> assembledConversation list go" where
  "new_conversations env dissect urlPatterns db lastID newTxns =
     gbind (if affected_sessions newTxns = [] then Ok []
            else assemble_groups env 0 (session_transactions env dissect urlPatterns db lastID newTxns)) (\<lambda>convs1.
     gbind (if sessionless newTxns = [] then Ok [] else assemble_groups env 1 (sessionless newTxns)) (\<lambda>convs2.
       Ok (linkSubagentConversations (convs1 @ convs2))))"

definition processNewTransactions ::
  "asm_env \<Rightarrow> (http_row \<Rightarrow> ExtractionResult option) \<Rightarrow> string list \<Rightarrow> asm_state \<Rightarrow> asm_state go" where
  "processNewTransactions env dissect urlPatterns st =
     (if \<not> as_enabled st then Ok st
      else
        (let db = as_db st; lastID = last_processed db; (newTxns, maxID) = loadNewTransactions dissect db lastID in
         if newTxns = [] then Ok (if maxID > lastID then st\<lparr>as_db := set_cursor maxID db\<rparr> else st)
         else gbind (new_conversations env dissect urlPatterns db lastID newTxns) (\<lambda>convs.
           Ok (st\<lparr>as_db := set_cursor maxID (foldl upsertConversation db convs), as_published := as_published st @ map conversationID convs\<rparr>))))"

definition AssemblerVersion :: int where "AssemblerVersion = 7"

definition StoredAssemblerVersion :: "conv_db \<Rightarrow> int" where
  "StoredAssemblerVersion db =
     (let v = GetConversationProcessingState db ''assembler_version'' in
      if v = [] then 0 else case Atoi v of (n, None) \<Rightarrow> n | (_, Some _) \<Rightarrow> 0)"

definition RebuildAllConversations ::
  "asm_env \<Rightarrow> (http_row \<Rightarrow> ExtractionResult option) \<Rightarrow> string list \<Rightarrow> asm_state \<Rightarrow> asm_state go" where
  "RebuildAllConversations env dissect urlPatterns st =
     gbind (processNewTransactions env dissect urlPatterns (st\<lparr>as_db := set_cursor 0 (DeleteAllConversations (as_db st))\<rparr>)) (\<lambda>st'.
       Ok (st'\<lparr>as_db := SetConversationProcessingState ''assembler_version'' (Itoa AssemblerVersion) (as_db st')\<rparr>))"

text \<open>What \<^verbatim>\<open>Start\<close> does before it waits for events.\<close>

definition assembler_start ::
  "asm_env \<Rightarrow> (http_row \<Rightarrow> ExtractionResult option) \<Rightarrow> string list \<Rightarrow> asm_state \<Rightarrow> asm_state go" where
  "assembler_start env dissect urlPatterns st =
     gbind (if StoredAssemblerVersion (as_db st) \<noteq> AssemblerVersion then RebuildAllConversations env dissect urlPatterns st else Ok st)
       (processNewTransactions env dissect urlPatterns)"

section \<open>A run completes\<close>

text \<open>Every list of the map has transactions, and all of them are from a given set.\<close>

definition drawn_from :: "transactionEntry set \<Rightarrow> smap \<Rightarrow> bool" where
  "drawn_from T m \<longleftrightarrow> (\<forall>v \<in> snd ` set m. v \<noteq> [] \<and> set v \<subseteq> T)"

lemma drawn_Nil [simp]: "drawn_from T []"
  by (simp add: drawn_from_def)

lemma drawn_update: "drawn_from T m \<Longrightarrow> v \<noteq> [] \<Longrightarrow> set v \<subseteq> T \<Longrightarrow> drawn_from T (AList.update k v m)"
  using values_update [of k v m] unfolding drawn_from_def by blast

lemma drawn_delete: "drawn_from T m \<Longrightarrow> drawn_from T (AList.delete k m)"
  by (force simp: drawn_from_def AList.delete_eq)

lemma drawn_get: "drawn_from T m \<Longrightarrow> set (sm_get m k) \<subseteq> T" "drawn_from T m \<Longrightarrow> k \<in> fst ` set m \<Longrightarrow> sm_get m k \<noteq> []"
proof -
  assume w: "drawn_from T m"
  have in_set: "sm_get m k \<in> snd ` set m" if "map_of m k = Some v" for v
    using map_of_SomeD [OF that] that by (force simp: sm_get_def)
  show "set (sm_get m k) \<subseteq> T"
  proof (cases "map_of m k")
    case (Some v)
    from in_set [OF this] w show ?thesis unfolding drawn_from_def by blast
  qed (simp add: sm_get_def)
  assume "k \<in> fst ` set m"
  then obtain v where "map_of m k = Some v" by (metis map_of_eq_None_iff not_None_eq)
  from in_set [OF this] w show "sm_get m k \<noteq> []" unfolding drawn_from_def by blast
qed

lemma drawn_append: "drawn_from T m \<Longrightarrow> v \<noteq> [] \<Longrightarrow> set v \<subseteq> T \<Longrightarrow> drawn_from T (sm_append k v m)"
  unfolding sm_append_def using drawn_get(1) by (intro drawn_update) auto

lemma drawn_explicit:
  "drawn_from T m \<Longrightarrow> set txns \<subseteq> T \<Longrightarrow> set u \<subseteq> T \<Longrightarrow> drawn_from T (fst (foldl explicit_step (m, u) txns)) \<and> set (snd (foldl explicit_step (m, u) txns)) \<subseteq> T"
  by (induction txns arbitrary: m u) (auto simp: explicit_step_def drawn_append)

lemma drawn_inferred:
  "drawn_from T m \<Longrightarrow> set txns \<subseteq> T \<Longrightarrow> set u \<subseteq> T \<Longrightarrow>
   drawn_from T (fst (foldl (inferred_step as) (m, u) txns)) \<and> set (snd (foldl (inferred_step as) (m, u) txns)) \<subseteq> T"
  by (induction txns arbitrary: m u) (auto simp: inferred_step_def Let_def drawn_append)

context assembler_env
begin

lemma drawn_place: "drawn_from T m \<Longrightarrow> g \<noteq> [] \<Longrightarrow> set g \<subseteq> T \<Longrightarrow> drawn_from T (place_group env m (k, g))"
  using drawn_get(1) [of T m] by (auto simp: place_group_def Let_def drawn_update split: option.splits)

lemma drawn_places: "drawn_from T m \<Longrightarrow> [] \<notin> set gs \<Longrightarrow> set (concat gs) \<subseteq> T \<Longrightarrow> drawn_from T (foldl (place_group env) m (enumerate i gs))"
proof (induction gs arbitrary: m i)
  case (Cons g gs)
  have "drawn_from T (place_group env m (i, g))" using Cons.prems by (intro drawn_place) auto
  with Cons show ?case by simp
qed simp

lemma drawn_raw:
  assumes "set txns \<subseteq> T"
  shows "drawn_from T (raw_sessions env txns)"
proof -
  obtain m u where mu: "foldl explicit_step ([], []) txns = (m, u)" by fastforce
  have e: "drawn_from T m" "set u \<subseteq> T" using drawn_explicit [of T "[]" txns "[]"] assms mu by auto
  let ?u = "sort_entries env time_less u"
  let ?as = "InferSession (SessionStrategy (DetectClientFromEntries (sort_clients env) ?u)) (parse_time env) (sum256 env) ?u"
  obtain m1 still where ms: "foldl (inferred_step ?as) (m, []) ?u = (m1, still)" by fastforce
  have i: "drawn_from T m1" "set still \<subseteq> T" using drawn_inferred [OF e(1), of ?u "[]" ?as] e(2) ms by auto
  have "drawn_from T (foldl (place_group env) m1 (enumerate 0 (time_groups (parse_time env) [] still)))"
    using time_groups_concat [of "parse_time env" "[]" still] i(2) by (intro drawn_places [OF i(1)]) (simp_all only: append_Nil not_False_eq_True)
  then show ?thesis using e(1) mu ms by (simp add: raw_sessions_def place_unassigned_def Let_def)
qed

lemma drawn_thread_sessions:
  assumes "drawn_from T threads" "(k, v) \<in> set (thread_sessions env a sid threads key)"
  shows "v \<noteq> [] \<and> set v \<subseteq> T"
proof (cases "sm_get threads key = [] \<or> key \<in> own_calls \<or> key = ''main''")
  case True
  then show ?thesis using assms drawn_get(1) [OF assms(1), of key] by (auto simp: thread_sessions_def Let_def split: if_splits)
next
  case False
  then have "(k, v) \<in> set (numbered (sid @ ''/'' @ key @ ''_'') (SplitInvocations a env (sm_get threads key)))"
    using assms(2) by (simp add: thread_sessions_def Let_def)
  then have "v \<in> set (SplitInvocations a env (sm_get threads key))" using numbered_sets(2) by (metis image_eqI snd_conv)
  moreover have "set (concat (SplitInvocations a env (sm_get threads key))) = set (sm_get threads key)"
    using SplitInvocations_perm(1) by (metis set_mset_mset)
  moreover have "v \<noteq> []" using calculation(1) SplitInvocations_perm(2) by metis
  ultimately show ?thesis using drawn_get(1) [OF assms(1), of key] by auto
qed

lemma drawn_threads: "set es \<subseteq> T \<Longrightarrow> drawn_from T m \<Longrightarrow> drawn_from T (foldl (\<lambda>m e. sm_append (f e) [e] m) m es)"
  by (induction es arbitrary: m) (simp_all add: drawn_append)

lemma drawn_updates: "drawn_from T m \<Longrightarrow> \<forall>v \<in> snd ` set ps. v \<noteq> [] \<and> set v \<subseteq> T \<Longrightarrow> drawn_from T (foldl (\<lambda>m (k, v). AList.update k v m) m ps)"
  by (induction ps arbitrary: m) (auto simp: drawn_update)

lemma drawn_split:
  assumes "drawn_from T raw"
  shows "drawn_from T (split_all env raw)"
  unfolding split_all_def
proof (rule drawn_updates [OF drawn_Nil])
  show "\<forall>v \<in> snd ` set (concat (map (session_threads env raw) (enumerate 0 (visit env [1] (sm_keys raw))))). v \<noteq> [] \<and> set v \<subseteq> T"
  proof
    fix v assume "v \<in> snd ` set (concat (map (session_threads env raw) (enumerate 0 (visit env [1] (sm_keys raw)))))"
    then obtain k sid key where "(key, v) \<in> set (session_threads env raw (k, sid))" by auto
    then obtain a threadKey where t: "(key, v) \<in> set (thread_sessions env a sid
        (splitSessionIntoThreads a (sort_entries env entry_less (sm_get raw sid))) threadKey)"
      by (auto simp: session_threads_def Let_def)
    have "drawn_from T (splitSessionIntoThreads a (sort_entries env entry_less (sm_get raw sid)))"
      unfolding splitSessionIntoThreads_def using drawn_get(1) [OF assms] by (intro drawn_threads) simp_all
    from drawn_thread_sessions [OF this t] show "v \<noteq> [] \<and> set v \<subseteq> T" .
  qed
qed

end

lemma drawn_remap_key: "drawn_from T (fst p) \<Longrightarrow> drawn_from T (fst (remap_key sid task p k))"
proof -
  assume w: "drawn_from T (fst p)"
  obtain m i where p: "p = (m, i)" by (cases p)
  then show ?thesis using w drawn_get [of T m k] by (auto simp: remap_key_def Let_def intro!: drawn_delete drawn_update)
qed

lemma drawn_remap_keys: "drawn_from T (fst p) \<Longrightarrow> drawn_from T (fst (foldl (remap_key sid task) p ks))"
  by (induction ks arbitrary: p) (simp_all add: drawn_remap_key)

lemma drawn_remap_tasks: "drawn_from T (fst p) \<Longrightarrow> drawn_from T (fst (foldl (remap_task env i sid) p ts))"
proof (induction ts arbitrary: p)
  case (Cons t ts)
  have "drawn_from T (fst (remap_task env i sid p t))"
    using Cons.prems by (cases p, cases t) (simp add: remap_task_def drawn_remap_keys)
  with Cons.IH show ?case by simp
qed simp

lemma drawn_remap: "drawn_from T m \<Longrightarrow> drawn_from T (foldl (remap_main env) m ms)"
  by (induction ms arbitrary: m) (simp_all add: remap_main_def drawn_remap_tasks split: prod.splits)

context assembler_env
begin

lemma drawn_group: "drawn_from (set txns) (groupBySession env txns)"
  unfolding groupBySession_def remapOpenAISubagents_def by (intro drawn_remap drawn_split drawn_raw subset_refl)

lemma assemble_all_Ok:
  assumes "drawn_from T m" "set sids \<subseteq> fst ` set m" "\<forall>e \<in> T. te_result e \<noteq> None"
  shows "\<exists>convs. assemble_all env m sids = Ok convs \<and> list_all turns_ok convs \<and> map conversationID convs = map (\<lambda>s. ''session_'' @ s) sids \<and>
    (\<forall>c \<in> set convs. set (ac_requestIDs c) \<subseteq> txnID ` T)"
  using assms(2)
proof (induction sids)
  case (Cons sid sids)
  have g: "sm_get m sid \<noteq> []" "set (sm_get m sid) \<subseteq> T" using drawn_get [OF assms(1)] Cons.prems by auto
  then have "\<forall>e \<in> set (sm_get m sid). te_result e \<noteq> None" using assms(3) by blast
  from assembleConversation_Ok [OF sort_perm g(1) this] obtain conv where c: "assembleConversation env sid (sm_get m sid) = Ok conv" by blast
  have t: "turns_ok conv" "mset (ac_requestIDs conv) = image_mset txnID (mset (sm_get m sid))" "conversationID conv = ''session_'' @ sid"
    using assembleConversation_turns [OF c sort_perm] by simp_all
  have "set (ac_requestIDs conv) = txnID ` set (sm_get m sid)" using t(2) by (metis set_image_mset set_mset_mset)
  with g(2) have "set (ac_requestIDs conv) \<subseteq> txnID ` T" by blast
  with Cons c t show ?case by auto
qed simp

lemma assemble_groups_Ok:
  assumes "\<forall>e \<in> set txns. te_result e \<noteq> None"
  shows "\<exists>convs. assemble_groups env k txns = Ok convs \<and> list_all turns_ok convs \<and> (\<forall>c \<in> set convs. set (ac_requestIDs c) \<subseteq> txnID ` set txns)"
proof -
  have "set (visit env [5, k] (sm_keys (groupBySession env txns))) \<subseteq> fst ` set (groupBySession env txns)"
    by (simp add: sm_keys_def)
  from assemble_all_Ok [OF drawn_group this assms] show ?thesis by (auto simp: assemble_groups_def Let_def)
qed

end

section \<open>What is loaded\<close>

lemma dissected_set: "set (dissected dissect rows) = {entry_of row r | row r. row \<in> set rows \<and> dissect row = Some r}"
  by (force simp: dissected_def map_filter_def)

lemma dissected_result: "e \<in> set (dissected dissect rows) \<Longrightarrow> te_result e \<noteq> None"
  by (auto simp: dissected_set entry_of_def)

lemma assign_loop_same:
  "map txnID (assign_loop s es) = map txnID es" "map te_result (assign_loop s es) = map te_result es"
  by (induction s es rule: assign_loop.induct) simp_all

lemma assign_results: "\<forall>e \<in> set es. te_result e \<noteq> None \<Longrightarrow> \<forall>e \<in> set (assignWSResponseSessions es). te_result e \<noteq> None"
proof -
  assume "\<forall>e \<in> set es. te_result e \<noteq> None"
  then have "None \<notin> set (map te_result (assign_loop [] es))" unfolding assign_loop_same(2) by auto
  then have "te_result e \<noteq> None" if "e \<in> set (assign_loop [] es)" for e
    using imageI [OF that, of te_result] by (metis set_map)
  then show ?thesis unfolding assignWSResponseSessions_def by blast
qed

lemma session_transactions_results:
  "\<forall>e \<in> set newTxns. te_result e \<noteq> None \<Longrightarrow> \<forall>e \<in> set (session_transactions env dissect pats db lastID newTxns). te_result e \<noteq> None"
  using dissected_result by (auto simp: session_transactions_def Let_def loadTransactionsForSessions_def split: if_splits)

lemma link_turns_ok: "list_all turns_ok convs \<Longrightarrow> list_all turns_ok (linkSubagentConversations convs)"
  by (auto simp: linkSubagentConversations_def list_all_iff turns_ok_def Let_def link_turns_same simp del: upt_Suc)

lemma link_requests: "map ac_requestIDs (linkSubagentConversations convs) = map ac_requestIDs convs"
  by (auto simp: linkSubagentConversations_def Let_def)

context assembler_env
begin

lemma new_conversations_Ok:
  assumes "\<forall>e \<in> set newTxns. te_result e \<noteq> None"
  shows "\<exists>convs. new_conversations env dissect pats db lastID newTxns = Ok convs \<and> list_all turns_ok convs \<and>
    (\<forall>c \<in> set convs. set (ac_requestIDs c) \<subseteq>
       txnID ` (set (session_transactions env dissect pats db lastID newTxns) \<union> set (sessionless newTxns)))"
proof -
  let ?s = "session_transactions env dissect pats db lastID newTxns" and ?u = "sessionless newTxns"
  obtain c1 where c1: "(if affected_sessions newTxns = [] then Ok [] else assemble_groups env 0 ?s) = Ok c1" "list_all turns_ok c1"
      "\<forall>c \<in> set c1. set (ac_requestIDs c) \<subseteq> txnID ` set ?s"
    using assemble_groups_Ok [OF session_transactions_results [OF assms], of 0 env dissect pats db lastID] by (cases "affected_sessions newTxns = []") auto
  have "\<forall>e \<in> set ?u. te_result e \<noteq> None" using assms by (simp add: sessionless_def)
  from assemble_groups_Ok [OF this, of 1] obtain c2 where c2: "(if ?u = [] then Ok [] else assemble_groups env 1 ?u) = Ok c2" "list_all turns_ok c2"
      "\<forall>c \<in> set c2. set (ac_requestIDs c) \<subseteq> txnID ` set ?u" by (cases "?u = []") auto
  have "new_conversations env dissect pats db lastID newTxns = Ok (linkSubagentConversations (c1 @ c2))"
    unfolding new_conversations_def c1(1) c2(1) by simp
  moreover have "list_all turns_ok (linkSubagentConversations (c1 @ c2))" using c1(2) c2(2) by (intro link_turns_ok) simp
  moreover have "set (ac_requestIDs c) \<subseteq> txnID ` (set ?s \<union> set ?u)" if c: "c \<in> set (linkSubagentConversations (c1 @ c2))" for c
  proof -
    have "ac_requestIDs c \<in> set (map ac_requestIDs (linkSubagentConversations (c1 @ c2)))" using c by simp
    then have "ac_requestIDs c \<in> set (map ac_requestIDs (c1 @ c2))" unfolding link_requests .
    then obtain x where x: "x \<in> set c1 \<or> x \<in> set c2" "ac_requestIDs c = ac_requestIDs x" by auto
    from x(1) show ?thesis unfolding x(2) image_Un
    proof
      assume "x \<in> set c1"
      from le_supI1 [OF bspec [OF c1(3) this]] show "set (ac_requestIDs x) \<subseteq> txnID ` set ?s \<union> txnID ` set ?u" .
    next
      assume "x \<in> set c2"
      from le_supI2 [OF bspec [OF c2(3) this]] show "set (ac_requestIDs x) \<subseteq> txnID ` set ?s \<union> txnID ` set ?u" .
    qed
  qed
  ultimately show ?thesis by blast
qed

text \<open>The three ways a run goes: nothing to do, only the cursor moves, or conversations are written.\<close>

lemma process_cases:
  obtains (idle) "processNewTransactions env dissect pats st = Ok st"
  | (skip) maxID where "loadNewTransactions dissect (as_db st) (last_processed (as_db st)) = ([], maxID)"
      "processNewTransactions env dissect pats st = Ok (st\<lparr>as_db := set_cursor maxID (as_db st)\<rparr>)"
  | (run) newTxns maxID convs where "as_enabled st" "newTxns \<noteq> []"
      "loadNewTransactions dissect (as_db st) (last_processed (as_db st)) = (newTxns, maxID)"
      "new_conversations env dissect pats (as_db st) (last_processed (as_db st)) newTxns = Ok convs" "list_all turns_ok convs"
      "processNewTransactions env dissect pats st = Ok (st\<lparr>as_db := set_cursor maxID (foldl upsertConversation (as_db st) convs),
         as_published := as_published st @ map conversationID convs\<rparr>)"
      "\<forall>c \<in> set convs. set (ac_requestIDs c) \<subseteq>
         txnID ` (set (session_transactions env dissect pats (as_db st) (last_processed (as_db st)) newTxns) \<union> set (sessionless newTxns))"
proof (cases "as_enabled st")
  case False
  then show ?thesis by (intro idle) (simp add: processNewTransactions_def)
next
  case True
  obtain newTxns maxID where l: "loadNewTransactions dissect (as_db st) (last_processed (as_db st)) = (newTxns, maxID)" by fastforce
  show ?thesis
  proof (cases "newTxns = []")
    case empty: True
    show ?thesis using True empty l
      by (cases "maxID > last_processed (as_db st)") (auto simp: processNewTransactions_def Let_def intro: idle skip)
  next
    case False
    have "newTxns = fst (loadNewTransactions dissect (as_db st) (last_processed (as_db st)))" by (simp add: l)
    then have "\<forall>e \<in> set newTxns. te_result e \<noteq> None"
      unfolding loadNewTransactions_def Let_def fst_conv by (simp only:) (intro assign_results ballI dissected_result)
    from new_conversations_Ok [OF this, of dissect pats "as_db st" "last_processed (as_db st)"] obtain convs where
      c: "new_conversations env dissect pats (as_db st) (last_processed (as_db st)) newTxns = Ok convs" "list_all turns_ok convs"
        "\<forall>c \<in> set convs. set (ac_requestIDs c) \<subseteq>
         txnID ` (set (session_transactions env dissect pats (as_db st) (last_processed (as_db st)) newTxns) \<union> set (sessionless newTxns))" by blast
    show ?thesis by (rule run [OF True False l c(1,2) _ c(3)]) (use True False l c(1) in \<open>simp add: processNewTransactions_def Let_def\<close>)
  qed
qed

end

section \<open>The tables stay consistent\<close>

text \<open>
  Conversations have distinct names, every turn and every link of a transaction is to a conversation of the table, and the turns of a conversation
  are numbered from one.
\<close>

definition conv_ids :: "conv_db \<Rightarrow> string list" where
  "conv_ids db = map conversationID (conversations db)"

definition turn_numbers :: "conv_db \<Rightarrow> string \<Rightarrow> nat list" where
  "turn_numbers db cid = map (turnNumber \<circ> snd) (filter (\<lambda>(c, t). c = cid) (turn_rows db))"

definition conv_db_ok :: "conv_db \<Rightarrow> bool" where
  "conv_db_ok db \<longleftrightarrow> distinct (conv_ids db) \<and> fst ` set (turn_rows db) \<subseteq> set (conv_ids db) \<and>
     (\<forall>r \<in> set (http_rows db). \<forall>c. hr_conversation_id r = Some c \<longrightarrow> c \<in> set (conv_ids db)) \<and>
     (\<forall>c \<in> set (conversations db). turn_numbers db (conversationID c) = [1..<Suc (turnCount c)])"

lemma conv_db_ok_state [simp]: "conv_db_ok (SetConversationProcessingState k v db) = conv_db_ok db"
  by (simp add: SetConversationProcessingState_def conv_db_ok_def conv_ids_def turn_numbers_def)

lemma link_rows_ok:
  "conv_db_ok db \<Longrightarrow> cid \<in> set (conv_ids db) \<Longrightarrow> conv_db_ok (foldl (UpdateTransactionConversationID cid) db is)"
proof (induction "is" arbitrary: db)
  case (Cons i "is")
  have "conv_db_ok (UpdateTransactionConversationID cid db i)" "cid \<in> set (conv_ids (UpdateTransactionConversationID cid db i))"
    using Cons.prems by (auto simp: conv_db_ok_def UpdateTransactionConversationID_def conv_ids_def turn_numbers_def)
  with Cons.IH show ?case by simp
qed simp

lemma upsert_ok:
  assumes "conv_db_ok db" "turns_ok conv"
  shows "conv_db_ok (upsertConversation db conv)"
proof -
  let ?db = "UpsertTurns (conversationID conv) (turns conv) (UpsertConversation conv db)" and ?id = "conversationID conv"
  have ids: "conv_ids ?db = filter (\<lambda>c. c \<noteq> ?id) (conv_ids db) @ [?id]"
    by (simp add: UpsertTurns_def UpsertConversation_def conversation_row_def conv_ids_def filter_map comp_def)
  have rows: "turn_rows ?db = filter (\<lambda>(c, t). c \<noteq> ?id) (turn_rows db) @ map (\<lambda>t. (?id, turn_row t)) (turns conv)" "http_rows ?db = http_rows db"
    by (simp_all add: UpsertTurns_def UpsertConversation_def)
  have own: "turn_numbers ?db ?id = [1..<Suc (turnCount conv)]"
    using assms(2) by (simp add: turn_numbers_def rows turns_ok_def turn_row_def filter_map comp_def split_def del: upt_Suc)
  have other: "turn_numbers ?db c = turn_numbers db c" if "c \<noteq> ?id" for c
    using that by (auto simp: turn_numbers_def rows filter_map comp_def split_def intro: arg_cong [of _ _ "map _"] filter_cong)
  have convs: "set (conversations ?db) = {c \<in> set (conversations db). conversationID c \<noteq> ?id} \<union> {conversation_row conv}"
    by (auto simp: UpsertTurns_def UpsertConversation_def)
  have "conv_db_ok ?db" unfolding conv_db_ok_def
  proof (intro conjI)
    show "distinct (conv_ids ?db)" using assms(1) by (simp add: ids conv_db_ok_def)
    show "fst ` set (turn_rows ?db) \<subseteq> set (conv_ids ?db)" using assms(1) by (auto simp: ids rows conv_db_ok_def)
    show "\<forall>r \<in> set (http_rows ?db). \<forall>c. hr_conversation_id r = Some c \<longrightarrow> c \<in> set (conv_ids ?db)"
      using assms(1) by (auto simp: ids rows conv_db_ok_def)
    show "\<forall>c \<in> set (conversations ?db). turn_numbers ?db (conversationID c) = [1..<Suc (turnCount c)]"
      using assms(1) by (auto simp: convs own other conversation_row_def conv_db_ok_def simp del: upt_Suc)
  qed
  then show ?thesis unfolding upsertConversation_def by (rule link_rows_ok) (simp add: ids)
qed

lemma upserts_ok: "conv_db_ok db \<Longrightarrow> list_all turns_ok convs \<Longrightarrow> conv_db_ok (foldl upsertConversation db convs)"
  by (induction convs arbitrary: db) (simp_all add: upsert_ok)

text \<open>What happens to the archive and the assembler.\<close>

inductive asm_step :: "asm_env \<Rightarrow> (http_row \<Rightarrow> ExtractionResult option) \<Rightarrow> string list \<Rightarrow> asm_state \<Rightarrow> asm_state \<Rightarrow> bool"
  for env dissect pats where
  recorded: "hr_conversation_id row = None \<Longrightarrow>
     asm_step env dissect pats st (st\<lparr>as_db := (as_db st)\<lparr>http_rows := http_rows (as_db st) @ [row]\<rparr>\<rparr>)"
| processed: "processNewTransactions env dissect pats st = Ok st' \<Longrightarrow> asm_step env dissect pats st st'"
| rebuilt: "RebuildAllConversations env dissect pats st = Ok st' \<Longrightarrow> asm_step env dissect pats st st'"
| started: "assembler_start env dissect pats st = Ok st' \<Longrightarrow> asm_step env dissect pats st st'"
| switched: "asm_step env dissect pats st (st\<lparr>as_enabled := b\<rparr>)"

lemma set_cursor_ok [simp]: "conv_db_ok (set_cursor n db) = conv_db_ok db"
  by (simp add: set_cursor_def)

lemma delete_all_ok: "conv_db_ok (DeleteAllConversations db)"
  by (auto simp: DeleteAllConversations_def conv_db_ok_def conv_ids_def turn_numbers_def)

context assembler_env
begin

lemma process_ok:
  "\<exists>st'. processNewTransactions env dissect pats st = Ok st' \<and> (conv_db_ok (as_db st) \<longrightarrow> conv_db_ok (as_db st'))"
  by (rule process_cases [of dissect pats st]) (auto simp: upserts_ok)

lemma rebuild_ok: "\<exists>st'. RebuildAllConversations env dissect pats st = Ok st' \<and> conv_db_ok (as_db st')"
proof -
  let ?st = "st\<lparr>as_db := set_cursor 0 (DeleteAllConversations (as_db st))\<rparr>"
  obtain st' where "processNewTransactions env dissect pats ?st = Ok st'" "conv_db_ok (as_db st')"
    using process_ok [of dissect pats ?st] delete_all_ok by auto
  then show ?thesis by (simp add: RebuildAllConversations_def)
qed

lemma start_ok: "\<exists>st'. assembler_start env dissect pats st = Ok st' \<and> (conv_db_ok (as_db st) \<longrightarrow> conv_db_ok (as_db st'))"
proof -
  obtain st1 where "(if StoredAssemblerVersion (as_db st) \<noteq> AssemblerVersion then RebuildAllConversations env dissect pats st else Ok st) = Ok st1"
      "conv_db_ok (as_db st) \<longrightarrow> conv_db_ok (as_db st1)"
    using rebuild_ok [of dissect pats st] by (cases "StoredAssemblerVersion (as_db st) \<noteq> AssemblerVersion") auto
  with process_ok [of dissect pats st1] show ?thesis by (auto simp: assembler_start_def)
qed

lemma step_ok: "asm_step env dissect pats st st' \<Longrightarrow> conv_db_ok (as_db st) \<Longrightarrow> conv_db_ok (as_db st')"
proof (induction rule: asm_step.induct)
  case (recorded row st)
  then show ?case by (auto simp: conv_db_ok_def conv_ids_def turn_numbers_def)
next
  case (processed st st')
  then show ?case using process_ok [of dissect pats st] by auto
next
  case (rebuilt st st')
  then show ?case using rebuild_ok [of dissect pats st] by auto
next
  case (started st st')
  then show ?case using start_ok [of dissect pats st] by auto
qed simp

end

text \<open>
  C19. The record of conversations stays consistent, and the assembler always finishes. From consistent tables on, after any sequence of recorded
  transactions, runs, rebuilds, restarts and switches, conversations have distinct names, every turn and every link from a
  transaction is to a conversation of the table, and the turns of each conversation are numbered from one without gaps; and from every
  state each run, rebuild and start returns without a panic, whatever the dissectors extract.
\<close>

theorem conversation_tables_stay_consistent:
  assumes "assembler_env env" "conv_db_ok (as_db s0)" "(asm_step env dissect pats)\<^sup>*\<^sup>* s0 s"
  shows "conv_db_ok (as_db s) \<and> (\<exists>s1. processNewTransactions env dissect pats s = Ok s1) \<and>
    (\<exists>s2. RebuildAllConversations env dissect pats s = Ok s2) \<and> (\<exists>s3. assembler_start env dissect pats s = Ok s3)"
proof -
  from assms(3) have "conv_db_ok (as_db s)"
    by (induction rule: rtranclp_induct) (use assms(2) assembler_env.step_ok [OF assms(1)] in blast)+
  then show ?thesis
    using assembler_env.process_ok [OF assms(1)] assembler_env.rebuild_ok [OF assms(1)] assembler_env.start_ok [OF assms(1)] by blast
qed

section \<open>The cursor\<close>

lemma row_ids_upsert [simp]: "map hr_id (http_rows (upsertConversation db conv)) = map hr_id (http_rows db)"
proof -
  have u: "map hr_id (http_rows (UpdateTransactionConversationID cid d i)) = map hr_id (http_rows d)" for cid d i
    by (simp add: UpdateTransactionConversationID_def)
  have "map hr_id (http_rows (foldl (UpdateTransactionConversationID cid) d is)) = map hr_id (http_rows d)" for cid d "is"
    by (induction "is" arbitrary: d) (simp_all add: u)
  then show ?thesis by (simp add: upsertConversation_def UpsertTurns_def UpsertConversation_def)
qed

lemma row_ids_upserts: "map hr_id (http_rows (foldl upsertConversation db convs)) = map hr_id (http_rows db)"
  by (induction convs arbitrary: db) simp_all

lemma row_ids_cursor [simp]: "http_rows (set_cursor n db) = http_rows db"
  by (simp add: set_cursor_def SetConversationProcessingState_def)

lemma foldl_max_ge: "(x :: int) \<le> foldl max x ys" "y \<in> set ys \<Longrightarrow> y \<le> foldl max x ys"
proof -
  show "(x :: int) \<le> foldl max x ys" for x ys
  proof (induction ys arbitrary: x)
    case (Cons y ys)
    show ?case using Cons [of "max x y"] by simp
  qed simp
  then show "y \<in> set ys \<Longrightarrow> y \<le> foldl max x ys"
  proof (induction ys arbitrary: x)
    case (Cons z zs)
    have "z \<le> foldl max (max x z) zs" by (rule order_trans [OF max.cobounded2 Cons.prems(2)])
    with Cons show ?case by auto
  qed simp
qed

lemma foldl_max_in: "foldl max x ys \<in> insert (x :: int) (set ys)"
  by (induction ys arbitrary: x) (simp, metis foldl_Cons insertCI insertE list.set_intros(1,2) max_def)

lemma last_processed_cursor: "0 \<le> n \<Longrightarrow> n \<le> maxInt \<Longrightarrow> last_processed (set_cursor n db) = n"
proof -
  assume n: "0 \<le> n" "n \<le> maxInt"
  have "GetConversationProcessingState (set_cursor n db) ''last_processed_id'' = Itoa n"
    by (simp add: GetConversationProcessingState_def set_cursor_def SetConversationProcessingState_def update_conv)
  moreover have "Itoa n \<noteq> []" by (simp add: Itoa_def)
  ultimately show ?thesis using Atoi_Itoa [OF n] by (simp add: last_processed_def)
qed

lemma load_nothing:
  assumes "\<forall>r \<in> set (http_rows db). hr_id r \<le> n"
  shows "loadNewTransactions dissect db n = ([], n)"
proof -
  have "filter (\<lambda>r. hr_id r > n) (sort_key hr_id (http_rows db)) = []" using assms by (auto simp: filter_empty_conv not_less)
  then show ?thesis by (simp add: loadNewTransactions_def Let_def dissected_def map_filter_def assignWSResponseSessions_def)
qed

lemma loadNew_max:
  assumes "loadNewTransactions dissect db n = (newTxns, maxID)"
  shows "n \<le> maxID" "\<forall>r \<in> set (http_rows db). hr_id r \<le> maxID" "maxID \<in> insert n (hr_id ` set (http_rows db))"
proof -
  let ?ids = "map hr_id (filter (\<lambda>r. hr_id r > n) (sort_key hr_id (http_rows db)))"
  have m: "maxID = foldl max n ?ids" using assms by (auto simp: loadNewTransactions_def Let_def)
  show n: "n \<le> maxID" unfolding m by (rule foldl_max_ge)
  show "\<forall>r \<in> set (http_rows db). hr_id r \<le> maxID"
  proof
    fix r assume "r \<in> set (http_rows db)"
    then show "hr_id r \<le> maxID" using foldl_max_ge(2) [of "hr_id r" ?ids n] n by (cases "hr_id r > n") (auto simp: m)
  qed
  show "maxID \<in> insert n (hr_id ` set (http_rows db))" using foldl_max_in [of n ?ids] unfolding m by auto
qed

context assembler_env
begin

lemma second_run:
  assumes "\<forall>r \<in> set (http_rows (as_db st)). 0 < hr_id r \<and> hr_id r \<le> maxInt" "0 \<le> last_processed (as_db st)" "last_processed (as_db st) \<le> maxInt"
    and "processNewTransactions env dissect pats st = Ok st'"
  shows "processNewTransactions env dissect pats st' = Ok st'"
proof -
  have settled: "processNewTransactions env dissect pats t = Ok t" if "\<forall>r \<in> set (http_rows (as_db t)). hr_id r \<le> last_processed (as_db t)" for t
    using load_nothing [OF that] by (simp add: processNewTransactions_def Let_def)
  show ?thesis
  proof (rule process_cases [of dissect pats st])
    assume "processNewTransactions env dissect pats st = Ok st"
    with assms(4) show ?thesis by simp
  next
    fix maxID
    assume l: "loadNewTransactions dissect (as_db st) (last_processed (as_db st)) = ([], maxID)"
      and p: "processNewTransactions env dissect pats st = Ok (st\<lparr>as_db := set_cursor maxID (as_db st)\<rparr>)"
    have r: "0 \<le> maxID" "maxID \<le> maxInt" using loadNew_max [OF l] assms(1-3) by auto
    show ?thesis using loadNew_max(2) [OF l] p assms(4) by (intro settled) (auto simp: last_processed_cursor [OF r])
  next
    fix newTxns maxID convs
    assume l: "loadNewTransactions dissect (as_db st) (last_processed (as_db st)) = (newTxns, maxID)"
      and p: "processNewTransactions env dissect pats st = Ok (st\<lparr>as_db := set_cursor maxID (foldl upsertConversation (as_db st) convs),
         as_published := as_published st @ map conversationID convs\<rparr>)"
    have r: "0 \<le> maxID" "maxID \<le> maxInt" using loadNew_max [OF l] assms(1-3) by auto
    have "\<forall>i \<in> set (map hr_id (http_rows (as_db st'))). i \<le> last_processed (as_db st')"
      using loadNew_max(2) [OF l] p assms(4) row_ids_upserts [of "as_db st" convs] by (auto simp: last_processed_cursor [OF r])
    then show ?thesis by (intro settled) simp
  qed
qed

end

text \<open>
  A run leaves nothing to do. When the ids of the archive are positive and the cursor is a number, the run after a run finds no new transaction and
  changes nothing: no conversation is written twice and no event is published again.
\<close>

theorem second_run_changes_nothing:
  assumes "assembler_env env" "\<forall>r \<in> set (http_rows (as_db st)). 0 < hr_id r \<and> hr_id r \<le> maxInt"
    and "0 \<le> last_processed (as_db st)" "last_processed (as_db st) \<le> maxInt" "processNewTransactions env dissect pats st = Ok st'"
  shows "processNewTransactions env dissect pats st' = Ok st'"
  using assembler_env.second_run [OF assms] .

section \<open>What an incremental run leaves out\<close>

lemma dissected_ids: "distinct (map hr_id rows) \<Longrightarrow> distinct (map txnID (dissected dissect rows))"
proof (induction rows)
  case (Cons row rows)
  have "txnID ` set (dissected dissect rows) \<subseteq> hr_id ` set rows" by (auto simp: dissected_set entry_of_def)
  with Cons show ?case by (auto simp: dissected_def map_filter_simps entry_of_def split: option.splits)
qed (simp add: dissected_def map_filter_simps)

lemma loadNew_ids:
  assumes "distinct (map hr_id (http_rows db))" "loadNewTransactions dissect db n = (newTxns, maxID)"
  shows "distinct (map txnID newTxns)"
proof -
  have "distinct (map hr_id (sort_key hr_id (http_rows db)))" using assms(1) by (simp add: distinct_map)
  then have "distinct (map hr_id (filter (\<lambda>r. hr_id r > n) (sort_key hr_id (http_rows db))))" by (rule distinct_map_filter)
  from dissected_ids [OF this, of dissect] show ?thesis
    using assms(2) assign_loop_same(1) by (auto simp: loadNewTransactions_def Let_def assignWSResponseSessions_def)
qed

lemma reload_leaves_out:
  assumes "distinct (map hr_id (http_rows db))" "row \<in> set (http_rows db)" "dissect row = Some r" "xr_SessionID r = []"
  shows "hr_id row \<notin> txnID ` set (loadTransactionsForSessions dissect pats db sids)"
proof
  assume "hr_id row \<in> txnID ` set (loadTransactionsForSessions dissect pats db sids)"
  then obtain row' r' where h: "row' \<in> set (http_rows db)" "dissect row' = Some r'" "hr_id row = hr_id row'" "xr_SessionID r' \<noteq> []"
    by (auto simp: loadTransactionsForSessions_def Let_def dissected_set entry_of_def)
  have "row = row'" using assms(1,2) h(1,3) by (metis distinct_map inj_onD)
  with h assms(3,4) show False by simp
qed

text \<open>
  C39. An incremental run leaves out the responses of WebSocket sessions. A response frame has no session id of its own; the loader gives it that of the request
  before it, but the run then reads the transactions of that session again and keeps only those that carry the id themselves. So when the
  cursor is not at zero no conversation the run writes lists the response, although the cursor moves past it; only a rebuild finds it again.
\<close>

theorem incremental_run_loses_responses:
  assumes "assembler_env env" "as_enabled st" "last_processed (as_db st) \<noteq> 0" "distinct (map hr_id (http_rows (as_db st)))"
    and "row \<in> set (http_rows (as_db st))" "dissect row = Some r" "xr_SessionID r = []"
    and "loadNewTransactions dissect (as_db st) (last_processed (as_db st)) = (newTxns, maxID)"
    and "e \<in> set newTxns" "txnID e = hr_id row" "te_sessionID e \<noteq> []"
  shows "\<exists>convs. processNewTransactions env dissect pats st =
      Ok (st\<lparr>as_db := set_cursor maxID (foldl upsertConversation (as_db st) convs), as_published := as_published st @ map conversationID convs\<rparr>) \<and>
    (\<forall>c \<in> set convs. hr_id row \<notin> set (ac_requestIDs c)) \<and> hr_id row \<le> maxID"
proof -
  let ?db = "as_db st" and ?n = "last_processed (as_db st)"
  have "newTxns = fst (loadNewTransactions dissect ?db ?n)" by (simp add: assms(8))
  then have "\<forall>e \<in> set newTxns. te_result e \<noteq> None"
    unfolding loadNewTransactions_def Let_def fst_conv by (simp only:) (intro assign_results ballI dissected_result)
  from assembler_env.new_conversations_Ok [OF assms(1) this, of dissect pats ?db ?n] obtain convs where
    c: "new_conversations env dissect pats ?db ?n newTxns = Ok convs"
      "\<forall>c \<in> set convs. set (ac_requestIDs c) \<subseteq> txnID ` (set (session_transactions env dissect pats ?db ?n newTxns) \<union> set (sessionless newTxns))" by blast
  have "hr_id row \<notin> txnID ` set (session_transactions env dissect pats ?db ?n newTxns)"
    using reload_leaves_out [of "as_db st" row dissect r, OF assms(4-7)] assms(3) by (auto simp: session_transactions_def Let_def split: if_splits)
  moreover have "hr_id row \<notin> txnID ` set (sessionless newTxns)"
  proof
    assume "hr_id row \<in> txnID ` set (sessionless newTxns)"
    then obtain e' where "e' \<in> set newTxns" "te_sessionID e' = []" "txnID e' = txnID e" using assms(10) by (auto simp: sessionless_def)
    with loadNew_ids [OF assms(4,8)] assms(9,11) show False by (metis distinct_map inj_onD)
  qed
  ultimately have "hr_id row \<notin> txnID ` (set (session_transactions env dissect pats ?db ?n newTxns) \<union> set (sessionless newTxns))"
    unfolding image_Un by simp
  with c(2) have "\<forall>c \<in> set convs. hr_id row \<notin> set (ac_requestIDs c)" by (meson subsetD)
  moreover have "newTxns \<noteq> []" using assms(9) by auto
  moreover have "hr_id row \<le> maxID" using loadNew_max(2) [OF assms(8)] assms(5) by blast
  ultimately show ?thesis using c(1) assms(2,8) by (intro exI [of _ convs]) (simp add: processNewTransactions_def Let_def)
qed


section \<open>What is read again\<close>

lemma ReplaceAll_char: "ReplaceAll s [c] t = concat (map (\<lambda>d. if d = c then t else [d]) s)"
proof -
  have "replace_all [c] t s = concat (map (\<lambda>d. if d = c then t else [d]) s)" by (induction s) (simp_all add: HasPrefix_def)
  then show ?thesis by (simp add: ReplaceAll_def)
qed

lemma escape_Cons:
  "escapeLikePattern (c # s) =
     (if c \<in> {CHR 0x5C, CHR ''%'', CHR ''_''} then [CHR 0x5C, c] else [c]) @ escapeLikePattern s"
  by (simp add: escapeLikePattern_def ReplaceAll_char)

lemma like_skip: "like_esc p s \<Longrightarrow> like_esc (CHR ''%'' # p) (a @ s)"
proof (induction a)
  case Nil
  then show ?case by (cases s) simp_all
qed simp

lemma like_plain: "like_esc p s \<Longrightarrow> \<forall>c \<in> set q. c \<notin> {CHR 0x5C, CHR ''%''} \<Longrightarrow> like_esc (q @ p) (q @ s)"
  by (induction q) simp_all

lemma like_escaped: "like_esc p s \<Longrightarrow> like_esc (escapeLikePattern q @ p) (q @ s)"
proof (induction q)
  case Nil
  then show ?case by (simp add: escapeLikePattern_def ReplaceAll_char)
qed (simp add: escape_Cons)

lemma like_rest: "like_esc ''%'' s"
  using like_skip [of "[]" "[]" s] by simp

text \<open>The three ways a request names its session.\<close>

definition names_session :: "string \<Rightarrow> string \<Rightarrow> bool" where
  "names_session sid body \<longleftrightarrow> (\<exists>a b c. body = a @ ''session_'' @ sid @ c \<or>
     body = a @ ''session_id'' @ b @ sid @ c \<or> body = a @ ''prompt_cache_key'' @ b @ sid @ c)"

lemma names_session_found: "names_session sid body \<Longrightarrow> list_ex (\<lambda>p. like_esc p body) (session_patterns sid)"
proof -
  assume "names_session sid body"
  then obtain a b c where body: "body = a @ ''session_'' @ sid @ c \<or> body = a @ ''session_id'' @ b @ sid @ c \<or>
    body = a @ ''prompt_cache_key'' @ b @ sid @ c" unfolding names_session_def by blast
  have tail: "like_esc (escapeLikePattern sid @ ''%'') (sid @ c)" by (intro like_escaped like_rest)
  have key: "like_esc (''%'' @ key @ ''%'' @ escapeLikePattern sid @ ''%'') (a @ key @ b @ sid @ c)"
    if "\<forall>c \<in> set key. c \<notin> {CHR 0x5C, CHR ''%''}" for key
    using like_skip [OF like_plain [OF like_skip [OF tail, of b] that], of a] by (simp del: like_esc.simps)
  have "like_esc (''%'' @ ''session_'' @ escapeLikePattern sid @ ''%'') (a @ ''session_'' @ sid @ c)"
    using like_skip [OF like_plain [OF tail, of "''session_''"], of a] by (simp del: like_esc.simps)
  with body key [of "''session_id''"] key [of "''prompt_cache_key''"] show ?thesis
    by (elim disjE) (simp_all add: session_patterns_def del: like_esc.simps)
qed

lemma map_filter_skip: "(\<And>x. x \<in> set xs \<Longrightarrow> \<not> P x \<Longrightarrow> f x = None) \<Longrightarrow> List.map_filter f (filter P xs) = List.map_filter f xs"
  by (induction xs) (auto simp: map_filter_simps split: option.splits)

lemma filter_map_filter: "filter P (List.map_filter f xs) = List.map_filter (\<lambda>x. Option.bind (f x) (\<lambda>y. if P y then Some y else None)) xs"
  by (induction xs) (auto simp: map_filter_simps split: option.splits)

text \<open>
  C21. A reload finds every transaction of a session. When each transaction the dissectors give to one of the sessions has a URL the patterns
  select and names its session in one of the three ways, the reload returns, in the order of their ids, exactly the transactions of the
  sessions: the text filter with its escaping loses none, and none that only mentions a session gets through.
\<close>

theorem reload_is_complete:
  assumes "pats \<noteq> []"
    and "\<forall>row \<in> set (http_rows db). \<forall>r. dissect row = Some r \<longrightarrow> xr_SessionID r \<in> set sids \<longrightarrow>
      list_ex (\<lambda>p. sql_like p (hr_url row)) pats \<and> names_session (xr_SessionID r) (hr_request_body row)"
  shows "loadTransactionsForSessions dissect pats db sids =
    filter (\<lambda>e. te_sessionID e \<noteq> [] \<and> te_sessionID e \<in> set sids) (dissected dissect (sort_key hr_id (http_rows db)))"
proof -
  let ?P = "\<lambda>r. list_ex (\<lambda>p. sql_like p (hr_url r)) pats \<and>
    list_ex (\<lambda>sid. list_ex (\<lambda>p. like_esc p (hr_request_body r)) (session_patterns sid)) sids"
  let ?f = "\<lambda>row. Option.bind (map_option (entry_of row) (dissect row))
    (\<lambda>e. if te_sessionID e \<noteq> [] \<and> te_sessionID e \<in> set sids then Some e else None)"
  have "?f row = None" if row: "row \<in> set (sort_key hr_id (http_rows db))" and P: "\<not> ?P row" for row
  proof (cases "dissect row")
    case (Some r)
    have "xr_SessionID r \<notin> set sids"
    proof
      assume "xr_SessionID r \<in> set sids"
      with assms(2) row Some names_session_found [of "xr_SessionID r" "hr_request_body row"] P show False by (auto simp: list_ex_iff)
    qed
    with Some show ?thesis by (simp add: entry_of_def)
  qed simp
  from map_filter_skip [of "sort_key hr_id (http_rows db)" ?P ?f, OF this] show ?thesis
    using assms(1) unfolding loadTransactionsForSessions_def dissected_def filter_map_filter by simp
qed

section \<open>What is shown\<close>

lemma find_none: "\<forall>x \<in> set xs. \<not> P x \<Longrightarrow> List.find P (xs @ ys) = List.find P ys"
  by (induction xs) simp_all

lemma update_links [simp]:
  "conversations (foldl (UpdateTransactionConversationID cid) db is) = conversations db"
  "turn_rows (foldl (UpdateTransactionConversationID cid) db is) = turn_rows db"
  by (induction "is" arbitrary: db) (simp_all add: UpdateTransactionConversationID_def)

lemma links_set:
  "http_rows (foldl (UpdateTransactionConversationID cid) db is) =
     map (\<lambda>r. if hr_id r \<in> set is then r\<lparr>hr_conversation_id := Some cid\<rparr> else r) (http_rows db)"
  by (induction "is" arbitrary: db) (auto simp: UpdateTransactionConversationID_def)

lemma sorted_turns: "map turnNumber ts = [1..<Suc n] \<Longrightarrow> sort_key turnNumber ts = ts"
  by (rule sort_key_id_if_sorted) (simp del: upt_Suc)

text \<open>
  C22. A conversation that was written is shown. When its turns are numbered from one, the conversation is read back with all its turns in order, up to empty
  texts, which are stored as missing; the transactions it lists point to it; and every other conversation is shown as before.
\<close>

theorem written_conversation_is_shown:
  assumes "turns_ok conv"
  shows "GetConversation (upsertConversation db conv) (conversationID conv) = Some ((conversation_row conv)\<lparr>turns := map turn_row (turns conv)\<rparr>) \<and>
    (\<forall>cid. cid \<noteq> conversationID conv \<longrightarrow> GetConversation (upsertConversation db conv) cid = GetConversation db cid) \<and>
    (\<forall>r \<in> set (http_rows (upsertConversation db conv)). hr_id r \<in> set (ac_requestIDs conv) \<longrightarrow> hr_conversation_id r = Some (conversationID conv))"
proof (intro conjI allI impI)
  let ?db = "upsertConversation db conv" and ?id = "conversationID conv"
  have convs: "conversations ?db = filter (\<lambda>c. conversationID c \<noteq> ?id) (conversations db) @ [conversation_row conv]"
    and rows: "turn_rows ?db = filter (\<lambda>(c, t). c \<noteq> ?id) (turn_rows db) @ map (\<lambda>t. (?id, turn_row t)) (turns conv)"
    by (simp_all add: upsertConversation_def UpsertTurns_def UpsertConversation_def)
  have "sort_key turnNumber (map turn_row (turns conv)) = map turn_row (turns conv)"
    using assms by (intro sorted_turns [of _ "turnCount conv"]) (simp add: turns_ok_def turn_row_def comp_def del: upt_Suc)
  then show "GetConversation ?db ?id = Some ((conversation_row conv)\<lparr>turns := map turn_row (turns conv)\<rparr>)"
    by (simp add: GetConversation_def convs rows find_none filter_map comp_def split_def) (simp add: conversation_row_def)
  show "\<forall>r \<in> set (http_rows ?db). hr_id r \<in> set (ac_requestIDs conv) \<longrightarrow> hr_conversation_id r = Some ?id"
    by (auto simp: upsertConversation_def links_set)
  fix cid assume other: "cid \<noteq> ?id"
  have "List.find (\<lambda>c. conversationID c = cid) (filter (\<lambda>c. conversationID c \<noteq> ?id) cs @ [conversation_row conv]) =
      List.find (\<lambda>c. conversationID c = cid) cs" for cs
    using other by (induction cs) (auto simp: conversation_row_def)
  moreover have "filter (\<lambda>(c, t). c = cid) (turn_rows ?db) = filter (\<lambda>(c, t). c = cid) (turn_rows db)"
    unfolding rows using other by (auto simp: filter_map comp_def split_def intro: filter_cong)
  ultimately show "GetConversation ?db cid = GetConversation db cid" by (simp add: GetConversation_def convs)
qed

end
