(* ===== verification/ConversationScenarios.thy ===== *)
theory ConversationScenarios
  imports ConversationStore
begin

text \<open>
  Concrete runs of the conversation assembler: a small archive of requests, WebSocket frames and subagents on which the theorems of \<open>Grouping\<close>, \<open>Assembly\<close> and
  \<open>ConversationStore\<close> apply.
\<close>

section \<open>An archive\<close>

definition plain_env :: asm_env where
  "plain_env = go_env (\<lambda>_. None) (\<lambda>_. [])"

lemma plain_env_ok: "assembler_env plain_env"
  unfolding plain_env_def by (rule go_assembler.assembler_env_axioms)

definition demo_result :: "string \<Rightarrow> ExtractionResult" where
  "demo_result sid =
     \<lparr>xr_Provider = ''openai'', xr_SessionID = sid, xr_Model = ''m'', xr_Messages = [],
      xr_SystemBlocks = [\<lparr>sb_Type = ''text'', sb_Text = replicate 2000 CHR ''x''\<rparr>],
      xr_Tools = [\<lparr>tool_Name = ''edit'', tool_Description = []\<rparr>], xr_SSEResponse = None, xr_MessageCount = 1, xr_ClientHint = []\<rparr>"

definition demo_row :: "int \<Rightarrow> string \<Rightarrow> string \<Rightarrow> http_row" where
  "demo_row i url body =
     \<lparr>hr_id = i, hr_timestamp = [], hr_container = ''c'', hr_url = url, hr_method = ''POST'', hr_host = ''h'', hr_request_body = body,
      hr_duration_ms = None, hr_headers = None, hr_conversation_id = None\<rparr>"

definition demo_txn :: "int \<Rightarrow> string \<Rightarrow> transactionEntry" where
  "demo_txn i sid = entry_of (demo_row i ''https://h/v1'' []) (demo_result sid)"

definition demo_db :: "http_row list \<Rightarrow> conv_db" where
  "demo_db rows = \<lparr>http_rows = rows, conversations = [], turn_rows = [], processing_state = [(''last_processed_id'', ''1'')], cascades = False\<rparr>"

definition demo_state :: "http_row list \<Rightarrow> asm_state" where
  "demo_state rows = \<lparr>as_db = demo_db rows, as_enabled = True, as_published = []\<rparr>"

lemmas demo_defs = demo_result_def demo_row_def demo_txn_def demo_db_def demo_state_def entry_of_def

section \<open>Grouping\<close>

lemma grouping_keeps_transactions_witness:
  "\<exists>dropped. mset [demo_txn 1 ''a'', demo_txn 2 []] =
       mset (concat (map snd (groupBySession plain_env [demo_txn 1 ''a'', demo_txn 2 []]))) + dropped \<and>
     distinct (map fst (groupBySession plain_env [demo_txn 1 ''a'', demo_txn 2 []]))"
  using grouping_keeps_transactions [OF plain_env_ok, of "[demo_txn 1 ''a'', demo_txn 2 []]"] by (auto simp: demo_defs HasPrefix_def)

lemma demo_threads: "thread_key a (demo_txn i sid) \<notin> own_calls"
proof -
  have long: "SystemPromptLength (xr_SystemBlocks (demo_result sid)) = 2000" by (simp add: SystemPromptLength_def demo_result_def)
  have "ClassifyThread a (demo_result sid) \<in> {''main'', ''subagent''}"
    using long by (cases a) (simp_all add: claude_thread_def opencode_thread_def codex_thread_def generic_thread_def Let_def demo_result_def has_tool_def HasPrefix_def)
  then show ?thesis by (auto simp: thread_key_def demo_txn_def entry_of_def own_calls_def)
qed


section \<open>Links\<close>

definition demo_call :: step_call where
  "demo_call = \<lparr>sc_tool = ''Agent'', sc_input_preview = [], sc_tool_summary = None, sc_tool_use_id = None, sc_result = None, sc_linked = None\<rparr>"

definition demo_turn :: "nat \<Rightarrow> assembledTurn" where
  "demo_turn i =
     \<lparr>turnNumber = i, userPrompt = Some ''hi'', steps = [\<lparr>st_thinking = None, st_text = None, st_calls = [demo_call]\<rparr>], apiCallsInTurn = 1,
      requestIDs = [int i], at_timestamp = None, at_timestampEnd = None, at_durationMs = None, at_model = Some []\<rparr>"

definition demo_conv :: "string \<Rightarrow> assembledConversation" where
  "demo_conv cid =
     \<lparr>conversationID = cid, ac_model = [], ac_containerName = [], provider = [], clientName = [], ac_requestIDs = [1, 2], startedAt = [], endedAt = [],
      turnCount = 2, systemPrompt = None, systemPromptSummary = None, parentConvID = None, lastTurnHasResponse = True, ac_metadata = [],
      linkedSubagents = [], incomplete = False, incompleteReason = None, turns = [demo_turn 1, demo_turn 2]\<rparr>"


section \<open>Tables\<close>

lemma conversation_tables_stay_consistent_witness:
  "conv_db_ok (as_db (demo_state [demo_row 1 ''u'' []])) \<and>
   (\<exists>s. RebuildAllConversations plain_env (\<lambda>_. Some (demo_result ''a'')) [] (demo_state [demo_row 1 ''u'' []]) = Ok s)"
proof -
  let ?d = "\<lambda>_ :: http_row. Some (demo_result ''a'')" and ?row = "demo_row 1 ''u'' []"
  have "asm_step plain_env ?d [] (demo_state []) ((demo_state [])\<lparr>as_db := (as_db (demo_state []))\<lparr>http_rows := http_rows (as_db (demo_state [])) @ [?row]\<rparr>\<rparr>)"
    by (rule asm_step.recorded) (simp add: demo_row_def)
  then have "(asm_step plain_env ?d [])\<^sup>*\<^sup>* (demo_state []) (demo_state [?row])"
    by (simp add: demo_state_def demo_db_def r_into_rtranclp)
  moreover have "conv_db_ok (as_db (demo_state []))" by (simp add: conv_db_ok_def conv_ids_def demo_state_def demo_db_def)
  ultimately show ?thesis using conversation_tables_stay_consistent [OF plain_env_ok] by blast
qed

lemma written_conversation_is_shown_witness:
  "GetConversation (upsertConversation (demo_db []) (demo_conv ''s'')) ''s'' =
     Some ((conversation_row (demo_conv ''s''))\<lparr>turns := map turn_row [demo_turn 1, demo_turn 2]\<rparr>)"
proof -
  have "turns_ok (demo_conv ''s'')" by (simp add: turns_ok_def demo_conv_def demo_turn_def upt_rec)
  from written_conversation_is_shown [OF this, of "demo_db []"] show ?thesis by (simp add: demo_conv_def)
qed

text \<open>Request 2 names its session; the frame of the response, 3, does not.\<close>

definition ws_rows :: "http_row list" where
  "ws_rows = [demo_row 2 ''wss://h/v1'' ''prompt_cache_key: a_b'', demo_row 3 ''wss://h/v1'' []]"

definition ws_dissect :: "http_row \<Rightarrow> ExtractionResult option" where
  "ws_dissect row = Some (demo_result (if hr_id row = 2 then ''a_b'' else []))"

lemma reload_is_complete_witness:
  "map txnID (loadTransactionsForSessions ws_dissect [''wss://%''] (demo_db ws_rows) [''a_b'']) = [2]"
proof -
  have "names_session ''a_b'' ''prompt_cache_key: a_b''"
    unfolding names_session_def by (rule exI [of _ "[]"], rule exI [of _ "'': ''"], rule exI [of _ "[]"]) simp
  then have "loadTransactionsForSessions ws_dissect [''wss://%''] (demo_db ws_rows) [''a_b''] =
      filter (\<lambda>e. te_sessionID e \<noteq> [] \<and> te_sessionID e \<in> set [''a_b'']) (dissected ws_dissect (sort_key hr_id (http_rows (demo_db ws_rows))))"
    by (intro reload_is_complete) (simp_all add: demo_defs ws_rows_def ws_dissect_def)
  then show ?thesis by (simp add: dissected_def map_filter_def demo_defs ws_rows_def ws_dissect_def)
qed

lemma ws_loaded:
  "loadNewTransactions ws_dissect (demo_db ws_rows) 1 =
     ([entry_of (ws_rows ! 0) (demo_result ''a_b''), (entry_of (ws_rows ! 1) (demo_result []))\<lparr>te_sessionID := ''a_b''\<rparr>], 3)"
  by (simp add: loadNewTransactions_def Let_def dissected_def map_filter_def assignWSResponseSessions_def is_wss_def HasPrefix_def demo_defs ws_rows_def ws_dissect_def)

lemma ws_cursor: "last_processed (demo_db rows) = 1"
  by (simp add: last_processed_def GetConversationProcessingState_def demo_db_def) code_simp

lemma incremental_run_loses_responses_witness:
  "\<exists>convs. processNewTransactions plain_env ws_dissect [] (demo_state ws_rows) =
      Ok (demo_state ws_rows\<lparr>as_db := set_cursor 3 (foldl upsertConversation (demo_db ws_rows) convs), as_published := map conversationID convs\<rparr>) \<and>
    3 \<notin> set (concat (map ac_requestIDs convs))"
proof -
  have db: "as_db (demo_state ws_rows) = demo_db ws_rows" "as_enabled (demo_state ws_rows)" "as_published (demo_state ws_rows) = []"
    by (simp_all add: demo_state_def)
  have rows: "http_rows (demo_db ws_rows) = ws_rows" "distinct (map hr_id ws_rows)" "ws_rows ! 1 \<in> set ws_rows" "hr_id (ws_rows ! 1) = 3"
    by (simp_all add: demo_db_def ws_rows_def demo_row_def)
  have "\<exists>convs. processNewTransactions plain_env ws_dissect [] (demo_state ws_rows) =
      Ok (demo_state ws_rows\<lparr>as_db := set_cursor 3 (foldl upsertConversation (as_db (demo_state ws_rows)) convs),
        as_published := as_published (demo_state ws_rows) @ map conversationID convs\<rparr>) \<and>
    (\<forall>c \<in> set convs. hr_id (ws_rows ! 1) \<notin> set (ac_requestIDs c)) \<and> hr_id (ws_rows ! 1) \<le> 3"
    by (rule incremental_run_loses_responses [OF plain_env_ok, where r = "demo_result []" and row = "ws_rows ! 1"
          and e = "(entry_of (ws_rows ! 1) (demo_result []))\<lparr>te_sessionID := ''a_b''\<rparr>"])
      (simp_all add: db ws_cursor rows ws_loaded, simp_all add: ws_dissect_def ws_rows_def demo_row_def demo_result_def entry_of_def)
  then show ?thesis unfolding db rows append_Nil by (elim exE) (rule exI, auto)
qed

end
