(* ===== verification/Spec2Isabelle.thy ===== *)
theory Spec2Isabelle
  imports Scenarios EdgeScenarios ConversationScenarios
begin

text \<open>
  Greyproxy is a deny-by-default network proxy for sandboxed programs. Every connection a container opens
  goes through a SOCKS5 or HTTP listener of an embedded gost proxy; the plugins of
  \<^verbatim>\<open>internal/greyproxy/plugins\<close> name the client and decide, from a database of rules, whether the
  connection passes. A connection that no rule decides is held while a person answers a pending request
  through the REST interface of \<^verbatim>\<open>internal/greyproxy/api\<close>. Sessions bring temporary rules and
  credentials, which are put in place of placeholders on the wire; middlewares may rewrite or refuse HTTP
  traffic; what is archived is redacted first.

  \<^bold>\<open>The language.\<close> \<open>GoBase\<close> has the result of a Go call (a value, an error, a run-time panic), bytes and big-endian
  integers; \<open>GoIO\<close> the readers, cut into arbitrary chunks, with the locale \<open>stream_codec\<close> that every wire format
  instantiates; \<open>GoStrings\<close>, \<open>GoGlob\<close>, \<open>GoNet\<close> and \<open>GoUrl\<close> the functions of \<^verbatim>\<open>strings\<close>, \<^verbatim>\<open>strconv\<close>,
  \<^verbatim>\<open>filepath.Match\<close>, \<^verbatim>\<open>net\<close> and \<^verbatim>\<open>net/url\<close> that the program calls.

  \<^bold>\<open>Rules and the database.\<close> \<open>Patterns\<close> is \<^verbatim>\<open>patterns.go\<close>. \<open>Store\<close>, \<open>Sessions\<close>, \<open>RuleEngine\<close>, \<open>Pendings\<close> and \<open>Database\<close>
  are \<^verbatim>\<open>crud.go\<close>, \<^verbatim>\<open>credential_crud.go\<close>, \<^verbatim>\<open>models.go\<close> and \<^verbatim>\<open>migrations.go\<close>: the tables are lists of rows in the record
  \<open>DB\<close>, an SQL statement is a filter, a map or an insertion that respects the unique index, and a timestamp is the text SQLite
  compares. The lemmas say what each pattern form matches, that the sorted search implements the decision by
  layer, specificity and deny-over-allow, what each operation does to the tables, and that every sequence of
  operations keeps them well formed. \<^verbatim>\<open>sort.Slice\<close> is any function that meets the locale \<open>slice_sort\<close>.

  \<^bold>\<open>Decisions.\<close> \<open>Events\<close> is the event bus and the waiter counts (\<^verbatim>\<open>events.go\<close>, \<^verbatim>\<open>waiters.go\<close>), \<open>SilentMode\<close> is \<^verbatim>\<open>allowall.go\<close> with its
  timers as a step relation, \<open>Connections\<close> is \<^verbatim>\<open>conn_tracker.go\<close> and \<^verbatim>\<open>dns_cache.go\<close>, and \<open>BypassPlugin\<close> is the
  authenticator, the admission and the bypass of \<^verbatim>\<open>plugins\<close>, over the record \<open>World\<close> of all they share. The
  lemmas say that nothing passes without a reason, that the verdict is the decision of the rules, that what
  is undecided is recorded, held and blocked, and that the bypass always answers.

  \<^bold>\<open>Control.\<close> \<open>Credentials\<close> is \<^verbatim>\<open>credential_crypto.go\<close> and \<^verbatim>\<open>credential_store.go\<close>; \<open>Api\<close> has the REST handlers and the
  router, \<open>ControlPlane\<close> their invariant under every request, tick and write. \<open>Redaction\<close> is \<^verbatim>\<open>redact.go\<close>,
  \<open>Middleware\<close> is \<^verbatim>\<open>internal/greyproxy/middleware\<close> and the two cascades of \<^verbatim>\<open>cmd/greyproxy/program.go\<close>.

  \<^bold>\<open>Wire formats.\<close> \<open>Socks5\<close> is \<^verbatim>\<open>internal/gosocks5/socks5.go\<close> and \<open>Tls\<close> is \<^verbatim>\<open>internal/tlsdissector\<close>: round trips over every chunking,
  and exactly which bytes make a decoder panic. \<open>Socks5Conn\<close> is the handshake on top of them: \<^verbatim>\<open>conn.go\<close>, \<^verbatim>\<open>selector.go\<close> and the server of
  \<^verbatim>\<open>gosocks5\<close>, and the selectors and the handler of gost (\<^verbatim>\<open>handler/socks/v5\<close>, \<^verbatim>\<open>connector/socks/v5\<close>). A request is acted on only after
  credentials were accepted, an honest client always gets through, and the user name it sent is the container
  the bypass decides for.

  \<^bold>\<open>The edge of the proxy.\<close> \<open>WsFrame\<close> is the WebSocket frame codec (\<^verbatim>\<open>internal/gostx/internal/util/ws/frame.go\<close>) and the two relays of intercepted
  frames in \<^verbatim>\<open>sniffer.go\<close> and \<^verbatim>\<open>handler/http/handler.go\<close>, both instances of the locale \<open>frame_relay\<close>: what is relayed is what was
  sent, and the loop ends. \<open>EndpointRegistry\<close> is \<^verbatim>\<open>endpoint_registry.go\<close> with its REST handlers and the registry of dissectors: the glob
  matcher is exact, the cache equals the table, and routing agrees with the patterns the archive is read with.
  \<open>Resolver\<close> is \<^verbatim>\<open>plugins/resolver.go\<close> and \<^verbatim>\<open>plugins/dns_cache_handler.go\<close>: how long an answer is served and which name an address
  resolves back to. \<open>Settings\<close> is \<^verbatim>\<open>settings.go\<close> and its update handler, as a step relation. \<open>AccessLists\<close> is the static access
  control of gost (\<^verbatim>\<open>internal/net/addr.go\<close>, \<^verbatim>\<open>internal/matcher\<close>, \<^verbatim>\<open>bypass\<close>, \<^verbatim>\<open>admission\<close>, \<^verbatim>\<open>hosts\<close>): a list
  decides as its patterns do one by one. \<open>ConnLimiter\<close> is \<^verbatim>\<open>limiter/conn\<close> with its wrappers: limiters are objects in a store, every
  connection is a task that makes one atomic addition at a time, and the limits hold for every interleaving as
  long as no connection is closed twice.

  \<^bold>\<open>Conversations.\<close> From the archive of LLM requests greyproxy assembles conversations. \<open>Clients\<close> has what the dissectors extract and the
  adapters of the known programs (\<^verbatim>\<open>client_*.go\<close>, \<^verbatim>\<open>scaffolding.go\<close>, \<^verbatim>\<open>session_strategy.go\<close>, \<^verbatim>\<open>subagent_strategy.go\<close>); \<open>Grouping\<close>,
  \<open>Assembly\<close> and \<open>ConversationStore\<close> are \<^verbatim>\<open>conversation_assembler.go\<close> and \<^verbatim>\<open>conversation_crud.go\<close>, in the order grouping by session and thread, turns and
  links of one conversation, and the run over the database with its cursor. The locale \<open>assembler_env\<close> has
  what they rely on: that sorting and visiting a map permute. The lemmas say that grouping neither loses nor duplicates a
  transaction, that turns follow the messages and are numbered without gaps, that text is cut between
  characters, that every run finishes and keeps the tables consistent, and that a second run has nothing to do; and two
  ways in which a run does not do what it means to: an incremental run leaves out the responses of
  WebSocket sessions, and a rebuild assembles transactions without a session twice.

  \<open>Scenarios\<close>, \<open>EdgeScenarios\<close> and \<open>ConversationScenarios\<close> apply the theorems to small concrete inputs, and this theory holds the statements that span components:
  that no credential outlives its session and that a decision reaches the connection that waits for it.

  \<^bold>\<open>Parameters.\<close> Clocks, the random source, the authenticated cipher, JSON, regular expressions, \<^verbatim>\<open>sort.Slice\<close>,
  \<^verbatim>\<open>time.Parse\<close>, SHA-256, name lookups, the Docker socket, what a middleware answers and what a dissector extracts from a request are arguments. Where a theorem relies on
  them, its hypotheses say what (\<open>clock_ok\<close>, \<open>aead_ok\<close>, \<open>slice_sort\<close>, \<open>json_ok\<close>, \<open>trie_ok\<close>, \<open>assembler_env\<close>). A loop over a Go map takes the order of the visit as an argument.
  No loop needs fuel: every recursion is structural or has a termination proof, except the relay of frames, which is a
  \<^verbatim>\<open>partial_function\<close> whose result is proved to exist.

  \<^bold>\<open>Not modelled.\<close> The extraction of messages from provider JSON, the listing of conversations, the HTTP transaction archive and the dashboard
  statistics, which are for display; HTTP and TLS interception in the sniffer and the handlers, listeners, chains and
  dialers of gost, which are network I/O around the decisions above; the traffic and rate limiters, which are token
  buckets of a library; the middleware transports, the web pages, notifications, certificates, the
  command line and the installation of the service.
\<close>

section \<open>Credentials and sessions\<close>



section \<open>Decisions and held connections\<close>

text \<open>The event is the newest one of every subscriber that had room for it.\<close>

definition delivered :: "Event \<Rightarrow> EventBus \<Rightarrow> EventBus \<Rightarrow> bool" where
  "delivered evt eb eb' \<longleftrightarrow>
     (\<forall>ch c. ch \<in> set (subscribers eb) \<longrightarrow> Mapping.lookup (heap eb) ch = Some c \<longrightarrow> length (ch_buf c) < ch_cap c \<longrightarrow>
        Mapping.lookup (heap eb') ch = Some (c\<lparr>ch_buf := ch_buf c @ [evt]\<rparr>))"

lemma Publish_delivered:
  assumes "bus_ok eb"
  shows "\<exists>eb'. Publish evt eb = Ok eb' \<and> delivered evt eb eb'"
proof (rule Publish_spec [OF assms, of evt])
  fix h'
  assume "Publish evt eb = Ok (eb\<lparr>heap := h'\<rparr>)"
    and "\<And>ch. Mapping.lookup h' ch =
       (if ch \<in> set (subscribers eb)
        then map_option (\<lambda>c. if length (ch_buf c) < ch_cap c then c\<lparr>ch_buf := ch_buf c @ [evt]\<rparr> else c)
               (Mapping.lookup (heap eb) ch)
        else Mapping.lookup (heap eb) ch)"
  then show ?thesis by (auto simp: delivered_def)
qed

definition resolved_of :: "PendingRequest \<Rightarrow> string" where
  "resolved_of p = (case pend_resolved p of None \<Rightarrow> [] | Some h \<Rightarrow> h)"

text \<open>A decision through the REST interface, for the connection that waits for it.\<close>

lemma decision_is_found:
  assumes "shared_ok s" "clock_ok ck" "slice_sort srt" "act \<in> {''allow'', ''deny''}"
    and "parse_id param = Some i" "GetPending (s_db s) i = Some p"
    and "FindMatchingRule srt (sql_now ck) (s_db s) (pend_container p) (pend_host p) (pend_port p) (resolved_of p) = None"
    and "glob_literal (pend_container p)" "plain_host (pending_host p)" "0 \<le> pend_port p" "pend_port p \<le> maxInt"
    and "ar_Scope req \<noteq> ''subdomain_wildcard''"
    and "\<forall>r \<in> set (rules (s_db s)). SessionID r \<noteq> None \<longrightarrow>
       rule_key r \<noteq> (case buildPatterns p (or_default (ar_Scope req) ''exact'') of (cp, dp, pp) \<Rightarrow> (cp, dp, pp, act))"
  obtains s' r where "decide_pending (resolve_pending act ck) evt s param (Inr req) = reply_with s' 200 (JDecided r)"
    "Action r = act" "\<forall>q \<in> set (pendings (s_db s')). pend_id q \<noteq> i"
    "FindMatchingRule srt (sql_now ck) (s_db s') (pend_container p) (pend_host p) (pend_port p) (resolved_of p) = Some r"
    "delivered \<lparr>ev_type = evt, ev_data = DecidedData i r\<rparr> (s_bus s) (s_bus s')"
proof -
  let ?scope = "or_default (ar_Scope req) ''exact''" and ?dur = "or_default (ar_Duration req) ''permanent''"
  let ?now = "sql_now ck" and ?rh = "resolved_of p"
  note ok = shared_okD [OF assms(1)]
  have "?scope \<noteq> ''subdomain_wildcard''" using assms(12) by (simp add: or_default_def)
  then obtain db' r where r: "resolve_pending act ck (s_db s) i ?scope ?dur (ar_Notes req) = (db', Ok (Some r))" "Action r = act"
      "r \<in> set (rules db')" "live ?now r" "SessionID r = None"
      "MatchesRule (pend_container p) (pending_host p) (pend_port p) (ContainerPattern r) (DestinationPattern r) (PortPattern r)"
      "sessions db' = sessions (s_db s)" "set (rules db') \<subseteq> insert r (set (rules (s_db s)))" "\<forall>q \<in> set (pendings db'). pend_id q \<noteq> i"
    using resolve_pending_decides [OF ok(5) assms(2,6,4) _ assms(8-11,13)] by blast
  have none: "matching_rules ?now (s_db s) (pend_container p) (pend_host p) (pend_port p) ?rh = {}"
    using assms(7) by (simp add: FindMatchingRule_None)
  have "r \<in> matching_rules ?now db' (pend_container p) (pend_host p) (pend_port p) ?rh"
    using matching_rules_global [OF r(3-6)]
    by (cases "?rh = []") (simp_all add: pending_host_def resolved_of_def split: option.splits)
  moreover have "x = r" if "x \<in> matching_rules ?now db' (pend_container p) (pend_host p) (pend_port p) ?rh" for x
  proof -
    have "applicable ?now db' (pend_container p) x = applicable ?now (s_db s) (pend_container p) x"
      unfolding applicable_def current_session_def r(7) ..
    then show ?thesis using that none r(8) by (auto simp: matching_rules_def)
  qed
  ultimately have "FindMatchingRule srt ?now db' (pend_container p) (pend_host p) (pend_port p) ?rh = Some r"
    using FindMatchingRule_Some(1) [OF assms(3)] FindMatchingRule_None by (metis empty_iff not_None_eq)
  moreover obtain eb where "Publish \<lparr>ev_type = evt, ev_data = DecidedData i r\<rparr> (s_bus s) = Ok eb"
      "delivered \<lparr>ev_type = evt, ev_data = DecidedData i r\<rparr> (s_bus s) eb"
    using Publish_delivered [OF ok(2)] by blast
  ultimately show ?thesis
    using r(1,2,9) assms(5) by (intro that [of "s\<lparr>s_db := db', s_bus := eb\<rparr>" r]) (simp_all add: decide_pending_def publish_then_def)
qed

text \<open>
  C3. A decision reaches the connection that waits for it. A held connection, for which no rule matches, is a
  row of the pending table. When the operator allows that request through the REST interface, with any scope
  but the subdomain one, for a container name and host that are not patterns themselves and unless a session
  rule already has those patterns, the handler answers 200 with an allow rule, every subscriber of the bus
  with room receives the event the connection waits for, and on receiving it the connection finds that rule
  and is let through. Refusing the request goes the same way, and the connection is blocked.
\<close>

theorem decision_reaches_held_connection:
  assumes "shared_ok s" "clock_ok (a_clock e)" "slice_sort srt"
    and "parse_id param = Some i" "GetPending (s_db s) i = Some p"
    and "FindMatchingRule srt (sql_now (a_clock e)) (s_db s) (pend_container p) (pend_host p) (pend_port p) (resolved_of p) = None"
    and "glob_literal (pend_container p)" "plain_host (pending_host p)" "0 \<le> pend_port p" "pend_port p \<le> maxInt"
    and "ar_Scope req \<noteq> ''subdomain_wildcard''"
    and "\<And>act. act \<in> {''allow'', ''deny''} \<Longrightarrow> \<forall>r \<in> set (rules (s_db s)). SessionID r \<noteq> None \<longrightarrow>
       rule_key r \<noteq> (case buildPatterns p (or_default (ar_Scope req) ''exact'') of (cp, dp, pp) \<Rightarrow> (cp, dp, pp, act))"
  shows "(\<exists>s' r. PendingAllowHandler e s param (Inr req) = reply_with s' 200 (JDecided r) \<and> Action r = ''allow'' \<and>
      delivered \<lparr>ev_type = EventPendingAllowed, ev_data = DecidedData i r\<rparr> (s_bus s) (s_bus s') \<and>
      waitForApproval srt (pend_container p) (pend_host p) (pend_port p) (resolved_of p)
        (BusEvent EventPendingAllowed (sql_now (a_clock e)) (s_db s') # later) = Some r) \<and>
    (\<exists>s' r. PendingDenyHandler e s param (Inr req) = reply_with s' 200 (JDecided r) \<and> Action r = ''deny'' \<and>
      delivered \<lparr>ev_type = EventPendingDismissed, ev_data = DecidedData i r\<rparr> (s_bus s) (s_bus s') \<and>
      waitForApproval srt (pend_container p) (pend_host p) (pend_port p) (resolved_of p)
        (BusEvent EventPendingDismissed (sql_now (a_clock e)) (s_db s') # later) = None)"
proof -
  note found = decision_is_found [OF assms(1-3) _ assms(4-11) assms(12)]
  have ne: "EventPendingDismissed \<noteq> EventPendingAllowed" by (simp add: EventPendingDismissed_def EventPendingAllowed_def)
  obtain s1 r1 where a: "PendingAllowHandler e s param (Inr req) = reply_with s1 200 (JDecided r1)" "Action r1 = ''allow''"
      "FindMatchingRule srt (sql_now (a_clock e)) (s_db s1) (pend_container p) (pend_host p) (pend_port p) (resolved_of p) = Some r1"
      "delivered \<lparr>ev_type = EventPendingAllowed, ev_data = DecidedData i r1\<rparr> (s_bus s) (s_bus s1)"
    unfolding PendingAllowHandler_def AllowPending_def by (rule found [of "''allow''" EventPendingAllowed]) simp_all
  obtain s2 r2 where d: "PendingDenyHandler e s param (Inr req) = reply_with s2 200 (JDecided r2)" "Action r2 = ''deny''"
      "FindMatchingRule srt (sql_now (a_clock e)) (s_db s2) (pend_container p) (pend_host p) (pend_port p) (resolved_of p) = Some r2"
      "delivered \<lparr>ev_type = EventPendingDismissed, ev_data = DecidedData i r2\<rparr> (s_bus s) (s_bus s2)"
    unfolding PendingDenyHandler_def DenyPending_def by (rule found [of "''deny''" EventPendingDismissed]) simp_all
  have "waitForApproval srt (pend_container p) (pend_host p) (pend_port p) (resolved_of p)
      (BusEvent EventPendingAllowed (sql_now (a_clock e)) (s_db s1) # later) = Some r1" using a(2,3) by simp
  moreover have "waitForApproval srt (pend_container p) (pend_host p) (pend_port p) (resolved_of p)
      (BusEvent EventPendingDismissed (sql_now (a_clock e)) (s_db s2) # later) = None" using d(2,3) ne by simp
  ultimately show ?thesis using a(1,2,4) d(1,2,4) by blast
qed

theorem decision_reaches_held_connection_witness:
  "\<exists>s' r. PendingAllowHandler ex_env ex_shared ''1'' (Inr \<lparr>ar_Scope = ''exact'', ar_Duration = [], ar_Notes = None\<rparr>) =
       reply_with s' 200 (JDecided r) \<and> Action r = ''allow'' \<and>
     waitForApproval insertion_sort ''web'' ''db.example.com'' 5432 []
       [BusEvent EventPendingAllowed ''2026-01-01 12:00:00'' (s_db s')] = Some r"
proof -
  let ?req = "\<lparr>ar_Scope = ''exact'', ar_Duration = [], ar_Notes = None\<rparr>"
  have g: "parse_id ''1'' = Some 1" "GetPending (s_db ex_shared) 1 = Some ex_pending" by (code_simp, code_simp)
  have n: "FindMatchingRule insertion_sort (sql_now (a_clock ex_env)) (s_db ex_shared) (pend_container ex_pending)
      (pend_host ex_pending) (pend_port ex_pending) (resolved_of ex_pending) = None" by code_simp
  have p: "glob_literal (pend_container ex_pending)" "plain_host (pending_host ex_pending)" by (code_simp, code_simp)
  have q: "0 \<le> pend_port ex_pending" "pend_port ex_pending \<le> maxInt" "ar_Scope ?req \<noteq> ''subdomain_wildcard''"
    by (simp_all add: ex_pending_def maxInt_def)
  have k: "\<forall>r \<in> set (rules (s_db ex_shared)). SessionID r \<noteq> None \<longrightarrow>
       rule_key r \<noteq> (case buildPatterns ex_pending (or_default (ar_Scope ?req) ''exact'') of (cp, dp, pp) \<Rightarrow> (cp, dp, pp, act))" for act
    by (simp add: ex_patterns or_default_def ex_shared_def ex_db_def ex_global_def ex_session_rule_def rule_key_def)
  have "clock_ok (a_clock ex_env)" using ex_clock_ok by (simp add: ex_env_def)
  from decision_reaches_held_connection [OF ex_shared_ok this go_sort.slice_sort_axioms g n p q k, of "[]"]
  show ?thesis by (auto simp: ex_env_def ex_clock_def ex_pending_def resolved_of_def)
qed

end
